(* ===== verification/Prelude.thy ===== *)
theory Prelude
  imports Main "HOL-Library.Char_ord" "HOL-Library.List_Lexorder" "HOL-Library.Sublist"
    "HOL-Library.Code_Target_Numeral"
begin

section \<open>Shared library: Go strings, errors and lists\<close>

text \<open>
  The generic part of the development. A Go \<open>string\<close> is a sequence of bytes and HOL's
  \<^typ>\<open>char\<close> is an 8-bit value, so a Go string is a \<^typ>\<open>string\<close> and indexing, slicing and
  \<open>len\<close> agree. This theory models the functions of the packages \<open>strings\<close>, \<open>slices\<close> and
  \<open>strconv\<close> that the components use, the error values of Kubernetes field validation, and
  holds the list lemmas that several components share.
  The collections: \<open>go_string\<close> gathers definitions of string functions for unfolding and
  \<open>outcome\<close> gathers case-splitting facts on results.
\<close>

named_theorems go_string
named_theorems outcome

text \<open>Fallible code returns an error on the left or a value on the right.\<close>

type_synonym ('e, 'a) result = "'e + 'a"

abbreviation Err :: "'e \<Rightarrow> ('e, 'a) result" where
  "Err \<equiv> Inl"

abbreviation Ok :: "'a \<Rightarrow> ('e, 'a) result" where
  "Ok \<equiv> Inr"

fun is_ok :: "('e, 'a) result \<Rightarrow> bool" where
  "is_ok (Inl e) = False"
| "is_ok (Inr a) = True"

lemma is_ok_iff [outcome]: "is_ok r \<longleftrightarrow> (\<exists>a. r = Inr a)"
  by (cases r) auto

lemma case_ok_iff [outcome]:
  "(case r of Inl e \<Rightarrow> False | Inr a \<Rightarrow> P a) \<longleftrightarrow> (\<exists>a. r = Inr a \<and> P a)"
  by (cases r) auto

subsection \<open>Bytes\<close>

abbreviation byte :: "char \<Rightarrow> nat" where
  "byte c \<equiv> of_char c"

definition in_range :: "nat \<Rightarrow> nat \<Rightarrow> char \<Rightarrow> bool" where
  "in_range lo hi c \<longleftrightarrow> lo \<le> byte c \<and> byte c \<le> hi"

abbreviation is_digit :: "char \<Rightarrow> bool" where
  "is_digit \<equiv> in_range 48 57"

abbreviation is_upper :: "char \<Rightarrow> bool" where
  "is_upper \<equiv> in_range 65 90"

abbreviation is_lower :: "char \<Rightarrow> bool" where
  "is_lower \<equiv> in_range 97 122"

abbreviation is_ascii :: "char \<Rightarrow> bool" where
  "is_ascii c \<equiv> byte c < 128"

definition ascii_lower :: "char \<Rightarrow> char" where
  "ascii_lower c = (if is_upper c then char_of (byte c + 32) else c)"

lemma ascii_lower_idem [simp]: "ascii_lower (ascii_lower c) = ascii_lower c"
  by (auto simp: ascii_lower_def in_range_def)

lemma ascii_lower_id: "\<not> is_upper c \<Longrightarrow> ascii_lower c = c"
  by (simp add: ascii_lower_def)

subsection \<open>Prefixes, suffixes and searching\<close>

definition HasPrefix :: "string \<Rightarrow> string \<Rightarrow> bool" where
  "HasPrefix s p \<longleftrightarrow> take (length p) s = p"

definition HasSuffix :: "string \<Rightarrow> string \<Rightarrow> bool" where
  "HasSuffix s p \<longleftrightarrow> length p \<le> length s \<and> drop (length s - length p) s = p"

lemma HasPrefix_iff: "HasPrefix s p \<longleftrightarrow> (\<exists>t. s = p @ t)"
  unfolding HasPrefix_def by (metis append_eq_conv_conj append_take_drop_id)

lemma HasSuffix_iff: "HasSuffix s p \<longleftrightarrow> (\<exists>t. s = t @ p)"
proof
  assume "HasSuffix s p"
  then have "s = take (length s - length p) s @ p"
    unfolding HasSuffix_def by (metis append_take_drop_id)
  then show "\<exists>t. s = t @ p" ..
next
  assume "\<exists>t. s = t @ p"
  then show "HasSuffix s p" by (auto simp: HasSuffix_def)
qed

lemma HasPrefix_append [simp]: "HasPrefix (p @ t) p"
  by (simp add: HasPrefix_def)

lemma HasSuffix_append [simp]: "HasSuffix (t @ p) p"
  by (simp add: HasSuffix_def)

definition CutPrefix :: "string \<Rightarrow> string \<Rightarrow> string option" where
  "CutPrefix s p = (if HasPrefix s p then Some (drop (length p) s) else None)"

definition CutSuffix :: "string \<Rightarrow> string \<Rightarrow> string option" where
  "CutSuffix s p = (if HasSuffix s p then Some (take (length s - length p) s) else None)"

definition TrimPrefix :: "string \<Rightarrow> string \<Rightarrow> string" where
  "TrimPrefix s p = (if HasPrefix s p then drop (length p) s else s)"

definition TrimSuffix :: "string \<Rightarrow> string \<Rightarrow> string" where
  "TrimSuffix s p = (if HasSuffix s p then take (length s - length p) s else s)"

lemma CutPrefix_Some: "CutPrefix s p = Some t \<longleftrightarrow> s = p @ t"
  by (auto simp: CutPrefix_def HasPrefix_iff)

lemma CutSuffix_Some: "CutSuffix s p = Some t \<longleftrightarrow> s = t @ p"
  by (auto simp: CutSuffix_def HasSuffix_iff)

lemma TrimSuffix_append [simp]: "TrimSuffix (t @ p) p = t"
  by (simp add: TrimSuffix_def)

text \<open>\<open>strings.Index\<close>: the first position of \<open>sub\<close>, \<open>None\<close> where Go returns -1.\<close>

fun str_index :: "string \<Rightarrow> string \<Rightarrow> nat option" where
  "str_index sub [] = (if sub = [] then Some 0 else None)"
| "str_index sub (c # cs) =
     (if HasPrefix (c # cs) sub then Some 0 else map_option Suc (str_index sub cs))"

definition Contains :: "string \<Rightarrow> string \<Rightarrow> bool" where
  "Contains s sub \<longleftrightarrow> str_index sub s \<noteq> None"

lemma str_index_Some_prefix: "str_index sub s = Some i \<Longrightarrow> HasPrefix (drop i s) sub \<and> i \<le> length s"
proof (induction s arbitrary: i)
  case Nil
  then show ?case by (auto simp: HasPrefix_def split: if_splits)
next
  case (Cons c cs)
  then show ?case by (cases i) (auto split: if_splits)
qed

lemma str_index_split:
  assumes "str_index sub s = Some i"
  shows "s = take i s @ sub @ drop (i + length sub) s"
proof -
  from str_index_Some_prefix [OF assms] obtain t where "drop i s = sub @ t"
    by (auto simp: HasPrefix_iff)
  then have "s = take i s @ sub @ t" by (metis append_take_drop_id)
  moreover have "drop (i + length sub) s = t"
    using \<open>drop i s = sub @ t\<close> by (metis add.commute append_eq_conv_conj drop_drop)
  ultimately show ?thesis by simp
qed

lemma str_index_bound:
  assumes "str_index sub s = Some i"
  shows "i + length sub \<le> length s"
proof -
  from str_index_Some_prefix [OF assms] obtain t where "drop i s = sub @ t" and "i \<le> length s"
    by (auto simp: HasPrefix_iff)
  then have "length s - i = length sub + length t" by (metis length_append length_drop)
  with \<open>i \<le> length s\<close> show ?thesis by simp
qed

lemma str_index_None_iff: "str_index sub s = None \<longleftrightarrow> (\<nexists>a b. s = a @ sub @ b)"
proof (induction s)
  case Nil
  then show ?case by simp
next
  case (Cons c cs)
  show ?case
  proof (cases "HasPrefix (c # cs) sub")
    case True
    then have "\<exists>b. c # cs = [] @ sub @ b" by (simp add: HasPrefix_iff)
    then have "\<exists>a b. c # cs = a @ sub @ b" by blast
    with True show ?thesis by simp
  next
    case False
    have "(\<exists>a b. c # cs = a @ sub @ b) \<longleftrightarrow> (\<exists>a b. cs = a @ sub @ b)"
    proof
      assume "\<exists>a b. c # cs = a @ sub @ b"
      then obtain a b where ab: "c # cs = a @ sub @ b" by blast
      with False have "a \<noteq> []" by (auto simp: HasPrefix_iff)
      with ab obtain a' where "cs = a' @ sub @ b" by (cases a) auto
      then show "\<exists>a b. cs = a @ sub @ b" by blast
    next
      assume "\<exists>a b. cs = a @ sub @ b"
      then obtain a b where "cs = a @ sub @ b" by blast
      then have "c # cs = (c # a) @ sub @ b" by simp
      then show "\<exists>a b. c # cs = a @ sub @ b" by blast
    qed
    with False Cons show ?thesis by simp
  qed
qed

lemma str_index_least: "str_index sub s = Some i \<Longrightarrow> s = x @ sub @ y \<Longrightarrow> i \<le> length x"
proof (induction s arbitrary: i x)
  case Nil
  then show ?case by (auto split: if_splits)
next
  case (Cons c cs)
  show ?case
  proof (cases "HasPrefix (c # cs) sub")
    case True
    with Cons.prems(1) show ?thesis by simp
  next
    case False
    with Cons.prems(2) have "x \<noteq> []" by (auto simp: HasPrefix_iff)
    with False Cons show ?thesis by (cases x) auto
  qed
qed

lemma Contains_iff: "Contains s sub \<longleftrightarrow> (\<exists>a b. s = a @ sub @ b)"
  using str_index_None_iff [of sub s] by (simp add: Contains_def)

lemma Contains_single [simp]: "Contains s [c] \<longleftrightarrow> c \<in> set s"
  by (auto simp: Contains_iff in_set_conv_decomp)

text \<open>\<open>strings.Cut\<close> around the first separator: before, after, found.\<close>

definition Cut :: "string \<Rightarrow> string \<Rightarrow> string \<times> string \<times> bool" where
  "Cut s sep = (case str_index sep s of
      None \<Rightarrow> (s, [], False)
    | Some i \<Rightarrow> (take i s, drop (i + length sep) s, True))"

text \<open>\<open>strings.Split\<close> for a one-byte separator.\<close>

fun Split :: "char \<Rightarrow> string \<Rightarrow> string list" where
  "Split sep [] = [[]]"
| "Split sep (c # cs) =
     (if c = sep then [] # Split sep cs
      else case Split sep cs of [] \<Rightarrow> [[c]] | p # ps \<Rightarrow> (c # p) # ps)"

fun Join :: "string \<Rightarrow> string list \<Rightarrow> string" where
  "Join sep [] = []"
| "Join sep [s] = s"
| "Join sep (s # t # ts) = s @ sep @ Join sep (t # ts)"

lemma Split_not_Nil [simp]: "Split sep s \<noteq> []"
  by (induction s) (auto split: list.splits)

lemma Split_parts: "p \<in> set (Split sep s) \<Longrightarrow> sep \<notin> set p"
proof (induction s arbitrary: p)
  case Nil
  then show ?case by simp
next
  case (Cons c cs)
  then show ?case by (cases "Split sep cs") (auto split: if_splits)
qed

lemma Join_Split: "Join [sep] (Split sep s) = s"
proof (induction s)
  case Nil
  then show ?case by simp
next
  case (Cons c cs)
  obtain p ps where ps: "Split sep cs = p # ps" by (cases "Split sep cs") auto
  with Cons show ?case by (cases ps) auto
qed

text \<open>\<open>strings.ContainsAny\<close> and \<open>strings.Trim\<close> with an ASCII cut set.\<close>

definition ContainsAny :: "string \<Rightarrow> string \<Rightarrow> bool" where
  "ContainsAny s chars \<longleftrightarrow> list_ex (\<lambda>c. c \<in> set chars) s"

definition Trim :: "string \<Rightarrow> string \<Rightarrow> string" where
  "Trim s cutset = rev (dropWhile (\<lambda>c. c \<in> set cutset) (rev (dropWhile (\<lambda>c. c \<in> set cutset) s)))"

lemma ContainsAny_iff [simp]: "ContainsAny s chars \<longleftrightarrow> (\<exists>c\<in>set s. c \<in> set chars)"
  by (auto simp: ContainsAny_def list_ex_iff)

subsection \<open>White space\<close>

text \<open>
  \<open>strings.TrimSpace\<close> removes the code points of \<open>unicode.IsSpace\<close> at both ends. These are
  their UTF-8 encodings: the six ASCII ones, U+0085, U+00A0, U+1680, U+2000 to U+200A,
  U+2028, U+2029, U+202F, U+205F and U+3000.
\<close>

definition space_runes :: "string list" where
  "space_runes =
     [[char_of (32::nat)], [char_of (9::nat)], [char_of (10::nat)], [char_of (11::nat)],
      [char_of (12::nat)], [char_of (13::nat)],
      map char_of [194::nat, 133], map char_of [194::nat, 160],
      map char_of [225::nat, 154, 128]]
     @ map (\<lambda>b. map char_of [226::nat, 128, b]) [128..<139]
     @ [map char_of [226::nat, 128, 168], map char_of [226::nat, 128, 169],
        map char_of [226::nat, 128, 175], map char_of [226::nat, 129, 159],
        map char_of [227::nat, 128, 128]]"

definition leading_space :: "string \<Rightarrow> string option" where
  "leading_space s = find (HasPrefix s) space_runes"

definition trailing_space :: "string \<Rightarrow> string option" where
  "trailing_space s = find (HasSuffix s) space_runes"

lemma space_runes_nonempty: "r \<in> set space_runes \<Longrightarrow> r \<noteq> []"
  by (auto simp: space_runes_def)

lemma leading_space_nonempty: "leading_space s = Some r \<Longrightarrow> r \<noteq> [] \<and> s \<noteq> []"
  unfolding leading_space_def
  by (metis HasPrefix_def find_Some_iff nth_mem space_runes_nonempty take_Nil)

lemma trailing_space_nonempty: "trailing_space s = Some r \<Longrightarrow> r \<noteq> [] \<and> s \<noteq> []"
  unfolding trailing_space_def
  by (metis HasSuffix_def find_Some_iff nth_mem space_runes_nonempty le_zero_eq length_0_conv)

function TrimLeftSpace :: "string \<Rightarrow> string" where
  "TrimLeftSpace s = (case leading_space s of None \<Rightarrow> s | Some r \<Rightarrow> TrimLeftSpace (drop (length r) s))"
  by pat_completeness auto
termination
  by (relation "measure length") (auto dest!: leading_space_nonempty)

function TrimRightSpace :: "string \<Rightarrow> string" where
  "TrimRightSpace s =
     (case trailing_space s of None \<Rightarrow> s | Some r \<Rightarrow> TrimRightSpace (take (length s - length r) s))"
  by pat_completeness auto
termination
  by (relation "measure length") (auto dest!: trailing_space_nonempty)

declare TrimLeftSpace.simps [simp del] TrimRightSpace.simps [simp del]

definition TrimSpace :: "string \<Rightarrow> string" where
  "TrimSpace s = TrimRightSpace (TrimLeftSpace s)"

lemma TrimLeftSpace_suffix: "\<exists>a. s = a @ TrimLeftSpace s"
proof (induction s rule: TrimLeftSpace.induct)
  case (1 s)
  show ?case
  proof (cases "leading_space s")
    case None
    then show ?thesis by (simp add: TrimLeftSpace.simps [of s])
  next
    case (Some r)
    with 1 obtain a where "drop (length r) s = a @ TrimLeftSpace (drop (length r) s)" by blast
    then have "s = (take (length r) s @ a) @ TrimLeftSpace (drop (length r) s)"
      by (metis append_assoc append_take_drop_id)
    with Some show ?thesis by (metis TrimLeftSpace.simps option.simps(5))
  qed
qed

lemma TrimRightSpace_prefix: "\<exists>b. s = TrimRightSpace s @ b"
proof (induction s rule: TrimRightSpace.induct)
  case (1 s)
  show ?case
  proof (cases "trailing_space s")
    case None
    then show ?thesis by (simp add: TrimRightSpace.simps [of s])
  next
    case (Some r)
    let ?t = "take (length s - length r) s"
    from Some 1 obtain b where "?t = TrimRightSpace ?t @ b" by blast
    then have "s = TrimRightSpace ?t @ b @ drop (length s - length r) s"
      by (metis append_assoc append_take_drop_id)
    with Some show ?thesis by (metis TrimRightSpace.simps option.simps(5))
  qed
qed

lemma TrimSpace_sub: "\<exists>a b. s = a @ TrimSpace s @ b"
proof -
  obtain a where "s = a @ TrimLeftSpace s" using TrimLeftSpace_suffix by blast
  moreover obtain b where "TrimLeftSpace s = TrimSpace s @ b"
    unfolding TrimSpace_def using TrimRightSpace_prefix by blast
  ultimately show ?thesis by metis
qed

lemma set_TrimSpace: "set (TrimSpace s) \<subseteq> set s"
  using TrimSpace_sub [of s] by (metis Un_iff set_append subsetI)

lemma length_TrimSpace: "length (TrimSpace s) \<le> length s"
  using TrimSpace_sub [of s] by (metis le_add1 le_add2 le_trans length_append)

lemma TrimSpace_Nil [simp]: "TrimSpace [] = []"
  using length_TrimSpace [of "[]"] by simp

lemma TrimLeftSpace_done: "leading_space (TrimLeftSpace s) = None"
  by (induction s rule: TrimLeftSpace.induct) (subst TrimLeftSpace.simps, auto split: option.splits)

lemma TrimRightSpace_done: "trailing_space (TrimRightSpace s) = None"
  by (induction s rule: TrimRightSpace.induct) (subst TrimRightSpace.simps, auto split: option.splits)

lemma leading_space_prefix: "leading_space (a @ b) = None \<Longrightarrow> leading_space a = None"
  by (auto simp: leading_space_def find_None_iff HasPrefix_iff)

lemma TrimSpace_idem [simp]: "TrimSpace (TrimSpace s) = TrimSpace s"
proof -
  obtain b where "TrimLeftSpace s = TrimSpace s @ b"
    unfolding TrimSpace_def using TrimRightSpace_prefix by blast
  then have "leading_space (TrimSpace s) = None"
    using TrimLeftSpace_done [of s] leading_space_prefix by metis
  then have "TrimLeftSpace (TrimSpace s) = TrimSpace s" by (simp add: TrimLeftSpace.simps [of "TrimSpace s"])
  moreover have "TrimRightSpace (TrimSpace s) = TrimSpace s"
    using TrimRightSpace_done [of "TrimLeftSpace s"]
    by (simp add: TrimSpace_def TrimRightSpace.simps [of "TrimRightSpace (TrimLeftSpace s)"])
  ultimately show ?thesis by (simp add: TrimSpace_def [of "TrimSpace s"])
qed

text \<open>Strings of visible ASCII bytes have nothing to trim.\<close>

definition visible :: "string \<Rightarrow> bool" where
  "visible s \<longleftrightarrow> list_all (\<lambda>c. 32 < byte c \<and> byte c < 128) s"

lemma space_rune_ends:
  assumes "r \<in> set space_runes"
  shows "byte (hd r) \<le> 32 \<or> 128 \<le> byte (hd r)" "byte (last r) \<le> 32 \<or> 128 \<le> byte (last r)"
  using assms by (auto simp: space_runes_def)

lemma TrimLeftSpace_visible: "s = [] \<or> (32 < byte (hd s) \<and> byte (hd s) < 128) \<Longrightarrow> TrimLeftSpace s = s"
proof -
  assume s: "s = [] \<or> (32 < byte (hd s) \<and> byte (hd s) < 128)"
  have "\<not> HasPrefix s r" if "r \<in> set space_runes" for r
    using that s space_rune_ends(1) [OF that] space_runes_nonempty [OF that]
    by (cases r) (auto simp: HasPrefix_iff)
  then have "leading_space s = None" by (simp add: leading_space_def find_None_iff)
  then show ?thesis by (simp add: TrimLeftSpace.simps [of s])
qed

lemma TrimRightSpace_visible: "s = [] \<or> (32 < byte (last s) \<and> byte (last s) < 128) \<Longrightarrow> TrimRightSpace s = s"
proof -
  assume s: "s = [] \<or> (32 < byte (last s) \<and> byte (last s) < 128)"
  have "\<not> HasSuffix s r" if "r \<in> set space_runes" for r
    using that s space_rune_ends(2) [OF that] space_runes_nonempty [OF that]
    by (auto simp: HasSuffix_iff)
  then have "trailing_space s = None" by (simp add: trailing_space_def find_None_iff)
  then show ?thesis by (simp add: TrimRightSpace.simps [of s])
qed

lemma TrimSpace_ends:
  assumes "s \<noteq> []" "32 < byte (hd s)" "byte (hd s) < 128" "32 < byte (last s)" "byte (last s) < 128"
  shows "TrimSpace s = s"
  using assms by (simp add: TrimSpace_def TrimLeftSpace_visible TrimRightSpace_visible)

lemma TrimSpace_visible: "visible s \<Longrightarrow> TrimSpace s = s"
  by (cases "s = []") (auto simp: visible_def list_all_iff intro!: TrimSpace_ends)

subsection \<open>Case mapping\<close>

text \<open>
  \<open>strings.ToLower\<close> maps ASCII strings byte by byte and sends any other string through the
  Unicode case tables. The tables are the argument \<open>uni\<close>; only ASCII is fixed.
\<close>

definition ToLower :: "(string \<Rightarrow> string) \<Rightarrow> string \<Rightarrow> string" where
  "ToLower uni s = (if list_all is_ascii s then map ascii_lower s else uni s)"

text \<open>
  \<open>strings.EqualFold s t\<close> for an ASCII \<open>t\<close>: besides ASCII case, the only code points that fold
  to ASCII letters are U+017F (long s, bytes C5 BF) and U+212A (Kelvin sign, bytes E2 84 AA).
\<close>

fun fold_ascii :: "string \<Rightarrow> string" where
  "fold_ascii (a # b # c # cs) =
     (if byte a = 226 \<and> byte b = 132 \<and> byte c = 170 then CHR ''k'' # fold_ascii cs
      else if byte a = 197 \<and> byte b = 191 then CHR ''s'' # fold_ascii (c # cs)
      else ascii_lower a # fold_ascii (b # c # cs))"
| "fold_ascii [a, b] =
     (if byte a = 197 \<and> byte b = 191 then [CHR ''s''] else [ascii_lower a, ascii_lower b])"
| "fold_ascii cs = map ascii_lower cs"

definition EqualFold :: "string \<Rightarrow> string \<Rightarrow> bool" where
  "EqualFold s t \<longleftrightarrow> fold_ascii s = map ascii_lower t"

lemma ToLower_ascii: "list_all is_ascii s \<Longrightarrow> ToLower uni s = map ascii_lower s"
  by (simp add: ToLower_def)

text \<open>
  Functions outside the repository that the host parsers call, as one argument: the Unicode
  case tables behind \<open>strings.ToLower\<close> and the error list of \<open>validation.IsDNS1123Subdomain\<close>
  from \<open>k8s.io/apimachinery\<close>.
\<close>

record host_env =
  uni_lower :: "string \<Rightarrow> string"
  dns1123 :: "string \<Rightarrow> string list"

text \<open>
  What the documentation of \<open>IsDNS1123Subdomain\<close> promises of an accepted name: it is not
  empty, it consists of lower case alphanumeric characters, dashes and dots, and it starts and
  ends with an alphanumeric character.
\<close>

definition dns_alnum :: "char \<Rightarrow> bool" where
  "dns_alnum c \<longleftrightarrow> is_digit c \<or> is_lower c"

definition dns_char :: "char \<Rightarrow> bool" where
  "dns_char c \<longleftrightarrow> dns_alnum c \<or> c = CHR ''-'' \<or> c = CHR ''.''"

definition dns_name :: "string \<Rightarrow> bool" where
  "dns_name s \<longleftrightarrow> s \<noteq> [] \<and> list_all dns_char s \<and> dns_alnum (hd s) \<and> dns_alnum (last s)"

definition dns1123_documented :: "host_env \<Rightarrow> bool" where
  "dns1123_documented env \<longleftrightarrow> (\<forall>s. dns1123 env s = [] \<longrightarrow> dns_name s)"

text \<open>A concrete instance of the two functions, for evaluating the model on examples.\<close>

definition ascii_env :: host_env where
  "ascii_env = \<lparr>uni_lower = (\<lambda>s. s),
     dns1123 = (\<lambda>s. if dns_name s \<and> length s \<le> 253 then [] else [''invalid''])\<rparr>"

lemma ascii_env_documented: "dns1123_documented ascii_env"
  by (simp add: dns1123_documented_def ascii_env_def)

lemma dns_char_visible: "dns_char c \<Longrightarrow> 32 < byte c \<and> byte c < 128 \<and> \<not> is_upper c"
  by (auto simp: dns_char_def dns_alnum_def in_range_def)

lemma dns_name_visible: "dns_name s \<Longrightarrow> visible s"
  by (auto simp: dns_name_def visible_def list_all_iff dest: dns_char_visible)

lemma dns_name_not: "dns_name s \<Longrightarrow> \<not> dns_char c \<Longrightarrow> c \<notin> set s"
  by (auto simp: dns_name_def list_all_iff)

lemma dns_name_ToLower: "dns_name s \<Longrightarrow> ToLower uni s = s"
proof -
  assume "dns_name s"
  then have "\<forall>c\<in>set s. is_ascii c \<and> \<not> is_upper c"
    unfolding dns_name_def list_all_iff using dns_char_visible by blast
  then show ?thesis by (simp add: ToLower_def list_all_iff map_idI ascii_lower_id)
qed

lemma dns_name_no_final_dot: "dns_name s \<Longrightarrow> TrimSuffix s ''.'' = s"
proof -
  assume "dns_name s"
  then have "last s \<noteq> CHR ''.''" by (auto simp: dns_name_def dns_alnum_def in_range_def)
  then show ?thesis by (auto simp: TrimSuffix_def HasSuffix_iff)
qed

subsection \<open>Numbers as text\<close>

text \<open>\<open>strconv.Itoa\<close> on naturals and lower-case hexadecimal.\<close>

definition digit_char :: "nat \<Rightarrow> char" where
  "digit_char d = (if d < 10 then char_of (48 + d) else char_of (87 + d))"

fun nat_digits :: "nat \<Rightarrow> nat \<Rightarrow> nat list" where
  "nat_digits b n = (if n < b \<or> b < 2 then [n] else nat_digits b (n div b) @ [n mod b])"

declare nat_digits.simps [simp del]

definition itoa :: "nat \<Rightarrow> string" where
  "itoa n = map digit_char (nat_digits 10 n)"

definition hex_str :: "nat \<Rightarrow> string" where
  "hex_str n = map digit_char (nat_digits 16 n)"

definition int_str :: "int \<Rightarrow> string" where
  "int_str i = (if i < 0 then CHR ''-'' # itoa (nat (- i)) else itoa (nat i))"

text \<open>Reading digits back, most significant first.\<close>

definition digits_val :: "nat \<Rightarrow> nat list \<Rightarrow> nat" where
  "digits_val b ds = foldl (\<lambda>v d. v * b + d) 0 ds"

definition dec_val :: "string \<Rightarrow> nat" where
  "dec_val s = digits_val 10 (map (\<lambda>c. byte c - 48) s)"

lemma digits_val_snoc [simp]: "digits_val b (ds @ [d]) = digits_val b ds * b + d"
  by (simp add: digits_val_def)

lemma digits_val_Nil [simp]: "digits_val b [] = 0"
  by (simp add: digits_val_def)

lemma digits_val_nat_digits: "digits_val b (nat_digits b n) = n"
proof (induction b n rule: nat_digits.induct)
  case (1 b n)
  show ?case
  proof (cases "n < b \<or> b < 2")
    case True
    then show ?thesis by (simp add: nat_digits.simps digits_val_def)
  next
    case False
    with 1 have "digits_val b (nat_digits b (n div b)) = n div b" by simp
    with False show ?thesis by (simp add: nat_digits.simps [of b n])
  qed
qed

lemma nat_digits_less: "2 \<le> b \<Longrightarrow> d \<in> set (nat_digits b n) \<Longrightarrow> d < b"
proof (induction b n rule: nat_digits.induct)
  case (1 b n)
  then show ?case by (subst (asm) (2) nat_digits.simps) (auto split: if_splits)
qed

lemma byte_digit_char: "d < 10 \<Longrightarrow> byte (digit_char d) = 48 + d"
  by (simp add: digit_char_def)

lemma itoa_digits: "c \<in> set (itoa n) \<Longrightarrow> is_digit c"
  using nat_digits_less [of 10 _ n] by (force simp: itoa_def in_range_def byte_digit_char)

lemma itoa_not_Nil [simp]: "itoa n \<noteq> []"
  by (simp add: itoa_def) (subst nat_digits.simps, simp)

lemma dec_val_itoa [simp]: "dec_val (itoa n) = n"
proof -
  have "map (\<lambda>c. byte c - 48) (itoa n) = map (\<lambda>d. d) (nat_digits 10 n)"
    unfolding itoa_def map_map
    by (rule map_cong [OF refl]) (use nat_digits_less [of 10 _ n] in \<open>simp add: byte_digit_char\<close>)
  then show ?thesis by (simp add: dec_val_def digits_val_nat_digits)
qed

lemma itoa_inject [simp]: "itoa m = itoa n \<longleftrightarrow> m = n"
  by (metis dec_val_itoa)

subsection \<open>Field errors of Kubernetes validation\<close>

text \<open>
  \<open>field.Path\<close> as a list of steps, outermost first, and \<open>field.Error\<close> as one constructor per
  error type. The offending value a \<open>field.Error\<close> carries for display is kept as a
  \<open>bad_value\<close>; the text of wrapped errors is kept only where the source gives a literal.
\<close>

datatype path_elem = PName string | PIndex nat | PKey string

type_synonym field_path = "path_elem list"

definition Child :: "field_path \<Rightarrow> string \<Rightarrow> field_path" where
  "Child p name = p @ [PName name]"

definition Index :: "field_path \<Rightarrow> nat \<Rightarrow> field_path" where
  "Index p i = p @ [PIndex i]"

definition Key :: "field_path \<Rightarrow> string \<Rightarrow> field_path" where
  "Key p k = p @ [PKey k]"

datatype bad_value = BNone | BStr string | BInt int | BStrs "string list" | BPair string string

datatype field_error =
    FInvalid field_path bad_value string
  | FRequired field_path string
  | FForbidden field_path string
  | FDuplicate field_path bad_value
  | FNotSupported field_path bad_value "string list"
  | FNotFound field_path bad_value
  | FInternal field_path
  | FTooMany field_path nat nat
  | FTooLong field_path nat

type_synonym field_errors = "field_error list"

subsection \<open>Lists\<close>

text \<open>One error if the condition holds: the shape of most validation steps.\<close>

definition issue :: "bool \<Rightarrow> 'a \<Rightarrow> 'a list" where
  "issue b e = (if b then [e] else [])"

lemma issue_Nil [simp]: "issue b e = [] \<longleftrightarrow> \<not> b"
  by (simp add: issue_def)

lemma set_issue [simp]: "set (issue b e) = (if b then {e} else {})"
  by (simp add: issue_def)

text \<open>The loop \<open>for i, x := range xs\<close> that appends what each element contributes.\<close>

fun concat_index :: "nat \<Rightarrow> (nat \<Rightarrow> 'a \<Rightarrow> 'b list) \<Rightarrow> 'a list \<Rightarrow> 'b list" where
  "concat_index i f [] = []"
| "concat_index i f (x # xs) = f i x @ concat_index (Suc i) f xs"

lemma concat_index_Nil: "concat_index i f xs = [] \<longleftrightarrow> (\<forall>j<length xs. f (i + j) (xs ! j) = [])"
proof (induction xs arbitrary: i)
  case Nil
  then show ?case by simp
next
  case (Cons x xs)
  show ?case
    unfolding concat_index.simps append_is_Nil_conv Cons.IH
    by (auto simp: less_Suc_eq_0_disj nth_Cons')
qed

text \<open>
  A loop that checks its elements one by one and remembers the keys already seen: it stays silent
  exactly when every element is valid and no key occurs twice.
\<close>

locale seen_loop =
  fixes loop :: "nat \<Rightarrow> 'k list \<Rightarrow> 'a list \<Rightarrow> 'e list"
    and check :: "nat \<Rightarrow> 'k list \<Rightarrow> 'a \<Rightarrow> 'e list"
    and key :: "'a \<Rightarrow> 'k"
    and valid :: "'a \<Rightarrow> bool"
  assumes loop_end: "loop i seen [] = []"
    and loop_step: "loop i seen (x # xs) = check i seen x @ loop (Suc i) (key x # seen) xs"
    and check_silent: "check i seen x = [] \<longleftrightarrow> valid x \<and> key x \<notin> set seen"
begin

lemma loop_silent:
  "loop i seen xs = [] \<longleftrightarrow> list_all valid xs \<and> distinct (map key xs) \<and> set (map key xs) \<inter> set seen = {}"
  by (induction xs arbitrary: i seen) (auto simp: loop_end loop_step check_silent)

lemma loop_silent_start: "loop i [] xs = [] \<longleftrightarrow> list_all valid xs \<and> distinct (map key xs)"
  by (simp add: loop_silent)

end

text \<open>The same for loops that remember the index at which a key was first seen and remember a key
  only when they report nothing of it.\<close>

locale first_seen_loop =
  fixes loop :: "nat \<Rightarrow> ('k \<times> nat) list \<Rightarrow> 'a list \<Rightarrow> 'e list"
    and key :: "'a \<Rightarrow> 'k"
    and valid :: "'a \<Rightarrow> bool"
  assumes loop_end: "loop i seen [] = []"
    and loop_step: "loop i seen (x # xs) = [] \<longleftrightarrow>
      valid x \<and> map_of seen (key x) = None \<and> loop (Suc i) ((key x, i) # seen) xs = []"
begin

lemma loop_silent:
  "loop i seen xs = [] \<longleftrightarrow> list_all valid xs \<and> distinct (map key xs) \<and> key ` set xs \<inter> fst ` set seen = {}"
  by (induction xs arbitrary: i seen) (auto simp: loop_end loop_step map_of_eq_None_iff)

lemma loop_silent_start: "loop i [] xs = [] \<longleftrightarrow> list_all valid xs \<and> distinct (map key xs)"
  by (simp add: loop_silent)

end

end
