(* ===== verification/NetIP.thy ===== *)
theory NetIP
  imports Prelude "HOL-Library.Word"
begin

unbundle bit_operations_syntax

section \<open>The parts of \<open>net\<close> and \<open>net/netip\<close> the program uses\<close>

text \<open>
  A model of Go's standard library functions \<open>netip.ParseAddr\<close>, \<open>netip.ParsePrefix\<close>,
  \<open>Addr.String\<close>, \<open>Prefix.Masked\<close>, \<open>Prefix.Contains\<close>, \<open>net.ParseIP\<close> and
  \<open>net.SplitHostPort\<close>, which decide what counts as an IP host in the secret injection proxy,
  the sandbox allow list and the egress policies. The zero \<open>netip.Addr\<close> is \<open>None\<close> at type
  \<open>addr option\<close>. Error texts are not kept: every caller only tests for an error.
\<close>

datatype addr = V4 "32 word" | V6 "128 word" string

datatype cidr = Cidr addr nat

subsection \<open>IPv4\<close>

text \<open>
  \<open>parseIPv4Fields\<close>: the fields read so far, the value and the number of digits of the
  current one. A dot is refused where no digit precedes it and at the end.
\<close>

fun parse_v4_loop :: "nat list \<Rightarrow> nat \<Rightarrow> nat \<Rightarrow> string \<Rightarrow> nat list option" where
  "parse_v4_loop fs val len [] = (if length fs < 3 then None else Some (fs @ [val]))"
| "parse_v4_loop fs val len (c # cs) =
     (if is_digit c then
        (if len = 1 \<and> val = 0 then None
         else let v = val * 10 + (byte c - 48) in
           if v > 255 then None else parse_v4_loop fs v (Suc len) cs)
      else if c = CHR ''.'' then
        (if len = 0 \<or> cs = [] then None
         else if length fs = 3 then None
         else parse_v4_loop (fs @ [val]) 0 0 cs)
      else None)"

definition parse_v4_fields :: "string \<Rightarrow> nat list option" where
  "parse_v4_fields s = parse_v4_loop [] 0 0 s"

definition v4_of_fields :: "nat list \<Rightarrow> addr" where
  "v4_of_fields fs = V4 (word_of_nat (digits_val 256 fs))"

definition v4_fields :: "32 word \<Rightarrow> nat list" where
  "v4_fields w = map (\<lambda>k. unat (drop_bit (8 * k) w) mod 256) [3, 2, 1, 0]"

definition v4_string :: "32 word \<Rightarrow> string" where
  "v4_string w = Join ''.'' (map itoa (v4_fields w))"

subsection \<open>IPv6\<close>

definition hex_digit :: "char \<Rightarrow> nat option" where
  "hex_digit c =
     (if is_digit c then Some (byte c - 48)
      else if in_range 97 102 c then Some (byte c - 87)
      else if in_range 65 70 c then Some (byte c - 55)
      else None)"

abbreviation is_hex :: "char \<Rightarrow> bool" where
  "is_hex c \<equiv> hex_digit c \<noteq> None"

definition hex_val :: "string \<Rightarrow> nat" where
  "hex_val s = digits_val 16 (map (\<lambda>c. the (hex_digit c)) s)"

text \<open>
  The loop of \<open>parseIPv6\<close>: the 16-bit groups read, the group index of the ellipsis, the
  rest of the input without its zone. It returns when the whole input has been used.
\<close>

function parse_v6_loop :: "nat list \<Rightarrow> nat option \<Rightarrow> string \<Rightarrow> (nat list \<times> nat option) option" where
  "parse_v6_loop gs ell s =
     (if 8 \<le> length gs then (if s = [] then Some (gs, ell) else None)
      else
        let hs = takeWhile is_hex s; r = drop (length hs) s in
        if length hs > 4 \<or> hs = [] then None
        else if r \<noteq> [] \<and> hd r = CHR ''.'' then
          (if ell = None \<and> length gs \<noteq> 6 then None
           else if length gs + 2 > 8 then None
           else case parse_v4_fields s of
               None \<Rightarrow> None
             | Some fs \<Rightarrow> Some (gs @ [fs ! 0 * 256 + fs ! 1, fs ! 2 * 256 + fs ! 3], ell))
        else
          let gs' = gs @ [hex_val hs] in
          if r = [] then Some (gs', ell)
          else if hd r \<noteq> CHR '':'' then None
          else if tl r = [] then None
          else if hd (tl r) = CHR '':'' then
            (if ell \<noteq> None then None
             else if tl (tl r) = [] then Some (gs', Some (length gs'))
             else parse_v6_loop gs' (Some (length gs')) (tl (tl r)))
          else parse_v6_loop gs' ell (tl r))"
  by pat_completeness auto
termination
proof (relation "measure (\<lambda>(gs, ell, s). length s)", goal_cases)
  case 1
  show ?case by simp
next
  case (2 gs ell s hs r gs')
  then have "length r \<le> length s" "0 < length r" by auto
  then have "length (tl (tl r)) < length s" by (cases r) auto
  then show ?case by simp
next
  case (3 gs ell s hs r gs')
  then have "length r \<le> length s" "0 < length r" by auto
  then have "length (tl r) < length s" by (cases r) auto
  then show ?case by simp
qed

declare parse_v6_loop.simps [simp del]

definition expand_ellipsis :: "nat list \<Rightarrow> nat option \<Rightarrow> nat list option" where
  "expand_ellipsis gs ell =
     (if length gs < 8 then
        (case ell of
           None \<Rightarrow> None
         | Some e \<Rightarrow> Some (take e gs @ replicate (8 - length gs) 0 @ drop e gs))
      else if ell \<noteq> None then None
      else Some gs)"

definition v6_of_groups :: "nat list \<Rightarrow> string \<Rightarrow> addr" where
  "v6_of_groups gs zone = V6 (word_of_nat (digits_val 65536 gs)) zone"

definition parse_v6_body :: "string \<Rightarrow> nat list option" where
  "parse_v6_body s =
     (if s = ''::'' then Some (replicate 8 0)
      else case (if HasPrefix s ''::'' then parse_v6_loop [] (Some 0) (drop 2 s)
                 else parse_v6_loop [] None s) of
          None \<Rightarrow> None
        | Some (gs, ell) \<Rightarrow> expand_ellipsis gs ell)"

definition parse_v6 :: "string \<Rightarrow> addr option" where
  "parse_v6 s =
     (let (body, zone, zoned) = Cut s ''%'' in
      if zoned \<and> zone = [] then None
      else map_option (\<lambda>gs. v6_of_groups gs zone) (parse_v6_body body))"

text \<open>\<open>netip.ParseAddr\<close>: the first of the bytes dot, colon, percent decides.\<close>

definition ParseAddr :: "string \<Rightarrow> addr option" where
  "ParseAddr s =
     (case find (\<lambda>c. c = CHR ''.'' \<or> c = CHR '':'' \<or> c = CHR ''%'') s of
        None \<Rightarrow> None
      | Some c \<Rightarrow>
          if c = CHR ''.'' then map_option v4_of_fields (parse_v4_fields s)
          else if c = CHR '':'' then parse_v6 s
          else None)"

definition zone_of :: "addr \<Rightarrow> string" where
  "zone_of a = (case a of V4 _ \<Rightarrow> [] | V6 _ z \<Rightarrow> z)"

text \<open>\<open>net.ParseIP s \<noteq> nil\<close>: an address without a zone.\<close>

definition ParseIP_ok :: "string \<Rightarrow> bool" where
  "ParseIP_ok s \<longleftrightarrow> (case ParseAddr s of None \<Rightarrow> False | Some a \<Rightarrow> zone_of a = [])"

subsection \<open>Printing\<close>

definition v6_groups :: "128 word \<Rightarrow> nat list" where
  "v6_groups w = map (\<lambda>k. unat (drop_bit (16 * k) w) mod 65536) [7, 6, 5, 4, 3, 2, 1, 0]"

definition zero_run :: "nat list \<Rightarrow> nat \<Rightarrow> nat" where
  "zero_run gs i = length (takeWhile (\<lambda>g. g = 0) (drop i gs))"

text \<open>The first longest run of at least two zero groups: start and length, (8, 0) if none.\<close>

definition longest_run :: "nat list \<Rightarrow> nat \<times> nat" where
  "longest_run gs =
     foldl (\<lambda>(st, l) i. if 2 \<le> zero_run gs i \<and> l < zero_run gs i then (i, zero_run gs i) else (st, l))
       (8, 0) [0..<8]"

definition v6_body_string :: "nat list \<Rightarrow> string" where
  "v6_body_string gs =
     (let (st, l) = longest_run gs in
      if l = 0 then Join '':'' (map hex_str gs)
      else Join '':'' (map hex_str (take st gs)) @ ''::'' @ Join '':'' (map hex_str (drop (st + l) gs)))"

definition is_4in6 :: "128 word \<Rightarrow> bool" where
  "is_4in6 w \<longleftrightarrow> take 6 (v6_groups w) = [0, 0, 0, 0, 0, 65535]"

definition addr_string :: "addr \<Rightarrow> string" where
  "addr_string a = (case a of
      V4 w \<Rightarrow> v4_string w
    | V6 w z \<Rightarrow>
        (if is_4in6 w then ''::ffff:'' @ v4_string (ucast w) else v6_body_string (v6_groups w))
        @ (if z = [] then [] else CHR ''%'' # z))"

subsection \<open>Prefixes\<close>

definition bit_len :: "addr \<Rightarrow> nat" where
  "bit_len a = (case a of V4 _ \<Rightarrow> 32 | V6 _ _ \<Rightarrow> 128)"

text \<open>The part before and after the last slash.\<close>

definition cut_last :: "char \<Rightarrow> string \<Rightarrow> (string \<times> string) option" where
  "cut_last sep s =
     (if sep \<in> set s then
        let after = rev (takeWhile (\<lambda>c. c \<noteq> sep) (rev s))
        in Some (take (length s - length after - 1) s, after)
      else None)"

definition parse_bits :: "string \<Rightarrow> nat option" where
  "parse_bits s =
     (if s \<noteq> [] \<and> list_all is_digit s \<and> (length s > 1 \<longrightarrow> hd s \<noteq> CHR ''0'') then Some (dec_val s)
      else None)"

definition ParsePrefix :: "string \<Rightarrow> cidr option" where
  "ParsePrefix s =
     (case cut_last (CHR ''/'') s of
        None \<Rightarrow> None
      | Some (host, bits) \<Rightarrow>
          (case ParseAddr host of
             None \<Rightarrow> None
           | Some a \<Rightarrow>
               if zone_of a \<noteq> [] then None
               else case parse_bits bits of
                   None \<Rightarrow> None
                 | Some n \<Rightarrow> if n > bit_len a then None else Some (Cidr a n)))"

text \<open>\<open>Prefix.Masked\<close>: the host bits cleared and the zone dropped.\<close>

definition Masked :: "cidr \<Rightarrow> cidr" where
  "Masked p = (case p of
      Cidr (V4 w) n \<Rightarrow> Cidr (V4 (push_bit (32 - n) (drop_bit (32 - n) w))) n
    | Cidr (V6 w z) n \<Rightarrow> Cidr (V6 (push_bit (128 - n) (drop_bit (128 - n) w)) []) n)"

definition cidr_string :: "cidr \<Rightarrow> string" where
  "cidr_string p = (case p of Cidr a n \<Rightarrow> addr_string a @ ''/'' @ itoa n)"

text \<open>\<open>Prefix.Contains\<close>: same family, no zone, and equal leading bits.\<close>

definition cidr_contains :: "cidr \<Rightarrow> addr \<Rightarrow> bool" where
  "cidr_contains p a = (case (p, a) of
      (Cidr (V4 b) n, V4 w) \<Rightarrow> drop_bit (32 - n) (w XOR b) = 0
    | (Cidr (V6 b _) n, V6 w z) \<Rightarrow> z = [] \<and> drop_bit (128 - n) (w XOR b) = 0
    | _ \<Rightarrow> False)"

subsection \<open>Host and port\<close>

definition last_index :: "char \<Rightarrow> string \<Rightarrow> nat option" where
  "last_index c s = map_option (\<lambda>(a, _). length a) (cut_last c s)"

text \<open>\<open>net.SplitHostPort\<close>: \<open>None\<close> for every error.\<close>

definition SplitHostPort :: "string \<Rightarrow> (string \<times> string) option" where
  "SplitHostPort hp =
     (case last_index (CHR '':'') hp of
        None \<Rightarrow> None
      | Some i \<Rightarrow>
          if hd hp = CHR ''['' then
            (case str_index '']'' hp of
               None \<Rightarrow> None
             | Some e \<Rightarrow>
                 if e + 1 = length hp then None
                 else if e + 1 \<noteq> i then None
                 else if CHR ''['' \<in> set (drop 1 hp) \<or> CHR '']'' \<in> set (drop (e + 1) hp) then None
                 else Some (take (e - 1) (drop 1 hp), drop (i + 1) hp))
          else
            (let host = take i hp in
             if CHR '':'' \<in> set host then None
             else if CHR ''['' \<in> set hp \<or> CHR '']'' \<in> set hp then None
             else Some (host, drop (i + 1) hp)))"

subsection \<open>IPv4 text round trip\<close>

lemma digit_char_is_digit: "d < 10 \<Longrightarrow> is_digit (digit_char d)"
  by (simp add: in_range_def byte_digit_char)

text \<open>The digits of one field, read with the value of the digits before them.\<close>

lemma parse_v4_loop_digits:
  assumes "\<forall>d\<in>set ds. d < 10"
    and "\<forall>k\<le>length ds. foldl (\<lambda>v d. v * 10 + d) val (take k ds) \<le> 255"
    and "ds \<noteq> [] \<and> len = 1 \<longrightarrow> val \<noteq> 0"
    and "length ds > 1 \<and> len = 0 \<longrightarrow> val * 10 + hd ds \<noteq> 0"
  shows "parse_v4_loop fs val len (map digit_char ds @ rest) =
    parse_v4_loop fs (foldl (\<lambda>v d. v * 10 + d) val ds) (len + length ds) rest"
  using assms
proof (induction ds arbitrary: val len)
  case Nil
  then show ?case by simp
next
  case (Cons d ds)
  let ?v = "val * 10 + d"
  have d: "is_digit (digit_char d)" "byte (digit_char d) - 48 = d"
    using Cons.prems(1) by (auto simp: digit_char_is_digit byte_digit_char)
  have v: "?v \<le> 255" using Cons.prems(2) [rule_format, of 1] by simp
  have "parse_v4_loop fs ?v (Suc len) (map digit_char ds @ rest) =
      parse_v4_loop fs (foldl (\<lambda>v d. v * 10 + d) ?v ds) (Suc len + length ds) rest"
  proof (rule Cons.IH)
    show "\<forall>d\<in>set ds. d < 10" using Cons.prems(1) by simp
    show "\<forall>k\<le>length ds. foldl (\<lambda>v d. v * 10 + d) ?v (take k ds) \<le> 255"
    proof (intro allI impI)
      fix k assume "k \<le> length ds"
      then show "foldl (\<lambda>v d. v * 10 + d) ?v (take k ds) \<le> 255"
        using Cons.prems(2) [rule_format, of "Suc k"] by simp
    qed
    show "ds \<noteq> [] \<and> Suc len = 1 \<longrightarrow> ?v \<noteq> 0" using Cons.prems(4) by (cases ds) auto
    show "length ds > 1 \<and> Suc len = 0 \<longrightarrow> ?v * 10 + hd ds \<noteq> 0" by simp
  qed
  moreover have guard: "(len = 1 \<and> val = 0) = False" using Cons.prems(3) by auto
  ultimately show ?case using d v
    unfolding list.map append_Cons parse_v4_loop.simps guard by (simp add: Let_def)
qed

lemma nat_digits_hd: "1 < length (nat_digits b n) \<Longrightarrow> hd (nat_digits b n) \<noteq> 0"
proof (induction b n rule: nat_digits.induct)
  case (1 b n)
  show ?case
  proof (cases "n < b \<or> b < 2")
    case True
    with 1 show ?thesis by (simp add: nat_digits.simps [of b n])
  next
    case False
    let ?m = "nat_digits b (n div b)"
    have ne: "?m \<noteq> []" by (subst nat_digits.simps) simp
    have "hd ?m \<noteq> 0"
    proof (cases "length ?m > 1")
      case True
      with False "1.IH" show ?thesis by simp
    next
      case F: False
      with ne obtain x where x: "?m = [x]" by (cases ?m) auto
      then have "x = n div b" using digits_val_nat_digits [of b "n div b"] by (simp add: digits_val_def)
      with False x show ?thesis by (simp add: div_greater_zero_iff)
    qed
    with False ne show ?thesis by (simp add: nat_digits.simps [of b n])
  qed
qed

lemma foldl_take_le:
  fixes ds :: "nat list"
  shows "foldl (\<lambda>v d. v * 10 + d) v (take k ds) \<le> foldl (\<lambda>v d. v * 10 + d) v ds"
proof (induction ds arbitrary: v k)
  case Nil
  then show ?case by simp
next
  case (Cons d ds)
  have mono: "v \<le> foldl (\<lambda>v d. v * 10 + d) v xs" for v :: nat and xs
  proof (induction xs arbitrary: v)
    case Nil
    then show ?case by simp
  next
    case (Cons x xs)
    have "v \<le> v * 10 + x" by simp
    also have "\<dots> \<le> foldl (\<lambda>v d. v * 10 + d) (v * 10 + x) xs" by (rule Cons)
    finally show ?case by simp
  qed
  show ?case
  proof (cases k)
    case 0
    then show ?thesis using mono [of v "d # ds"] by simp
  next
    case (Suc k')
    then show ?thesis using Cons [of "v * 10 + d" k'] by simp
  qed
qed

lemma parse_v4_loop_itoa:
  assumes "n \<le> 255"
  shows "\<exists>len>0. parse_v4_loop fs 0 0 (itoa n @ rest) = parse_v4_loop fs n len rest"
proof -
  let ?ds = "nat_digits 10 n"
  have val: "foldl (\<lambda>v d. v * 10 + d) 0 ?ds = n"
    using digits_val_nat_digits [of 10 n] by (simp add: digits_val_def)
  have "parse_v4_loop fs 0 0 (map digit_char ?ds @ rest) =
      parse_v4_loop fs (foldl (\<lambda>v d. v * 10 + d) 0 ?ds) (0 + length ?ds) rest"
  proof (rule parse_v4_loop_digits)
    show "\<forall>d\<in>set ?ds. d < 10" using nat_digits_less [of 10 _ n] by simp
    show "\<forall>k\<le>length ?ds. foldl (\<lambda>v d. v * 10 + d) 0 (take k ?ds) \<le> 255"
      using foldl_take_le [of 0 _ ?ds] assms val by (auto intro: order_trans)
    show "?ds \<noteq> [] \<and> (0::nat) = 1 \<longrightarrow> (0::nat) \<noteq> 0" by simp
    show "length ?ds > 1 \<and> (0::nat) = 0 \<longrightarrow> 0 * 10 + hd ?ds \<noteq> 0"
      using nat_digits_hd [of 10 n] by simp
  qed
  moreover have "0 < length ?ds" by (subst nat_digits.simps) simp
  ultimately show ?thesis using val unfolding itoa_def by auto
qed

lemma parse_v4_fields_string:
  assumes "length fs = 4" and "\<forall>f\<in>set fs. f \<le> 255"
  shows "parse_v4_fields (Join ''.'' (map itoa fs)) = Some fs"
proof -
  from assms(1) obtain a b c d where fs: "fs = [a, b, c, d]"
    by (auto simp: numeral_eq_Suc length_Suc_conv)
  have dot: "len > 0 \<Longrightarrow> cs \<noteq> [] \<Longrightarrow> length gs < 3 \<Longrightarrow>
      parse_v4_loop gs v len (CHR ''.'' # cs) = parse_v4_loop (gs @ [v]) 0 0 cs" for gs v len cs
    by (simp add: in_range_def)
  have step: "parse_v4_loop gs 0 0 (itoa n @ CHR ''.'' # cs) = parse_v4_loop (gs @ [n]) 0 0 cs"
    if "n \<le> 255" "cs \<noteq> []" "length gs < 3" for gs n cs
    using parse_v4_loop_itoa [OF that(1), of gs "CHR ''.'' # cs"] dot [OF _ that(2,3)] by auto
  have last: "parse_v4_loop gs 0 0 (itoa n) = Some (gs @ [n])" if "n \<le> 255" "length gs = 3" for gs n
    using parse_v4_loop_itoa [OF that(1), of gs "[]"] that(2) by auto
  show ?thesis using assms(2) by (simp add: fs parse_v4_fields_def step last)
qed

lemma unat_drop_bit: "unat (drop_bit k w) = unat w div 2 ^ k"
  by (simp add: unat_drop_bit_eq drop_bit_nat_def)

text \<open>The digits of a number at a fixed number of places, most significant first.\<close>

lemma digits_val_Cons: "digits_val b (d # ds) = d * b ^ length ds + digits_val b ds"
proof (induction ds rule: rev_induct)
  case Nil
  then show ?case by (simp add: digits_val_def)
next
  case (snoc x xs)
  have "digits_val b (d # xs @ [x]) = digits_val b (d # xs) * b + x"
    using digits_val_snoc [of b "d # xs" x] by simp
  then show ?case using snoc by (simp add: algebra_simps)
qed

lemma digits_val_places: "digits_val b (map (\<lambda>k. n div b ^ k mod b) (rev [0..<m])) = n mod b ^ m"
proof (induction m)
  case 0
  then show ?case by simp
next
  case (Suc m)
  have "n mod b ^ Suc m = b ^ m * (n div b ^ m mod b) + n mod b ^ m"
    unfolding power_Suc2 by (rule mod_mult2_eq)
  with Suc show ?case by (simp add: digits_val_Cons mult.commute)
qed

lemma places_lists: "rev [0..<4] = [3, 2, 1, 0::nat]" "rev [0..<8] = [7, 6, 5, 4, 3, 2, 1, 0::nat]"
  by (simp_all add: numeral_eq_Suc)

lemma v4_fields_places: "v4_fields w = map (\<lambda>k. unat w div 256 ^ k mod 256) (rev [0..<4])"
  by (simp add: v4_fields_def unat_drop_bit places_lists)

lemma v4_of_v4_fields: "v4_of_fields (v4_fields w) = V4 w"
proof -
  have "unat w < 256 ^ 4" using unsigned_less [of w, where ?'a = nat] by simp
  then show ?thesis
    by (simp add: v4_of_fields_def v4_fields_places digits_val_places)
qed

lemma find_dot:
  assumes "\<forall>c\<in>set a. is_digit c"
  shows "find (\<lambda>c. c = CHR ''.'' \<or> c = CHR '':'' \<or> c = CHR ''%'') (a @ CHR ''.'' # b) = Some (CHR ''.'')"
  using assms by (induction a) (auto simp: in_range_def)

lemma ParseAddr_v4_string [simp]: "ParseAddr (v4_string w) = Some (V4 w)"
proof -
  have "parse_v4_fields (v4_string w) = Some (v4_fields w)"
    unfolding v4_string_def by (rule parse_v4_fields_string) (auto simp: v4_fields_def)
  moreover obtain r where "v4_string w = itoa (hd (v4_fields w)) @ CHR ''.'' # r"
    by (simp add: v4_string_def v4_fields_def)
  moreover have "\<forall>c\<in>set (itoa (hd (v4_fields w))). is_digit c" by (simp add: itoa_digits)
  ultimately show ?thesis by (simp add: ParseAddr_def find_dot v4_of_v4_fields)
qed

subsection \<open>IPv6 text round trip\<close>

lemma hex_digit_digit_char: "d < 16 \<Longrightarrow> hex_digit (digit_char d) = Some d"
  by (auto simp: hex_digit_def digit_char_def in_range_def)

lemma hex_str_hex: "c \<in> set (hex_str n) \<Longrightarrow> is_hex c"
  using nat_digits_less [of 16 _ n] by (auto simp: hex_str_def hex_digit_digit_char)

lemma hex_str_not_Nil [simp]: "hex_str n \<noteq> []"
  by (simp add: hex_str_def) (subst nat_digits.simps, simp)

lemma hex_val_hex_str [simp]: "hex_val (hex_str n) = n"
proof -
  have "map (\<lambda>c. the (hex_digit c)) (hex_str n) = map (\<lambda>d. d) (nat_digits 16 n)"
    unfolding hex_str_def map_map
    by (rule map_cong [OF refl]) (use nat_digits_less [of 16 _ n] in \<open>simp add: hex_digit_digit_char\<close>)
  then show ?thesis by (simp add: hex_val_def digits_val_nat_digits)
qed

lemma length_nat_digits: "2 \<le> b \<Longrightarrow> m < b ^ Suc k \<Longrightarrow> length (nat_digits b m) \<le> Suc k"
proof (induction k arbitrary: m)
  case 0
  then show ?case by (subst nat_digits.simps) simp
next
  case (Suc k)
  then have "m div b < b ^ Suc k" by (simp add: less_mult_imp_div_less mult.commute)
  then have "length (nat_digits b (m div b)) \<le> Suc k" using Suc by simp
  then show ?case by (subst nat_digits.simps) simp
qed

lemma length_hex_str: "n < 65536 \<Longrightarrow> length (hex_str n) \<le> 4"
  using length_nat_digits [of 16 n 3] by (simp add: hex_str_def)

lemma length_itoa: "n < 1000 \<Longrightarrow> length (itoa n) \<le> 3"
  using length_nat_digits [of 10 n 2] by (simp add: itoa_def)

lemma not_hex_sep [simp]:
  "hex_digit (CHR '':'') = None" "hex_digit (CHR ''.'') = None" "hex_digit (CHR ''%'') = None"
  by (auto simp: hex_digit_def in_range_def)

lemma takeWhile_hex_str:
  "r = [] \<or> \<not> is_hex (hd r) \<Longrightarrow> takeWhile is_hex (hex_str n @ r) = hex_str n"
proof -
  assume "r = [] \<or> \<not> is_hex (hd r)"
  then have "takeWhile is_hex r = []" by (cases r) auto
  moreover have "takeWhile is_hex (hex_str n @ r) = hex_str n @ takeWhile is_hex r"
    by (rule takeWhile_append2) (rule hex_str_hex)
  ultimately show ?thesis by simp
qed

lemma v6_step:
  assumes "length gs < 8" "g < 65536" "r \<noteq> []" "hd r \<noteq> CHR '':''"
  shows "parse_v6_loop gs ell (hex_str g @ CHR '':'' # r) = parse_v6_loop (gs @ [g]) ell r"
proof -
  have tw: "takeWhile is_hex (hex_str g @ CHR '':'' # r) = hex_str g"
    by (rule takeWhile_hex_str) (simp add: not_hex_sep)
  show ?thesis
    unfolding parse_v6_loop.simps [of gs ell "hex_str g @ CHR '':'' # r"] tw
    using assms length_hex_str [of g] by (simp add: Let_def)
qed

lemma v6_end:
  assumes "length gs < 8" "g < 65536"
  shows "parse_v6_loop gs ell (hex_str g) = Some (gs @ [g], ell)"
proof -
  have tw: "takeWhile is_hex (hex_str g) = hex_str g" using takeWhile_hex_str [of "[]" g] by simp
  show ?thesis
    unfolding parse_v6_loop.simps [of gs ell "hex_str g"] tw
    using assms length_hex_str [of g] by (simp add: Let_def)
qed

lemma v6_ellipsis:
  assumes "length gs < 8" "g < 65536"
  shows "parse_v6_loop gs None (hex_str g @ ''::'' @ r) =
    (if r = [] then Some (gs @ [g], Some (Suc (length gs)))
     else parse_v6_loop (gs @ [g]) (Some (Suc (length gs))) r)"
proof -
  have tw: "takeWhile is_hex (hex_str g @ ''::'' @ r) = hex_str g"
    by (rule takeWhile_hex_str) (simp add: not_hex_sep)
  show ?thesis
    unfolding parse_v6_loop.simps [of gs None "hex_str g @ ''::'' @ r"] tw
    using assms length_hex_str [of g] by (simp add: Let_def)
qed

lemma hd_hex_str: "hd (hex_str g @ t) \<noteq> CHR '':''"
  using hex_str_hex [of "hd (hex_str g)" g] not_hex_sep(1) by (metis hd_append hd_in_set hex_str_not_Nil)

lemma v6_join:
  assumes "gs2 \<noteq> []" "length gs + length gs2 \<le> 8" "\<forall>g\<in>set gs2. g < 65536"
  shows "parse_v6_loop gs ell (Join '':'' (map hex_str gs2)) = Some (gs @ gs2, ell)"
  using assms
proof (induction gs2 arbitrary: gs)
  case Nil
  then show ?case by simp
next
  case (Cons g gs2)
  show ?case
  proof (cases gs2)
    case Nil
    with Cons.prems show ?thesis by (simp add: v6_end)
  next
    case (Cons h t)
    let ?r = "Join '':'' (map hex_str gs2)"
    have "?r \<noteq> []" "hd ?r \<noteq> CHR '':''"
      using Cons hd_hex_str [of h] hd_hex_str [of h "[]"] by (cases t; simp)+
    then have "parse_v6_loop gs ell (hex_str g @ CHR '':'' # ?r) = parse_v6_loop (gs @ [g]) ell ?r"
      using Cons.prems by (intro v6_step) auto
    also have "\<dots> = Some ((gs @ [g]) @ gs2, ell)"
      using Cons.prems Cons by (intro Cons.IH) auto
    finally show ?thesis using Cons by simp
  qed
qed

lemma v6_join_ellipsis:
  assumes "gs1 \<noteq> []" "length gs + length gs1 \<le> 8" "\<forall>g\<in>set gs1. g < 65536"
  shows "parse_v6_loop gs None (Join '':'' (map hex_str gs1) @ ''::'' @ r) =
    (if r = [] then Some (gs @ gs1, Some (length gs + length gs1))
     else parse_v6_loop (gs @ gs1) (Some (length gs + length gs1)) r)"
  using assms
proof (induction gs1 arbitrary: gs)
  case Nil
  then show ?case by simp
next
  case (Cons g gs1)
  show ?case
  proof (cases gs1)
    case Nil
    with Cons.prems show ?thesis using v6_ellipsis [of gs g r] by simp
  next
    case (Cons h t)
    let ?s = "Join '':'' (map hex_str gs1) @ ''::'' @ r"
    have "?s \<noteq> []" "hd ?s \<noteq> CHR '':''"
      using Cons hd_hex_str [of h] hd_hex_str [of h "[]"] by (cases t; simp)+
    then have "parse_v6_loop gs None (hex_str g @ CHR '':'' # ?s) = parse_v6_loop (gs @ [g]) None ?s"
      using Cons.prems by (intro v6_step) auto
    moreover have "parse_v6_loop (gs @ [g]) None ?s =
        (if r = [] then Some ((gs @ [g]) @ gs1, Some (length (gs @ [g]) + length gs1))
         else parse_v6_loop ((gs @ [g]) @ gs1) (Some (length (gs @ [g]) + length gs1)) r)"
      using Cons.prems Cons by (intro Cons.IH) auto
    ultimately show ?thesis using Cons by simp
  qed
qed

lemma zero_run_bound: "i + zero_run gs i \<le> length gs \<or> zero_run gs i = 0"
proof -
  have "zero_run gs i \<le> length gs - i"
    unfolding zero_run_def using length_takeWhile_le [of _ "drop i gs"] by simp
  then show ?thesis by linarith
qed

lemma zero_run_zeros: "take (zero_run gs i) (drop i gs) = replicate (zero_run gs i) 0"
proof -
  let ?tw = "takeWhile (\<lambda>g. g = 0) (drop i gs)"
  have "take (length ?tw) (drop i gs) = ?tw" by (rule takeWhile_eq_take [symmetric])
  also have "?tw = replicate (length ?tw) 0"
    by (rule replicate_length_same [symmetric]) (auto dest: set_takeWhileD)
  finally show ?thesis unfolding zero_run_def .
qed

lemma longest_run_step_inv:
  assumes "foldl (\<lambda>(st, l) i. if 2 \<le> f i \<and> l < f i then (i, f i) else (st, l)) (8, 0) is = (st, l)"
  shows "l = 0 \<or> (2 \<le> l \<and> st \<in> set is \<and> l = (f st :: nat))"
  using assms
proof (induction "is" arbitrary: st l rule: rev_induct)
  case Nil
  then show ?case by simp
next
  case (snoc i xs)
  then show ?case by (auto split: prod.splits if_splits)
qed

lemma longest_run_cases:
  assumes "longest_run gs = (st, l)" and "length gs = 8"
  shows "l = 0 \<or> (2 \<le> l \<and> st + l \<le> 8 \<and> take st gs @ replicate l 0 @ drop (st + l) gs = gs)"
proof -
  have "l = 0 \<or> (2 \<le> l \<and> l = zero_run gs st)"
    using longest_run_step_inv [of "zero_run gs" "[0..<8]" st l] assms(1)
    unfolding longest_run_def by auto
  then consider "l = 0" | "2 \<le> l" "l = zero_run gs st" by blast
  then show ?thesis
  proof cases
    case 2
    then have "st + l \<le> 8" using zero_run_bound [of st gs] assms(2) by auto
    moreover have "take l (drop st gs) = replicate l 0" using 2 zero_run_zeros by metis
    then have "take st gs @ replicate l 0 @ drop (st + l) gs = gs"
      by (metis add.commute append_take_drop_id drop_drop)
    ultimately show ?thesis using 2 by simp
  qed simp
qed

lemma Join_hex_Nil [simp]: "Join '':'' (map hex_str gs) = [] \<longleftrightarrow> gs = []"
  by (cases gs; cases "tl gs") auto

lemma parse_v6_body_string:
  assumes len: "length gs = 8" and bd: "\<forall>g\<in>set gs. g < 65536"
  shows "parse_v6_body (v6_body_string gs) = Some gs"
proof -
  obtain st l where run: "longest_run gs = (st, l)" by (cases "longest_run gs")
  have body: "parse_v6_body s = (case parse_v6_loop [] None s of None \<Rightarrow> None
      | Some (gs, ell) \<Rightarrow> expand_ellipsis gs ell)" if "s \<noteq> []" "hd s \<noteq> CHR '':''" for s
    using that by (cases s) (auto simp: parse_v6_body_def HasPrefix_def)
  have hdJ: "hd (Join '':'' (map hex_str xs) @ r) \<noteq> CHR '':''" if "xs \<noteq> []" for xs r
    using that hd_hex_str by (cases xs; cases "tl xs") auto
  consider "l = 0" | "2 \<le> l" "st + l \<le> 8" "take st gs @ replicate l 0 @ drop (st + l) gs = gs"
    using longest_run_cases [OF run len] by blast
  then show ?thesis
  proof cases
    case 1
    have "gs \<noteq> []" using len by auto
    moreover from this have "parse_v6_loop [] None (Join '':'' (map hex_str gs)) = Some ([] @ gs, None)"
      by (intro v6_join) (use len bd in auto)
    ultimately show ?thesis
      using 1 run len hdJ [of gs "[]"] by (simp add: v6_body_string_def body expand_ellipsis_def)
  next
    case 2
    let ?a = "take st gs" and ?b = "drop (st + l) gs"
    let ?B = "Join '':'' (map hex_str ?b)"
    have str: "v6_body_string gs = Join '':'' (map hex_str ?a) @ ''::'' @ ?B"
      using 2(1) run by (simp add: v6_body_string_def)
    have lens: "length ?a = st" "length ?b = 8 - (st + l)" using 2 len by auto
    have bds: "\<forall>g\<in>set ?a. g < 65536" "\<forall>g\<in>set ?b. g < 65536"
      using bd by (auto dest: in_set_takeD in_set_dropD)
    have loop_b: "parse_v6_loop xs ell ?B = Some (xs @ ?b, ell)" if "?b \<noteq> []" "length xs = st" for xs ell
      using that lens 2 bds by (intro v6_join) auto
    have fin: "expand_ellipsis (?a @ ?b) (Some st) = Some gs"
      using 2 lens len by (simp add: expand_ellipsis_def)
    show ?thesis
    proof (cases "st = 0")
      case True
      then show ?thesis using str loop_b [of "[]" "Some 0"] fin 2 len
        by (cases "?b = []") (auto simp: parse_v6_body_def HasPrefix_def)
    next
      case False
      then have ne: "?a \<noteq> []" using len by auto
      have "parse_v6_loop [] None (v6_body_string gs) =
          (if ?B = [] then Some ([] @ ?a, Some (length ([] :: nat list) + length ?a))
           else parse_v6_loop ([] @ ?a) (Some (length ([] :: nat list) + length ?a)) ?B)"
        unfolding str by (rule v6_join_ellipsis [OF ne]) (use lens bds 2 in auto)
      with ne show ?thesis
        using loop_b [of ?a "Some st"] fin lens hdJ [of ?a] str by (auto simp: body)
    qed
  qed
qed

lemma v6_groups_places: "v6_groups w = map (\<lambda>k. unat w div 65536 ^ k mod 65536) (rev [0..<8])"
  by (simp add: v6_groups_def unat_drop_bit places_lists)

lemma v6_of_v6_groups: "v6_of_groups (v6_groups w) z = V6 w z"
proof -
  have "unat w < 65536 ^ 8" using unsigned_less [of w, where ?'a = nat] by simp
  then show ?thesis
    by (simp add: v6_of_groups_def v6_groups_places digits_val_places)
qed

lemma v6_groups_wf: "length (v6_groups w) = 8" "\<forall>g\<in>set (v6_groups w). g < 65536"
  by (auto simp: v6_groups_def)

text \<open>An IPv4-mapped address: the last two groups printed as an IPv4 address.\<close>

lemma digit_is_hex: "is_digit c \<Longrightarrow> is_hex c"
  by (simp add: hex_digit_def)

lemma v6_embedded:
  assumes "length fs = 4" "\<forall>f\<in>set fs. f \<le> 255" "length gs \<le> 6"
  shows "parse_v6_loop gs (Some e) (Join ''.'' (map itoa fs)) =
    Some (gs @ [fs ! 0 * 256 + fs ! 1, fs ! 2 * 256 + fs ! 3], Some e)"
proof -
  let ?s = "Join ''.'' (map itoa fs)"
  obtain r where s: "?s = itoa (fs ! 0) @ CHR ''.'' # r"
    using assms(1) by (auto simp: numeral_eq_Suc length_Suc_conv)
  have "takeWhile is_hex (itoa (fs ! 0) @ CHR ''.'' # r) = itoa (fs ! 0) @ takeWhile is_hex (CHR ''.'' # r)"
    by (rule takeWhile_append2) (rule digit_is_hex, erule itoa_digits)
  then have tw: "takeWhile is_hex ?s = itoa (fs ! 0)" by (simp add: s)
  have "fs ! 0 \<in> set fs" using assms(1) by (cases fs) auto
  then have "length (itoa (fs ! 0)) \<le> 3" using assms(2) by (intro length_itoa) fastforce
  moreover have "parse_v4_fields ?s = Some fs" using assms(1,2) by (rule parse_v4_fields_string)
  ultimately show ?thesis
    unfolding parse_v6_loop.simps [of gs "Some e" ?s] tw
    using assms(3) by (simp add: Let_def s)
qed

lemma v4_fields_ucast_groups:
  fixes w :: "128 word"
  defines "fs \<equiv> v4_fields (ucast w)"
  shows "v6_groups w ! 6 = fs ! 0 * 256 + fs ! 1" "v6_groups w ! 7 = fs ! 2 * 256 + fs ! 3"
proof -
  let ?n = "unat w"
  have m: "unat (ucast w :: 32 word) = ?n mod 2 ^ 32" by (simp add: unsigned_ucast_eq take_bit_eq_mod)
  have dig: "x div 256 mod 256 * 256 + x mod 256 = x mod 65536" for x :: nat
    using mod_mult2_eq [of x 256 256] by simp
  have "?n mod (65536 * 65536) = 65536 * (?n div 65536 mod 65536) + ?n mod 65536"
    by (rule mod_mult2_eq)
  then have d32: "?n mod 2 ^ 32 div 2 ^ 16 = ?n div 65536 mod 65536" by simp
  have top: "?n mod 4294967296 div 16777216 < 256" by (simp add: less_mult_imp_div_less)
  show "v6_groups w ! 6 = fs ! 0 * 256 + fs ! 1"
    using top dig [of "?n mod 2 ^ 32 div 2 ^ 16"] d32
    by (simp add: fs_def v4_fields_def v6_groups_def unat_drop_bit m div_mult2_eq [symmetric])
  show "v6_groups w ! 7 = fs ! 2 * 256 + fs ! 3"
    using dig [of "?n mod 2 ^ 32"]
    by (simp add: fs_def v4_fields_def v6_groups_def unat_drop_bit m mod_mod_cancel)
qed

lemma parse_v6_body_4in6:
  assumes "is_4in6 w"
  shows "parse_v6_body (''::ffff:'' @ v4_string (ucast w)) = Some (v6_groups w)"
proof -
  let ?fs = "v4_fields (ucast w)" and ?s = "v4_string (ucast w)"
  have fs: "length ?fs = 4" "\<forall>f\<in>set ?fs. f \<le> 255" by (auto simp: v4_fields_def)
  have s: "?s = Join ''.'' (map itoa ?fs)" by (simp add: v4_string_def)
  obtain r where r: "?s = itoa (hd ?fs) @ CHR ''.'' # r" by (simp add: v4_string_def v4_fields_def)
  have "hd (itoa (hd ?fs)) \<in> set (itoa (hd ?fs))" by (rule hd_in_set) simp
  then have "is_digit (hd (itoa (hd ?fs)))" by (rule itoa_digits)
  moreover have "hd ?s = hd (itoa (hd ?fs))" unfolding r by simp
  ultimately have "is_digit (hd ?s)" by (simp only:)
  then have ne: "?s \<noteq> []" "hd ?s \<noteq> CHR '':''" using r by (auto simp: in_range_def)
  have ffff: "hex_str 65535 = ''ffff''"
    by (simp add: hex_str_def nat_digits.simps digit_char_def char_of_eq_iff take_bit_eq_mod)
  have "parse_v6_loop [] (Some 0) (hex_str 65535 @ CHR '':'' # ?s) = parse_v6_loop ([] @ [65535]) (Some 0) ?s"
    using ne by (intro v6_step) auto
  also have "\<dots> = Some ([65535, ?fs ! 0 * 256 + ?fs ! 1, ?fs ! 2 * 256 + ?fs ! 3], Some 0)"
    unfolding s using v6_embedded [OF fs, of "[65535]" 0] by simp
  finally have loop: "parse_v6_loop [] (Some 0) (''ffff:'' @ ?s) = \<dots>" by (simp add: ffff)
  have "drop 6 (v6_groups w) = [v6_groups w ! 6, v6_groups w ! 7]" by (simp add: v6_groups_def)
  then have g: "v6_groups w = [0, 0, 0, 0, 0, 65535, ?fs ! 0 * 256 + ?fs ! 1, ?fs ! 2 * 256 + ?fs ! 3]"
    using assms append_take_drop_id [of 6 "v6_groups w"] v4_fields_ucast_groups [of w]
    by (simp add: is_4in6_def)
  have five: "replicate 5 (0::nat) = [0, 0, 0, 0, 0]" by (simp add: numeral_eq_Suc)
  show ?thesis
    unfolding g using loop ne by (simp add: parse_v6_body_def HasPrefix_def expand_ellipsis_def five)
qed

lemma set_Join: "set (Join sep ss) \<subseteq> (\<Union>s\<in>set ss. set s) \<union> set sep"
  by (induction sep ss rule: Join.induct) auto

lemma v6_text_chars:
  assumes "c \<in> set (if is_4in6 w then ''::ffff:'' @ v4_string (ucast w) else v6_body_string (v6_groups w))"
  shows "is_hex c \<or> c = CHR '':'' \<or> c = CHR ''.''"
proof -
  have v4: "is_hex c \<or> c = CHR ''.''" if "c \<in> set (v4_string x)" for x
    using that set_Join [of "''.''" "map itoa (v4_fields x)"] digit_is_hex itoa_digits
    unfolding v4_string_def by fastforce
  have J: "is_hex c \<or> c = CHR '':''" if "c \<in> set (Join '':'' (map hex_str gs))" for gs
    using that set_Join [of "'':''" "map hex_str gs"] hex_str_hex by fastforce
  have ff: "is_hex (CHR ''f'')" by (simp add: hex_digit_def in_range_def)
  show ?thesis
  proof (cases "is_4in6 w")
    case True
    with assms v4 ff show ?thesis by auto
  next
    case False
    with assms J show ?thesis by (auto simp: v6_body_string_def Let_def split: prod.splits if_splits)
  qed
qed

lemma Cut_absent: "c \<notin> set s \<Longrightarrow> Cut s [c] = (s, [], False)"
  using str_index_None_iff [of "[c]" s] by (auto simp: Cut_def in_set_conv_decomp)

lemma str_index_single: "c \<notin> set a \<Longrightarrow> str_index [c] (a @ c # b) = Some (length a)"
  by (induction a) (auto simp: HasPrefix_def)

lemma Cut_present: "c \<notin> set a \<Longrightarrow> Cut (a @ c # b) [c] = (a, b, True)"
  by (simp add: Cut_def str_index_single)

lemma find_colon:
  assumes "\<forall>c\<in>set a. is_hex c"
  shows "find (\<lambda>c. c = CHR ''.'' \<or> c = CHR '':'' \<or> c = CHR ''%'') (a @ CHR '':'' # b) = Some (CHR '':'')"
  using assms by (induction a) auto

text \<open>Every address reads back from its printed form.\<close>

lemma ParseAddr_addr_string [simp]: "ParseAddr (addr_string a) = Some a"
proof (cases a)
  case (V4 w)
  then show ?thesis by (simp add: addr_string_def)
next
  case (V6 w z)
  let ?t = "if is_4in6 w then ''::ffff:'' @ v4_string (ucast w) else v6_body_string (v6_groups w)"
  have body: "parse_v6_body ?t = Some (v6_groups w)"
    using parse_v6_body_4in6 [of w] parse_v6_body_string [OF v6_groups_wf, of w] by presburger
  have pct: "CHR ''%'' \<notin> set ?t" using v6_text_chars [of "CHR ''%''" w] by fastforce
  have "\<exists>h r. ?t = h @ CHR '':'' # r \<and> (\<forall>c\<in>set h. is_hex c)"
  proof (cases "is_4in6 w")
    case False
    obtain st l where "longest_run (v6_groups w) = (st, l)" by (cases "longest_run (v6_groups w)")
    moreover have "\<exists>h r. Join '':'' (map hex_str (g # g' # gs)) = h @ CHR '':'' # r \<and> (\<forall>c\<in>set h. is_hex c)" for g g' gs
      using hex_str_hex [of _ g] by auto
    moreover have "\<exists>h r. Join '':'' (map hex_str gs) @ '':'' @ s = h @ CHR '':'' # r \<and> (\<forall>c\<in>set h. is_hex c)" for gs s
    proof (cases gs)
      case (Cons g gs')
      then show ?thesis using hex_str_hex [of _ g] by (cases gs') auto
    next
      case Nil
      then have "Join '':'' (map hex_str gs) @ '':'' @ s = [] @ CHR '':'' # s" by simp
      then show ?thesis by (metis empty_iff empty_set)
    qed
    moreover obtain g g' gs where "v6_groups w = g # g' # gs" by (simp add: v6_groups_def)
    ultimately show ?thesis using False by (auto simp: v6_body_string_def)
  next
    case True
    then have "?t = [] @ CHR '':'' # '':ffff:'' @ v4_string (ucast w)" by simp
    then show ?thesis by (metis empty_iff empty_set)
  qed
  then obtain h r where hr: "?t = h @ CHR '':'' # r" "\<forall>c\<in>set h. is_hex c" by blast
  have parse: "ParseAddr (?t @ x) = parse_v6 (?t @ x)" for x
    unfolding hr(1) using find_colon [OF hr(2), of "r @ x"] by (simp add: ParseAddr_def)
  have str: "addr_string a = ?t @ (if z = [] then [] else CHR ''%'' # z)" by (simp add: V6 addr_string_def)
  show ?thesis unfolding str parse
    using body pct V6 by (simp add: parse_v6_def Cut_absent Cut_present v6_of_v6_groups)
qed

subsection \<open>Prefixes\<close>

lemma cut_last_append: "sep \<notin> set b \<Longrightarrow> cut_last sep (a @ sep # b) = Some (a, b)"
proof -
  assume b: "sep \<notin> set b"
  have "takeWhile (\<lambda>c. c \<noteq> sep) (rev b @ sep # rev a) = rev b"
    using b by (subst takeWhile_append2) auto
  then show ?thesis by (simp add: cut_last_def)
qed

lemma parse_bits_itoa [simp]: "parse_bits (itoa n) = Some n"
proof -
  have "hd (itoa n) \<noteq> CHR ''0''" if "length (itoa n) > 1"
  proof -
    let ?ds = "nat_digits 10 n"
    have ne: "?ds \<noteq> []" and hd0: "hd ?ds \<noteq> 0"
      using that nat_digits_hd [of 10 n] by (auto simp: itoa_def)
    moreover from ne have "hd ?ds < 10" using nat_digits_less [of 10 "hd ?ds" n] by simp
    ultimately have "?ds \<noteq> []" "hd ?ds < 10" by simp_all
    then have "byte (hd (itoa n)) = 48 + hd ?ds" by (simp add: itoa_def hd_map byte_digit_char)
    with hd0 show ?thesis by auto
  qed
  moreover have "list_all is_digit (itoa n)" by (simp add: list_all_iff itoa_digits)
  ultimately show ?thesis by (simp add: parse_bits_def)
qed

definition cidr_wf :: "cidr \<Rightarrow> bool" where
  "cidr_wf p = (case p of Cidr a n \<Rightarrow> zone_of a = [] \<and> n \<le> bit_len a)"

lemma ParsePrefix_wf: "ParsePrefix s = Some p \<Longrightarrow> cidr_wf p"
  by (auto simp: ParsePrefix_def cidr_wf_def split: option.splits if_splits)

lemma Masked_wf: "cidr_wf p \<Longrightarrow> cidr_wf (Masked p)"
  by (auto simp: cidr_wf_def Masked_def bit_len_def zone_of_def split: cidr.splits addr.splits)

lemma Masked_idem [simp]: "Masked (Masked p) = Masked p"
  by (auto simp: Masked_def split: cidr.splits addr.splits intro!: bit_word_eqI
      simp: bit_simps)

lemma ParsePrefix_cidr_string:
  assumes "cidr_wf p"
  shows "ParsePrefix (cidr_string p) = Some p"
proof -
  obtain a n where p: "p = Cidr a n" by (cases p)
  have "CHR ''/'' \<notin> set (itoa n)" using itoa_digits [of "CHR ''/''" n] by (auto simp: in_range_def)
  then have "cut_last (CHR ''/'') (cidr_string p) = Some (addr_string a, itoa n)"
    by (simp add: p cidr_string_def cut_last_append)
  with assms show ?thesis by (simp add: ParsePrefix_def p cidr_wf_def)
qed

text \<open>What a prefix contains: the addresses of its family whose masked form is the prefix's.\<close>

lemma drop_bit_xor_zero:
  fixes a b :: "'a::len word"
  shows "drop_bit n (a XOR b) = 0 \<longleftrightarrow> drop_bit n a = drop_bit n b"
  by (auto simp: bit_eq_iff bit_simps)

lemma drop_push_drop:
  fixes w :: "'a::len word"
  shows "drop_bit m (push_bit m (drop_bit m w)) = drop_bit m w"
  by (rule bit_word_eqI) (auto simp: bit_simps dest: bit_imp_le_length)

lemma cidr_contains_v4: "cidr_contains (Cidr (V4 b) n) a \<longleftrightarrow>
    (\<exists>w. a = V4 w \<and> Masked (Cidr (V4 w) n) = Masked (Cidr (V4 b) n))"
proof (cases a)
  case (V4 w)
  have "drop_bit m (w XOR b) = 0 \<longleftrightarrow> push_bit m (drop_bit m w) = push_bit m (drop_bit m b)" for m
    unfolding drop_bit_xor_zero
    by (metis drop_push_drop)
  with V4 show ?thesis by (simp add: cidr_contains_def Masked_def)
next
  case (V6 w z)
  then show ?thesis by (simp add: cidr_contains_def)
qed

text \<open>\<open>net.JoinHostPort\<close>: an IPv6 literal is bracketed.\<close>

definition JoinHostPort :: "string \<Rightarrow> string \<Rightarrow> string" where
  "JoinHostPort host port =
     (if CHR '':'' \<in> set host then ''['' @ host @ '']:'' @ port else host @ '':'' @ port)"

lemma SplitHostPort_JoinHostPort:
  assumes "set host \<inter> {CHR ''['', CHR '']''} = {}" "set port \<inter> {CHR ''['', CHR '']'', CHR '':''} = {}"
  shows "SplitHostPort (JoinHostPort host port) = Some (host, port)"
proof (cases "CHR '':'' \<in> set host")
  case True
  have "cut_last (CHR '':'') ((''['' @ host @ '']'') @ CHR '':'' # port) = Some (''['' @ host @ '']'', port)"
    using assms(2) by (intro cut_last_append) auto
  moreover have "str_index '']'' ((''['' @ host) @ CHR '']'' # ('':'' @ port)) = Some (length (''['' @ host))"
    using assms(1) by (intro str_index_single) auto
  ultimately show ?thesis
    using True assms by (auto simp: SplitHostPort_def JoinHostPort_def last_index_def)
next
  case False
  have "cut_last (CHR '':'') (host @ CHR '':'' # port) = Some (host, port)"
    using assms(2) by (intro cut_last_append) auto
  moreover have "hd (host @ '':'' @ port) \<noteq> CHR ''[''" using assms(1) by (cases host) auto
  ultimately show ?thesis
    using False assms by (auto simp: SplitHostPort_def JoinHostPort_def last_index_def)
qed

end
