(* ===== verification/SecretHost.thy ===== *)
theory SecretHost
  imports NetIP
begin

section \<open>Secret hosts (\<open>internal/sinjector/host.go\<close>)\<close>

text \<open>
  A secret may be injected only into requests for the hosts it lists. This theory models the
  parsing of host entries (\<open>parseSecretHost\<close>, \<open>ParseSecretHosts\<close>), of CONNECT targets
  (\<open>parseRequestTarget\<close>) and the matching between them (\<open>matches\<close>,
  \<open>SecretHostMatches\<close>), and proves what the wildcard forms cover, that canonical entries are
  stable and that canonicalisation does not change what an entry matches.
\<close>

datatype hostKind = hostDomain | hostWildcardDomain | hostDeepWildcardDomain | hostIP | hostCIDR

record secretHost =
  raw :: string
  kind :: hostKind
  domain :: string
  sh_addr :: "addr option"
  sh_prefix :: "cidr option"

record requestTarget =
  rt_raw :: string
  rt_domain :: string
  rt_addr :: "addr option"

datatype host_error =
    HostRequired
  | NoHosts
  | TooManyHosts
  | HostnameRequired
  | NotAHostnameButIP
  | BadHostname "string list"
  | InvalidWildcardHost string host_error
  | InvalidHost string host_error

definition maxSecretHosts :: nat where
  "maxSecretHosts = 100"

definition validateHostname :: "host_env \<Rightarrow> string \<Rightarrow> host_error option" where
  "validateHostname env host0 =
     (let host = TrimSuffix (TrimSpace host0) ''.'' in
      if host = [] then Some HostnameRequired
      else if ParseIP_ok host then Some NotAHostnameButIP
      else if dns1123 env host \<noteq> [] then Some (BadHostname (dns1123 env host))
      else None)"

definition stripPort :: "string \<Rightarrow> string" where
  "stripPort host = (case SplitHostPort host of Some (h, _) \<Rightarrow> h | None \<Rightarrow> host)"

definition parseRequestTarget :: "host_env \<Rightarrow> string \<Rightarrow> (host_error, requestTarget) result" where
  "parseRequestTarget env host0 =
     (let host1 = stripPort (TrimSpace host0);
          host2 = Trim host1 ''[]'' in
      if host2 = [] then Err HostRequired
      else case ParseAddr host2 of
          Some a \<Rightarrow> Ok \<lparr>rt_raw = addr_string a, rt_domain = [], rt_addr = Some a\<rparr>
        | None \<Rightarrow>
            (let host3 = ToLower (uni_lower env) host2 in
             case validateHostname env host3 of
               Some e \<Rightarrow> Err e
             | None \<Rightarrow>
                 (let d = TrimSuffix host3 ''.'' in
                  Ok \<lparr>rt_raw = d, rt_domain = d, rt_addr = None\<rparr>)))"

definition parseSecretHost :: "host_env \<Rightarrow> string \<Rightarrow> (host_error, secretHost) result" where
  "parseSecretHost env target0 =
     (let target = TrimSpace target0 in
      if target = [] then Err HostRequired
      else case ParsePrefix target of
        Some p0 \<Rightarrow>
          (let p = Masked p0 in
           Ok \<lparr>raw = cidr_string p, kind = hostCIDR, domain = [], sh_addr = None, sh_prefix = Some p\<rparr>)
      | None \<Rightarrow>
        (case ParseAddr (Trim target ''[]'') of
          Some a \<Rightarrow>
            Ok \<lparr>raw = addr_string a, kind = hostIP, domain = [], sh_addr = Some a, sh_prefix = None\<rparr>
        | None \<Rightarrow>
          (case CutPrefix target ''**.'' of
            Some suffix0 \<Rightarrow>
              (let suffix = ToLower (uni_lower env) suffix0 in
               case validateHostname env suffix of
                 Some e \<Rightarrow> Err (InvalidWildcardHost target e)
               | None \<Rightarrow>
                   (let d = TrimSuffix suffix ''.'' in
                    Ok \<lparr>raw = ''**.'' @ d, kind = hostDeepWildcardDomain, domain = d,
                        sh_addr = None, sh_prefix = None\<rparr>))
          | None \<Rightarrow>
            (case CutPrefix target ''*.'' of
              Some suffix0 \<Rightarrow>
                (let suffix = ToLower (uni_lower env) suffix0 in
                 case validateHostname env suffix of
                   Some e \<Rightarrow> Err (InvalidWildcardHost target e)
                 | None \<Rightarrow>
                     (let d = TrimSuffix suffix ''.'' in
                      Ok \<lparr>raw = ''*.'' @ d, kind = hostWildcardDomain, domain = d,
                          sh_addr = None, sh_prefix = None\<rparr>))
            | None \<Rightarrow>
                (let lowered = ToLower (uni_lower env) target in
                 case validateHostname env lowered of
                   Some e \<Rightarrow> Err (InvalidHost lowered e)
                 | None \<Rightarrow>
                     (let d = TrimSuffix lowered ''.'' in
                      Ok \<lparr>raw = d, kind = hostDomain, domain = d,
                          sh_addr = None, sh_prefix = None\<rparr>))))))"

definition host_matches :: "secretHost \<Rightarrow> requestTarget \<Rightarrow> bool" where
  "host_matches t req = (case kind t of
      hostDomain \<Rightarrow> rt_domain req = domain t
    | hostWildcardDomain \<Rightarrow>
        (if rt_domain req = domain t \<or> \<not> HasSuffix (rt_domain req) (''.'' @ domain t) then False
         else \<not> Contains (TrimSuffix (rt_domain req) (''.'' @ domain t)) ''.'')
    | hostDeepWildcardDomain \<Rightarrow>
        rt_domain req \<noteq> domain t \<and> HasSuffix (rt_domain req) (''.'' @ domain t)
    | hostIP \<Rightarrow> rt_addr req \<noteq> None \<and> rt_addr req = sh_addr t
    | hostCIDR \<Rightarrow> (case (rt_addr req, sh_prefix t) of
          (Some a, Some p) \<Rightarrow> cidr_contains p a
        | _ \<Rightarrow> False))"

text \<open>The loop of \<open>ParseSecretHosts\<close>: entries seen so far and the output built so far.\<close>

fun parse_hosts_loop ::
  "host_env \<Rightarrow> string list \<Rightarrow> string list \<Rightarrow> (host_error, string list) result" where
  "parse_hosts_loop env out [] = Ok out"
| "parse_hosts_loop env out (h # hs) = (case parseSecretHost env h of
      Inl e \<Rightarrow> Err e
    | Inr p \<Rightarrow>
        if raw p \<in> set out then parse_hosts_loop env out hs
        else parse_hosts_loop env (out @ [raw p]) hs)"

definition ParseSecretHosts :: "host_env \<Rightarrow> string list \<Rightarrow> (host_error, string list) result" where
  "ParseSecretHosts env hosts =
     (if hosts = [] then Err NoHosts
      else if length hosts > maxSecretHosts then Err TooManyHosts
      else map_sum id sort (parse_hosts_loop env [] hosts))"

definition SecretHostMatches :: "host_env \<Rightarrow> string \<Rightarrow> string list \<Rightarrow> bool" where
  "SecretHostMatches env connectHost hosts = (case parseRequestTarget env connectHost of
      Inl _ \<Rightarrow> False
    | Inr req \<Rightarrow>
        list_ex (\<lambda>h. case parseSecretHost env h of Inl _ \<Rightarrow> False | Inr p \<Rightarrow> host_matches p req) hosts)"

subsection \<open>Well-formed entries read back\<close>

text \<open>
  An entry is well formed when its domain is itself an accepted DNS name or its address carries
  no zone. Entries written without blanks and without a zone parse to well-formed ones.
\<close>

definition host_wf :: "host_env \<Rightarrow> secretHost \<Rightarrow> bool" where
  "host_wf env p \<longleftrightarrow> (case kind p of
      hostIP \<Rightarrow> (\<exists>a. p = \<lparr>raw = addr_string a, kind = hostIP, domain = [], sh_addr = Some a, sh_prefix = None\<rparr>
                  \<and> zone_of a = [])
    | hostCIDR \<Rightarrow> (\<exists>c. p = \<lparr>raw = cidr_string (Masked c), kind = hostCIDR, domain = [], sh_addr = None,
                  sh_prefix = Some (Masked c)\<rparr> \<and> cidr_wf c)
    | k \<Rightarrow> dns1123 env (domain p) = [] \<and> \<not> ParseIP_ok (domain p)
          \<and> p = \<lparr>raw = (if k = hostWildcardDomain then ''*.'' else if k = hostDeepWildcardDomain then ''**.'' else [])
                  @ domain p, kind = k, domain = domain p, sh_addr = None, sh_prefix = None\<rparr>)"

text \<open>The bytes of printed addresses: visible, no brackets, no slash.\<close>

lemma is_hex_byte: "is_hex c \<Longrightarrow> 48 \<le> byte c \<and> byte c \<le> 102 \<and> c \<noteq> CHR ''['' \<and> c \<noteq> CHR '']''"
  by (auto simp: hex_digit_def in_range_def split: if_splits)

lemma addr_string_char:
  assumes "zone_of a = []" "c \<in> set (addr_string a)"
  shows "is_hex c \<or> c = CHR '':'' \<or> c = CHR ''.''"
proof (cases a)
  case (V4 w)
  with assms show ?thesis
    using set_Join [of "''.''" "map itoa (v4_fields w)"] digit_is_hex itoa_digits
    by (fastforce simp: addr_string_def v4_string_def)
next
  case (V6 w z)
  with assms have "z = []" by (simp add: zone_of_def)
  with V6 assms show ?thesis using v6_text_chars [of c w] by (simp add: addr_string_def split: if_splits)
qed

lemma addr_string_not_Nil: "addr_string a \<noteq> []"
  using ParseAddr_addr_string [of a] by (auto simp: ParseAddr_def)

lemma addr_string_visible: "zone_of a = [] \<Longrightarrow> visible (addr_string a)"
  unfolding visible_def list_all_iff
  using addr_string_char [of a] is_hex_byte by fastforce

lemma addr_string_absent:
  assumes "zone_of a = []" "\<not> is_hex c" "c \<noteq> CHR '':''" "c \<noteq> CHR ''.''"
  shows "c \<notin> set (addr_string a)"
  using assms addr_string_char by blast

lemma ParsePrefix_no_slash: "CHR ''/'' \<notin> set s \<Longrightarrow> ParsePrefix s = None"
  by (simp add: ParsePrefix_def cut_last_def)

lemma Trim_absent: "\<forall>c\<in>set s. c \<notin> set cs \<Longrightarrow> Trim s cs = s"
proof -
  assume a: "\<forall>c\<in>set s. c \<notin> set cs"
  have "dropWhile (\<lambda>c. c \<in> set cs) t = t" if "set t \<subseteq> set s" for t
    using that a by (cases t) auto
  then show ?thesis by (simp add: Trim_def)
qed

lemma parse_v4_loop_bad_first: "\<not> is_digit c \<Longrightarrow> parse_v4_fields (c # cs) = None"
  by (simp add: parse_v4_fields_def)

text \<open>A string without \<open>%\<close> never parses to an address with a zone.\<close>

lemma ParseAddr_no_zone: "CHR ''%'' \<notin> set s \<Longrightarrow> ParseAddr s = Some a \<Longrightarrow> zone_of a = []"
  by (auto simp: ParseAddr_def parse_v6_def v4_of_fields_def v6_of_groups_def zone_of_def Cut_absent
      split: option.splits if_splits)

lemma dns_name_ParseAddr:
  assumes "dns_name d" "\<not> ParseIP_ok d"
  shows "ParseAddr d = None"
proof -
  have "CHR ''%'' \<notin> set d"
    using dns_name_not [OF assms(1), of "CHR ''%''"] by (simp add: dns_char_def dns_alnum_def in_range_def)
  with assms(2) show ?thesis
    using ParseAddr_no_zone [of d] by (auto simp: ParseIP_ok_def split: option.splits)
qed

lemma star_ParseAddr:
  assumes "dns_name d" "CHR ''*'' # t @ d = s" "set t \<subseteq> {CHR ''*'', CHR ''.''}"
  shows "ParseAddr s = None"
proof (cases "find (\<lambda>c. c = CHR ''.'' \<or> c = CHR '':'' \<or> c = CHR ''%'') s")
  case (Some c)
  have "CHR '':'' \<notin> set s"
    using dns_name_not [OF assms(1), of "CHR '':''"] assms(2,3)
    by (auto simp: dns_char_def dns_alnum_def in_range_def)
  moreover from Some have "c \<in> set s" by (auto simp: find_Some_iff in_set_conv_nth)
  moreover have "parse_v4_fields s = None"
    unfolding assms(2) [symmetric] by (rule parse_v4_loop_bad_first) (simp add: in_range_def)
  ultimately show ?thesis using Some by (auto simp: ParseAddr_def)
qed (simp add: ParseAddr_def)

lemma validateHostname_dns:
  assumes "dns1123_documented env" "dns1123 env d = []" "\<not> ParseIP_ok d"
  shows "validateHostname env d = None"
proof -
  have "dns_name d" using assms by (simp add: dns1123_documented_def)
  then have "TrimSuffix (TrimSpace d) ''.'' = d" "d \<noteq> []"
    by (simp_all add: TrimSpace_visible dns_name_visible dns_name_no_final_dot) (simp add: dns_name_def)
  with assms show ?thesis by (simp add: validateHostname_def)
qed

lemma parseSecretHost_raw_domain:
  assumes doc: "dns1123_documented env" and d: "dns1123 env d = []" "\<not> ParseIP_ok d"
  shows "parseSecretHost env d =
      Ok \<lparr>raw = d, kind = hostDomain, domain = d, sh_addr = None, sh_prefix = None\<rparr>"
    and "parseSecretHost env (''*.'' @ d) =
      Ok \<lparr>raw = ''*.'' @ d, kind = hostWildcardDomain, domain = d, sh_addr = None, sh_prefix = None\<rparr>"
    and "parseSecretHost env (''**.'' @ d) =
      Ok \<lparr>raw = ''**.'' @ d, kind = hostDeepWildcardDomain, domain = d, sh_addr = None, sh_prefix = None\<rparr>"
proof -
  have nm: "dns_name d" using doc d by (simp add: dns1123_documented_def)
  have chars: "c \<notin> set d" if "c \<in> set ''/[]*''" for c
    by (rule dns_name_not [OF nm]) (use that in \<open>auto simp: dns_char_def dns_alnum_def in_range_def\<close>)
  have ne: "d \<noteq> []" using nm by (simp add: dns_name_def)
  have vis: "visible d" using nm by (rule dns_name_visible)
  have vh: "validateHostname env d = None" using doc d by (rule validateHostname_dns)
  have low: "ToLower (uni_lower env) d = d" using nm by (rule dns_name_ToLower)
  have dot: "TrimSuffix d ''.'' = d" using nm by (rule dns_name_no_final_dot)
  have triv: "TrimSpace s = s" "ParsePrefix s = None" "Trim s ''[]'' = s"
    if s: "s = t @ d" "set t \<subseteq> {CHR ''*'', CHR ''.''}" for s t
  proof -
    have sl: "CHR ''/'' \<notin> set s" "CHR ''['' \<notin> set s" "CHR '']'' \<notin> set s"
      using s chars [of "CHR ''/''"] chars [of "CHR ''[''"] chars [of "CHR '']''"] by auto
    have "visible t" using s(2) by (auto simp: visible_def list_all_iff)
    with vis have "visible s" by (simp add: s(1) visible_def)
    then show "TrimSpace s = s" by (rule TrimSpace_visible)
    show "ParsePrefix s = None" using sl(1) by (rule ParsePrefix_no_slash)
    show "Trim s ''[]'' = s" by (rule Trim_absent) (use sl in auto)
  qed
  show "parseSecretHost env d =
      Ok \<lparr>raw = d, kind = hostDomain, domain = d, sh_addr = None, sh_prefix = None\<rparr>"
  proof -
    have "CutPrefix d ''**.'' = None" "CutPrefix d ''*.'' = None"
      using chars [of "CHR ''*''"] by (auto simp: CutPrefix_def HasPrefix_iff)
    then show ?thesis
      using ne triv [of d "[]"] dns_name_ParseAddr [OF nm d(2)] low vh dot
      by (simp add: parseSecretHost_def)
  qed
  show "parseSecretHost env (''*.'' @ d) =
      Ok \<lparr>raw = ''*.'' @ d, kind = hostWildcardDomain, domain = d, sh_addr = None, sh_prefix = None\<rparr>"
  proof -
    have "ParseAddr (''*.'' @ d) = None" by (rule star_ParseAddr [OF nm, of "''.''"]) auto
    moreover have "CutPrefix (''*.'' @ d) ''**.'' = None" by (simp add: CutPrefix_def HasPrefix_def)
    moreover have "CutPrefix (''*.'' @ d) ''*.'' = Some d" by (simp only: CutPrefix_Some)
    ultimately show ?thesis
      using triv [of "''*.'' @ d" "''*.''"] low vh dot by (simp add: parseSecretHost_def)
  qed
  show "parseSecretHost env (''**.'' @ d) =
      Ok \<lparr>raw = ''**.'' @ d, kind = hostDeepWildcardDomain, domain = d, sh_addr = None, sh_prefix = None\<rparr>"
  proof -
    have "ParseAddr (''**.'' @ d) = None" by (rule star_ParseAddr [OF nm, of "''*.''"]) auto
    moreover have "CutPrefix (''**.'' @ d) ''**.'' = Some d" by (simp only: CutPrefix_Some)
    ultimately show ?thesis
      using triv [of "''**.'' @ d" "''**.''"] low vh dot by (simp add: parseSecretHost_def)
  qed
qed

lemma parseSecretHost_raw_ip:
  assumes "zone_of a = []"
  shows "parseSecretHost env (addr_string a) =
      Ok \<lparr>raw = addr_string a, kind = hostIP, domain = [], sh_addr = Some a, sh_prefix = None\<rparr>"
proof -
  have "CHR ''/'' \<notin> set (addr_string a)"
    by (rule addr_string_absent [OF assms]) (simp_all add: hex_digit_def in_range_def)
  moreover have "Trim (addr_string a) ''[]'' = addr_string a"
    by (rule Trim_absent) (use addr_string_absent [OF assms] in \<open>auto simp: hex_digit_def in_range_def\<close>)
  ultimately show ?thesis
    using assms addr_string_not_Nil [of a]
    by (simp add: parseSecretHost_def TrimSpace_visible addr_string_visible ParsePrefix_no_slash)
qed

lemma cidr_string_visible: "cidr_wf c \<Longrightarrow> visible (cidr_string c) \<and> cidr_string c \<noteq> []"
proof (cases c)
  case (Cidr a n)
  assume "cidr_wf c"
  with Cidr have "visible (addr_string a)" by (auto intro!: addr_string_visible simp: cidr_wf_def)
  moreover have "visible (itoa n)"
    using itoa_digits [of _ n] by (fastforce simp: visible_def list_all_iff in_range_def)
  ultimately show ?thesis using Cidr by (simp add: cidr_string_def visible_def)
qed

lemma parseSecretHost_raw_cidr:
  assumes "cidr_wf c"
  shows "parseSecretHost env (cidr_string (Masked c)) =
      Ok \<lparr>raw = cidr_string (Masked c), kind = hostCIDR, domain = [], sh_addr = None,
          sh_prefix = Some (Masked c)\<rparr>"
  using cidr_string_visible [OF Masked_wf [OF assms]] ParsePrefix_cidr_string [OF Masked_wf [OF assms]]
  by (simp add: parseSecretHost_def TrimSpace_visible Let_def)

lemma host_wf_parse:
  assumes "dns1123_documented env" "host_wf env p"
  shows "parseSecretHost env (raw p) = Ok p"
proof (cases "kind p")
  case hostIP
  with assms(2) obtain a where
    p: "p = \<lparr>raw = addr_string a, kind = hostIP, domain = [], sh_addr = Some a, sh_prefix = None\<rparr>"
    and z: "zone_of a = []" by (auto simp: host_wf_def)
  show ?thesis using parseSecretHost_raw_ip [OF z, of env] by (simp add: p)
next
  case hostCIDR
  with assms(2) obtain c where
    p: "p = \<lparr>raw = cidr_string (Masked c), kind = hostCIDR, domain = [], sh_addr = None,
          sh_prefix = Some (Masked c)\<rparr>"
    and c: "cidr_wf c" by (auto simp: host_wf_def)
  show ?thesis using parseSecretHost_raw_cidr [OF c, of env] by (simp add: p)
next
  case hostDomain
  with assms(2) obtain d where
    p: "p = \<lparr>raw = d, kind = hostDomain, domain = d, sh_addr = None, sh_prefix = None\<rparr>"
    and d: "dns1123 env d = []" "\<not> ParseIP_ok d" by (auto simp: host_wf_def)
  show ?thesis using parseSecretHost_raw_domain(1) [OF assms(1) d] by (simp add: p)
next
  case hostWildcardDomain
  with assms(2) obtain d where
    p: "p = \<lparr>raw = ''*.'' @ d, kind = hostWildcardDomain, domain = d, sh_addr = None, sh_prefix = None\<rparr>"
    and d: "dns1123 env d = []" "\<not> ParseIP_ok d" by (auto simp: host_wf_def)
  show ?thesis using parseSecretHost_raw_domain(2) [OF assms(1) d] by (simp add: p)
next
  case hostDeepWildcardDomain
  with assms(2) obtain d where
    p: "p = \<lparr>raw = ''**.'' @ d, kind = hostDeepWildcardDomain, domain = d, sh_addr = None, sh_prefix = None\<rparr>"
    and d: "dns1123 env d = []" "\<not> ParseIP_ok d" by (auto simp: host_wf_def)
  show ?thesis using parseSecretHost_raw_domain(3) [OF assms(1) d] by (simp add: p)
qed

text \<open>
  A plain entry has, between its outer white space, only visible ASCII bytes and no IPv6 zone.
  What it parses to is well formed.
\<close>

definition plain_entry :: "string \<Rightarrow> bool" where
  "plain_entry t \<longleftrightarrow> visible (TrimSpace t) \<and> CHR ''%'' \<notin> set t"

lemma ToLower_visible: "visible s \<Longrightarrow> visible (ToLower uni s)"
  by (auto simp: visible_def ToLower_def list_all_iff ascii_lower_def in_range_def)

lemma validateHostname_visible:
  assumes "validateHostname env s = None" "visible s"
  shows "dns1123 env (TrimSuffix s ''.'') = [] \<and> \<not> ParseIP_ok (TrimSuffix s ''.'')"
  using assms by (simp add: validateHostname_def TrimSpace_visible Let_def split: if_splits)

lemma visible_CutPrefix: "visible s \<Longrightarrow> CutPrefix s p = Some t \<Longrightarrow> visible t"
  by (auto simp: CutPrefix_Some visible_def)

lemma set_Trim: "set (Trim s cs) \<subseteq> set s"
  by (auto simp: Trim_def dest!: set_dropWhileD)

lemma plain_entry_wf:
  assumes "plain_entry t" "parseSecretHost env t = Ok p"
  shows "host_wf env p"
proof -
  let ?t = "TrimSpace t"
  have vis: "visible ?t" using assms(1) by (simp add: plain_entry_def)
  have pct: "CHR ''%'' \<notin> set (Trim ?t ''[]'')"
    using assms(1) set_TrimSpace [of t] set_Trim [of ?t "''[]''"] by (auto simp: plain_entry_def)
  note low = validateHostname_visible [of env "ToLower (uni_lower env) _"] ToLower_visible
  show ?thesis
  proof (cases "ParsePrefix ?t")
    case (Some c)
    with assms(2) show ?thesis
      using ParsePrefix_wf [OF Some]
      by (auto simp: parseSecretHost_def Let_def host_wf_def split: if_splits)
  next
    case pn: None
    show ?thesis
    proof (cases "ParseAddr (Trim ?t ''[]'')")
      case (Some a)
      with assms(2) pn show ?thesis
        using ParseAddr_no_zone [OF pct Some]
        by (auto simp: parseSecretHost_def Let_def host_wf_def split: if_splits)
    next
      case None
      with assms(2) pn low vis show ?thesis
        by (auto simp: parseSecretHost_def Let_def host_wf_def dest: visible_CutPrefix
            split: if_splits option.splits)
    qed
  qed
qed

subsection \<open>The list of hosts\<close>

text \<open>What the loop of \<open>ParseSecretHosts\<close> builds from the entries it accepts.\<close>

definition host_raws :: "host_env \<Rightarrow> string list \<Rightarrow> string set" where
  "host_raws env hs = {r. \<exists>h\<in>set hs. \<exists>p. parseSecretHost env h = Ok p \<and> r = raw p}"

lemma host_raws_Cons [simp]:
  "parseSecretHost env h = Ok p \<Longrightarrow> host_raws env (h # hs) = insert (raw p) (host_raws env hs)"
  "host_raws env [] = {}"
  by (auto simp: host_raws_def)

lemma parse_hosts_loop_Ok:
  assumes "parse_hosts_loop env out hs = Ok out'" "distinct out"
  shows "distinct out' \<and> length out' \<le> length out + length hs
    \<and> set out' = set out \<union> host_raws env hs
    \<and> (\<forall>h\<in>set hs. is_ok (parseSecretHost env h))"
  using assms
proof (induction hs arbitrary: out)
  case Nil
  then show ?case by simp
next
  case (Cons h hs)
  then obtain p where p: "parseSecretHost env h = Ok p" by (auto split: sum.splits)
  show ?case
  proof (cases "raw p \<in> set out")
    case True
    with p Cons.prems(1) have "parse_hosts_loop env out hs = Ok out'" by simp
    from Cons.IH [OF this Cons.prems(2)] True p show ?thesis by auto
  next
    case False
    with p Cons.prems(1) have "parse_hosts_loop env (out @ [raw p]) hs = Ok out'" by simp
    from Cons.IH [OF this] False p Cons.prems(2) show ?thesis by simp
  qed
qed

lemma parse_hosts_loop_total:
  "\<forall>h\<in>set hs. is_ok (parseSecretHost env h) \<Longrightarrow> is_ok (parse_hosts_loop env out hs)"
  by (induction hs arbitrary: out) (auto simp: is_ok_iff)

lemma ParseSecretHosts_Ok:
  assumes "ParseSecretHosts env hosts = Ok out"
  shows "sorted out" "distinct out" "length out \<le> length hosts"
    and "set out = host_raws env hosts"
    and "\<forall>h\<in>set hosts. is_ok (parseSecretHost env h)" "hosts \<noteq> []" "length hosts \<le> maxSecretHosts"
proof -
  from assms obtain o' where "parse_hosts_loop env [] hosts = Ok o'" "out = sort o'"
    and "hosts \<noteq> []" "length hosts \<le> maxSecretHosts"
    by (auto simp: ParseSecretHosts_def not_less split: if_splits dest!: sym [of "map_sum _ _ _"])
      (auto simp: map_sum_def split: sum.splits)
  with parse_hosts_loop_Ok [of env "[]" hosts o']
  show "sorted out" "distinct out" "length out \<le> length hosts"
    and "set out = host_raws env hosts"
    and "\<forall>h\<in>set hosts. is_ok (parseSecretHost env h)" "hosts \<noteq> []" "length hosts \<le> maxSecretHosts"
    by auto
qed

text \<open>A list of distinct canonical entries goes through the loop unchanged.\<close>

lemma parse_hosts_loop_canonical:
  assumes "\<forall>h\<in>set hs. \<exists>p. parseSecretHost env h = Ok p \<and> raw p = h" "distinct (out @ hs)"
  shows "parse_hosts_loop env out hs = Ok (out @ hs)"
  using assms
proof (induction hs arbitrary: out)
  case Nil
  then show ?case by simp
next
  case (Cons h hs)
  then obtain p where "parseSecretHost env h = Ok p" "raw p = h" by auto
  with Cons show ?case by (simp add: Cons.IH [of "out @ [h]"])
qed

text \<open>Matching depends on the list only through the set of its entries.\<close>

lemma SecretHostMatches_iff:
  "SecretHostMatches env c hosts \<longleftrightarrow> (\<exists>req h p. parseRequestTarget env c = Ok req \<and> h \<in> set hosts
      \<and> parseSecretHost env h = Ok p \<and> host_matches p req)"
  unfolding SecretHostMatches_def
  by (cases "parseRequestTarget env c") (auto simp: list_ex_iff outcome)

lemma SecretHostMatches_single:
  "parseSecretHost env h = Ok p \<Longrightarrow>
    SecretHostMatches env c [h] \<longleftrightarrow> (\<exists>req. parseRequestTarget env c = Ok req \<and> host_matches p req)"
  by (auto simp: SecretHostMatches_iff)

text \<open>The domain of a request target is never a dot followed by a DNS name.\<close>

lemma request_domain_no_dot:
  assumes "dns1123_documented env" "parseRequestTarget env c = Ok req" "dns_name d"
  shows "rt_domain req \<noteq> ''.'' @ d"
proof
  assume eq: "rt_domain req = ''.'' @ d"
  with assms(2) obtain h where h: "validateHostname env h = None" "TrimSuffix h ''.'' = ''.'' @ d"
    by (auto simp: parseRequestTarget_def Let_def split: if_splits option.splits)
  have vis: "visible (''.'' @ d)" using dns_name_visible [OF assms(3)] by (simp add: visible_def)
  from h(2) have "h = ''.'' @ d \<or> h = (''.'' @ d) @ ''.''"
    by (auto simp: TrimSuffix_def HasSuffix_iff split: if_splits)
  then have "visible h" using vis by (auto simp: visible_def)
  with h have "dns_name (''.'' @ d)"
    using validateHostname_visible [OF h(1)] assms(1) by (simp add: dns1123_documented_def)
  then show False by (simp add: dns_name_def dns_alnum_def in_range_def)
qed

lemma wildcard_matches:
  assumes "kind p = hostWildcardDomain"
  shows "host_matches p req \<longleftrightarrow>
    (\<exists>l. rt_domain req = l @ ''.'' @ domain p \<and> CHR ''.'' \<notin> set l)"
  using assms by (auto simp: host_matches_def HasSuffix_iff)

lemma deep_wildcard_matches:
  assumes "kind p = hostDeepWildcardDomain"
  shows "host_matches p req \<longleftrightarrow> (\<exists>l. rt_domain req = l @ ''.'' @ domain p)"
  using assms by (auto simp: host_matches_def HasSuffix_iff)

text \<open>A CONNECT target made of an address and a port reads back as the address.\<close>

lemma parseRequestTarget_ip:
  assumes "zone_of a = []"
  shows "parseRequestTarget env (JoinHostPort (addr_string a) (itoa port)) =
    Ok \<lparr>rt_raw = addr_string a, rt_domain = [], rt_addr = Some a\<rparr>"
proof -
  let ?s = "addr_string a" and ?p = "itoa port"
  have br: "CHR ''['' \<notin> set ?s" "CHR '']'' \<notin> set ?s"
    using addr_string_absent [OF assms] by (auto simp: hex_digit_def in_range_def)
  have dig: "\<forall>c\<in>set ?p. is_digit c" using itoa_digits by blast
  then have "set ?p \<inter> {CHR ''['', CHR '']'', CHR '':''} = {}" by (auto simp: in_range_def)
  with br have "SplitHostPort (JoinHostPort ?s ?p) = Some (?s, ?p)"
    by (intro SplitHostPort_JoinHostPort) auto
  moreover have "visible ?p" using dig by (auto simp: visible_def list_all_iff in_range_def)
  then have "visible (JoinHostPort ?s ?p)"
    using addr_string_visible [OF assms] by (simp add: JoinHostPort_def visible_def)
  moreover have "Trim ?s ''[]'' = ?s" by (rule Trim_absent) (use br in auto)
  ultimately show ?thesis
    using addr_string_not_Nil [of a]
    by (simp add: parseRequestTarget_def stripPort_def TrimSpace_visible)
qed

lemma canonical_hosts:
  assumes "dns1123_documented env" "list_all plain_entry hosts"
    and "ParseSecretHosts env hosts = Ok out"
  shows "ParseSecretHosts env out = Ok out
    \<and> (\<forall>target. SecretHostMatches env target out = SecretHostMatches env target hosts)"
proof (intro conjI allI)
  note ok = ParseSecretHosts_Ok [OF assms(3)]
  have wf: "parseSecretHost env (raw p) = Ok p" if "h \<in> set hosts" "parseSecretHost env h = Ok p" for h p
    using assms(1,2) that by (auto simp: list_all_iff intro: host_wf_parse plain_entry_wf)
  then have canon: "\<forall>h\<in>set out. \<exists>p. parseSecretHost env h = Ok p \<and> raw p = h"
    unfolding ok(4) by (auto simp: host_raws_def)
  have "out \<noteq> []"
    using ok(4-6) by (cases hosts) (auto simp: host_raws_def is_ok_iff)
  then show "ParseSecretHosts env out = Ok out"
    using parse_hosts_loop_canonical [OF canon, of "[]"] ok
    by (simp add: ParseSecretHosts_def sorted_sort_id)
  show "SecretHostMatches env target out = SecretHostMatches env target hosts" for target
    unfolding SecretHostMatches_iff ok(4) using wf by (fastforce simp: host_raws_def)
qed

subsection \<open>Properties\<close>

text \<open>C36. Canonicalising the hosts of a secret is idempotent and does not change which CONNECT targets the
  secret may be sent to, for entries in visible ASCII without IPv6 zones (surrounding blanks are
  trimmed): the stored list parses to itself and matches exactly the targets the written list matches.
  Outside these entries it can fail: a zone may end in a blank that a second parse trims.\<close>

theorem ParseSecretHosts_canonical:
  assumes "dns1123_documented env" "list_all plain_entry hosts"
    and "ParseSecretHosts env hosts = Ok out"
  shows "ParseSecretHosts env out = Ok out
    \<and> (\<forall>target. SecretHostMatches env target out = SecretHostMatches env target hosts)"
  using assms by (rule canonical_hosts)

definition sample_hosts :: "string list" where
  "sample_hosts = [''API.Example.com.'', '' 10.1.2.3/8'', ''*.example.com'', ''api.example.com'']"

lemma sample_hosts_parse:
  "list_all plain_entry sample_hosts
    \<and> ParseSecretHosts ascii_env sample_hosts = Ok [''*.example.com'', ''10.0.0.0/8'', ''api.example.com'']"
  by code_simp

theorem ParseSecretHosts_canonical_witness:
  "ParseSecretHosts ascii_env [''*.example.com'', ''10.0.0.0/8'', ''api.example.com''] =
     Ok [''*.example.com'', ''10.0.0.0/8'', ''api.example.com'']"
  using ParseSecretHosts_canonical [OF ascii_env_documented] sample_hosts_parse by blast

text \<open>Parsing the hosts of a secret succeeds exactly when there are between 1 and 100
  entries and each of them parses; the result is then the sorted list, without duplicates, of
  the canonical forms of the entries.\<close>

lemma ParseSecretHosts_result:
  "ParseSecretHosts env hosts = Ok out \<longleftrightarrow>
     0 < length hosts \<and> length hosts \<le> 100 \<and> list_all (\<lambda>h. is_ok (parseSecretHost env h)) hosts
     \<and> sorted out \<and> distinct out
     \<and> set out = {r. \<exists>h\<in>set hosts. \<exists>p. parseSecretHost env h = Ok p \<and> r = raw p}"
  (is "?l \<longleftrightarrow> ?r")
proof
  assume ?l
  from ParseSecretHosts_Ok [OF this] show ?r
    by (auto simp: host_raws_def list_all_iff maxSecretHosts_def)
next
  assume r: ?r
  then obtain o' where o': "ParseSecretHosts env hosts = Ok o'"
    using parse_hosts_loop_total [of hosts env "[]"]
    by (auto simp: ParseSecretHosts_def list_all_iff is_ok_iff maxSecretHosts_def)
  have "o' = out"
    using ParseSecretHosts_Ok [OF o'] r by (auto simp: host_raws_def intro: sorted_distinct_set_unique)
  with o' show ?l by simp
qed

text \<open>For a DNS name \<open>d\<close> that is accepted, the entry \<open>d\<close> covers the target \<open>d\<close> only, the
  entry \<open>*.d\<close> covers exactly the targets with one more, non-empty label in front of \<open>d\<close>, and
  \<open>**.d\<close> those with anything non-empty in front of it.\<close>

lemma wildcard_coverage:
  assumes "dns1123_documented env" "dns1123 env d = []" "\<not> ParseIP_ok d"
  shows "(SecretHostMatches env c [d] \<longleftrightarrow>
            (\<exists>req. parseRequestTarget env c = Ok req \<and> rt_domain req = d))
    \<and> (SecretHostMatches env c [''*.'' @ d] \<longleftrightarrow>
            (\<exists>req l. parseRequestTarget env c = Ok req \<and> rt_domain req = l @ ''.'' @ d
                \<and> l \<noteq> [] \<and> CHR ''.'' \<notin> set l))
    \<and> (SecretHostMatches env c [''**.'' @ d] \<longleftrightarrow>
            (\<exists>req l. parseRequestTarget env c = Ok req \<and> rt_domain req = l @ ''.'' @ d \<and> l \<noteq> []))"
proof -
  have d: "dns_name d" using assms(1,2) by (simp add: dns1123_documented_def)
  note raw = parseSecretHost_raw_domain [OF assms] and nodot = request_domain_no_dot [OF assms(1) _ d]
  show ?thesis
  proof (intro conjI)
    show "SecretHostMatches env c [d] \<longleftrightarrow>
        (\<exists>req. parseRequestTarget env c = Ok req \<and> rt_domain req = d)"
      by (simp add: SecretHostMatches_single [OF raw(1)] host_matches_def)
    show "SecretHostMatches env c [''*.'' @ d] \<longleftrightarrow>
        (\<exists>req l. parseRequestTarget env c = Ok req \<and> rt_domain req = l @ ''.'' @ d
            \<and> l \<noteq> [] \<and> CHR ''.'' \<notin> set l)"
      unfolding SecretHostMatches_single [OF raw(2)] wildcard_matches [OF secretHost.select_convs(2)]
      using nodot by fastforce
    show "SecretHostMatches env c [''**.'' @ d] \<longleftrightarrow>
        (\<exists>req l. parseRequestTarget env c = Ok req \<and> rt_domain req = l @ ''.'' @ d \<and> l \<noteq> [])"
      unfolding SecretHostMatches_single [OF raw(3)] deep_wildcard_matches [OF secretHost.select_convs(2)]
      using nodot by fastforce
  qed
qed

text \<open>A CONNECT target given as an IP address and a port matches an IP entry exactly when
  the addresses are equal, and a CIDR entry exactly when the address lies in the network.\<close>

lemma connect_ip_matches:
  assumes "zone_of a = []" "zone_of b = []" "cidr_wf c"
  shows "(SecretHostMatches env (JoinHostPort (addr_string a) (itoa port)) [addr_string b] \<longleftrightarrow> a = b)
    \<and> (SecretHostMatches env (JoinHostPort (addr_string a) (itoa port)) [cidr_string (Masked c)] \<longleftrightarrow>
        cidr_contains (Masked c) a)"
  using parseRequestTarget_ip [OF assms(1)] SecretHostMatches_single [OF parseSecretHost_raw_ip [OF assms(2)]]
    SecretHostMatches_single [OF parseSecretHost_raw_cidr [OF assms(3)]]
  by (auto simp: host_matches_def)

text \<open>
  \<open>validateHostname\<close> trims white space that \<open>parseSecretHost\<close> keeps, so a blank after the
  wildcard is accepted and stored as part of the domain.
\<close>

lemma blank_wildcard_accepted:
  "parseSecretHost ascii_env ''*. example.com'' =
     Ok \<lparr>raw = ''*. example.com'', kind = hostWildcardDomain, domain = '' example.com'',
         sh_addr = None, sh_prefix = None\<rparr>
   \<and> \<not> SecretHostMatches ascii_env ''api.example.com:443'' [''*. example.com'']"
  by code_simp

end
