(* ===== verification/Encoding.thy ===== *)
theory Encoding
  imports Prelude
begin

section \<open>Base64 and URL query encoding\<close>

text \<open>
  The two encodings of the Go standard library that the request rewriter uses:
  \<open>base64.StdEncoding\<close> and the query functions of \<open>net/url\<close>. Each decoder is proved to invert
  its encoder.
\<close>

subsection \<open>Base64\<close>

definition b64_char :: "nat \<Rightarrow> char" where
  "b64_char n =
     (if n < 26 then char_of (65 + n) else if n < 52 then char_of (71 + n)
      else if n < 62 then char_of (n - 4) else if n = 62 then CHR ''+'' else CHR ''/'')"

definition b64_val :: "char \<Rightarrow> nat option" where
  "b64_val c =
     (if is_upper c then Some (byte c - 65) else if is_lower c then Some (byte c - 71)
      else if is_digit c then Some (byte c + 4) else if c = CHR ''+'' then Some 62
      else if c = CHR ''/'' then Some 63 else None)"

fun EncodeToString :: "string \<Rightarrow> string" where
  "EncodeToString [] = []"
| "EncodeToString [a] =
     [b64_char (byte a div 4), b64_char (byte a mod 4 * 16), CHR ''='', CHR ''='']"
| "EncodeToString [a, b] =
     [b64_char (byte a div 4), b64_char (byte a mod 4 * 16 + byte b div 16),
      b64_char (byte b mod 16 * 4), CHR ''='']"
| "EncodeToString (a # b # c # cs) =
     b64_char (byte a div 4) # b64_char (byte a mod 4 * 16 + byte b div 16)
     # b64_char (byte b mod 16 * 4 + byte c div 64) # b64_char (byte c mod 64) # EncodeToString cs"

text \<open>Quanta of four characters; padding ends the input. Unused bits of the last one are ignored.\<close>

fun b64_quanta :: "string \<Rightarrow> string option" where
  "b64_quanta [] = Some []"
| "b64_quanta (w # x # y # z # rest) =
     (case (b64_val w, b64_val x) of
        (Some i, Some j) \<Rightarrow>
          if y = CHR ''='' then
            (if z = CHR ''='' \<and> rest = [] then Some [char_of (i * 4 + j div 16)] else None)
          else (case b64_val y of
              None \<Rightarrow> None
            | Some k \<Rightarrow>
                if z = CHR ''='' then
                  (if rest = [] then Some [char_of (i * 4 + j div 16), char_of (j mod 16 * 16 + k div 4)]
                   else None)
                else (case b64_val z of
                    None \<Rightarrow> None
                  | Some l \<Rightarrow>
                      map_option (\<lambda>t. char_of (i * 4 + j div 16) # char_of (j mod 16 * 16 + k div 4)
                          # char_of (k mod 4 * 64 + l) # t) (b64_quanta rest)))
      | _ \<Rightarrow> None)"
| "b64_quanta _ = None"

definition DecodeString :: "string \<Rightarrow> string option" where
  "DecodeString s = b64_quanta (filter (\<lambda>c. c \<noteq> CHR 0x0A \<and> c \<noteq> CHR 0x0D) s)"

lemma b64_val_char [simp]: "n < 64 \<Longrightarrow> b64_val (b64_char n) = Some n"
  by (auto simp: b64_val_def b64_char_def in_range_def)

lemma b64_val_special: "b64_val (CHR ''='') = None" "b64_val (CHR 0x0A) = None" "b64_val (CHR 0x0D) = None"
  by (simp_all add: b64_val_def in_range_def)

lemma b64_char_special [simp]:
  "n < 64 \<Longrightarrow> b64_char n \<noteq> CHR ''=''" "n < 64 \<Longrightarrow> b64_char n \<noteq> CHR 0x0A" "n < 64 \<Longrightarrow> b64_char n \<noteq> CHR 0x0D"
  using b64_val_special b64_val_char [of n] by fastforce+

lemma sextets:
  fixes a b c :: nat
  assumes "a < 256" "b < 256" "c < 256"
  shows "a div 4 < 64" "a mod 4 * 16 + b div 16 < 64" "b mod 16 * 4 + c div 64 < 64" "c mod 64 < 64"
    and "b div 16 div 16 = 0" "b div 16 mod 16 * 16 + b mod 16 = b" "c div 64 mod 4 = c div 64" "c div 64 div 4 = 0"
    and "a mod 4 * 16 < 64" "b mod 16 * 4 < 64"
proof -
  have "a mod 4 < 4" "b mod 16 < 16" "b div 16 < 16" "c div 64 < 4" using assms by auto
  then show "a div 4 < 64" "a mod 4 * 16 + b div 16 < 64" "b mod 16 * 4 + c div 64 < 64" "c mod 64 < 64"
    and "b div 16 div 16 = 0" "b div 16 mod 16 * 16 + b mod 16 = b" "c div 64 mod 4 = c div 64" "c div 64 div 4 = 0"
    and "a mod 4 * 16 < 64" "b mod 16 * 4 < 64"
    using assms by auto
qed

lemma b64_quanta_Encode: "b64_quanta (EncodeToString s) = Some s"
proof (induction s rule: EncodeToString.induct)
  case (2 a)
  show ?case using sextets [of "byte a" 0 0] by simp
next
  case (3 a b)
  show ?case using sextets [of "byte a" "byte b" 0] by simp
next
  case (4 a b c cs)
  then show ?case
    using sextets [of "byte a" "byte b" "byte c"]
    by (simp add: sextets(6) [OF nat_of_char_less_256 nat_of_char_less_256 nat_of_char_less_256])
qed simp

lemma Encode_no_newline: "filter (\<lambda>c. c \<noteq> CHR 0x0A \<and> c \<noteq> CHR 0x0D) (EncodeToString s) = EncodeToString s"
proof (induction s rule: EncodeToString.induct)
  case (2 a)
  show ?case using sextets [of "byte a" 0 0] by simp
next
  case (3 a b)
  show ?case using sextets [of "byte a" "byte b" 0] by simp
next
  case (4 a b c cs)
  then show ?case using sextets [of "byte a" "byte b" "byte c"] by simp
qed simp

lemma DecodeString_EncodeToString [simp]: "DecodeString (EncodeToString s) = Some s"
  unfolding DecodeString_def Encode_no_newline by (rule b64_quanta_Encode)

subsection \<open>URL queries\<close>

definition query_unreserved :: "char \<Rightarrow> bool" where
  "query_unreserved c \<longleftrightarrow> is_upper c \<or> is_lower c \<or> is_digit c \<or> c \<in> set ''-_.~''"

definition hex_upper :: "nat \<Rightarrow> char" where
  "hex_upper d = (if d < 10 then char_of (48 + d) else char_of (55 + d))"

definition unhex :: "char \<Rightarrow> nat option" where
  "unhex c = (if is_digit c then Some (byte c - 48) else if in_range 97 102 c then Some (byte c - 87)
     else if in_range 65 70 c then Some (byte c - 55) else None)"

definition QueryEscape :: "string \<Rightarrow> string" where
  "QueryEscape s = concat (map (\<lambda>c.
     if query_unreserved c then [c] else if c = CHR '' '' then ''+''
     else [CHR ''%'', hex_upper (byte c div 16), hex_upper (byte c mod 16)]) s)"

fun QueryUnescape :: "string \<Rightarrow> string option" where
  "QueryUnescape [] = Some []"
| "QueryUnescape (c # cs) =
     (if c = CHR ''%'' then
        (case cs of
           h # l # t \<Rightarrow>
             (case (unhex h, unhex l) of
                (Some i, Some j) \<Rightarrow> map_option (\<lambda>u. char_of (i * 16 + j) # u) (QueryUnescape t)
              | _ \<Rightarrow> None)
         | _ \<Rightarrow> None)
      else map_option (\<lambda>u. (if c = CHR ''+'' then CHR '' '' else c) # u) (QueryUnescape cs))"

lemma unhex_upper [simp]: "d < 16 \<Longrightarrow> unhex (hex_upper d) = Some d"
  by (auto simp: unhex_def hex_upper_def in_range_def)

lemma QueryUnescape_QueryEscape [simp]: "QueryUnescape (QueryEscape s) = Some s"
proof (induction s)
  case Nil
  then show ?case by (simp add: QueryEscape_def)
next
  case (Cons c cs)
  have div: "byte c div 16 < 16" using nat_of_char_less_256 [of c] by linarith
  have ord: "c \<noteq> CHR ''%'' \<and> c \<noteq> CHR ''+''" if "query_unreserved c"
    using that by (auto simp: query_unreserved_def in_range_def)
  have "QueryEscape (c # cs) =
      (if query_unreserved c then [c] else if c = CHR '' '' then ''+''
       else [CHR ''%'', hex_upper (byte c div 16), hex_upper (byte c mod 16)]) @ QueryEscape cs"
    by (simp add: QueryEscape_def)
  with Cons div ord show ?case by simp
qed

text \<open>
  A query is read into a multi-valued map, here an association list in the order of first
  occurrence. Pairs with a semicolon or a bad escape are dropped. Recent releases of
  \<open>net/url\<close> refuse a query of more than \<open>lim\<close> parameters; \<open>0\<close> means no such limit.
\<close>

type_synonym url_values = "(string \<times> string list) list"

fun add_value :: "string \<Rightarrow> string \<Rightarrow> url_values \<Rightarrow> url_values" where
  "add_value k v [] = [(k, [v])]"
| "add_value k v ((k', vs) # m) = (if k = k' then (k', vs @ [v]) # m else (k', vs) # add_value k v m)"

definition query_pair :: "string \<Rightarrow> (string \<times> string) option" where
  "query_pair p =
     (if CHR '';'' \<in> set p \<or> p = [] then None
      else case Cut p ''='' of (k, v, _) \<Rightarrow>
        (case (QueryUnescape k, QueryUnescape v) of (Some k', Some v') \<Rightarrow> Some (k', v') | _ \<Rightarrow> None))"

definition parseQuery :: "nat \<Rightarrow> string \<Rightarrow> url_values" where
  "parseQuery lim q =
     (if 0 < lim \<and> lim < length (filter (\<lambda>c. c = CHR ''&'') q) + 1 then []
      else foldl (\<lambda>m (k, v). add_value k v m) [] (List.map_filter query_pair (Split (CHR ''&'') q)))"

definition value_pairs :: "url_values \<Rightarrow> (string \<times> string) list" where
  "value_pairs m = concat (map (\<lambda>(k, vs). map (Pair k) vs) m)"

definition Encode :: "url_values \<Rightarrow> string" where
  "Encode m = Join ''&''
     (map (\<lambda>(k, v). QueryEscape k @ ''='' @ QueryEscape v) (value_pairs (sort_key fst m)))"

lemma QueryEscape_chars: "c \<in> set (QueryEscape s) \<Longrightarrow> query_unreserved c \<or> c = CHR ''+'' \<or> c = CHR ''%''"
proof -
  have "query_unreserved (hex_upper d)" if "d < 16" for d
    using that by (auto simp: hex_upper_def query_unreserved_def in_range_def)
  moreover have "byte x div 16 < 16" for x using nat_of_char_less_256 [of x] by linarith
  ultimately show "c \<in> set (QueryEscape s) \<Longrightarrow> ?thesis"
    by (fastforce simp: QueryEscape_def split: if_splits)
qed

lemma QueryEscape_absent: "c \<in> set '';=&'' \<Longrightarrow> c \<notin> set (QueryEscape s)"
  by (auto dest!: QueryEscape_chars simp: query_unreserved_def in_range_def)

lemma Split_absent: "sep \<notin> set s \<Longrightarrow> Split sep s = [s]"
  by (induction s) auto

lemma Split_append: "sep \<notin> set a \<Longrightarrow> Split sep (a @ sep # b) = a # Split sep b"
  by (induction a) auto

lemma Split_Join: "ps \<noteq> [] \<Longrightarrow> \<forall>p\<in>set ps. sep \<notin> set p \<Longrightarrow> Split sep (Join [sep] ps) = ps"
  by (induction "[sep]" ps rule: Join.induct) (auto simp: Split_absent Split_append)

lemma str_index_first: "c \<notin> set a \<Longrightarrow> str_index [c] (a @ c # b) = Some (length a)"
  by (induction a) (auto simp: HasPrefix_def)

lemma query_pair_escaped [simp]: "query_pair (QueryEscape k @ CHR ''='' # QueryEscape v) = Some (k, v)"
  using QueryEscape_absent [of "CHR '';''"] QueryEscape_absent [of "CHR ''=''" k]
  by (simp add: query_pair_def Cut_def str_index_first)

text \<open>Adding the pairs of a map with distinct keys one by one rebuilds the map.\<close>

lemma add_values_end:
  "k \<notin> fst ` set m \<Longrightarrow>
    foldl (\<lambda>m (k, v). add_value k v m) (m @ [(k, us)]) (map (Pair k) vs) = m @ [(k, us @ vs)]"
proof (induction vs arbitrary: us)
  case Nil
  then show ?case by simp
next
  case (Cons v vs)
  have "add_value k v (m @ [(k, us)]) = m @ [(k, us @ [v])]" using Cons.prems by (induction m) auto
  with Cons show ?case by simp
qed

lemma add_values_new: "k \<notin> fst ` set m \<Longrightarrow> add_value k v m = m @ [(k, [v])]"
  by (induction m) auto

lemma add_values_pairs:
  "distinct (map fst (m @ n)) \<Longrightarrow> \<forall>(k, vs)\<in>set n. vs \<noteq> [] \<Longrightarrow>
    foldl (\<lambda>m (k, v). add_value k v m) m (value_pairs n) = m @ n"
proof (induction n arbitrary: m)
  case Nil
  then show ?case by (simp add: value_pairs_def)
next
  case (Cons kv n)
  obtain k v vs where kv: "kv = (k, v # vs)" using Cons.prems(2) by (cases kv; cases "snd kv") auto
  have "k \<notin> fst ` set m" using Cons.prems(1) kv by auto
  then have "foldl (\<lambda>m (k, v). add_value k v m) m (map (Pair k) (v # vs)) = m @ [(k, v # vs)]"
    using add_values_end [of k m "[v]" vs] by (simp add: add_values_new)
  with Cons kv show ?case by (simp add: value_pairs_def)
qed

lemma parseQuery_Encode:
  assumes "distinct (map fst m)" "\<forall>(k, vs)\<in>set m. vs \<noteq> []"
  shows "parseQuery 0 (Encode m) = sort_key fst m"
proof (cases "m = []")
  case True
  then show ?thesis by (simp add: parseQuery_def Encode_def value_pairs_def query_pair_def List.map_filter_def)
next
  case False
  let ?ps = "map (\<lambda>(k, v). QueryEscape k @ ''='' @ QueryEscape v) (value_pairs (sort_key fst m))"
  obtain kv m' where "sort_key fst m = kv # m'" using False by (metis list.exhaust set_empty set_sort)
  moreover have "kv \<in> set m" using calculation by (metis list.set_intros(1) set_sort)
  ultimately have ne: "?ps \<noteq> []" using assms(2) by (auto simp: value_pairs_def)
  have "Split (CHR ''&'') (Encode m) = ?ps"
    unfolding Encode_def
    by (rule Split_Join [OF ne]) (use QueryEscape_absent [of "CHR ''&''"] in auto)
  moreover have "List.map_filter query_pair (map (\<lambda>(k, v). QueryEscape k @ ''='' @ QueryEscape v) ps) = ps" for ps
    by (induction ps) (auto simp: List.map_filter_simps)
  moreover have "distinct (map fst (sort_key fst m))"
    using assms(1) by (metis distinct_map distinct_sort set_sort)
  ultimately show ?thesis
    using add_values_pairs [of "[]" "sort_key fst m"] assms(2) by (simp add: parseQuery_def)
qed

end
