(* ===== verification/Rewrite.thy ===== *)
theory Rewrite
  imports SecretHost Encoding "HOL-Library.Multiset"
begin

section \<open>Secret references in requests (\<open>internal/sinjector/rewrite.go\<close>)\<close>

text \<open>
  The proxy replaces references of the form \<open>agentz:resolve:env:NAME\<close> in the path, the query
  and the headers of a request by the value of the secret \<open>NAME\<close>, when the secret may be sent to
  the host of the request. This theory models the scanner and the rewriting of a whole request
  (\<open>rewriteRequest\<close> and \<open>replaceHeaderValue\<close> of \<open>service.go\<close>). The resolver is an argument
  that passes its state explicitly: it is the interface \<open>secretResolver\<close> of the source.
  Log lines are not modelled; the order in which Go ranges over a map is an argument.
\<close>

definition PlaceholderPrefix :: string where
  "PlaceholderPrefix = ''agentz:resolve:env:''"

definition maxSecretNameLen :: nat where
  "maxSecretNameLen = 128"

record resolvedSecret =
  rs_value :: string
  rs_hosts :: "string list"

type_synonym ('e, 's) secretResolver = "string \<Rightarrow> 's \<Rightarrow> ('e, resolvedSecret) result \<times> 's"

record placeholderOptions =
  po_context :: string
  po_path :: bool

datatype value_error = ErrBadSecret | ErrUnsafePath

definition validatePathSecret :: "string \<Rightarrow> value_error option" where
  "validatePathSecret v =
     (if Contains v ''..'' \<or> ContainsAny v [CHR ''/'', CHR 0x5C, CHR ''?'', CHR ''#''] then Some ErrUnsafePath
      else if list_ex (\<lambda>c. byte c < 0x20 \<or> byte c = 0x7F) v then Some ErrUnsafePath
      else None)"

definition validateSecretValue :: "string \<Rightarrow> value_error option" where
  "validateSecretValue v =
     (if ContainsAny v [CHR 0x0D, CHR 0x0A, CHR 0x00] then Some ErrBadSecret else None)"

definition isSecretNameFirstByte :: "char \<Rightarrow> bool" where
  "isSecretNameFirstByte b \<longleftrightarrow> b = CHR ''_'' \<or> is_upper b \<or> is_lower b"

definition isSecretNameByte :: "char \<Rightarrow> bool" where
  "isSecretNameByte b \<longleftrightarrow> b = CHR ''_'' \<or> is_digit b \<or> is_upper b \<or> is_lower b"

definition delimiters :: string where
  "delimiters = [CHR 0x22, CHR 0x27, CHR 0x60] @ '',;:./'' @ [CHR 0x5C] @ ''?&=#[]{}()<>''"

definition isPlaceholderDelimiter :: "char \<Rightarrow> bool" where
  "isPlaceholderDelimiter b \<longleftrightarrow> byte b \<le> 32 \<or> b \<in> set delimiters"

text \<open>The scanning loop, with the output and the flag built so far.\<close>

lemma length_PlaceholderPrefix [simp]: "length PlaceholderPrefix = 19"
  by (simp add: PlaceholderPrefix_def)

lemma prefix_found_shorter: "str_index PlaceholderPrefix src = Some idx \<Longrightarrow> idx + 19 \<le> length src"
  using str_index_bound [of PlaceholderPrefix src idx] by simp

function replace_loop ::
  "host_env \<Rightarrow> ('e, 's) secretResolver \<Rightarrow> string \<Rightarrow> placeholderOptions \<Rightarrow> string \<Rightarrow> bool \<Rightarrow> string \<Rightarrow> 's
    \<Rightarrow> string \<times> bool \<times> 's" where
  "replace_loop env res target opts out changed src s =
     (if src = [] then (out, changed, s)
      else case str_index PlaceholderPrefix src of
        None \<Rightarrow> (out @ src, changed, s)
      | Some idx \<Rightarrow>
          (let out1 = out @ take idx src;
               nameStart = idx + length PlaceholderPrefix;
               rest = drop nameStart src in
           if rest = [] \<or> \<not> isSecretNameFirstByte (hd rest)
           then replace_loop env res target opts (out1 @ PlaceholderPrefix) changed rest s
           else
            (let nameEnd = nameStart + length (takeWhile isSecretNameByte (take maxSecretNameLen rest)) in
             if nameEnd - nameStart = maxSecretNameLen \<and> nameEnd < length src \<and> isSecretNameByte (src ! nameEnd)
             then replace_loop env res target opts (out1 @ PlaceholderPrefix) changed rest s
             else if nameEnd < length src \<and> \<not> isPlaceholderDelimiter (src ! nameEnd)
             then replace_loop env res target opts (out1 @ PlaceholderPrefix) changed rest s
             else
              (let name = take (nameEnd - nameStart) rest;
                   kept = out1 @ take (nameEnd - idx) (drop idx src);
                   rest1 = drop nameEnd src in
               case res name s of
                 (Inl _, s1) \<Rightarrow> replace_loop env res target opts kept changed rest1 s1
               | (Inr secret, s1) \<Rightarrow>
                   if \<not> SecretHostMatches env target (rs_hosts secret)
                   then replace_loop env res target opts kept changed rest1 s1
                   else if validateSecretValue (rs_value secret) \<noteq> None
                   then replace_loop env res target opts kept changed rest1 s1
                   else if po_path opts \<and> validatePathSecret (rs_value secret) \<noteq> None
                   then replace_loop env res target opts kept changed rest1 s1
                   else replace_loop env res target opts (out1 @ rs_value secret) True rest1 s1))))"
  by pat_completeness auto
termination
  by (relation "measure (\<lambda>(_, _, _, _, _, _, src, _). length src)")
    (auto dest!: prefix_found_shorter simp: Let_def)

declare replace_loop.simps [simp del]

definition replaceSecretRefs ::
  "host_env \<Rightarrow> string \<Rightarrow> ('e, 's) secretResolver \<Rightarrow> string \<Rightarrow> placeholderOptions \<Rightarrow> 's \<Rightarrow> string \<times> bool \<times> 's" where
  "replaceSecretRefs env src res target opts s =
     (if \<not> Contains src PlaceholderPrefix then (src, False, s)
      else replace_loop env res target opts [] False src s)"

definition replacePlaceholders ::
  "host_env \<Rightarrow> string \<Rightarrow> ('e, 's) secretResolver \<Rightarrow> string \<Rightarrow> 's \<Rightarrow> string \<times> bool \<times> 's" where
  "replacePlaceholders env src res target s =
     replaceSecretRefs env src res target \<lparr>po_context = [], po_path = False\<rparr> s"

definition replacePath ::
  "host_env \<Rightarrow> string \<Rightarrow> ('e, 's) secretResolver \<Rightarrow> string \<Rightarrow> 's \<Rightarrow> string \<times> bool \<times> 's" where
  "replacePath env path res target s =
     replaceSecretRefs env path res target \<lparr>po_context = '' in path'', po_path = True\<rparr> s"

subsection \<open>Specification: a text as literals and references\<close>

text \<open>
  The reference semantics separates reading from replacing: a text is a sequence of literal
  pieces and references, and each reference is replaced by the value the target may see, or left
  as it is written.
\<close>

datatype segment = Lit string | Ref string

definition valid_name :: "string \<Rightarrow> bool" where
  "valid_name n \<longleftrightarrow> n \<noteq> [] \<and> isSecretNameFirstByte (hd n) \<and> list_all isSecretNameByte n
     \<and> length n \<le> maxSecretNameLen"

definition ends_ref :: "string \<Rightarrow> bool" where
  "ends_ref b \<longleftrightarrow> b = [] \<or> isPlaceholderDelimiter (hd b)"

definition ref_name :: "string \<Rightarrow> string option" where
  "ref_name t = (let n = takeWhile isSecretNameByte t in
     if valid_name n \<and> ends_ref (drop (length n) t) then Some n else None)"

function segments :: "string \<Rightarrow> segment list" where
  "segments src = (case str_index PlaceholderPrefix src of
      None \<Rightarrow> [Lit src]
    | Some idx \<Rightarrow>
        (let rest = drop (idx + length PlaceholderPrefix) src in
         case ref_name rest of
           None \<Rightarrow> Lit (take idx src @ PlaceholderPrefix) # segments rest
         | Some n \<Rightarrow> Lit (take idx src) # Ref n # segments (drop (length n) rest)))"
  by pat_completeness auto
termination
  by (relation "measure length") (auto dest!: prefix_found_shorter)

declare segments.simps [simp del]

fun seg_text :: "segment \<Rightarrow> string" where
  "seg_text (Lit t) = t"
| "seg_text (Ref n) = PlaceholderPrefix @ n"

text \<open>What a target may see of a secret.\<close>

definition exposed :: "host_env \<Rightarrow> string \<Rightarrow> bool \<Rightarrow> ('e, resolvedSecret) result \<Rightarrow> string option" where
  "exposed env target path r = (case r of
      Inl _ \<Rightarrow> None
    | Inr secret \<Rightarrow>
        if SecretHostMatches env target (rs_hosts secret) \<and> validateSecretValue (rs_value secret) = None
          \<and> (path \<longrightarrow> validatePathSecret (rs_value secret) = None)
        then Some (rs_value secret) else None)"

fun substitute ::
  "host_env \<Rightarrow> string \<Rightarrow> bool \<Rightarrow> ('e, 's) secretResolver \<Rightarrow> segment list \<Rightarrow> 's \<Rightarrow> string \<times> bool \<times> 's" where
  "substitute env target path res [] s = ([], False, s)"
| "substitute env target path res (Lit t # ss) s =
     (let (out, ch, s1) = substitute env target path res ss s in (t @ out, ch, s1))"
| "substitute env target path res (Ref n # ss) s =
     (let (r, s1) = res n s;
          (out, ch, s2) = substitute env target path res ss s1 in
      case exposed env target path r of
        None \<Rightarrow> (PlaceholderPrefix @ n @ out, ch, s2)
      | Some v \<Rightarrow> (v @ out, True, s2))"

subsection \<open>The scanner implements the specification\<close>

lemma ref_name_Some:
  assumes "ref_name t = Some n"
  shows "valid_name n" "t = n @ drop (length n) t" "ends_ref (drop (length n) t)"
proof -
  from assms have n: "n = takeWhile isSecretNameByte t" "valid_name n \<and> ends_ref (drop (length n) t)"
    by (simp_all add: ref_name_def Let_def split: if_splits)
  then show "valid_name n" "ends_ref (drop (length n) t)" by simp_all
  show "t = n @ drop (length n) t" unfolding n(1) by (metis append_take_drop_id takeWhile_eq_take)
qed

text \<open>The bounded name scan of the source finds the same names.\<close>

lemma takeWhile_take: "takeWhile P (take k xs) = take k (takeWhile P xs)"
  by (induction xs arbitrary: k) (auto simp: take_Cons split: nat.splits)

lemma nth_drop_hd: "k < length xs \<Longrightarrow> xs ! k = hd (drop k xs)"
  by (simp add: hd_drop_conv_nth)

lemma takeWhile_next:
  "k < length xs \<Longrightarrow> length (takeWhile P xs) = k \<Longrightarrow> \<not> P (xs ! k)"
  using nth_length_takeWhile by blast

lemma ref_name_cases:
  fixes t :: string
  defines "k \<equiv> length (takeWhile isSecretNameByte (take maxSecretNameLen t))"
  shows "ref_name t =
    (if t = [] \<or> \<not> isSecretNameFirstByte (hd t) then None
     else if k = maxSecretNameLen \<and> k < length t \<and> isSecretNameByte (t ! k) then None
     else if k < length t \<and> \<not> isPlaceholderDelimiter (t ! k) then None
     else Some (take k t))"
proof -
  let ?n = "takeWhile isSecretNameByte t"
  have k: "k = min maxSecretNameLen (length ?n)" by (simp add: k_def takeWhile_take)
  have n: "take (length ?n) t = ?n" by (rule takeWhile_eq_take [symmetric])
  have le: "length ?n \<le> length t" by (simp add: length_takeWhile_le)
  show ?thesis
  proof (cases "t = [] \<or> \<not> isSecretNameFirstByte (hd t)")
    case True
    then have "\<not> valid_name ?n" by (cases t) (auto simp: valid_name_def)
    with True show ?thesis by (simp add: ref_name_def)
  next
    case False
    then obtain c u where "t = c # u" "isSecretNameFirstByte c" by (cases t) auto
    moreover from this have "isSecretNameByte c"
      by (auto simp: isSecretNameFirstByte_def isSecretNameByte_def)
    ultimately have first: "?n \<noteq> []" "isSecretNameFirstByte (hd ?n)" by simp_all
    have all: "list_all isSecretNameByte ?n" by (auto simp: list_all_iff dest: set_takeWhileD)
    show ?thesis
    proof (cases "length ?n \<le> maxSecretNameLen")
      case True
      then have kn: "k = length ?n" by (simp add: k)
      have "\<not> isSecretNameByte (t ! k)" if "k < length t"
        using takeWhile_next [OF that, of isSecretNameByte] kn by simp
      moreover have "ends_ref (drop k t) \<longleftrightarrow> \<not> (k < length t \<and> \<not> isPlaceholderDelimiter (t ! k))"
        by (auto simp: ends_ref_def nth_drop_hd)
      ultimately show ?thesis
        using False True first all by (simp add: ref_name_def valid_name_def Let_def kn n)
    next
      case long: False
      then have km: "k = maxSecretNameLen" "k < length ?n" by (simp_all add: k)
      then have "isSecretNameByte (t ! k)" using takeWhile_nth [of k isSecretNameByte t] set_takeWhileD [OF nth_mem [OF km(2)]] by simp
      with km le long False show ?thesis by (simp add: ref_name_def valid_name_def Let_def)
    qed
  qed
qed

text \<open>One round of the loop in terms of the specification's reading of the name.\<close>

lemma replace_loop_step:
  "replace_loop env res target opts out changed src s =
    (case str_index PlaceholderPrefix src of
      None \<Rightarrow> (out @ src, changed, s)
    | Some idx \<Rightarrow>
       (let rest = drop (idx + 19) src in
        case ref_name rest of
          None \<Rightarrow> replace_loop env res target opts (out @ take idx src @ PlaceholderPrefix) changed rest s
        | Some n \<Rightarrow>
            (let (r, s1) = res n s in
             case exposed env target (po_path opts) r of
               None \<Rightarrow> replace_loop env res target opts (out @ take idx src @ PlaceholderPrefix @ n) changed
                         (drop (length n) rest) s1
             | Some v \<Rightarrow> replace_loop env res target opts (out @ take idx src @ v) True
                         (drop (length n) rest) s1)))"
proof (cases "str_index PlaceholderPrefix src")
  case None
  then show ?thesis by (simp add: replace_loop.simps [of env res target opts out changed src s])
next
  case (Some idx)
  define rest where "rest = drop (idx + 19) src"
  define k where "k = length (takeWhile isSecretNameByte (take maxSecretNameLen rest))"
  have bound: "idx + 19 \<le> length src" using prefix_found_shorter [OF Some] .
  have ne: "src \<noteq> []" using bound by auto
  obtain t where t: "drop idx src = PlaceholderPrefix @ t"
    using str_index_Some_prefix [OF Some] by (auto simp: HasPrefix_iff)
  then have "rest = t" using drop_drop [of 19 idx src] by (simp add: rest_def add.commute)
  with t have kept: "take (idx + 19 + k - idx) (drop idx src) = PlaceholderPrefix @ take k rest"
    by simp
  have "k \<le> length rest"
    unfolding k_def using length_takeWhile_le [of isSecretNameByte "take maxSecretNameLen rest"] by simp
  then have len: "min (length rest) k = k" by simp
  have nth: "src ! (idx + 19 + k) = rest ! k" using bound by (simp add: rest_def add.assoc)
  have lt: "idx + 19 + k < length src \<longleftrightarrow> k < length rest" using bound by (auto simp: rest_def)
  have dr: "drop (idx + 19 + k) src = drop k rest" by (simp add: rest_def add.commute)
  obtain r s1 where r: "res (take k rest) s = (r, s1)" by fastforce
  define A where "A \<longleftrightarrow> rest = [] \<or> \<not> isSecretNameFirstByte (hd rest)"
  define B where "B \<longleftrightarrow> k = maxSecretNameLen \<and> k < length rest \<and> isSecretNameByte (rest ! k)"
  define D where "D \<longleftrightarrow> k < length rest \<and> \<not> isPlaceholderDelimiter (rest ! k)"
  have name: "ref_name rest = (if A \<or> B \<or> D then None else Some (take k rest))"
    by (auto simp: A_def B_def D_def ref_name_cases [of rest, folded k_def])
  note loop = Let_def length_PlaceholderPrefix Some option.case rest_def [symmetric] k_def [symmetric]
    nth lt dr kept ne if_False add_diff_cancel_left' A_def [symmetric] B_def [symmetric] D_def [symmetric]
  show ?thesis
  proof (cases "A \<or> B \<or> D")
    case True
    then show ?thesis
      unfolding Some Let_def option.case rest_def [symmetric] name
      by (subst replace_loop.simps, simp only: loop) auto
  next
    case False
    then show ?thesis
      unfolding Some Let_def option.case rest_def [symmetric] name
      by (subst replace_loop.simps, simp only: loop) (cases r; auto simp: r exposed_def len)
  qed
qed

lemma replace_loop_substitute:
  "replace_loop env res target opts out changed src s =
    (let (o', c', s') = substitute env target (po_path opts) res (segments src) s
     in (out @ o', changed \<or> c', s'))"
proof (induction src arbitrary: out changed s rule: segments.induct)
  case (1 src)
  show ?case
    by (subst replace_loop_step, subst segments.simps)
      (auto simp: Let_def 1 simp del: drop_drop split: option.splits prod.splits)
qed

lemma replaceSecretRefs_spec:
  "replaceSecretRefs env src res target opts s = substitute env target (po_path opts) res (segments src) s"
proof (cases "Contains src PlaceholderPrefix")
  case True
  then show ?thesis by (simp add: replaceSecretRefs_def replace_loop_substitute split: prod.splits)
next
  case False
  then have "segments src = [Lit src]" by (simp add: Contains_def segments.simps [of src])
  with False show ?thesis by (simp add: replaceSecretRefs_def)
qed

lemma segments_text: "concat (map seg_text (segments src)) = src"
proof (induction src rule: segments.induct)
  case (1 src)
  show ?case
  proof (cases "str_index PlaceholderPrefix src")
    case None
    then show ?thesis by (simp add: segments.simps [of src])
  next
    case (Some idx)
    let ?rest = "drop (idx + 19) src"
    have src: "take idx src @ PlaceholderPrefix @ ?rest = src" using str_index_split [OF Some] by simp
    show ?thesis
    proof (cases "ref_name ?rest")
      case None
      with Some 1(1) [OF Some] src show ?thesis by (simp add: segments.simps [of src])
    next
      case (Some n)
      with \<open>str_index PlaceholderPrefix src = Some idx\<close> 1(2) [OF \<open>str_index PlaceholderPrefix src = Some idx\<close>]
        ref_name_Some(2) [OF Some] src
      show ?thesis by (simp add: segments.simps [of src] del: drop_drop)
    qed
  qed
qed

lemma segments_valid: "Ref n \<in> set (segments src) \<Longrightarrow> valid_name n"
proof (induction src rule: segments.induct)
  case (1 src)
  from 1(3) show ?case
    by (subst (asm) segments.simps)
      (auto simp: Let_def simp del: drop_drop split: option.splits dest: ref_name_Some(1) 1(1,2))
qed

text \<open>The prefix cannot overlap itself, so the first one in a text is found where it stands.\<close>

lemma prefix_no_overlap:
  assumes "0 < d" "d < 19"
  shows "PlaceholderPrefix ! d \<noteq> CHR ''a''"
proof -
  have "\<forall>d\<in>set [1..<19]. PlaceholderPrefix ! d \<noteq> CHR ''a''" by code_simp
  with assms show ?thesis by auto
qed

lemma append_eq_shorter: "a @ p = x @ q \<Longrightarrow> length x \<le> length a \<Longrightarrow> \<exists>u. a = x @ u \<and> u @ p = q"
  by (auto simp: append_eq_append_conv2)

lemma first_prefix:
  assumes "\<not> Contains a PlaceholderPrefix"
  shows "str_index PlaceholderPrefix (a @ PlaceholderPrefix @ b) = Some (length a)"
proof -
  let ?s = "a @ PlaceholderPrefix @ b"
  have "str_index PlaceholderPrefix ?s \<noteq> None" by (auto simp: str_index_None_iff)
  then obtain i where i: "str_index PlaceholderPrefix ?s = Some i" by blast
  obtain x y where xy: "?s = x @ PlaceholderPrefix @ y" "length x = i"
  proof
    show "?s = take i ?s @ PlaceholderPrefix @ drop (i + 19) ?s"
      using str_index_split [OF i] unfolding length_PlaceholderPrefix .
    show "length (take i ?s) = i" using prefix_found_shorter [OF i] by simp
  qed
  have "\<not> i < length a"
  proof
    assume "i < length a"
    with xy(2) obtain u where u: "a = x @ u" "u @ PlaceholderPrefix @ b = PlaceholderPrefix @ y"
      using append_eq_shorter [OF xy(1)] by auto
    with \<open>i < length a\<close> xy(2) have ne: "u \<noteq> []" by auto
    show False
    proof (cases "19 \<le> length u")
      case True
      then obtain v where "u = PlaceholderPrefix @ v" using append_eq_shorter [OF u(2)] by auto
      with u(1) assms show False by (auto simp: Contains_iff)
    next
      case False
      have "(u @ PlaceholderPrefix @ b) ! length u = CHR ''a''" by (simp add: PlaceholderPrefix_def)
      moreover have "(PlaceholderPrefix @ y) ! length u = PlaceholderPrefix ! length u"
        using False by (simp add: nth_append)
      ultimately show False using ne u(2) prefix_no_overlap [of "length u"] False by simp
    qed
  qed
  moreover have "i \<le> length a" using str_index_least [OF i refl] .
  ultimately show ?thesis using i by simp
qed

lemma segments_first:
  assumes "\<not> Contains a PlaceholderPrefix" "valid_name n" "ends_ref b"
  shows "segments (a @ PlaceholderPrefix @ n @ b) = Lit a # Ref n # segments b"
proof -
  have "takeWhile isSecretNameByte (n @ b) = n"
  proof -
    have "\<not> isSecretNameByte (hd b)" if "b \<noteq> []"
      using assms(3) that
      by (auto simp: ends_ref_def isPlaceholderDelimiter_def delimiters_def isSecretNameByte_def in_range_def)
    then have "takeWhile isSecretNameByte b = []" by (cases b) auto
    with assms(2) show ?thesis by (simp add: valid_name_def list_all_iff takeWhile_append)
  qed
  with assms have "ref_name (n @ b) = Some n" by (simp add: ref_name_def)
  then show ?thesis
    by (subst segments.simps) (simp add: first_prefix [OF assms(1)])
qed

subsection \<open>What replacing keeps\<close>

lemma substitute_nothing:
  assumes "\<And>n s. exposed env target path (fst (res n s)) = None"
  shows "\<exists>s'. substitute env target path res ss s = (concat (map seg_text ss), False, s')"
  using assms
proof (induction ss arbitrary: s)
  case (Cons g ss)
  show ?case
  proof (cases g)
    case (Lit t)
    obtain s' where "substitute env target path res ss s = (concat (map seg_text ss), False, s')"
      using Cons.IH Cons.prems by blast
    with Lit show ?thesis by simp
  next
    case (Ref n)
    obtain s' where "substitute env target path res ss (snd (res n s)) = (concat (map seg_text ss), False, s')"
      using Cons.IH Cons.prems by blast
    with Ref Cons.prems [of n s] show ?thesis by (simp add: case_prod_unfold)
  qed
qed simp

lemma substitute_unchanged:
  "substitute env target path res ss s = (out, False, s') \<Longrightarrow> out = concat (map seg_text ss)"
proof (induction ss arbitrary: s out)
  case (Cons g ss)
  then show ?case
    by (cases g) (auto split: prod.splits option.splits)
qed simp

text \<open>Bytes that no exposed value and no reference contains stay as they are, in order.\<close>

lemma substitute_filter:
  assumes "\<And>n s v. exposed env target path (fst (res n s)) = Some v \<Longrightarrow> filter P v = []"
    and "\<And>n. Ref n \<in> set ss \<Longrightarrow> filter P (PlaceholderPrefix @ n) = []"
  shows "filter P (fst (substitute env target path res ss s)) = filter P (concat (map seg_text ss))"
  using assms
proof (induction ss arbitrary: s)
  case (Cons g ss)
  have IH: "filter P (fst (substitute env target path res ss s)) = filter P (concat (map seg_text ss))" for s
    by (rule Cons.IH [OF Cons.prems(1)]) (use Cons.prems(2) in auto)
  show ?case
  proof (cases g)
    case (Lit t)
    with IH [of s] show ?thesis by (simp add: case_prod_unfold Let_def)
  next
    case (Ref n)
    then have "filter P PlaceholderPrefix = []" "filter P n = []" using Cons.prems(2) [of n] by auto
    with Ref IH [of "snd (res n s)"] Cons.prems(1) [of n s] show ?thesis
      by (auto simp: case_prod_unfold Let_def split: option.splits)
  qed
qed simp

definition path_unsafe :: "char \<Rightarrow> bool" where
  "path_unsafe c \<longleftrightarrow> c \<in> {CHR ''/'', CHR 0x5C, CHR ''?'', CHR ''#''} \<or> byte c < 32 \<or> byte c = 127"

definition line_break :: "char \<Rightarrow> bool" where
  "line_break c \<longleftrightarrow> c \<in> {CHR 0x0D, CHR 0x0A, CHR 0x00}"

lemma exposed_path_safe: "exposed env target True r = Some v \<Longrightarrow> filter path_unsafe v = []"
  by (auto simp: exposed_def validatePathSecret_def path_unsafe_def filter_empty_conv list_ex_iff
      split: sum.splits if_splits)

lemma exposed_line_safe: "exposed env target path r = Some v \<Longrightarrow> filter line_break v = []"
  by (auto simp: exposed_def validateSecretValue_def line_break_def filter_empty_conv
      split: sum.splits if_splits)

lemma name_byte_safe: "isSecretNameByte c \<Longrightarrow> \<not> path_unsafe c \<and> \<not> line_break c"
  by (auto simp: isSecretNameByte_def path_unsafe_def line_break_def in_range_def)

lemma ref_safe:
  assumes "Ref n \<in> set (segments src)"
  shows "filter path_unsafe (PlaceholderPrefix @ n) = []" "filter line_break (PlaceholderPrefix @ n) = []"
proof -
  have "\<forall>c\<in>set n. isSecretNameByte c"
    using segments_valid [OF assms] by (simp add: valid_name_def list_all_iff)
  moreover have "\<forall>c\<in>set PlaceholderPrefix. \<not> path_unsafe c \<and> \<not> line_break c" by code_simp
  ultimately show "filter path_unsafe (PlaceholderPrefix @ n) = []" "filter line_break (PlaceholderPrefix @ n) = []"
    using name_byte_safe by (auto simp: filter_empty_conv)
qed

subsection \<open>Rewriting a request (\<open>service.go\<close>)\<close>

record url =
  u_scheme :: string
  u_host :: string
  u_path :: string
  u_rawpath :: string
  u_rawquery :: string

record request =
  req_method :: string
  req_host :: string
  req_uri :: string
  req_url :: "url option"
  req_close :: bool
  req_header :: url_values

text \<open>
  What the runtime supplies: the functions of \<^typ>\<open>host_env\<close>, the limit on query parameters
  and the order in which \<open>range\<close> visits the entries of a map.
\<close>

record http_env =
  he_host :: host_env
  query_limit :: nat
  map_order :: "url_values \<Rightarrow> url_values"

definition fair_order :: "http_env \<Rightarrow> bool" where
  "fair_order he \<longleftrightarrow> (\<forall>m. mset (map_order he m) = mset m)"

definition replaceHeaderValue ::
  "host_env \<Rightarrow> string \<Rightarrow> string \<Rightarrow> ('e, 's) secretResolver \<Rightarrow> string \<Rightarrow> 's \<Rightarrow> string \<times> bool \<times> 's" where
  "replaceHeaderValue env key v res target s =
     (if \<not> EqualFold key ''Authorization'' then replacePlaceholders env v res target s
      else case Cut v '' '' of (scheme, raw0, ok) \<Rightarrow>
        if \<not> ok \<or> \<not> EqualFold scheme ''Basic'' then replacePlaceholders env v res target s
        else case DecodeString (TrimSpace raw0) of
            None \<Rightarrow> (v, False, s)
          | Some decoded \<Rightarrow>
              (case replacePlaceholders env decoded res target s of (next', changed, s1) \<Rightarrow>
                 if \<not> changed then (v, False, s1)
                 else (''Basic '' @ EncodeToString next', True, s1)))"

fun rewrite_items ::
  "(string \<Rightarrow> 's \<Rightarrow> string \<times> bool \<times> 's) \<Rightarrow> string list \<Rightarrow> 's \<Rightarrow> string list \<times> bool \<times> 's" where
  "rewrite_items f [] s = ([], False, s)"
| "rewrite_items f (x # xs) s =
     (let (y, ok, s1) = f x s; (ys, ch, s2) = rewrite_items f xs s1
      in ((if ok then y else x) # ys, ok \<or> ch, s2))"

fun rewrite_map ::
  "(string \<Rightarrow> string \<Rightarrow> 's \<Rightarrow> string \<times> bool \<times> 's) \<Rightarrow> url_values \<Rightarrow> 's \<Rightarrow> url_values \<times> bool \<times> 's" where
  "rewrite_map f [] s = ([], False, s)"
| "rewrite_map f ((k, items) # m) s =
     (let (items', ok, s1) = rewrite_items (f k) items s; (m', ch, s2) = rewrite_map f m s1
      in ((k, items') # m', ok \<or> ch, s2))"

definition rewrite_url ::
  "http_env \<Rightarrow> url \<Rightarrow> ('e, 's) secretResolver \<Rightarrow> string \<Rightarrow> 's \<Rightarrow> url \<times> 's" where
  "rewrite_url he u res target s =
     (let (path, changed, s1) = replacePath (he_host he) (u_path u) res target s;
          u1 = (if changed then u\<lparr>u_path := path, u_rawpath := []\<rparr> else u);
          (vals, changed2, s2) = rewrite_map (\<lambda>_ item. replacePlaceholders (he_host he) item res target)
             (map_order he (parseQuery (query_limit he) (u_rawquery u1))) s1;
          u2 = (if changed2 then u1\<lparr>u_rawquery := Encode vals\<rparr> else u1)
      in (u2, s2))"

definition rewriteRequest ::
  "http_env \<Rightarrow> request \<Rightarrow> ('e, 's) secretResolver \<Rightarrow> string \<Rightarrow> 's \<Rightarrow> request \<times> 's" where
  "rewriteRequest he req res target s =
     (let (req1, s1) = (case req_url req of
              None \<Rightarrow> (req, s)
            | Some u \<Rightarrow> (let (u1, s1) = rewrite_url he u res target s in (req\<lparr>req_url := Some u1\<rparr>, s1)));
          (hdr, _, s2) = rewrite_map (\<lambda>key item. replaceHeaderValue (he_host he) key item res target)
             (map_order he (req_header req1)) s1
      in (req1\<lparr>req_header := hdr\<rparr>, s2))"

text \<open>
  Two resolvers look alike to a target when, in related states, they expose the same values to
  it and reach related states again.
\<close>

definition alike ::
  "host_env \<Rightarrow> string \<Rightarrow> ('s \<Rightarrow> 't \<Rightarrow> bool) \<Rightarrow> ('e, 's) secretResolver \<Rightarrow> ('e, 't) secretResolver \<Rightarrow> bool" where
  "alike env target R res1 res2 \<longleftrightarrow> (\<forall>n s t path. R s t \<longrightarrow>
      exposed env target path (fst (res1 n s)) = exposed env target path (fst (res2 n t))
      \<and> R (snd (res1 n s)) (snd (res2 n t)))"

text \<open>Two stateful computations with equal results and related final states.\<close>

definition agree :: "('s \<Rightarrow> 't \<Rightarrow> bool) \<Rightarrow> 'a \<times> 's \<Rightarrow> 'a \<times> 't \<Rightarrow> bool" where
  "agree R x y \<longleftrightarrow> fst x = fst y \<and> R (snd x) (snd y)"

definition agree3 :: "('s \<Rightarrow> 't \<Rightarrow> bool) \<Rightarrow> 'a \<times> 'b \<times> 's \<Rightarrow> 'a \<times> 'b \<times> 't \<Rightarrow> bool" where
  "agree3 R x y \<longleftrightarrow> (\<exists>a b s t. x = (a, b, s) \<and> y = (a, b, t) \<and> R s t)"

lemma agree3_pair [simp]: "agree3 R (a, b, s) (a', b', t) \<longleftrightarrow> a = a' \<and> b = b' \<and> R s t"
  by (auto simp: agree3_def)

lemma agree3E:
  assumes "agree3 R x y"
  obtains a b s t where "x = (a, b, s)" "y = (a, b, t)" "R s t"
  using assms by (auto simp: agree3_def)

lemma substitute_agree:
  assumes "alike env target R res1 res2" "R s t"
  shows "agree3 R (substitute env target path res1 ss s) (substitute env target path res2 ss t)"
  using assms(2)
proof (induction ss arbitrary: s t)
  case (Cons g ss)
  show ?case
  proof (cases g)
    case (Lit u)
    from Cons.IH [OF Cons.prems] show ?thesis by (rule agree3E) (simp add: Lit)
  next
    case (Ref n)
    have e: "exposed env target path (fst (res1 n s)) = exposed env target path (fst (res2 n t))"
      "R (snd (res1 n s)) (snd (res2 n t))"
      using assms(1) Cons.prems by (auto simp: alike_def)
    from Cons.IH [OF e(2)] show ?thesis
      by (rule agree3E) (simp add: Ref case_prod_unfold Let_def e(1) split: option.splits)
  qed
qed simp

lemma replace_agree:
  assumes "alike env target R res1 res2" "R s t"
  shows "agree3 R (replacePlaceholders env v res1 target s) (replacePlaceholders env v res2 target t)"
    and "agree3 R (replacePath env v res1 target s) (replacePath env v res2 target t)"
  using substitute_agree [OF assms]
  by (simp_all add: replacePlaceholders_def replacePath_def replaceSecretRefs_spec)

lemma replaceHeaderValue_agree:
  assumes "alike env target R res1 res2" "R s t"
  shows "agree3 R (replaceHeaderValue env k v res1 target s) (replaceHeaderValue env k v res2 target t)"
proof -
  note r = replace_agree(1) [OF assms]
  obtain scheme raw ok where c: "Cut v '' '' = (scheme, raw, ok)" by (metis prod_cases3)
  show ?thesis
  proof (cases "DecodeString (TrimSpace raw)")
    case None
    with r [of v] assms(2) show ?thesis by (simp add: replaceHeaderValue_def c)
  next
    case (Some d)
    from r [of d] show ?thesis
      by (rule agree3E) (simp add: replaceHeaderValue_def c Some r)
  qed
qed

lemma rewrite_items_agree:
  assumes "\<And>x s t. R s t \<Longrightarrow> agree3 R (f x s) (g x t)" "R s t"
  shows "agree3 R (rewrite_items f xs s) (rewrite_items g xs t)"
  using assms(2)
proof (induction xs arbitrary: s t)
  case (Cons x xs)
  from assms(1) [OF Cons.prems, of x] obtain y ok s1 t1
    where fg: "f x s = (y, ok, s1)" "g x t = (y, ok, t1)" "R s1 t1" by (rule agree3E)
  from Cons.IH [OF fg(3)] show ?case by (rule agree3E) (simp add: fg(1,2))
qed simp

lemma rewrite_map_agree:
  assumes "\<And>k x s t. R s t \<Longrightarrow> agree3 R (f k x s) (g k x t)" "R s t"
  shows "agree3 R (rewrite_map f m s) (rewrite_map g m t)"
  using assms(2)
proof (induction m arbitrary: s t)
  case (Cons kv m)
  obtain k xs where kv: "kv = (k, xs)" by fastforce
  have "agree3 R (rewrite_items (f k) xs s) (rewrite_items (g k) xs t)"
    by (rule rewrite_items_agree [OF assms(1) Cons.prems])
  then obtain ys ok s1 t1 where fg: "rewrite_items (f k) xs s = (ys, ok, s1)"
      "rewrite_items (g k) xs t = (ys, ok, t1)" "R s1 t1" by (rule agree3E)
  from Cons.IH [OF fg(3)] show ?case by (rule agree3E) (simp add: kv fg(1,2))
qed simp

lemma rewrite_url_agree:
  assumes "alike (he_host he) target R res1 res2" "R s t"
  shows "agree R (rewrite_url he u res1 target s) (rewrite_url he u res2 target t)"
proof -
  from replace_agree(2) [OF assms, of "u_path u"] obtain p ch s1 t1
    where p: "replacePath (he_host he) (u_path u) res1 target s = (p, ch, s1)"
      "replacePath (he_host he) (u_path u) res2 target t = (p, ch, t1)" "R s1 t1" by (rule agree3E)
  have "agree3 R
      (rewrite_map (\<lambda>_ item. replacePlaceholders (he_host he) item res1 target) m s1)
      (rewrite_map (\<lambda>_ item. replacePlaceholders (he_host he) item res2 target) m t1)" for m
    by (rule rewrite_map_agree [OF replace_agree(1) [OF assms(1)] p(3)])
  from this [of "map_order he (parseQuery (query_limit he)
      (u_rawquery (if ch then u\<lparr>u_path := p, u_rawpath := []\<rparr> else u)))"]
  show ?thesis by (rule agree3E) (simp add: rewrite_url_def agree_def p(1,2) Let_def)
qed

lemma rewriteRequest_agree:
  assumes "alike (he_host he) target R res1 res2" "R s t"
  shows "agree R (rewriteRequest he req res1 target s) (rewriteRequest he req res2 target t)"
proof -
  have hdr: "agree3 R
      (rewrite_map (\<lambda>key item. replaceHeaderValue (he_host he) key item res1 target) m s1)
      (rewrite_map (\<lambda>key item. replaceHeaderValue (he_host he) key item res2 target) m t1)"
    if "R s1 t1" for m s1 t1
    by (rule rewrite_map_agree [OF replaceHeaderValue_agree [OF assms(1)] that])
  show ?thesis
  proof (cases "req_url req")
    case None
    from hdr [OF assms(2), of "map_order he (req_header req)"] show ?thesis
      by (rule agree3E) (simp add: rewriteRequest_def agree_def None)
  next
    case (Some u)
    obtain u1 s1 t1 where u: "rewrite_url he u res1 target s = (u1, s1)"
        "rewrite_url he u res2 target t = (u1, t1)" "R s1 t1"
      using rewrite_url_agree [OF assms, of u] unfolding agree_def by (metis prod.collapse)
    from hdr [OF u(3), of "map_order he (req_header (req\<lparr>req_url := Some u1\<rparr>))"] show ?thesis
      by (rule agree3E) (simp add: rewriteRequest_def agree_def Some u(1,2))
  qed
qed

text \<open>Keys and numbers of values do not change, and no line break is introduced.\<close>

lemma rewrite_items_length: "length (fst (rewrite_items f xs s)) = length xs"
  by (induction xs arbitrary: s) (auto simp: case_prod_unfold Let_def)

lemma rewrite_map_shape:
  "map (\<lambda>(k, vs). (k, length vs)) (fst (rewrite_map f m s)) = map (\<lambda>(k, vs). (k, length vs)) m"
proof (induction m arbitrary: s)
  case (Cons kv m)
  obtain k xs where "kv = (k, xs)" by fastforce
  with Cons show ?case by (simp add: case_prod_unfold Let_def rewrite_items_length)
qed simp

lemma rewrite_items_all:
  assumes "\<And>x s. P x \<Longrightarrow> P (fst (f x s))" "\<forall>x\<in>set xs. P x"
  shows "\<forall>y\<in>set (fst (rewrite_items f xs s)). P y"
  using assms(2) by (induction xs arbitrary: s) (auto simp: case_prod_unfold Let_def assms(1))

lemma rewrite_map_all:
  assumes "\<And>k x s. P x \<Longrightarrow> P (fst (f k x s))" "\<forall>(k, xs)\<in>set m. \<forall>x\<in>set xs. P x"
  shows "\<forall>(k, xs)\<in>set (fst (rewrite_map f m s)). \<forall>x\<in>set xs. P x"
  using assms(2)
proof (induction m arbitrary: s)
  case (Cons kv m)
  obtain k xs where kv: "kv = (k, xs)" by fastforce
  obtain ys ok s1 where r: "rewrite_items (f k) xs s = (ys, ok, s1)" by (metis prod_cases3)
  have "\<forall>y\<in>set ys. P y"
    using rewrite_items_all [of P "f k" xs s, OF assms(1)] Cons.prems by (simp add: kv r)
  moreover have "\<forall>(k, xs)\<in>set (fst (rewrite_map f m s1)). \<forall>x\<in>set xs. P x"
    by (rule Cons.IH) (use Cons.prems in simp)
  ultimately show ?case by (simp add: kv r case_prod_unfold Let_def)
qed simp

lemma replacePlaceholders_line_break:
  "filter line_break (fst (replacePlaceholders env v res target s)) = filter line_break v"
proof -
  have "filter line_break (fst (substitute env target False res (segments v) s)) =
      filter line_break (concat (map seg_text (segments v)))"
    by (rule substitute_filter) (auto intro: exposed_line_safe dest: ref_safe(2))
  then show ?thesis by (simp add: replacePlaceholders_def replaceSecretRefs_spec segments_text)
qed

lemma b64_char_visible: "n < 64 \<Longrightarrow> 32 < byte (b64_char n) \<and> byte (b64_char n) < 128"
  by (auto simp: b64_char_def)

lemma EncodeToString_visible: "visible (EncodeToString s)"
proof (induction s rule: EncodeToString.induct)
  case (2 a)
  show ?case using sextets [of "byte a" 0 0] by (simp add: visible_def b64_char_visible)
next
  case (3 a b)
  show ?case using sextets [of "byte a" "byte b" 0] by (simp add: visible_def b64_char_visible)
next
  case (4 a b c cs)
  then show ?case
    using sextets [of "byte a" "byte b" "byte c"] by (simp add: visible_def b64_char_visible)
qed (simp add: visible_def)

lemma visible_no_break: "visible s \<Longrightarrow> filter line_break s = []"
  by (fastforce simp: visible_def line_break_def filter_empty_conv list_all_iff)

lemma replaceHeaderValue_line_break:
  assumes "filter line_break v = []"
  shows "filter line_break (fst (replaceHeaderValue env k v res target s)) = []"
proof -
  obtain scheme raw ok where c: "Cut v '' '' = (scheme, raw, ok)" by (metis prod_cases3)
  have "filter line_break (''Basic '' @ EncodeToString x) = []" for x
    using visible_no_break [OF EncodeToString_visible [of x]] by (simp add: line_break_def)
  with assms show ?thesis
    by (auto simp: replaceHeaderValue_def c replacePlaceholders_line_break split: option.splits prod.splits)
qed

text \<open>References inside the credentials of basic authentication are replaced inside the encoding:
  the header that is sent decodes to the rewritten credentials.\<close>

lemma basic_credentials:
  "replaceHeaderValue env ''Authorization'' (''Basic '' @ EncodeToString cred) res target s =
    (case replacePlaceholders env cred res target s of (cred', changed, s1) \<Rightarrow>
       (''Basic '' @ EncodeToString (if changed then cred' else cred), changed, s1))"
proof -
  have "Cut (''Basic '' @ EncodeToString cred) '' '' = (''Basic'', EncodeToString cred, True)"
    by (simp add: Cut_def HasPrefix_def)
  moreover have "EqualFold ''Authorization'' ''Authorization''" "EqualFold ''Basic'' ''Basic''"
    by (simp_all add: EqualFold_def)
  ultimately show ?thesis
    by (simp add: replaceHeaderValue_def TrimSpace_visible EncodeToString_visible split: prod.splits)
qed

subsection \<open>Properties\<close>

text \<open>C35. The scanner implements the specification: a text is read as literals and valid
  references that print back to it, and the result is the text with every reference replaced by
  the value the target may see, or left as written; replaced values are not scanned again.\<close>

theorem replaceSecretRefs_refines:
  "replaceSecretRefs env src res target opts s = substitute env target (po_path opts) res (segments src) s
    \<and> concat (map seg_text (segments src)) = src
    \<and> list_all (\<lambda>g. case g of Lit _ \<Rightarrow> True | Ref n \<Rightarrow> valid_name n) (segments src)"
  using segments_text segments_valid
  by (auto simp: replaceSecretRefs_spec list_all_iff split: segment.splits)

text \<open>The first reference of a text is found: where \<open>a\<close> does not contain the prefix, \<open>n\<close> is
  a valid name and what follows ends the reference, the name is resolved once and replaced when
  the value is exposed to the target, and the rest of the text is then processed alone.\<close>

lemma replace_first_reference:
  assumes "\<not> Contains a PlaceholderPrefix" "valid_name n" "ends_ref b"
  shows "replacePlaceholders env (a @ PlaceholderPrefix @ n @ b) res target s =
    (let (r, s1) = res n s;
         (out, changed, s2) = replacePlaceholders env b res target s1
     in case exposed env target False r of
          None \<Rightarrow> (a @ PlaceholderPrefix @ n @ out, changed, s2)
        | Some v \<Rightarrow> (a @ v @ out, True, s2))"
  by (simp add: replacePlaceholders_def replaceSecretRefs_spec segments_first [OF assms]
      split: prod.splits option.splits)

definition token_resolver :: "string \<Rightarrow> (unit, unit) secretResolver" where
  "token_resolver v n s = (if n = ''TOKEN'' then Ok \<lparr>rs_value = v, rs_hosts = [''api.example.com'']\<rparr> else Err (), s)"

lemma token_matches:
  "SecretHostMatches ascii_env ''api.example.com:443'' [''api.example.com'']
    \<and> \<not> SecretHostMatches ascii_env ''evil.example.com:443'' [''api.example.com'']"
  by code_simp

text \<open>C1. Host binding (non-interference): a request forwarded to a target depends only on what
  the secrets expose to that target. Two resolvers that expose the same values to the target,
  whatever they hold for other hosts, yield the same request.\<close>

theorem rewrite_noninterference:
  assumes "alike (he_host he) target R res1 res2" "R s t"
  shows "fst (rewriteRequest he req res1 target s) = fst (rewriteRequest he req res2 target t)"
  using rewriteRequest_agree [OF assms] by (simp add: agree_def)

definition sample_http :: http_env where
  "sample_http = \<lparr>he_host = ascii_env, query_limit = 0, map_order = (\<lambda>m. m)\<rparr>"

definition sample_request :: request where
  "sample_request = \<lparr>req_method = ''GET'', req_host = ''evil.example.com'', req_uri = ''/'',
     req_url = Some \<lparr>u_scheme = [], u_host = [], u_path = ''/'', u_rawpath = [],
       u_rawquery = ''q=agentz:resolve:env:TOKEN''\<rparr>, req_close = False,
     req_header = [(''Authorization'', [''Bearer agentz:resolve:env:TOKEN''])]\<rparr>"

theorem rewrite_noninterference_witness:
  "fst (rewriteRequest sample_http sample_request (token_resolver ''t0p'') ''evil.example.com:443'' ()) =
   fst (rewriteRequest sample_http sample_request (token_resolver ''s3cret'') ''evil.example.com:443'' ())"
proof (rule rewrite_noninterference [where R = "(=)"])
  show "alike (he_host sample_http) ''evil.example.com:443'' (=) (token_resolver ''t0p'') (token_resolver ''s3cret'')"
    using token_matches by (auto simp: alike_def token_resolver_def exposed_def sample_http_def)
qed simp

text \<open>Injecting secrets cannot add or remove a path separator, a query or fragment mark, or a
  control byte: the sequence of those bytes in the path stays as the client sent it.\<close>

lemma path_separators_kept:
  "filter path_unsafe (fst (replacePath env path res target s)) = filter path_unsafe path"
proof -
  have "filter path_unsafe (fst (substitute env target True res (segments path) s)) =
      filter path_unsafe (concat (map seg_text (segments path)))"
    by (rule substitute_filter) (auto intro: exposed_path_safe dest: ref_safe(1))
  then show ?thesis by (simp add: replacePath_def replaceSecretRefs_spec segments_text)
qed

text \<open>Injecting secrets cannot split headers: if no header value of a request contains CR, LF
  or NUL, none does after rewriting; the method, the host, the header keys and the number of
  values of each key stay the same.\<close>

lemma rewrite_keeps_headers:
  assumes "fair_order he" "\<forall>(k, vs)\<in>set (req_header req). \<forall>v\<in>set vs. filter line_break v = []"
    and "rewriteRequest he req res target s = (out, s')"
  shows "(\<forall>(k, vs)\<in>set (req_header out). \<forall>v\<in>set vs. filter line_break v = [])
    \<and> mset (map (\<lambda>(k, vs). (k, length vs)) (req_header out)) =
        mset (map (\<lambda>(k, vs). (k, length vs)) (req_header req))
    \<and> req_method out = req_method req \<and> req_host out = req_host req \<and> req_close out = req_close req"
proof -
  let ?f = "\<lambda>key item. replaceHeaderValue (he_host he) key item res target"
  let ?m = "map_order he (req_header req)"
  from assms(3) obtain s1 where out: "req_header out = fst (rewrite_map ?f ?m s1)"
    and frame: "req_method out = req_method req" "req_host out = req_host req" "req_close out = req_close req"
    by (auto simp: rewriteRequest_def split: prod.splits option.splits) (metis fst_conv)+
  have m: "mset ?m = mset (req_header req)" using assms(1) by (simp add: fair_order_def)
  then have "set ?m = set (req_header req)" by (metis set_mset_mset)
  then have "\<forall>(k, vs)\<in>set (req_header out). \<forall>v\<in>set vs. filter line_break v = []"
    unfolding out using assms(2)
    by (intro rewrite_map_all) (auto intro: replaceHeaderValue_line_break)
  moreover have "map (\<lambda>(k, vs). (k, length vs)) (req_header out) = map (\<lambda>(k, vs). (k, length vs)) ?m"
    unfolding out by (rule rewrite_map_shape)
  then have "mset (map (\<lambda>(k, vs). (k, length vs)) (req_header out)) =
      mset (map (\<lambda>(k, vs). (k, length vs)) (req_header req))" by (simp add: m)
  ultimately show ?thesis using frame by blast
qed

text \<open>
  The test for \<open>..\<close> looks at the value alone: a value of one dot next to a dot of the path
  still forms a parent segment.
\<close>

definition dot_resolver :: "(unit, unit) secretResolver" where
  "dot_resolver n s = (Ok \<lparr>rs_value = ''.'', rs_hosts = [''api.example.com'']\<rparr>, s)"

lemma dot_value_forms_parent:
  "replacePath ascii_env ''/a/agentz:resolve:env:DOT./b'' dot_resolver ''api.example.com:443'' () =
     (''/a/../b'', True, ())"
  by code_simp

definition values_wf :: "url_values \<Rightarrow> bool" where
  "values_wf m \<longleftrightarrow> distinct (map fst m) \<and> list_all (\<lambda>kv. snd kv \<noteq> []) m"

lemma add_value_wf: "values_wf m \<Longrightarrow> values_wf (add_value k v m) \<and> fst ` set (add_value k v m) = insert k (fst ` set m)"
proof (induction m)
  case (Cons kv m)
  then show ?case by (cases kv) (auto simp: values_wf_def)
qed (simp add: values_wf_def)

lemma parseQuery_wf: "values_wf (parseQuery lim q)"
proof -
  have "values_wf m \<Longrightarrow> values_wf (foldl (\<lambda>m (k, v). add_value k v m) m ps)" for m ps
  proof (induction ps arbitrary: m)
    case (Cons p ps)
    then show ?case by (cases p) (simp add: add_value_wf)
  qed simp
  then show ?thesis by (simp add: parseQuery_def values_wf_def)
qed

text \<open>C38. When a query parameter is replaced, the query that is sent upstream decodes to exactly
  the rewritten parameters, sorted by name: no value breaks out of its parameter.\<close>

theorem query_decodes_to_rewritten:
  assumes "fair_order he"
    and "rewrite_map (\<lambda>_ item. replacePlaceholders (he_host he) item res target)
      (map_order he (parseQuery (query_limit he) (u_rawquery u)))
      (snd (snd (replacePath (he_host he) (u_path u) res target s))) = (vals, True, s2)"
  shows "parseQuery 0 (u_rawquery (fst (rewrite_url he u res target s))) = sort_key fst vals"
proof -
  let ?q = "parseQuery (query_limit he) (u_rawquery u)"
  have "map (\<lambda>(k, vs). (k, length vs)) vals = map (\<lambda>(k, vs). (k, length vs)) (map_order he ?q)"
    using rewrite_map_shape [of "\<lambda>_ item. replacePlaceholders (he_host he) item res target" "map_order he ?q"
        "snd (snd (replacePath (he_host he) (u_path u) res target s))"] assms(2) by simp
  then have shape: "mset (map (\<lambda>(k, vs). (k, length vs)) vals) = mset (map (\<lambda>(k, vs). (k, length vs)) ?q)"
    using assms(1) by (simp add: fair_order_def)
  have "mset (map fst vals) = mset (map fst ?q)"
    using arg_cong [OF shape, of "image_mset fst"]
    by (simp add: image_mset.compositionality comp_def case_prod_unfold)
  then have d: "distinct (map fst vals)"
    using parseQuery_wf mset_eq_imp_distinct_iff unfolding values_wf_def by blast
  have "\<forall>(k, vs)\<in>set vals. vs \<noteq> []"
  proof clarify
    fix k assume "(k, []) \<in> set vals"
    then have "(k, 0) \<in> set (map (\<lambda>(k, vs). (k, length vs)) vals)" by force
    then have "(k, 0) \<in> set (map (\<lambda>(k, vs). (k, length vs)) ?q)" using mset_eq_setD [OF shape] by blast
    then show False
      using parseQuery_wf [of "query_limit he" "u_rawquery u"] by (force simp: values_wf_def list_all_iff)
  qed
  from parseQuery_Encode [OF d this] assms(2) show ?thesis
    by (simp add: rewrite_url_def Let_def case_prod_unfold)
qed

theorem query_decodes_to_rewritten_witness:
  "parseQuery 0 (u_rawquery (fst (rewrite_url sample_http
      \<lparr>u_scheme = [], u_host = [], u_path = ''/'', u_rawpath = [], u_rawquery = ''q=agentz:resolve:env:TOKEN''\<rparr>
      (token_resolver ''t0p&x=1'') ''api.example.com:443'' ()))) = [(''q'', [''t0p&x=1''])]"
proof -
  let ?u = "\<lparr>u_scheme = [], u_host = [], u_path = ''/'', u_rawpath = [], u_rawquery = ''q=agentz:resolve:env:TOKEN''\<rparr>"
  have "fair_order sample_http" by (simp add: fair_order_def sample_http_def)
  moreover have "rewrite_map (\<lambda>_ item. replacePlaceholders (he_host sample_http) item (token_resolver ''t0p&x=1'')
      ''api.example.com:443'') (map_order sample_http (parseQuery (query_limit sample_http) (u_rawquery ?u)))
      (snd (snd (replacePath (he_host sample_http) (u_path ?u) (token_resolver ''t0p&x=1'') ''api.example.com:443'' ())))
      = ([(''q'', [''t0p&x=1''])], True, ())"
    by code_simp
  ultimately show ?thesis by (simp add: query_decodes_to_rewritten)
qed

end
