(* ===== verification/CertStore.thy ===== *)
theory CertStore
  imports SecretHost
begin

section \<open>Cache of generated certificates (\<open>internal/sinjector/certstore.go\<close>, \<open>mitm.go\<close>)\<close>

text \<open>
  The proxy keeps the leaf certificates it signs in a bounded cache with least-recently-used
  eviction. The source holds a map from hosts to elements of a doubly linked list; here an
  element is a number, the list pairs each element with its entry, and \<open>next_elem\<close> is the next
  fresh element. \<open>Get\<close> takes the lock twice and signs in between, so its two critical sections
  are separate operations and the invariant is proved for every interleaving of them. The
  abstract cache is a list of host and certificate, most recent first. Signing is an argument.
\<close>

record 'c certEntry =
  ce_host :: string
  ce_cert :: 'c

record 'c certStore =
  cs_limit :: int
  cs_items :: "string \<rightharpoonup> nat"
  cs_order :: "(nat \<times> 'c certEntry) list"
  next_elem :: nat

definition newCertStore :: "int \<Rightarrow> 'c certStore" where
  "newCertStore limit = \<lparr>cs_limit = limit, cs_items = Map.empty, cs_order = [], next_elem = 0\<rparr>"

definition MoveToFront :: "nat \<Rightarrow> (nat \<times> 'e) list \<Rightarrow> (nat \<times> 'e) list" where
  "MoveToFront e xs = (case map_of xs e of
      None \<Rightarrow> xs
    | Some v \<Rightarrow> (e, v) # filter (\<lambda>x. fst x \<noteq> e) xs)"

text \<open>The look-up under the lock: a hit moves the element to the front.\<close>

definition get_cached :: "string \<Rightarrow> 'c certStore \<Rightarrow> 'c option \<times> 'c certStore" where
  "get_cached hostname st = (case cs_items st hostname of
      None \<Rightarrow> (None, st)
    | Some e \<Rightarrow>
        (map_option ce_cert (map_of (cs_order st) e), st\<lparr>cs_order := MoveToFront e (cs_order st)\<rparr>))"

function evict :: "'c certStore \<Rightarrow> 'c certStore" where
  "evict st =
     (if 0 < cs_limit st \<and> cs_limit st < int (length (cs_order st)) then
        (if cs_order st = [] then st
         else evict (st\<lparr>cs_items := (cs_items st)(ce_host (snd (last (cs_order st))) := None),
                       cs_order := butlast (cs_order st)\<rparr>))
      else st)"
  by pat_completeness auto
termination
  by (relation "measure (\<lambda>st. length (cs_order st))") auto

declare evict.simps [simp del]

text \<open>The insertion under the lock, after the certificate was generated.\<close>

definition put_cached :: "string \<Rightarrow> 'c \<Rightarrow> 'c certStore \<Rightarrow> 'c \<times> 'c certStore" where
  "put_cached hostname cert st = (case get_cached hostname st of
      (Some c, st1) \<Rightarrow> (c, st1)
    | (None, st1) \<Rightarrow>
        (cert, evict (st1\<lparr>cs_order := (next_elem st1, \<lparr>ce_host = hostname, ce_cert = cert\<rparr>) # cs_order st1,
                         cs_items := (cs_items st1)(hostname \<mapsto> next_elem st1),
                         next_elem := Suc (next_elem st1)\<rparr>)))"

definition Get :: "string \<Rightarrow> ('x, 'c) result \<Rightarrow> 'c certStore \<Rightarrow> ('x, 'c) result \<times> 'c certStore" where
  "Get hostname gen st = (case get_cached hostname st of
      (Some c, st1) \<Rightarrow> (Ok c, st1)
    | (None, st1) \<Rightarrow>
        (case gen of
           Inl e \<Rightarrow> (Err e, st1)
         | Inr cert \<Rightarrow> (case put_cached hostname cert st1 of (c, st2) \<Rightarrow> (Ok c, st2))))"

subsection \<open>Invariant\<close>

text \<open>The map and the list describe the same entries.\<close>

definition cert_wf :: "'c certStore \<Rightarrow> bool" where
  "cert_wf st \<longleftrightarrow> distinct (map fst (cs_order st))
     \<and> distinct (map (ce_host \<circ> snd) (cs_order st))
     \<and> (\<forall>h e. cs_items st h = Some e \<longleftrightarrow> (\<exists>v. (e, v) \<in> set (cs_order st) \<and> ce_host v = h))
     \<and> (\<forall>(e, v)\<in>set (cs_order st). e < next_elem st)"

definition within_limit :: "'c certStore \<Rightarrow> bool" where
  "within_limit st \<longleftrightarrow> (0 < cs_limit st \<longrightarrow> int (length (cs_order st)) \<le> cs_limit st)"

lemma new_wf: "cert_wf (newCertStore limit) \<and> within_limit (newCertStore limit)"
  by (simp add: cert_wf_def within_limit_def newCertStore_def)

lemma MoveToFront_split:
  assumes "map_of xs e = Some v" "distinct (map fst xs)"
  obtains a b where "xs = a @ (e, v) # b" "MoveToFront e xs = (e, v) # a @ b"
proof -
  from assms obtain a b where s: "xs = a @ (e, v) # b"
    by (meson map_of_SomeD split_list)
  with assms(2) have "filter (\<lambda>x. fst x \<noteq> e) a = a" "filter (\<lambda>x. fst x \<noteq> e) b = b"
    by (force simp: filter_id_conv)+
  with s assms(1) show ?thesis by (intro that [of a b]) (simp_all add: MoveToFront_def)
qed

lemma MoveToFront_wf:
  assumes "cert_wf st"
  shows "cert_wf (st\<lparr>cs_order := MoveToFront e (cs_order st)\<rparr>)"
    and "length (MoveToFront e (cs_order st)) = length (cs_order st)"
proof -
  show "cert_wf (st\<lparr>cs_order := MoveToFront e (cs_order st)\<rparr>)"
  proof (cases "map_of (cs_order st) e")
    case None
    with assms show ?thesis by (simp add: MoveToFront_def)
  next
    case (Some v)
    with assms obtain a b where ab: "cs_order st = a @ (e, v) # b" "MoveToFront e (cs_order st) = (e, v) # a @ b"
      by (elim MoveToFront_split) (auto simp: cert_wf_def)
    with assms show ?thesis by (auto simp: cert_wf_def)
  qed
  show "length (MoveToFront e (cs_order st)) = length (cs_order st)"
  proof (cases "map_of (cs_order st) e")
    case (Some v)
    with assms obtain a b where "cs_order st = a @ (e, v) # b" "MoveToFront e (cs_order st) = (e, v) # a @ b"
      by (elim MoveToFront_split) (auto simp: cert_wf_def)
    then show ?thesis by simp
  qed (simp add: MoveToFront_def)
qed

lemma get_cached_wf:
  assumes "cert_wf st"
  shows "cert_wf (snd (get_cached h st))"
    and "within_limit st \<Longrightarrow> within_limit (snd (get_cached h st))"
  using MoveToFront_wf [OF assms] assms
  by (auto simp: get_cached_def within_limit_def split: option.splits)

lemma drop_last_wf:
  assumes "cert_wf st" "cs_order st = xs @ [(e, v)]"
  shows "cert_wf (st\<lparr>cs_items := (cs_items st)(ce_host v := None), cs_order := xs\<rparr>)"
proof -
  have items: "cs_items st h = Some f \<longleftrightarrow> (\<exists>w. (f, w) \<in> set (xs @ [(e, v)]) \<and> ce_host w = h)" for h f
    using assms by (simp add: cert_wf_def)
  have "ce_host v \<notin> (\<lambda>x. ce_host (snd x)) ` set xs" using assms by (simp add: cert_wf_def comp_def)
  then have new: "ce_host w \<noteq> ce_host v" if "(f, w) \<in> set xs" for f w
    using that by (metis image_eqI snd_conv)
  have "((cs_items st)(ce_host v := None)) h = Some f \<longleftrightarrow> (\<exists>w. (f, w) \<in> set xs \<and> ce_host w = h)" for h f
    using new by (cases "h = ce_host v") (auto simp: items)
  moreover have "distinct (map fst xs)" "distinct (map (ce_host \<circ> snd) xs)" "\<forall>(f, w)\<in>set xs. f < next_elem st"
    using assms by (simp_all add: cert_wf_def)
  ultimately show ?thesis unfolding cert_wf_def by simp
qed

text \<open>Eviction cuts the list at the limit.\<close>

lemma evict_spec:
  "cert_wf st \<Longrightarrow> cert_wf (evict st)
    \<and> cs_order (evict st) = (if 0 < cs_limit st then take (nat (cs_limit st)) (cs_order st) else cs_order st)
    \<and> cs_limit (evict st) = cs_limit st"
proof (induction st rule: evict.induct)
  case (1 st)
  show ?case
  proof (cases "0 < cs_limit st \<and> cs_limit st < int (length (cs_order st))")
    case True
    then have ne: "cs_order st \<noteq> []" by auto
    then obtain xs e v where xs: "cs_order st = xs @ [(e, v)]" by (metis rev_exhaust surj_pair)
    define st1 where "st1 = st\<lparr>cs_items := (cs_items st)(ce_host v := None), cs_order := xs\<rparr>"
    have "evict st = evict st1" using True ne by (subst evict.simps) (simp add: xs st1_def)
    moreover have "cert_wf st1" using drop_last_wf [OF 1(2) xs] by (simp add: st1_def)
    then have "cert_wf (evict st1)
      \<and> cs_order (evict st1) = (if 0 < cs_limit st1 then take (nat (cs_limit st1)) (cs_order st1) else cs_order st1)
      \<and> cs_limit (evict st1) = cs_limit st1"
      using 1(1) [OF True ne] by (simp add: xs st1_def)
    moreover have "nat (cs_limit st) \<le> length xs" using True xs by auto
    ultimately show ?thesis using True by (simp add: xs st1_def)
  next
    case False
    then have "evict st = st" by (subst evict.simps) (simp only: if_False)
    with False 1(2) show ?thesis by auto
  qed
qed

lemma push_wf:
  assumes "cert_wf st" "cs_items st h = None"
  shows "cert_wf (st\<lparr>cs_order := (next_elem st, \<lparr>ce_host = h, ce_cert = c\<rparr>) # cs_order st,
      cs_items := (cs_items st)(h \<mapsto> next_elem st), next_elem := Suc (next_elem st)\<rparr>)"
proof -
  have items: "cs_items st k = Some f \<longleftrightarrow> (\<exists>w. (f, w) \<in> set (cs_order st) \<and> ce_host w = k)" for k f
    using assms(1) by (simp add: cert_wf_def)
  have old: "\<forall>(f, w)\<in>set (cs_order st). f < next_elem st" using assms(1) by (simp add: cert_wf_def)
  have host: "ce_host w \<noteq> h" if "(f, w) \<in> set (cs_order st)" for f w
    using assms(2) items [of h f] that by auto
  have "((cs_items st)(h \<mapsto> next_elem st)) k = Some f \<longleftrightarrow>
      (\<exists>w. (f, w) \<in> set ((next_elem st, \<lparr>ce_host = h, ce_cert = c\<rparr>) # cs_order st) \<and> ce_host w = k)" for k f
    using host items [of k f] by auto
  moreover have "next_elem st \<notin> fst ` set (cs_order st)" using old by fastforce
  moreover have "h \<notin> (\<lambda>x. ce_host (snd x)) ` set (cs_order st)" using host by fastforce
  moreover have "distinct (map fst (cs_order st))" "distinct (map (ce_host \<circ> snd) (cs_order st))"
    using assms(1) by (simp_all add: cert_wf_def)
  moreover have "\<forall>(f, w)\<in>set (cs_order st). f < Suc (next_elem st)" using old by fastforce
  ultimately show ?thesis unfolding cert_wf_def by (simp add: comp_def)
qed

subsection \<open>The abstract cache\<close>

type_synonym 'c lru = "(string \<times> 'c) list"

definition lru_touch :: "string \<Rightarrow> 'c lru \<Rightarrow> 'c option \<times> 'c lru" where
  "lru_touch h l = (case map_of l h of
      None \<Rightarrow> (None, l)
    | Some c \<Rightarrow> (Some c, (h, c) # filter (\<lambda>x. fst x \<noteq> h) l))"

definition lru_insert :: "int \<Rightarrow> string \<Rightarrow> 'c \<Rightarrow> 'c lru \<Rightarrow> 'c \<times> 'c lru" where
  "lru_insert limit h c l = (case lru_touch h l of
      (Some c', l') \<Rightarrow> (c', l')
    | (None, _) \<Rightarrow> (c, if 0 < limit then take (nat limit) ((h, c) # l) else (h, c) # l))"

definition cert_abs :: "'c certStore \<Rightarrow> 'c lru" where
  "cert_abs st = map (\<lambda>(_, v). (ce_host v, ce_cert v)) (cs_order st)"

lemma fst_cert_abs: "map fst (cert_abs st) = map (ce_host \<circ> snd) (cs_order st)"
  by (simp add: cert_abs_def case_prod_unfold comp_def)

lemma items_cert_abs:
  assumes "cert_wf st"
  shows "cs_items st h = None \<longleftrightarrow> map_of (cert_abs st) h = None"
    and "cs_items st h = Some e \<Longrightarrow> \<exists>v. map_of (cs_order st) e = Some v \<and> ce_host v = h
      \<and> map_of (cert_abs st) h = Some (ce_cert v)"
proof -
  have items: "cs_items st k = Some f \<longleftrightarrow> (\<exists>w. (f, w) \<in> set (cs_order st) \<and> ce_host w = k)" for k f
    using assms by (simp add: cert_wf_def)
  have d: "distinct (map fst (cs_order st))" "distinct (map fst (cert_abs st))"
    using assms by (simp_all add: cert_wf_def fst_cert_abs)
  show "cs_items st h = Some e \<Longrightarrow> \<exists>v. map_of (cs_order st) e = Some v \<and> ce_host v = h
      \<and> map_of (cert_abs st) h = Some (ce_cert v)"
  proof -
    assume "cs_items st h = Some e"
    then obtain v where v: "(e, v) \<in> set (cs_order st)" "ce_host v = h" using items by blast
    then have "(h, ce_cert v) \<in> set (cert_abs st)" by (force simp: cert_abs_def)
    with v d show ?thesis by auto
  qed
  show "cs_items st h = None \<longleftrightarrow> map_of (cert_abs st) h = None"
  proof
    assume none: "cs_items st h = None"
    have "h \<noteq> ce_host w" if "(f, w) \<in> set (cs_order st)" for f w
      using items [of h f] none that by auto
    then show "map_of (cert_abs st) h = None"
      by (fastforce simp: map_of_eq_None_iff cert_abs_def)
  next
    assume a: "map_of (cert_abs st) h = None"
    show "cs_items st h = None"
    proof (rule ccontr)
      assume "cs_items st h \<noteq> None"
      then obtain e v where "(e, v) \<in> set (cs_order st)" "ce_host v = h" using items by auto
      then have "(h, ce_cert v) \<in> set (cert_abs st)" by (force simp: cert_abs_def)
      with a show False by (force simp: map_of_eq_None_iff)
    qed
  qed
qed

lemma get_cached_refines:
  assumes "cert_wf st"
  shows "lru_touch h (cert_abs st) = (fst (get_cached h st), cert_abs (snd (get_cached h st)))"
proof (cases "cs_items st h")
  case None
  with items_cert_abs(1) [OF assms, of h] show ?thesis by (simp add: lru_touch_def get_cached_def)
next
  case (Some e)
  from items_cert_abs(2) [OF assms Some] obtain v where v: "map_of (cs_order st) e = Some v"
    "ce_host v = h" "map_of (cert_abs st) h = Some (ce_cert v)" by blast
  have d: "distinct (map fst (cs_order st))" "distinct (map (ce_host \<circ> snd) (cs_order st))"
    using assms by (simp_all add: cert_wf_def)
  obtain a b where ab: "cs_order st = a @ (e, v) # b" "MoveToFront e (cs_order st) = (e, v) # a @ b"
    by (rule MoveToFront_split [OF v(1) d(1)])
  have "h \<notin> (\<lambda>x. ce_host (snd x)) ` set (a @ b)" using d(2) v(2) by (auto simp: ab(1))
  then have "filter (\<lambda>x. ce_host (snd x) \<noteq> h) a = a" "filter (\<lambda>x. ce_host (snd x) \<noteq> h) b = b"
    by (auto simp: filter_id_conv)
  then have "filter (\<lambda>x. fst x \<noteq> h) (cert_abs st) = map (\<lambda>(_, v). (ce_host v, ce_cert v)) (a @ b)"
    using v(2) by (simp add: cert_abs_def ab(1) filter_map comp_def case_prod_unfold)
  with v Some ab show ?thesis by (simp add: lru_touch_def get_cached_def cert_abs_def)
qed

lemma get_cached_miss: "cert_wf st \<Longrightarrow> fst (get_cached h st) = None \<longleftrightarrow> cs_items st h = None"
  using items_cert_abs(2) [of st h] by (fastforce simp: get_cached_def split: option.splits)

lemma get_cached_limit [simp]: "cs_limit (snd (get_cached h st)) = cs_limit st"
  by (simp add: get_cached_def split: option.splits)

lemma put_cached_all:
  assumes "cert_wf st"
  shows "cert_wf (snd (put_cached h c st)) \<and> (within_limit st \<longrightarrow> within_limit (snd (put_cached h c st)))
    \<and> cs_limit (snd (put_cached h c st)) = cs_limit st
    \<and> (fst (put_cached h c st), cert_abs (snd (put_cached h c st))) = lru_insert (cs_limit st) h c (cert_abs st)"
proof (cases "fst (get_cached h st)")
  case (Some c')
  then have put: "put_cached h c st = (c', snd (get_cached h st))"
    by (simp add: put_cached_def case_prod_unfold)
  with get_cached_wf [OF assms, of h] get_cached_refines [OF assms, of h] Some
  show ?thesis by (simp add: lru_insert_def)
next
  case None
  then have miss: "cs_items st h = None" using get_cached_miss [OF assms] by blast
  then have g: "get_cached h st = (None, st)" by (simp add: get_cached_def)
  define st1 where "st1 = st\<lparr>cs_order := (next_elem st, \<lparr>ce_host = h, ce_cert = c\<rparr>) # cs_order st,
    cs_items := (cs_items st)(h \<mapsto> next_elem st), next_elem := Suc (next_elem st)\<rparr>"
  have wf1: "cert_wf st1" using push_wf [OF assms miss] by (simp add: st1_def)
  have put: "put_cached h c st = (c, evict st1)" by (simp add: put_cached_def g st1_def)
  note ev = evict_spec [OF wf1]
  have "lru_touch h (cert_abs st) = (None, cert_abs st)"
    using get_cached_refines [OF assms, of h] g by simp
  moreover have lim: "cs_limit st1 = cs_limit st" by (simp add: st1_def)
  moreover have "cert_abs st1 = (h, c) # cert_abs st" by (simp add: st1_def cert_abs_def)
  then have "cert_abs (evict st1) =
      (if 0 < cs_limit st then take (nat (cs_limit st)) ((h, c) # cert_abs st) else (h, c) # cert_abs st)"
    unfolding cert_abs_def [of "evict st1"] using ev lim
    by (simp add: take_map [symmetric] cert_abs_def del: take_Suc_Cons)
  ultimately have "(c, cert_abs (evict st1)) = lru_insert (cs_limit st) h c (cert_abs st)"
    by (simp add: lru_insert_def)
  moreover have "within_limit (evict st1)" using ev by (auto simp: within_limit_def)
  ultimately show ?thesis using ev by (simp add: put st1_def)
qed

lemmas put_cached_spec = put_cached_all [THEN conjunct1]
  put_cached_all [THEN conjunct2, THEN conjunct1, rule_format]
  put_cached_all [THEN conjunct2, THEN conjunct2, THEN conjunct1]
  put_cached_all [THEN conjunct2, THEN conjunct2, THEN conjunct2]

text \<open>Any goroutine may run either critical section at any time.\<close>

inductive cert_reach :: "int \<Rightarrow> 'c certStore \<Rightarrow> bool" for limit where
  start: "cert_reach limit (newCertStore limit)"
| lookup: "cert_reach limit st \<Longrightarrow> cert_reach limit (snd (get_cached h st))"
| insert: "cert_reach limit st \<Longrightarrow> cert_reach limit (snd (put_cached h c st))"

lemma Get_steps:
  "Get h g st = (case get_cached h st of
      (Some c, st1) \<Rightarrow> (Ok c, st1)
    | (None, st1) \<Rightarrow> (case g of Inl e \<Rightarrow> (Err e, st1) | Inr c \<Rightarrow> map_prod Ok id (put_cached h c st1)))"
  by (simp add: Get_def map_prod_def split: prod.splits option.splits sum.splits)

lemma lru_touch_hd: "lru_touch h l = (Some c, l') \<Longrightarrow> \<exists>l''. l' = (h, c) # l''"
  by (auto simp: lru_touch_def split: option.splits)

lemma lru_insert_hd: "lru_insert limit h c l = (c', l') \<Longrightarrow> \<exists>l''. l' = (h, c') # l''"
proof -
  assume a: "lru_insert limit h c l = (c', l')"
  show ?thesis
  proof (cases "lru_touch h l")
    case (Pair x y)
    with a show ?thesis
      by (cases x) (auto simp: lru_insert_def lru_touch_hd take_Cons' split: if_splits)
  qed
qed

lemma get_cached_front:
  assumes "cert_wf st" "cert_abs st = (h, c) # l"
  shows "fst (get_cached h st) = Some c"
  using get_cached_refines [OF assms(1), of h] by (simp add: assms(2) lru_touch_def)

lemma Get_front:
  assumes "cert_wf st" "Get h g st = (Ok c, st')"
  shows "cert_wf st' \<and> (\<exists>l. cert_abs st' = (h, c) # l)"
proof (cases "get_cached h st")
  case (Pair x st1)
  note wf1 = get_cached_wf(1) [OF assms(1), of h, unfolded Pair snd_conv]
  show ?thesis
  proof (cases x)
    case (Some d)
    with assms(2) Pair have "d = c" "st1 = st'" by (simp_all add: Get_steps)
    with wf1 get_cached_refines [OF assms(1), of h] Pair Some lru_touch_hd [of h "cert_abs st" c]
    show ?thesis by simp
  next
    case None
    with assms(2) Pair obtain d where d: "put_cached h d st1 = (c, st')"
      by (auto simp: Get_steps map_prod_def split: sum.splits prod.splits)
    have "lru_insert (cs_limit st1) h d (cert_abs st1) = (c, cert_abs st')"
      using put_cached_spec(4) [OF wf1, of h d] d by simp
    with put_cached_spec(1) [OF wf1, of h d] d lru_insert_hd show ?thesis by fastforce
  qed
qed

subsection \<open>The interface the proxy relies on\<close>

text \<open>
  What \<open>mitmServerConfig\<close> needs of a certificate cache: its invariant is kept, an error is the
  generator's, and a certificate that was handed out is handed out again.
\<close>

locale cert_cache =
  fixes get :: "string \<Rightarrow> ('x, 'c) result \<Rightarrow> 's \<Rightarrow> ('x, 'c) result \<times> 's"
    and inv :: "'s \<Rightarrow> bool"
  assumes get_inv: "inv s \<Longrightarrow> inv (snd (get h g s))"
    and get_error: "inv s \<Longrightarrow> fst (get h g s) = Inl e \<Longrightarrow> g = Inl e"
    and get_again: "inv s \<Longrightarrow> get h g s = (Inr c, s') \<Longrightarrow> fst (get h g' s') = Inr c"
begin

lemma served_twice:
  assumes "inv s" "get h (Inr c) s = (r, s1)"
  shows "\<exists>d. r = Inr d \<and> fst (get h g' s1) = Inr d"
proof (cases r)
  case (Inl e)
  have "fst (get h (Inr c) s) = Inl e" by (simp add: assms(2) Inl)
  from get_error [OF assms(1) this] show ?thesis by simp
next
  case (Inr d)
  with assms get_again show ?thesis by blast
qed

lemma again_inv: "inv s \<Longrightarrow> inv (snd (get h g (snd (get h' g' s))))"
  by (intro get_inv)

end

lemma Get_inv:
  assumes "cert_wf st" "within_limit st"
  shows "cert_wf (snd (Get h g st)) \<and> within_limit (snd (Get h g st)) \<and> cs_limit (snd (Get h g st)) = cs_limit st"
proof -
  obtain x st1 where g: "get_cached h st = (x, st1)" by fastforce
  have st1: "cert_wf st1" "within_limit st1" "cs_limit st1 = cs_limit st"
    using get_cached_wf [OF assms(1), of h] assms(2) get_cached_limit [of h st] by (simp_all add: g)
  have "\<exists>c. snd (Get h g st) = st1 \<or> snd (Get h g st) = snd (put_cached h c st1)"
    by (auto simp: Get_steps g split: option.splits sum.splits)
  with st1 put_cached_spec(1-3) [OF st1(1)] show ?thesis by metis
qed

lemma Get_error: "fst (Get h g st) = Inl e \<Longrightarrow> g = Inl e"
  by (auto simp: Get_steps map_prod_def split: option.splits sum.splits prod.splits)

lemma Get_again:
  assumes "cert_wf st" "Get h g st = (Inr c, st')"
  shows "fst (Get h g' st') = Inr c"
proof -
  from Get_front [OF assms] obtain l where "cert_wf st'" "cert_abs st' = (h, c) # l" by blast
  then have "fst (get_cached h st') = Some c" by (rule get_cached_front)
  then show ?thesis by (simp add: Get_steps [of h g'] case_prod_unfold)
qed

interpretation certs: cert_cache Get "\<lambda>st. cert_wf st \<and> within_limit st"
  by unfold_locales (auto simp: Get_inv Get_error intro: Get_again)

record 'c tls_config =
  tc_certificates :: "'c list"
  tc_protos :: "string list"

definition mitmServerConfig ::
  "(string list \<Rightarrow> ('x, 'c) result) \<Rightarrow> string \<Rightarrow> 'c certStore \<Rightarrow> ('x, 'c tls_config) result \<times> 'c certStore" where
  "mitmServerConfig signHost host cache = (case Get host (signHost [host]) cache of
      (Inl e, st) \<Rightarrow> (Err e, st)
    | (Inr c, st) \<Rightarrow> (Ok \<lparr>tc_certificates = [c], tc_protos = [''http/1.1'']\<rparr>, st))"

subsection \<open>Properties\<close>

text \<open>C39. Whatever the order in which concurrent connections look up and insert certificates,
  the map and the recency list of the cache describe the same entries, each host occurs once,
  and the number of entries never exceeds a positive limit.\<close>

theorem cert_interleaving_invariant:
  assumes "cert_reach limit st"
  shows "cert_wf st \<and> cs_limit st = limit \<and> (0 < limit \<longrightarrow> int (length (cs_order st)) \<le> limit)"
  using assms
proof (induction rule: cert_reach.induct)
  case start
  show ?case using new_wf [of limit] by (auto simp: within_limit_def) (simp_all add: newCertStore_def)
next
  case (lookup st h)
  then have "within_limit st" by (simp add: within_limit_def)
  with lookup get_cached_wf [of st h] show ?case by (auto simp: within_limit_def)
next
  case (insert st h c)
  then have "within_limit st" by (simp add: within_limit_def)
  with insert put_cached_spec(1-3) [of st h c] show ?case by (auto simp: within_limit_def)
qed

theorem cert_interleaving_invariant_witness:
  "int (length (cs_order (snd (put_cached ''b'' (2::nat) (snd (put_cached ''a'' 1 (newCertStore 1))))))) \<le> 1"
  using cert_interleaving_invariant
    [OF cert_reach.insert [OF cert_reach.insert [OF cert_reach.start [of 1]]], of "''b''" "2::nat" "''a''" 1]
  by simp

text \<open>C40. The cache is a least-recently-used cache: on the list of hosts and certificates, most
  recent first, a look-up touches the entry and a miss inserts the generated certificate in
  front and cuts the list at the limit.\<close>

theorem Get_refines_lru:
  assumes "cert_wf st"
  shows "(case Get h (Ok c) st of (r, st') \<Rightarrow> (r, cert_abs st')) =
    (case lru_insert (cs_limit st) h c (cert_abs st) of (d, l) \<Rightarrow> (Ok d :: ('x, 'c) result, l))"
proof (cases "get_cached h st")
  case (Pair x st1)
  show ?thesis
  proof (cases x)
    case None
    with Pair have "st1 = st"
      using get_cached_miss [OF assms, of h] by (auto simp: get_cached_def)
    with Pair None put_cached_spec(4) [OF assms, of h c, symmetric] show ?thesis
      by (simp add: Get_steps case_prod_unfold)
  next
    case (Some d)
    with Pair get_cached_refines [OF assms, of h] show ?thesis
      by (simp add: Get_steps lru_insert_def)
  qed
qed

theorem Get_refines_lru_witness:
  "(case Get ''a'' (Ok (7::nat)) (newCertStore 2) of (r, st') \<Rightarrow> (r, cert_abs st')) =
    (Ok 7 :: (unit, nat) result, [(''a'', 7)])"
proof -
  have "cert_abs (newCertStore 2 :: nat certStore) = []" "cs_limit (newCertStore 2 :: nat certStore) = 2"
    by (simp_all add: newCertStore_def cert_abs_def)
  then show ?thesis
    using Get_refines_lru [OF new_wf [of 2, THEN conjunct1], of "''a''" "7::nat"]
    by (simp add: lru_insert_def lru_touch_def)
qed

text \<open>Interception is stable: once a host was served with a certificate, the next
  connection to that host is served with the same certificate and the HTTP/1.1 protocol only,
  without signing again.\<close>

lemma mitm_same_certificate:
  fixes signHost signHost' :: "string list \<Rightarrow> ('x, 'c) result"
  assumes "cert_wf st" "within_limit st" "mitmServerConfig signHost host st = (Ok cfg, st')"
  shows "fst (mitmServerConfig signHost' host st') = Ok cfg \<and> tc_protos cfg = [''http/1.1'']
    \<and> length (tc_certificates cfg) = 1"
proof -
  obtain c where c: "Get host (signHost [host]) st = (Ok c, st')" "cfg = \<lparr>tc_certificates = [c], tc_protos = [''http/1.1'']\<rparr>"
    using assms(3) by (auto simp: mitmServerConfig_def split: prod.splits sum.splits)
  have "fst (Get host (signHost' [host]) st') = Ok c"
    by (rule certs.get_again [OF conjI [OF assms(1,2)] c(1)])
  then show ?thesis
    using c(2) by (auto simp: mitmServerConfig_def split: prod.splits sum.splits)
qed

end
