(* ===== verification/Tunnel.thy ===== *)
theory Tunnel
  imports Rewrite CertStore
begin

section \<open>The CONNECT proxy (\<open>internal/sinjector/tunnel.go\<close>, \<open>proxy.go\<close>)\<close>

text \<open>
  A client opens a tunnel with CONNECT; the proxy looks at the first bytes, terminates TLS
  where needed, and rewrites every HTTP request it reads before it forwards it. Connections are
  modelled by what the program observes of them: whether a call succeeds, the bytes that are
  peeked, the requests that are read and the reads of a response body. Writing to the client is
  an argument \<open>wr\<close> that says whether a write succeeds and passes its own state. Raw relaying is
  an action of the trace.
\<close>

definition CRLF :: string where
  "CRLF = [CHR 0x0D, CHR 0x0A]"

subsection \<open>Headers of \<open>net/http\<close>\<close>

text \<open>\<open>http.CanonicalHeaderKey\<close>: names with a byte that is not a token byte stay as they are.\<close>

definition token_byte :: "char \<Rightarrow> bool" where
  "token_byte c \<longleftrightarrow> is_digit c \<or> is_upper c \<or> is_lower c \<or> c \<in> set ''!#$%&*+-.^_|~'' \<or> byte c = 39 \<or> byte c = 96"

definition ascii_upper :: "char \<Rightarrow> char" where
  "ascii_upper c = (if is_lower c then char_of (byte c - 32) else c)"

fun canon_bytes :: "bool \<Rightarrow> string \<Rightarrow> string" where
  "canon_bytes up [] = []"
| "canon_bytes up (c # cs) =
     (if up then ascii_upper c else ascii_lower c) # canon_bytes (c = CHR ''-'') cs"

definition CanonicalHeaderKey :: "string \<Rightarrow> string" where
  "CanonicalHeaderKey k = (if list_all token_byte k then canon_bytes True k else k)"

definition header_values :: "url_values \<Rightarrow> string \<Rightarrow> string list" where
  "header_values h k = (case map_of h (CanonicalHeaderKey k) of None \<Rightarrow> [] | Some vs \<Rightarrow> vs)"

definition header_del :: "string \<Rightarrow> url_values \<Rightarrow> url_values" where
  "header_del k h = filter (\<lambda>kv. fst kv \<noteq> CanonicalHeaderKey k) h"

definition header_set :: "string \<Rightarrow> string \<Rightarrow> url_values \<Rightarrow> url_values" where
  "header_set k v h = header_del k h @ [(CanonicalHeaderKey k, [v])]"

text \<open>\<open>textproto.TrimString\<close> and the lines \<open>Header.Write\<close> emits, sorted by key.\<close>

definition TrimString :: "string \<Rightarrow> string" where
  "TrimString s = Trim s [CHR '' '', CHR 0x09, CHR 0x0A, CHR 0x0D]"

definition newline_to_space :: "string \<Rightarrow> string" where
  "newline_to_space = map (\<lambda>c. if c = CHR 0x0A \<or> c = CHR 0x0D then CHR '' '' else c)"

definition header_pieces :: "url_values \<Rightarrow> string list" where
  "header_pieces h = concat (map (\<lambda>(k, vs).
     if k \<noteq> [] \<and> list_all token_byte k
     then concat (map (\<lambda>v. [k, '': '', TrimString (newline_to_space v), CRLF]) vs)
     else []) (sort_key fst h))"

subsection \<open>Writing a response\<close>

datatype io_error = EOF | ReadFailed | WriteFailed

type_synonym 'w writer = "string \<Rightarrow> 'w \<Rightarrow> bool \<times> 'w"

text \<open>The reads of a body in order; after the last one the reader reports the end of file.\<close>

type_synonym body = "(string \<times> io_error option) list"

record response =
  rs_status :: string
  rs_code :: int
  rs_header :: url_values
  rs_contentLength :: int
  rs_body :: "body option"
  rs_close :: bool

fun write_all :: "'w writer \<Rightarrow> string list \<Rightarrow> 'w \<Rightarrow> io_error option \<times> 'w" where
  "write_all wr [] w = (None, w)"
| "write_all wr (x # xs) w = (case wr x w of
      (False, w1) \<Rightarrow> (Some WriteFailed, w1)
    | (True, w1) \<Rightarrow> write_all wr xs w1)"

definition bodyAllowed :: "int \<Rightarrow> bool" where
  "bodyAllowed status = (if 100 \<le> status \<and> status < 200 then False else status \<noteq> 204 \<and> status \<noteq> 304)"

definition is_chunked :: "response \<Rightarrow> bool" where
  "is_chunked resp \<longleftrightarrow> rs_contentLength resp < 0 \<and> rs_body resp \<noteq> None \<and> bodyAllowed (rs_code resp)"

definition response_header :: "response \<Rightarrow> bool \<Rightarrow> url_values" where
  "response_header resp closeConn =
     (let h = rs_header resp;
          h1 = (if is_chunked resp then header_set ''Transfer-Encoding'' ''chunked'' (header_del ''Content-Length'' h) else h);
          h2 = (if \<not> is_chunked resp then header_del ''Transfer-Encoding'' h1 else h1)
      in if rs_close resp \<or> closeConn then header_set ''Connection'' ''close'' h2 else h2)"

definition writeResponseHead :: "'w writer \<Rightarrow> response \<Rightarrow> bool \<Rightarrow> 'w \<Rightarrow> io_error option \<times> 'w" where
  "writeResponseHead wr resp closeConn =
     write_all wr ((''HTTP/1.1 '' @ rs_status resp @ CRLF) # header_pieces (response_header resp closeConn) @ [CRLF])"

fun writeChunkedBody :: "'w writer \<Rightarrow> body \<Rightarrow> 'w \<Rightarrow> io_error option \<times> 'w" where
  "writeChunkedBody wr [] w = write_all wr [''0'' @ CRLF @ CRLF] w"
| "writeChunkedBody wr ((bytes, e) # reads) w =
     (case (if bytes \<noteq> [] then write_all wr [hex_str (length bytes) @ CRLF, bytes, CRLF] w else (None, w)) of
        (Some werr, w1) \<Rightarrow> (Some werr, w1)
      | (None, w1) \<Rightarrow>
          (case e of
             Some EOF \<Rightarrow> write_all wr [''0'' @ CRLF @ CRLF] w1
           | Some err \<Rightarrow> (Some err, w1)
           | None \<Rightarrow> writeChunkedBody wr reads w1))"

text \<open>\<open>io.Copy\<close> from a body.\<close>

fun copy_body :: "'w writer \<Rightarrow> body \<Rightarrow> 'w \<Rightarrow> io_error option \<times> 'w" where
  "copy_body wr [] w = (None, w)"
| "copy_body wr ((bytes, e) # reads) w =
     (case (if bytes \<noteq> [] then write_all wr [bytes] w else (None, w)) of
        (Some werr, w1) \<Rightarrow> (Some werr, w1)
      | (None, w1) \<Rightarrow>
          (case e of Some EOF \<Rightarrow> (None, w1) | Some err \<Rightarrow> (Some err, w1) | None \<Rightarrow> copy_body wr reads w1))"

definition writeResponse :: "'w writer \<Rightarrow> response \<Rightarrow> bool \<Rightarrow> 'w \<Rightarrow> io_error option \<times> 'w" where
  "writeResponse wr resp closeConn w = (case writeResponseHead wr resp closeConn w of
      (Some e, w1) \<Rightarrow> (Some e, w1)
    | (None, w1) \<Rightarrow>
        (case rs_body resp of
           None \<Rightarrow> (None, w1)
         | Some b \<Rightarrow>
             if \<not> bodyAllowed (rs_code resp) then (None, w1)
             else if rs_contentLength resp < 0 then writeChunkedBody wr b w1
             else copy_body wr b w1))"

subsection \<open>The request sent upstream\<close>

definition hop_by_hop :: "string list" where
  "hop_by_hop = [''Connection'', ''Keep-Alive'', ''Proxy-Authenticate'', ''Proxy-Authorization'',
     ''Te'', ''Trailer'', ''Transfer-Encoding'', ''Upgrade'']"

definition hopByHopHeaders :: "url_values \<Rightarrow> string list" where
  "hopByHopHeaders h = hop_by_hop @
     concat (map (\<lambda>v. filter (\<lambda>i. i \<noteq> []) (map TrimString (Split (CHR '','') v)))
       (header_values h ''Connection''))"

definition cloneHeaderWithoutHopByHop :: "url_values \<Rightarrow> url_values" where
  "cloneHeaderWithoutHopByHop h = header_del ''Proxy-Connection'' (fold header_del (hopByHopHeaders h) h)"

definition upstreamRequest :: "request \<Rightarrow> string \<Rightarrow> string \<Rightarrow> request" where
  "upstreamRequest req target scheme =
     (let u = (case req_url req of
                 None \<Rightarrow> \<lparr>u_scheme = [], u_host = [], u_path = [], u_rawpath = [], u_rawquery = []\<rparr>
               | Some u \<Rightarrow> u)
      in req\<lparr>req_url := Some (u\<lparr>u_scheme := scheme, u_host := target\<rparr>),
             req_host := (if req_host req = [] then target else req_host req),
             req_uri := [],
             req_close := req_close req,
             req_header := cloneHeaderWithoutHopByHop (req_header req)\<rparr>)"

subsection \<open>Serving a connection\<close>

text \<open>
  The loop of \<open>handleHTTP\<close> over the requests the client sends, ending where reading fails. It
  returns the requests it handed to the transport, in order, with the final states of the
  resolver, the transport \<open>rt\<close> (\<open>None\<close> for an error) and the client.
\<close>

fun handleHTTP ::
  "http_env \<Rightarrow> ('e, 's) secretResolver \<Rightarrow> (request \<Rightarrow> 't \<Rightarrow> response option \<times> 't) \<Rightarrow> 'w writer
    \<Rightarrow> string \<Rightarrow> string \<Rightarrow> request list \<Rightarrow> 's \<Rightarrow> 't \<Rightarrow> 'w \<Rightarrow> request list \<times> 's \<times> 't \<times> 'w" where
  "handleHTTP he res rt wr target scheme [] s t w = ([], s, t, w)"
| "handleHTTP he res rt wr target scheme (r # rs) s t w =
     (case rewriteRequest he r res target s of (req, s1) \<Rightarrow>
       (let up = upstreamRequest req target scheme in
        case rt up t of
          (None, t1) \<Rightarrow> ([up], s1, t1, w)
        | (Some resp, t1) \<Rightarrow>
            if rs_code resp = 101 then ([up], s1, t1, snd (writeResponse wr resp True w))
            else (case writeResponse wr resp False w of
                (Some _, w1) \<Rightarrow> ([up], s1, t1, w1)
              | (None, w1) \<Rightarrow>
                  if req_close req \<or> rs_close resp \<or> req_close up then ([up], s1, t1, w1)
                  else (case handleHTTP he res rt wr target scheme rs s1 t1 w1 of
                     (ups, rest) \<Rightarrow> (up # ups, rest)))))"

definition looksLikeTLS :: "string \<Rightarrow> bool" where
  "looksLikeTLS peek =
     (if length peek < 3 then False
      else if byte (peek ! 0) \<noteq> 0x16 then False
      else if byte (peek ! 1) \<noteq> 0x03 then False
      else byte (peek ! 2) \<le> 0x04)"

definition http_methods :: "string list" where
  "http_methods = [''GET '', ''HEAD '', ''POST '', ''PUT '', ''DELETE '', ''PATCH '', ''OPTIONS '',
     ''TRACE '', ''CONNECT '']"

definition looksLikeHTTP :: "string \<Rightarrow> bool" where
  "looksLikeHTTP peek \<longleftrightarrow> list_ex (\<lambda>m. length m \<le> length peek \<and> take (length m) peek = m) http_methods"

datatype action =
    HttpError int string
  | Hijack
  | Dial string
  | WriteClient string
  | HandshakeClient string
  | HandshakeUpstream string
  | Relay
  | InspectHTTP string string
  | CloseClient
  | CloseUpstream

text \<open>What the program observes of the two connections.\<close>

record conn_io =
  hijackable :: bool
  hijack_ok :: bool
  dial_ok :: bool
  ack_ok :: bool
  peeked :: "string option"
  client_tls_ok :: bool
  upstream_tls_ok :: bool
  tls_peeked :: "string option"

definition handleTLS ::
  "(string list \<Rightarrow> ('x, 'c) result) \<Rightarrow> conn_io \<Rightarrow> string \<Rightarrow> 'c certStore \<Rightarrow> action list \<times> 'c certStore" where
  "handleTLS signHost io host cache =
     (case mitmServerConfig signHost (stripPort host) cache of
        (Inl _, cache1) \<Rightarrow> ([], cache1)
      | (Inr _, cache1) \<Rightarrow>
          (HandshakeClient (stripPort host) #
             (if \<not> client_tls_ok io then []
              else HandshakeUpstream (stripPort host) #
                (if \<not> upstream_tls_ok io then [CloseClient]
                 else (case tls_peeked io of
                     None \<Rightarrow> [Relay]
                   | Some p \<Rightarrow> if looksLikeHTTP p then [CloseUpstream, InspectHTTP host ''https''] else [Relay])
                   @ [CloseUpstream, CloseClient])), cache1))"

definition connect_host :: "request \<Rightarrow> string" where
  "connect_host r = (if \<not> Contains (req_host r) '':'' then req_host r @ '':443'' else req_host r)"

definition handleConnect ::
  "(string list \<Rightarrow> ('x, 'c) result) \<Rightarrow> conn_io \<Rightarrow> request \<Rightarrow> 'c certStore \<Rightarrow> action list \<times> 'c certStore" where
  "handleConnect signHost io r cache =
     (if \<not> hijackable io then ([HttpError 500 ''hijacking not supported''], cache)
      else if \<not> hijack_ok io then ([Hijack], cache)
      else
       (let host = connect_host r in
        if \<not> dial_ok io
        then ([Hijack, Dial host, WriteClient (''HTTP/1.1 502 Bad Gateway'' @ CRLF @ CRLF), CloseClient], cache)
        else
         (case (if \<not> ack_ok io then ([], cache)
                else case peeked io of
                    None \<Rightarrow> ([Relay], cache)
                  | Some p \<Rightarrow>
                      if looksLikeTLS p then handleTLS signHost io host cache
                      else if looksLikeHTTP p then ([InspectHTTP host ''http''], cache)
                      else ([Relay], cache)) of
            (acts, cache1) \<Rightarrow>
              ([Hijack, Dial host, WriteClient (''HTTP/1.1 200 Connection established'' @ CRLF @ CRLF)]
                 @ acts @ [CloseUpstream, CloseClient], cache1))))"

definition ServeHTTP ::
  "(string list \<Rightarrow> ('x, 'c) result) \<Rightarrow> conn_io \<Rightarrow> request \<Rightarrow> 'c certStore \<Rightarrow> action list \<times> 'c certStore" where
  "ServeHTTP signHost io r cache =
     (if req_method r \<noteq> ''CONNECT'' then ([HttpError 400 ''CONNECT required''], cache)
      else handleConnect signHost io r cache)"

subsection \<open>Chunked bodies\<close>

text \<open>A writer that always succeeds and keeps what was written.\<close>

definition to_buffer :: "string writer" where
  "to_buffer x w = (True, w @ x)"

lemma write_all_buffer [simp]: "write_all to_buffer xs w = (None, w @ concat xs)"
  by (induction xs arbitrary: w) (auto simp: to_buffer_def)

text \<open>The chunked transfer coding as a receiver reads it; \<open>None\<close> for anything malformed.\<close>

fun dechunk :: "nat \<Rightarrow> string \<Rightarrow> string option" where
  "dechunk 0 s = None"
| "dechunk (Suc fuel) s =
     (let digits = takeWhile is_hex s; n = hex_val digits; rest = drop (length digits) s in
      if digits = [] \<or> take 2 rest \<noteq> CRLF then None
      else if n = 0 then (if drop 2 rest = CRLF then Some [] else None)
      else if length (drop 2 rest) < n + 2 \<or> take 2 (drop (n + 2) rest) \<noteq> CRLF then None
      else map_option (\<lambda>t. take n (drop 2 rest) @ t) (dechunk fuel (drop (n + 4) rest)))"

fun body_bytes :: "body \<Rightarrow> string" where
  "body_bytes [] = []"
| "body_bytes ((bytes, e) # reads) = bytes @ (if e = None then body_bytes reads else [])"

fun body_ends :: "body \<Rightarrow> bool" where
  "body_ends [] = True"
| "body_ends ((bytes, e) # reads) = (e = Some EOF \<or> (e = None \<and> body_ends reads))"

lemma hex_then_CR: "takeWhile is_hex (hex_str n @ CRLF @ x) = hex_str n"
  using hex_str_hex [of _ n] by (simp add: takeWhile_append CRLF_def hex_digit_def in_range_def)

lemma dechunk_end: "0 < fuel \<Longrightarrow> dechunk fuel (''0'' @ CRLF @ CRLF) = Some []"
  by (cases fuel) (simp_all add: CRLF_def hex_digit_def in_range_def hex_val_def digits_val_def)

lemma dechunk_chunk:
  assumes "bytes \<noteq> []" "dechunk fuel rest = Some t"
  shows "dechunk (Suc fuel) (hex_str (length bytes) @ CRLF @ bytes @ CRLF @ rest) = Some (bytes @ t)"
proof -
  have cr: "length CRLF = 2" by (simp add: CRLF_def)
  let ?h = "hex_str (length bytes)"
  have rest: "drop (length ?h) (?h @ CRLF @ bytes @ CRLF @ rest) = CRLF @ bytes @ CRLF @ rest" by simp
  have body: "drop 2 (CRLF @ bytes @ CRLF @ rest) = bytes @ CRLF @ rest"
    "drop (length bytes + 2) (CRLF @ bytes @ CRLF @ rest) = CRLF @ rest"
    "drop (length bytes + 4) (CRLF @ bytes @ CRLF @ rest) = rest"
    "take 2 (CRLF @ bytes @ CRLF @ rest) = CRLF" "take 2 (CRLF @ rest) = CRLF"
    by (simp_all add: cr)
  show ?thesis
    unfolding dechunk.simps Let_def hex_then_CR rest hex_val_hex_str body
    using assms by (simp add: cr)
qed

lemma writeChunkedBody_buffer:
  "if body_ends b
   then \<exists>out. writeChunkedBody to_buffer b w = (None, w @ out)
      \<and> (\<forall>fuel>length b. dechunk fuel out = Some (body_bytes b))
   else fst (writeChunkedBody to_buffer b w) \<noteq> None"
proof (induction b arbitrary: w)
  case Nil
  show ?case using dechunk_end by (simp add: to_buffer_def)
next
  case (Cons r b)
  obtain bytes e where r: "r = (bytes, e)" by fastforce
  let ?chunk = "if bytes \<noteq> [] then hex_str (length bytes) @ CRLF @ bytes @ CRLF else []"
  have first: "(if bytes \<noteq> [] then write_all to_buffer [hex_str (length bytes) @ CRLF, bytes, CRLF] w else (None, w))
      = (None, w @ ?chunk)" by (simp del: write_all.simps)
  have step: "dechunk (Suc fuel) (?chunk @ out) = Some (bytes @ t)"
    if "dechunk fuel out = Some t" "dechunk (Suc fuel) out = Some t" for fuel out t
    using that dechunk_chunk [of bytes fuel out t] by (simp del: dechunk.simps)
  show ?case
  proof (cases e)
    case None
    have w: "writeChunkedBody to_buffer (r # b) w = writeChunkedBody to_buffer b (w @ ?chunk)"
      using first by (simp add: r None)
    show ?thesis
    proof (cases "body_ends b")
      case True
      then obtain out where out: "writeChunkedBody to_buffer b (w @ ?chunk) = (None, (w @ ?chunk) @ out)"
          "\<forall>fuel>length b. dechunk fuel out = Some (body_bytes b)"
        using Cons [of "w @ ?chunk"] by auto
      have "dechunk fuel (?chunk @ out) = Some (bytes @ body_bytes b)" if "Suc (length b) < fuel" for fuel
        using that step [of "fuel - 1" out "body_bytes b"] out(2) by (cases fuel) (auto simp del: dechunk.simps)
      with w out(1) True show ?thesis by (auto simp: r None)
    next
      case False
      with w Cons [of "w @ ?chunk"] show ?thesis by (simp add: r None)
    qed
  next
    case (Some x)
    show ?thesis
    proof (cases "x = EOF")
      case True
      have "dechunk fuel (?chunk @ ''0'' @ CRLF @ CRLF) = Some (bytes @ [])" if "Suc (length b) < fuel" for fuel
        using that step [of "fuel - 1" "''0'' @ CRLF @ CRLF" "[]"] dechunk_end
        by (cases fuel) (auto simp del: dechunk.simps)
      moreover have "writeChunkedBody to_buffer (r # b) w = (None, w @ ?chunk @ ''0'' @ CRLF @ CRLF)"
        using first by (simp add: r Some True del: write_all.simps)
      ultimately show ?thesis by (auto simp: r Some True)
    next
      case False
      with first show ?thesis by (cases x) (auto simp: r Some)
    qed
  qed
qed

subsection \<open>Headers\<close>

lemma header_dels: "fold header_del ks h = filter (\<lambda>kv. fst kv \<notin> CanonicalHeaderKey ` set ks) h"
  by (induction ks arbitrary: h) (auto simp: header_del_def intro: filter_cong)

lemma header_values_set [simp]: "header_values (header_set k v h) k = [v]"
proof -
  have "map_of (header_del k h) (CanonicalHeaderKey k) = None"
    by (auto simp: header_del_def map_of_eq_None_iff)
  then show ?thesis by (simp add: header_values_def header_set_def map_add_def)
qed

lemma map_of_header_del:
  "map_of (header_del k h) j = (if j = CanonicalHeaderKey k then None else map_of h j)"
  by (induction h) (auto simp: header_del_def)

lemma header_values_del: "header_values (header_del k h) j =
    (if CanonicalHeaderKey j = CanonicalHeaderKey k then [] else header_values h j)"
  by (simp add: header_values_def map_of_header_del)

lemma header_values_set_other:
  "CanonicalHeaderKey j \<noteq> CanonicalHeaderKey k \<Longrightarrow> header_values (header_set k v h) j = header_values h j"
  by (simp add: header_values_def header_set_def map_add_def map_of_header_del split: option.splits)

lemma canonical_names:
  "CanonicalHeaderKey ''Transfer-Encoding'' = ''Transfer-Encoding''"
  "CanonicalHeaderKey ''Content-Length'' = ''Content-Length''"
  "CanonicalHeaderKey ''Connection'' = ''Connection''"
  "CanonicalHeaderKey ''Proxy-Connection'' = ''Proxy-Connection''"
  by code_simp+

lemma canonical_hop_by_hop: "map CanonicalHeaderKey hop_by_hop = hop_by_hop"
  by code_simp

subsection \<open>Properties\<close>

text \<open>Streaming a body in chunks is lossless: with a client that accepts every write, the
  proxy finishes without error exactly when the upstream body ends with end-of-file, and a
  receiver of the chunked coding then reads back exactly the bytes of the body.\<close>

lemma chunked_roundtrip:
  "case writeChunkedBody to_buffer b [] of
     (None, out) \<Rightarrow> body_ends b \<and> dechunk (Suc (length b)) out = Some (body_bytes b)
   | (Some _, _) \<Rightarrow> \<not> body_ends b"
  using writeChunkedBody_buffer [of b "[]"] by (auto split: if_splits prod.splits option.splits)

text \<open>No hop-by-hop header reaches the upstream: a header of the forwarded request is a header
  of the client's request, unchanged, that is neither in the fixed list, nor \<open>Proxy-Connection\<close>,
  nor named by the \<open>Connection\<close> header. The request is addressed to the tunnel's target.\<close>

lemma upstream_without_hop_by_hop:
  "set (req_header (upstreamRequest req target scheme)) =
     {kv \<in> set (req_header req). fst kv \<notin> set hop_by_hop \<and> fst kv \<noteq> ''Proxy-Connection''
        \<and> list_all (\<lambda>v. list_all (\<lambda>i. \<not> (TrimString i \<noteq> [] \<and> fst kv = CanonicalHeaderKey (TrimString i)))
             (Split (CHR '','') v)) (header_values (req_header req) ''Connection'')}
   \<and> map_option u_host (req_url (upstreamRequest req target scheme)) = Some target
   \<and> map_option u_scheme (req_url (upstreamRequest req target scheme)) = Some scheme"
proof -
  have fixed: "CanonicalHeaderKey ` set hop_by_hop = set hop_by_hop"
    using canonical_hop_by_hop by (metis list.set_map)
  have dyn: "k \<in> CanonicalHeaderKey ` set (hopByHopHeaders h) \<longleftrightarrow> k \<in> set hop_by_hop
      \<or> \<not> list_all (\<lambda>v. list_all (\<lambda>i. \<not> (TrimString i \<noteq> [] \<and> k = CanonicalHeaderKey (TrimString i)))
             (Split (CHR '','') v)) (header_values h ''Connection'')" for k h
    unfolding hopByHopHeaders_def set_append image_Un fixed by (auto simp: list_all_iff)
  have hdr: "req_header (upstreamRequest req target scheme) = cloneHeaderWithoutHopByHop (req_header req)"
    by (simp add: upstreamRequest_def)
  show ?thesis
    unfolding hdr cloneHeaderWithoutHopByHop_def header_dels
    by (auto simp: header_del_def dyn canonical_names upstreamRequest_def)
qed

text \<open>The head of a relayed response frames its body consistently: a body of unknown length is
  announced as chunked with no content length, and in every other case no transfer coding is
  announced and the content length is the upstream's; a closing connection is announced.\<close>

lemma response_framing:
  "(if is_chunked resp
    then header_values (response_header resp closeConn) ''Transfer-Encoding'' = [''chunked'']
       \<and> header_values (response_header resp closeConn) ''Content-Length'' = []
    else header_values (response_header resp closeConn) ''Transfer-Encoding'' = []
       \<and> header_values (response_header resp closeConn) ''Content-Length'' =
           header_values (rs_header resp) ''Content-Length'')
   \<and> header_values (response_header resp closeConn) ''Connection'' =
       (if rs_close resp \<or> closeConn then [''close''] else header_values (rs_header resp) ''Connection'')"
  by (simp add: response_header_def Let_def header_values_set_other header_values_del canonical_names)

text \<open>C2. Host binding holds for a whole connection: two secret stores that expose the same values
  to the tunnel's target cause the same requests to be sent upstream and the same bytes to be
  written to the client.\<close>

theorem session_noninterference:
  assumes "alike (he_host he) target R res1 res2" "R s1 s2"
    and "handleHTTP he res1 rt wr target scheme rs s1 t w = (ups, s1', t', w')"
  shows "\<exists>s2'. handleHTTP he res2 rt wr target scheme rs s2 t w = (ups, s2', t', w') \<and> R s1' s2'"
  using assms(2,3)
proof (induction rs arbitrary: s1 s2 t w ups s1' t' w')
  case Nil
  then show ?case by simp
next
  case (Cons r rs)
  obtain req a b where req: "rewriteRequest he r res1 target s1 = (req, a)"
      "rewriteRequest he r res2 target s2 = (req, b)" "R a b"
    using rewriteRequest_agree [OF assms(1) Cons.prems(1), of r] unfolding agree_def by (metis prod.collapse)
  obtain resp t1 where rt: "rt (upstreamRequest req target scheme) t = (resp, t1)" by fastforce
  show ?case
  proof (cases resp)
    case None
    with Cons.prems(2) req rt show ?thesis by simp
  next
    case (Some rp)
    obtain e w1 where w: "writeResponse wr rp False w = (e, w1)" by fastforce
    show ?thesis
    proof (cases "rs_code rp = 101 \<or> e \<noteq> None \<or> req_close req \<or> rs_close rp \<or> req_close (upstreamRequest req target scheme)")
      case True
      with Cons.prems(2) req rt Some w show ?thesis by (cases e) (auto simp: Let_def split: if_splits)
    next
      case False
      then have e: "e = None" by blast
      obtain ups' a' t2 w2 where rec: "handleHTTP he res1 rt wr target scheme rs a t1 w1 = (ups', a', t2, w2)"
        by (metis prod_cases4)
      obtain b' where "handleHTTP he res2 rt wr target scheme rs b t1 w1 = (ups', b', t2, w2)" "R a' b'"
        using Cons.IH [OF req(3) rec] by blast
      with Cons.prems(2) req rt Some w rec False e show ?thesis by (auto simp: Let_def)
    qed
  qed
qed

definition ok_transport :: "request \<Rightarrow> nat \<Rightarrow> response option \<times> nat" where
  "ok_transport r n = (Some \<lparr>rs_status = ''200 OK'', rs_code = 200, rs_header = [], rs_contentLength = 0,
     rs_body = None, rs_close = False\<rparr>, Suc n)"

theorem session_noninterference_witness:
  "fst (handleHTTP sample_http (token_resolver ''t0p'') ok_transport to_buffer ''evil.example.com:443'' ''https''
      [sample_request, sample_request] () 0 []) =
   fst (handleHTTP sample_http (token_resolver ''s3cret'') ok_transport to_buffer ''evil.example.com:443'' ''https''
      [sample_request, sample_request] () 0 [])"
proof -
  have alike: "alike (he_host sample_http) ''evil.example.com:443'' (=) (token_resolver ''t0p'') (token_resolver ''s3cret'')"
    using token_matches by (auto simp: alike_def token_resolver_def exposed_def sample_http_def)
  obtain ups s t w where h: "handleHTTP sample_http (token_resolver ''t0p'') ok_transport to_buffer
      ''evil.example.com:443'' ''https'' [sample_request, sample_request] () 0 [] = (ups, s, t, w)"
    by (metis prod_cases4)
  from session_noninterference [OF alike refl this] obtain s' where
    "handleHTTP sample_http (token_resolver ''s3cret'') ok_transport to_buffer
      ''evil.example.com:443'' ''https'' [sample_request, sample_request] () 0 [] = (ups, s', t, w)" by blast
  then show ?thesis by (simp only: h fst_conv)
qed

text \<open>Only CONNECT requests open a tunnel, and traffic is inspected only for the host that was
  dialled, with scheme \<open>https\<close> exactly when TLS was terminated for that host; a hijacked
  connection is always closed at the end.\<close>

lemma inspected_target:
  assumes "ServeHTTP signHost io r cache = (acts, cache')" "InspectHTTP target scheme \<in> set acts"
  shows "req_method r = ''CONNECT'' \<and> target = connect_host r \<and> Dial target \<in> set acts
    \<and> (scheme = ''https'' \<longleftrightarrow> HandshakeClient (stripPort target) \<in> set acts)
    \<and> last acts = CloseClient"
proof (cases "mitmServerConfig signHost (stripPort (connect_host r)) cache")
  case (Pair c cache1)
  with assms show ?thesis
    by (cases c) (auto simp: ServeHTTP_def handleConnect_def handleTLS_def Let_def
        split: if_splits option.splits)
qed

end
