(* ===== verification/OAuth.thy ===== *)
theory OAuth
  imports NetIP Encoding "HOL-Library.Word"
begin

section \<open>OAuth token refresh (\<open>internal/oauth\<close>)\<close>

text \<open>
  Refreshing an access token: which tokens are still usable, the form that is posted to the
  token endpoint, how the answer becomes a token, and the check that the endpoint is public.
  Times and durations count nanoseconds, times from Go's zero time. Arguments stand for what
  lies outside the program: URL parsing results, name resolution, the HTTP exchange, and
  decoding of the JSON answer.
\<close>

type_synonym time = int

definition second :: int where
  "second = 1000000000"

definition RefreshGrace :: int where
  "RefreshGrace = 60 * second"

record oauth2_token =
  AccessToken :: string
  TokenType :: string
  RefreshToken :: string
  Expiry :: time

record oauth_record =
  ClientID :: string
  ClientSecret :: string
  Token :: "oauth2_token option"
  Scopes :: "string list"
  Registration :: "string \<rightharpoonup> string"
  UpdatedAt :: time

record AuthConfig =
  TokenEndpoint :: string
  TokenEndpointAuthMethod :: string
  Resource :: string
  CfgScopes :: "string list"

record tokenResponse =
  tr_access_token :: string
  tr_token_type :: string
  tr_refresh_token :: string
  tr_expires_in :: "64 word"
  tr_scope :: string

record parsed_url =
  pu_scheme :: string
  pu_has_user :: bool
  pu_hostname :: string
  pu_string :: string

record token_request =
  rq_url :: string
  rq_basic :: "(string \<times> string) option"
  rq_form :: url_values

record http_answer =
  ha_status :: int
  ha_body :: "string option"

record oauth_env =
  parse_url :: "string \<Rightarrow> parsed_url option"
  lookup_ip :: "string \<Rightarrow> addr list option"
  http_do :: "token_request \<Rightarrow> http_answer option"
  json_token :: "string \<Rightarrow> tokenResponse option"

datatype oauth_error =
    EndpointRequired | ClientIDRequired | RefreshTokenRequired
  | ParseEndpoint | NotHTTPS | HasCredentials | HostRequired | ResolveFailed | NoAddresses | NotPublic
  | AuthMethodUnsupported string | RequestFailed | ReadFailed | TooLarge | UpstreamStatus int
  | DecodeFailed | MissingAccessToken

definition TokenUsable :: "oauth2_token option \<Rightarrow> time \<Rightarrow> bool" where
  "TokenUsable token now = (case token of
      None \<Rightarrow> False
    | Some t \<Rightarrow>
        if TrimSpace (AccessToken t) = [] then False
        else if Expiry t = 0 then True
        else now + RefreshGrace < Expiry t)"

subsection \<open>Public endpoints\<close>

text \<open>The address classes of \<open>netip.Addr\<close>; they see through IPv4-mapped IPv6 addresses.\<close>

definition Unmap :: "addr \<Rightarrow> addr" where
  "Unmap a = (case a of
      V4 w \<Rightarrow> V4 w
    | V6 w z \<Rightarrow> if drop_bit 32 w = 0xFFFF then V4 (ucast w) else a)"

definition IsLoopback :: "addr \<Rightarrow> bool" where
  "IsLoopback a = (case Unmap a of V4 w \<Rightarrow> drop_bit 24 w = 127 | V6 w _ \<Rightarrow> w = 1)"

definition IsPrivate :: "addr \<Rightarrow> bool" where
  "IsPrivate a = (case Unmap a of
      V4 w \<Rightarrow> drop_bit 24 w = 10 \<or> drop_bit 20 w = 0xAC1 \<or> drop_bit 16 w = 0xC0A8
    | V6 w _ \<Rightarrow> drop_bit 121 w = 0x7E)"

definition IsLinkLocalUnicast :: "addr \<Rightarrow> bool" where
  "IsLinkLocalUnicast a = (case Unmap a of
      V4 w \<Rightarrow> drop_bit 16 w = 0xA9FE
    | V6 w _ \<Rightarrow> drop_bit 118 w = 0x3FA)"

definition IsLinkLocalMulticast :: "addr \<Rightarrow> bool" where
  "IsLinkLocalMulticast a = (case Unmap a of
      V4 w \<Rightarrow> drop_bit 8 w = 0xE00000
    | V6 w _ \<Rightarrow> drop_bit 112 w AND 0xFF0F = 0xFF02)"

definition IsMulticast :: "addr \<Rightarrow> bool" where
  "IsMulticast a = (case Unmap a of
      V4 w \<Rightarrow> drop_bit 28 w = 0xE
    | V6 w _ \<Rightarrow> drop_bit 120 w = 0xFF)"

definition IsUnspecified :: "addr \<Rightarrow> bool" where
  "IsUnspecified a \<longleftrightarrow> a = V4 0 \<or> a = V6 0 []"

definition blockedTokenEndpointPrefixes :: "cidr list" where
  "blockedTokenEndpointPrefixes = map (the \<circ> ParsePrefix)
     [''0.0.0.0/8'', ''10.0.0.0/8'', ''100.64.0.0/10'', ''127.0.0.0/8'', ''169.254.0.0/16'',
      ''172.16.0.0/12'', ''192.168.0.0/16'', ''192.0.0.0/24'', ''192.0.2.0/24'', ''192.88.99.0/24'',
      ''198.18.0.0/15'', ''198.51.100.0/24'', ''203.0.113.0/24'', ''240.0.0.0/4'', ''::1/128'',
      ''fc00::/7'', ''fe80::/10'', ''ff00::/8'', ''100::/64'', ''2001:db8::/32'']"

definition endpoint_addr_ok :: "addr \<Rightarrow> bool" where
  "endpoint_addr_ok a \<longleftrightarrow>
     \<not> (IsLoopback a \<or> IsPrivate a \<or> IsLinkLocalUnicast a \<or> IsLinkLocalMulticast a \<or> IsMulticast a
        \<or> IsUnspecified a)
     \<and> \<not> list_ex (\<lambda>p. cidr_contains p a) blockedTokenEndpointPrefixes"

definition PublicHTTPSURL :: "oauth_env \<Rightarrow> string \<Rightarrow> (oauth_error, string) result" where
  "PublicHTTPSURL env raw0 =
     (case parse_url env (TrimSpace raw0) of
        None \<Rightarrow> Err ParseEndpoint
      | Some u \<Rightarrow>
          if pu_scheme u \<noteq> ''https'' then Err NotHTTPS
          else if pu_has_user u then Err HasCredentials
          else if pu_hostname u = [] then Err HostRequired
          else case lookup_ip env (pu_hostname u) of
              None \<Rightarrow> Err ResolveFailed
            | Some addrs \<Rightarrow>
                if addrs = [] then Err NoAddresses
                else if \<not> list_all endpoint_addr_ok addrs then Err NotPublic
                else Ok (pu_string u))"

subsection \<open>Refreshing\<close>

text \<open>\<open>strings.Fields\<close>: the maximal runs of non-space characters.\<close>

function Fields_loop :: "string \<Rightarrow> string \<Rightarrow> string list" where
  "Fields_loop cur s =
     (if s = [] then (if cur = [] then [] else [cur])
      else case leading_space s of
          Some r \<Rightarrow> (if cur = [] then [] else [cur]) @ Fields_loop [] (drop (length r) s)
        | None \<Rightarrow> Fields_loop (cur @ [hd s]) (tl s))"
  by pat_completeness auto
termination
  by (relation "measure (\<lambda>(_, s). length s)") (auto dest!: leading_space_nonempty)

declare Fields_loop.simps [simp del]

definition Fields :: "string \<Rightarrow> string list" where
  "Fields s = Fields_loop [] s"

definition form_set :: "string \<Rightarrow> string \<Rightarrow> url_values \<Rightarrow> url_values" where
  "form_set k v m = filter (\<lambda>kv. fst kv \<noteq> k) m @ [(k, [v])]"

definition refresh_form :: "AuthConfig \<Rightarrow> oauth_record \<Rightarrow> oauth2_token \<Rightarrow> url_values" where
  "refresh_form cfg rec tok =
     (let form = form_set ''refresh_token'' (RefreshToken tok) (form_set ''grant_type'' ''refresh_token'' []);
          scopes = (if Scopes rec \<noteq> [] then Scopes rec else CfgScopes cfg);
          scopeValue = Join '' '' scopes;
          form1 = (if scopeValue \<noteq> [] then form_set ''scope'' scopeValue form else form)
      in if TrimSpace (Resource cfg) \<noteq> [] then form_set ''resource'' (Resource cfg) form1 else form1)"

definition auth_method :: "AuthConfig \<Rightarrow> oauth_record \<Rightarrow> string" where
  "auth_method cfg rec =
     (let m = TrimSpace (TokenEndpointAuthMethod cfg) in
      if m \<noteq> [] then m
      else case Registration rec ''token_endpoint_auth_method'' of
          None \<Rightarrow> ''client_secret_basic''
        | Some raw \<Rightarrow> if TrimSpace raw \<noteq> [] then TrimSpace raw else ''client_secret_basic'')"

definition refresh_request ::
  "string \<Rightarrow> string \<Rightarrow> oauth_record \<Rightarrow> url_values \<Rightarrow> (oauth_error, token_request) result" where
  "refresh_request method url rec form =
     (if method = ''client_secret_basic''
      then Ok \<lparr>rq_url = url, rq_basic = Some (ClientID rec, ClientSecret rec), rq_form = form\<rparr>
      else if method = ''client_secret_post'' \<or> method = ''none''
      then (let form1 = form_set ''client_id'' (ClientID rec) form;
                form2 = (if method = ''client_secret_post'' then form_set ''client_secret'' (ClientSecret rec) form1 else form1)
            in Ok \<lparr>rq_url = url, rq_basic = None, rq_form = form2\<rparr>)
      else Err (AuthMethodUnsupported method))"

text \<open>\<open>time.Duration(n) * time.Second\<close> is a 64-bit product and wraps around.\<close>

definition duration_seconds :: "64 word \<Rightarrow> int" where
  "duration_seconds n = sint (n * of_int second)"

definition token_of_response :: "oauth2_token \<Rightarrow> tokenResponse \<Rightarrow> time \<Rightarrow> oauth2_token" where
  "token_of_response old tr now =
     \<lparr>AccessToken = tr_access_token tr, TokenType = tr_token_type tr,
      RefreshToken = (if TrimSpace (tr_refresh_token tr) \<noteq> [] then TrimSpace (tr_refresh_token tr) else RefreshToken old),
      Expiry = (if 0 < sint (tr_expires_in tr) then now + duration_seconds (tr_expires_in tr) else 0)\<rparr>"

definition Refresh ::
  "oauth_env \<Rightarrow> time \<Rightarrow> AuthConfig \<Rightarrow> oauth_record \<Rightarrow> (oauth_error, oauth2_token \<times> string list) result" where
  "Refresh env now cfg rec =
     (if TrimSpace (TokenEndpoint cfg) = [] then Err EndpointRequired
      else if TrimSpace (ClientID rec) = [] then Err ClientIDRequired
      else case Token rec of
          None \<Rightarrow> Err RefreshTokenRequired
        | Some old \<Rightarrow>
            if TrimSpace (RefreshToken old) = [] then Err RefreshTokenRequired
            else case PublicHTTPSURL env (TokenEndpoint cfg) of
                Inl e \<Rightarrow> Err e
              | Inr url \<Rightarrow>
                  (case refresh_request (auth_method cfg rec) url rec (refresh_form cfg rec old) of
                     Inl e \<Rightarrow> Err e
                   | Inr rq \<Rightarrow>
                       (case http_do env rq of
                          None \<Rightarrow> Err RequestFailed
                        | Some ans \<Rightarrow>
                            (case ha_body ans of
                               None \<Rightarrow> Err ReadFailed
                             | Some payload \<Rightarrow>
                                 if length payload > 2 ^ 20 then Err TooLarge
                                 else if ha_status ans < 200 \<or> 300 \<le> ha_status ans
                                 then Err (UpstreamStatus (ha_status ans))
                                 else (case json_token env payload of
                                     None \<Rightarrow> Err DecodeFailed
                                   | Some tr \<Rightarrow>
                                       if TrimSpace (tr_access_token tr) = [] then Err MissingAccessToken
                                       else Ok (token_of_response old tr now, Fields (TrimSpace (tr_scope tr))))))))"

subsection \<open>Properties\<close>

lemma form_set_lookup: "map_of (form_set k v m) j = (if j = k then Some [v] else map_of m j)"
proof -
  have "map_of (filter (\<lambda>kv. fst kv \<noteq> k) m) i = (if i = k then None else map_of m i)" for i
    by (induction m) auto
  then show ?thesis by (simp add: form_set_def map_add_def split: option.splits)
qed

lemma refresh_form_secret: "map_of (refresh_form cfg rec tok) ''client_secret'' = None"
  by (simp add: refresh_form_def Let_def form_set_lookup)

text \<open>A refresh succeeds only through the public endpoint check and with a usable answer: the
  request went to the checked URL, carried the refresh token, and carried the client secret in
  the form only for the method \<open>client_secret_post\<close>; the new token has an access token and a
  refresh token, the old one being kept when the server does not rotate it.\<close>

lemma Refresh_success:
  assumes "Refresh env now cfg rec = Ok (tok, scopes)"
  shows "\<exists>old rq ans payload tr. Token rec = Some old
    \<and> PublicHTTPSURL env (TokenEndpoint cfg) = Ok (rq_url rq) \<and> http_do env rq = Some ans
    \<and> 200 \<le> ha_status ans \<and> ha_status ans < 300
    \<and> map_of (rq_form rq) ''refresh_token'' = Some [RefreshToken old]
    \<and> (map_of (rq_form rq) ''client_secret'' \<noteq> None \<longleftrightarrow> auth_method cfg rec = ''client_secret_post'')
    \<and> TrimSpace (AccessToken tok) \<noteq> [] \<and> TrimSpace (RefreshToken tok) \<noteq> []
    \<and> ha_body ans = Some payload \<and> json_token env payload = Some tr
    \<and> RefreshToken tok =
        (if TrimSpace (tr_refresh_token tr) = [] then RefreshToken old else TrimSpace (tr_refresh_token tr))"
proof -
  from assms obtain old url rq ans payload tr where
    s: "Token rec = Some old" "TrimSpace (RefreshToken old) \<noteq> []"
      "PublicHTTPSURL env (TokenEndpoint cfg) = Ok url"
      "refresh_request (auth_method cfg rec) url rec (refresh_form cfg rec old) = Ok rq"
      "http_do env rq = Some ans" "ha_body ans = Some payload"
      "\<not> (ha_status ans < 200 \<or> 300 \<le> ha_status ans)"
      "json_token env payload = Some tr" "TrimSpace (tr_access_token tr) \<noteq> []"
      "tok = token_of_response old tr now"
    by (auto simp: Refresh_def split: if_splits option.splits sum.splits)
  have url: "rq_url rq = url"
    using s(4) by (auto simp: refresh_request_def Let_def split: if_splits)
  have form: "map_of (rq_form rq) ''refresh_token'' = Some [RefreshToken old]"
    "map_of (rq_form rq) ''client_secret'' \<noteq> None \<longleftrightarrow> auth_method cfg rec = ''client_secret_post''"
    using s(4) refresh_form_secret [of cfg rec old]
    by (auto simp: refresh_request_def Let_def form_set_lookup refresh_form_def split: if_splits)
  show ?thesis
    using s url form
    by (intro exI [of _ old] exI [of _ rq] exI [of _ ans] exI [of _ payload] exI [of _ tr])
      (simp add: token_of_response_def)
qed

definition sample_oauth :: oauth_env where
  "sample_oauth = \<lparr>parse_url = (\<lambda>s. Some \<lparr>pu_scheme = ''https'', pu_has_user = False, pu_hostname = ''idp.example.com'', pu_string = s\<rparr>),
     lookup_ip = (\<lambda>_. Some [V4 0x08080808]),
     http_do = (\<lambda>_. Some \<lparr>ha_status = 200, ha_body = Some ''{}''\<rparr>),
     json_token = (\<lambda>_. Some \<lparr>tr_access_token = ''at'', tr_token_type = ''Bearer'', tr_refresh_token = [],
       tr_expires_in = 3600, tr_scope = ''read write''\<rparr>)\<rparr>"

definition sample_cfg :: AuthConfig where
  "sample_cfg = \<lparr>TokenEndpoint = ''https://idp.example.com/token'', TokenEndpointAuthMethod = [], Resource = [], CfgScopes = []\<rparr>"

definition sample_record :: oauth_record where
  "sample_record = \<lparr>ClientID = ''cid'', ClientSecret = ''cs'', Token = Some \<lparr>AccessToken = ''old'', TokenType = [],
     RefreshToken = ''rt'', Expiry = 1\<rparr>, Scopes = [], Registration = Map.empty, UpdatedAt = 0\<rparr>"

lemma sample_refresh: "Refresh sample_oauth 5 sample_cfg sample_record =
    Ok (\<lparr>AccessToken = ''at'', TokenType = ''Bearer'', RefreshToken = ''rt'', Expiry = 3600000000005\<rparr>, [''read'', ''write''])"
  by code_simp

text \<open>The expiry of a refreshed token is exact as long as the seconds the server announces fit
  into a 64-bit number of nanoseconds (about 292 years): it is the time of the refresh plus that
  many seconds, and no announced lifetime means no expiry.\<close>

lemma token_expiry_exact:
  assumes "sint (tr_expires_in tr) \<le> 9223372036"
  shows "Expiry (token_of_response old tr now) =
    (if 0 < sint (tr_expires_in tr) then now + sint (tr_expires_in tr) * 1000000000 else 0)"
proof (cases "0 < sint (tr_expires_in tr)")
  case True
  let ?n = "sint (tr_expires_in tr)"
  have "(of_int (?n * second) :: 64 word) = tr_expires_in tr * of_int second"
    by (simp only: of_int_mult of_int_sint scast_id)
  moreover have "sint (of_int (?n * second) :: 64 word) = ?n * second"
  proof -
    have "0 \<le> ?n * second" "?n * second < 2 ^ 63" using True assms by (simp_all add: second_def)
    then show ?thesis by (simp add: signed_of_int signed_take_bit_int_eq_self del: of_int_mult)
  qed
  ultimately have "sint (tr_expires_in tr * of_int second) = ?n * second" by metis
  then show ?thesis using True by (simp add: token_of_response_def duration_seconds_def second_def)
qed (simp add: token_of_response_def)

text \<open>Beyond that bound the product wraps around and the token is expired from the start.\<close>

lemma token_expiry_wraps:
  "Expiry (token_of_response \<lparr>AccessToken = [], TokenType = [], RefreshToken = [], Expiry = 0\<rparr>
     \<lparr>tr_access_token = ''at'', tr_token_type = [], tr_refresh_token = [], tr_expires_in = 9223372037, tr_scope = []\<rparr> 0)
   < 0"
  by (simp add: token_of_response_def duration_seconds_def second_def)

text \<open>An endpoint that is accepted uses HTTPS, names a host without credentials, and every
  address the host resolves to lies outside all blocked networks and is neither loopback,
  private, link-local, multicast nor unspecified.\<close>

lemma PublicHTTPSURL_public:
  assumes "PublicHTTPSURL env raw = Ok url"
  shows "\<exists>u addrs. parse_url env (TrimSpace raw) = Some u \<and> url = pu_string u \<and> pu_scheme u = ''https''
    \<and> \<not> pu_has_user u \<and> lookup_ip env (pu_hostname u) = Some addrs \<and> addrs \<noteq> []
    \<and> (\<forall>a\<in>set addrs. (\<forall>p\<in>set blockedTokenEndpointPrefixes. \<not> cidr_contains p a)
         \<and> \<not> IsLoopback a \<and> \<not> IsPrivate a \<and> \<not> IsLinkLocalUnicast a \<and> \<not> IsMulticast a \<and> \<not> IsUnspecified a)"
  using assms
  by (auto simp: PublicHTTPSURL_def endpoint_addr_ok_def list_all_iff list_ex_iff
      split: option.splits if_splits)

text \<open>
  The list of networks is compared without unmapping: an IPv4-mapped form of a shared address
  (100.64.0.1) passes, while the same IPv4 address is refused.
\<close>

lemma mapped_address_passes:
  "endpoint_addr_ok (V6 0xFFFF64400001 []) \<and> \<not> endpoint_addr_ok (V4 0x64400001)"
  by code_simp

end
