(* ===== verification/SecretRuntime.thy ===== *)
theory SecretRuntime
  imports Rewrite OAuth
begin

section \<open>Resolving secrets (\<open>internal/sinjector/service.go\<close>, \<open>status.go\<close>, \<open>internal/secret\<close>)\<close>

text \<open>
  The resolver behind the proxy: it reads a secret's runtime record from OpenBao, refreshes an
  OAuth token that is about to expire, stores the refreshed record and reports the outcome in
  the status of the Kubernetes Secret object. The world record holds what the resolver reads and
  writes: the OpenBao store, the informer cache, the objects behind the Kubernetes API with the
  outcomes of coming updates, the probe times and the clock. A raw OpenBao record is represented
  by what the three decoders of \<open>internal/secret/runtime.go\<close> return on it.
\<close>

subsection \<open>Records\<close>

record StaticRecord =
  sr_type :: string
  sr_name :: string
  sr_hosts :: "string list"
  sr_value :: string
  sr_updated :: time

record OAuthConfig =
  oc_tokenEndpoint :: string
  oc_resource :: string
  oc_scopes :: "string list"

record OAuthRecord =
  or_type :: string
  or_name :: string
  or_hosts :: "string list"
  or_config :: OAuthConfig
  or_record :: oauth_record

record raw_data =
  rd_type :: "(string, string) result"
  rd_static :: "(string, StaticRecord) result"
  rd_oauth :: "(string, OAuthRecord) result"

datatype kv_answer = KvNotFound | KvError string | KvData "raw_data option"

datatype api_error = ApiNotFound | ApiConflict | ApiFailed string

datatype status_message =
    MsgText string | MsgReadRuntime string | MsgDecode string | MsgHosts host_error | MsgValue
  | MsgTypeMismatch string string | MsgUnsupportedType string | MsgRefresh string

record condition =
  c_type :: string
  c_status :: string
  c_reason :: string
  c_message :: status_message
  c_generation :: int

record secret_status =
  st_conditions :: "condition list"
  st_observedGeneration :: int
  st_state :: string
  st_runtimeRef :: "string option"
  st_lastRuntimeUpdate :: "time option"
  st_tokenExpiry :: "time option"
  st_lastRefresh :: "time option"
  st_failureTime :: "time option"
  st_failureReason :: string
  st_failureMessage :: "status_message option"

record secret_cr =
  cr_namespace :: string
  cr_name :: string
  cr_generation :: int
  cr_deleting :: bool
  cr_finalizers :: "string list"
  cr_agent :: string
  cr_key :: string
  cr_type :: string
  cr_status :: secret_status

record secretRuntimeStatus =
  rt_state :: string
  rt_condition :: string
  rt_reason :: string
  rt_message :: status_message
  rt_tokenExpiry :: "time option"
  rt_refreshTime :: "time option"

record world =
  w_kv :: "string \<Rightarrow> kv_answer"
  w_put_fails :: "string \<Rightarrow> bool"
  w_list :: "secret_cr list option"
  w_api :: "string \<times> string \<Rightarrow> (api_error, secret_cr) result"
  w_outcomes :: "api_error option list"
  w_probes :: "string \<rightharpoonup> time"
  w_clock :: "nat \<Rightarrow> time"
  w_ticks :: nat

text \<open>
  The resolver's configuration with the third-party functions it calls: encoding a record for
  OpenBao (\<open>RecordData\<close>), setting one condition (\<open>apimeta.SetStatusCondition\<close>) and the number of
  attempts of \<open>retry.RetryOnConflict\<close>.
\<close>

record resolver =
  rv_host :: host_env
  rv_oauth :: oauth_env
  rv_namespace :: string
  rv_agent :: string
  rv_interval :: time
  rv_encode :: "OAuthRecord \<Rightarrow> raw_data option"
  rv_set_condition :: "condition \<Rightarrow> condition list \<Rightarrow> condition list"
  rv_attempts :: nat

definition time_now :: "world \<Rightarrow> time \<times> world" where
  "time_now w = (w_clock w (w_ticks w), w\<lparr>w_ticks := Suc (w_ticks w)\<rparr>)"

definition SecretPath :: "string \<Rightarrow> string \<Rightarrow> string \<Rightarrow> string" where
  "SecretPath namespace agentName key = namespace @ ''/agent-secrets/'' @ agentName @ ''/'' @ key"

subsection \<open>Statuses\<close>

definition acceptedSecretStatus :: secretRuntimeStatus where
  "acceptedSecretStatus = \<lparr>rt_state = ''Accepted'', rt_condition = ''Accepted'', rt_reason = ''Accepted'',
     rt_message = MsgText ''Secret runtime is pending'', rt_tokenExpiry = None, rt_refreshTime = None\<rparr>"

definition readySecretStatus :: "time option \<Rightarrow> time option \<Rightarrow> secretRuntimeStatus" where
  "readySecretStatus tokenExpiry refreshTime = \<lparr>rt_state = ''Ready'', rt_condition = ''Ready'', rt_reason = ''Ready'',
     rt_message = MsgText ''Secret runtime is ready'', rt_tokenExpiry = tokenExpiry, rt_refreshTime = refreshTime\<rparr>"

definition degradedSecretStatus :: "string \<Rightarrow> status_message \<Rightarrow> secretRuntimeStatus" where
  "degradedSecretStatus reason message = \<lparr>rt_state = ''Degraded'', rt_condition = ''Degraded'', rt_reason = reason,
     rt_message = message, rt_tokenExpiry = None, rt_refreshTime = None\<rparr>"

definition reconcileFailed :: "status_message \<Rightarrow> secretRuntimeStatus" where
  "reconcileFailed m = degradedSecretStatus ''ReconcileFailed'' m"

definition condTypes :: "string list" where
  "condTypes = [''Accepted'', ''Ready'', ''Degraded'']"

definition SetCondition ::
  "(condition \<Rightarrow> condition list \<Rightarrow> condition list) \<Rightarrow> condition \<Rightarrow> condition list \<Rightarrow> condition list" where
  "SetCondition setc cond cs =
     fold (\<lambda>typ cs. if typ = c_type cond then cs
             else setc (cond\<lparr>c_type := typ, c_status := ''False''\<rparr>) cs)
       condTypes (setc cond cs)"

text \<open>The new status object that \<open>writeSecretStatus\<close> computes.\<close>

definition next_status :: "resolver \<Rightarrow> secret_cr \<Rightarrow> secretRuntimeStatus \<Rightarrow> time \<Rightarrow> secret_status" where
  "next_status rv cr nxt now =
     (let old = cr_status cr;
          nonzero = (\<lambda>t. case t of Some x \<Rightarrow> if x \<noteq> 0 then Some x else None | None \<Rightarrow> None);
          degraded = (rt_state nxt = ''Degraded'')
      in old\<lparr>
        st_state := rt_state nxt,
        st_observedGeneration := cr_generation cr,
        st_runtimeRef := Some (SecretPath (cr_namespace cr) (cr_agent cr) (cr_key cr)),
        st_lastRuntimeUpdate := Some now,
        st_tokenExpiry := nonzero (rt_tokenExpiry nxt),
        st_lastRefresh := (case nonzero (rt_refreshTime nxt) of None \<Rightarrow> st_lastRefresh old | Some t \<Rightarrow> Some t),
        st_failureTime := (if degraded then Some now else None),
        st_failureReason := (if degraded then rt_reason nxt else []),
        st_failureMessage := (if degraded then Some (rt_message nxt) else None),
        st_conditions := SetCondition (rv_set_condition rv)
           \<lparr>c_type = rt_condition nxt, c_status = ''True'', c_reason = rt_reason nxt, c_message = rt_message nxt,
            c_generation = cr_generation cr\<rparr> (st_conditions old)\<rparr>)"

definition status_update :: "secret_cr \<Rightarrow> world \<Rightarrow> api_error option \<times> world" where
  "status_update cr w =
     (let ok = w\<lparr>w_api := (w_api w)((cr_namespace cr, cr_name cr) := Inr cr)\<rparr> in
      case w_outcomes w of
        [] \<Rightarrow> (None, ok)
      | None # os \<Rightarrow> (None, ok\<lparr>w_outcomes := os\<rparr>)
      | Some e # os \<Rightarrow> (Some e, w\<lparr>w_outcomes := os\<rparr>))"

fun retry_on_conflict :: "nat \<Rightarrow> (world \<Rightarrow> api_error option \<times> world) \<Rightarrow> world \<Rightarrow> api_error option \<times> world" where
  "retry_on_conflict 0 f w = f w"
| "retry_on_conflict (Suc n) f w = (case f w of
      (Some ApiConflict, w1) \<Rightarrow> retry_on_conflict n f w1
    | r \<Rightarrow> r)"

definition write_attempt ::
  "resolver \<Rightarrow> string \<Rightarrow> string \<Rightarrow> secretRuntimeStatus \<Rightarrow> world \<Rightarrow> api_error option \<times> world" where
  "write_attempt rv namespace name nxt w = (case w_api w (namespace, name) of
      Inl ApiNotFound \<Rightarrow> (None, w)
    | Inl e \<Rightarrow> (Some e, w)
    | Inr cr \<Rightarrow> (case time_now w of (now, w1) \<Rightarrow>
        status_update (cr\<lparr>cr_status := next_status rv cr nxt now\<rparr>) w1))"

definition writeSecretStatus ::
  "resolver \<Rightarrow> string \<Rightarrow> string \<Rightarrow> secretRuntimeStatus \<Rightarrow> world \<Rightarrow> api_error option \<times> world" where
  "writeSecretStatus rv namespace name nxt =
     retry_on_conflict (rv_attempts rv - 1) (write_attempt rv namespace name nxt)"

definition secretForKey :: "resolver \<Rightarrow> world \<Rightarrow> string \<Rightarrow> secret_cr option" where
  "secretForKey rv w key = (case w_list w of
      None \<Rightarrow> None
    | Some items \<Rightarrow> find (\<lambda>cr. cr_agent cr = rv_agent rv \<and> cr_key cr = key) items)"

definition writeStatusForKey :: "resolver \<Rightarrow> string \<Rightarrow> secretRuntimeStatus \<Rightarrow> world \<Rightarrow> world" where
  "writeStatusForKey rv key status w = (case secretForKey rv w key of
      None \<Rightarrow> w
    | Some cr \<Rightarrow> snd (writeSecretStatus rv (cr_namespace cr) (cr_name cr) status w))"

subsection \<open>Resolving\<close>

datatype resolve_error =
    ReadOpenBao string | SecretNotFound | BadSecret | DecodeRecordError string | HostsError host_error
  | RefreshError oauth_error | EncodeError | PutError | NoAccessToken

definition refresh_message :: "resolve_error \<Rightarrow> status_message" where
  "refresh_message e = MsgRefresh (case e of
      RefreshError _ \<Rightarrow> ''refresh'' | EncodeError \<Rightarrow> ''encode'' | PutError \<Rightarrow> ''put'' | _ \<Rightarrow> ''error'')"

definition auth_config :: "OAuthRecord \<Rightarrow> AuthConfig" where
  "auth_config rec = \<lparr>TokenEndpoint = oc_tokenEndpoint (or_config rec), TokenEndpointAuthMethod = [],
     Resource = oc_resource (or_config rec), CfgScopes = oc_scopes (or_config rec)\<rparr>"

definition refreshOAuth ::
  "resolver \<Rightarrow> string \<Rightarrow> OAuthRecord \<Rightarrow> world \<Rightarrow> (resolve_error, OAuthRecord) result \<times> world" where
  "refreshOAuth rv key rec w =
     (case time_now w of (now, w1) \<Rightarrow>
        if TokenUsable (Token (or_record rec)) now then (Ok rec, w1)
        else case time_now w1 of (now2, w2) \<Rightarrow>
          (case Refresh (rv_oauth rv) now2 (auth_config rec) (or_record rec) of
             Inl e \<Rightarrow> (Err (RefreshError e), w2)
           | Inr (token, scopes) \<Rightarrow>
               (let rec1 = rec\<lparr>or_record := (or_record rec)\<lparr>Token := Some token,
                      Scopes := (if scopes \<noteq> [] then scopes else Scopes (or_record rec)),
                      UpdatedAt := now\<rparr>\<rparr>;
                    path = SecretPath (rv_namespace rv) (rv_agent rv) key
                in case rv_encode rv rec1 of
                     None \<Rightarrow> (Err EncodeError, w2)
                   | Some data \<Rightarrow>
                       if w_put_fails w2 path then (Err PutError, w2)
                       else (Ok rec1, w2\<lparr>w_kv := (w_kv w2)(path := KvData (Some data))\<rparr>))))"

definition resolveOAuth ::
  "resolver \<Rightarrow> string \<Rightarrow> raw_data \<Rightarrow> world \<Rightarrow> (resolve_error, resolvedSecret) result \<times> world" where
  "resolveOAuth rv key dat w =
     (case rd_oauth dat of
        Inl msg \<Rightarrow> (Err (DecodeRecordError msg), writeStatusForKey rv key (reconcileFailed (MsgDecode msg)) w)
      | Inr rec \<Rightarrow>
          (case ParseSecretHosts (rv_host rv) (or_hosts rec) of
             Inl e \<Rightarrow> (Err (HostsError e), writeStatusForKey rv key (reconcileFailed (MsgHosts e)) w)
           | Inr hosts \<Rightarrow>
               (case time_now w of (now, w1) \<Rightarrow>
                  (case (if TokenUsable (Token (or_record rec)) now then Token (or_record rec) else None) of
                     Some t \<Rightarrow> (Ok \<lparr>rs_value = AccessToken t, rs_hosts = hosts\<rparr>, w1)
                   | None \<Rightarrow>
                       (case refreshOAuth rv key rec w1 of
                          (Inl e, w2) \<Rightarrow>
                            (Err e, writeStatusForKey rv key (degradedSecretStatus ''RefreshFailed'' (refresh_message e)) w2)
                        | (Inr refreshed, w2) \<Rightarrow>
                            (case Token (or_record refreshed) of
                               None \<Rightarrow> (Err NoAccessToken, writeStatusForKey rv key acceptedSecretStatus w2)
                             | Some t \<Rightarrow>
                                 if TrimSpace (AccessToken t) = []
                                 then (Err NoAccessToken, writeStatusForKey rv key acceptedSecretStatus w2)
                                 else (case time_now w2 of (refreshTime, w3) \<Rightarrow>
                                   (Ok \<lparr>rs_value = AccessToken t, rs_hosts = hosts\<rparr>,
                                    writeStatusForKey rv key (readySecretStatus (Some (Expiry t)) (Some refreshTime)) w3))))))))"

definition resolve :: "resolver \<Rightarrow> string \<Rightarrow> world \<Rightarrow> (resolve_error, resolvedSecret) result \<times> world" where
  "resolve rv name w =
     (case w_kv w (SecretPath (rv_namespace rv) (rv_agent rv) name) of
        KvNotFound \<Rightarrow> (Err SecretNotFound, writeStatusForKey rv name acceptedSecretStatus w)
      | KvError msg \<Rightarrow> (Err (ReadOpenBao msg), writeStatusForKey rv name (reconcileFailed (MsgReadRuntime msg)) w)
      | KvData None \<Rightarrow> (Err SecretNotFound, writeStatusForKey rv name acceptedSecretStatus w)
      | KvData (Some dat) \<Rightarrow>
          (case rd_type dat of
             Inl msg \<Rightarrow> (Err BadSecret, writeStatusForKey rv name (reconcileFailed (MsgDecode msg)) w)
           | Inr typ \<Rightarrow>
               if typ = ''Static'' then
                 (case rd_static dat of
                    Inl msg \<Rightarrow> (Err BadSecret, writeStatusForKey rv name (reconcileFailed (MsgDecode msg)) w)
                  | Inr rec \<Rightarrow>
                      (case ParseSecretHosts (rv_host rv) (sr_hosts rec) of
                         Inl e \<Rightarrow> (Err BadSecret, writeStatusForKey rv name (reconcileFailed (MsgHosts e)) w)
                       | Inr hosts \<Rightarrow>
                           if validateSecretValue (sr_value rec) \<noteq> None
                           then (Err BadSecret, writeStatusForKey rv name (reconcileFailed MsgValue) w)
                           else (Ok \<lparr>rs_value = sr_value rec, rs_hosts = hosts\<rparr>, w)))
               else if typ = ''OAuth'' then resolveOAuth rv name dat w
               else (Err BadSecret, writeStatusForKey rv name (reconcileFailed (MsgUnsupportedType typ)) w)))"

subsection \<open>Probing\<close>

definition oauthRuntimeStatus ::
  "resolver \<Rightarrow> secret_cr \<Rightarrow> raw_data \<Rightarrow> world \<Rightarrow> secretRuntimeStatus \<times> world" where
  "oauthRuntimeStatus rv secret dat w =
     (case rd_oauth dat of
        Inl msg \<Rightarrow> (reconcileFailed (MsgDecode msg), w)
      | Inr rec \<Rightarrow>
          if or_type rec \<noteq> ''OAuth'' then (reconcileFailed (MsgTypeMismatch (or_type rec) (cr_type secret)), w)
          else (case ParseSecretHosts (rv_host rv) (or_hosts rec) of
             Inl e \<Rightarrow> (reconcileFailed (MsgHosts e), w)
           | Inr _ \<Rightarrow>
               (case Token (or_record rec) of
                  None \<Rightarrow> (acceptedSecretStatus, w)
                | Some t \<Rightarrow>
                    if TrimSpace (AccessToken t) = [] then (acceptedSecretStatus, w)
                    else (case time_now w of (now, w1) \<Rightarrow>
                      if TokenUsable (Some t) now then (readySecretStatus (Some (Expiry t)) None, w1)
                      else (case refreshOAuth rv (cr_key secret) rec w1 of
                          (Inl e, w2) \<Rightarrow> (degradedSecretStatus ''RefreshFailed'' (refresh_message e), w2)
                        | (Inr refreshed, w2) \<Rightarrow>
                            (case Token (or_record refreshed) of
                               None \<Rightarrow> (acceptedSecretStatus, w2)
                             | Some t' \<Rightarrow>
                                 if TrimSpace (AccessToken t') = [] then (acceptedSecretStatus, w2)
                                 else (case time_now w2 of (refreshTime, w3) \<Rightarrow>
                                   (readySecretStatus (Some (Expiry t')) (Some refreshTime), w3))))))))"

definition runtime_status :: "resolver \<Rightarrow> secret_cr \<Rightarrow> world \<Rightarrow> secretRuntimeStatus \<times> world" where
  "runtime_status rv secret w =
     (case w_kv w (SecretPath (cr_namespace secret) (cr_agent secret) (cr_key secret)) of
        KvNotFound \<Rightarrow> (acceptedSecretStatus, w)
      | KvError msg \<Rightarrow> (reconcileFailed (MsgReadRuntime msg), w)
      | KvData None \<Rightarrow> (acceptedSecretStatus, w)
      | KvData (Some dat) \<Rightarrow>
          if cr_type secret = ''Static'' then
            (case rd_static dat of
               Inl msg \<Rightarrow> (reconcileFailed (MsgDecode msg), w)
             | Inr rec \<Rightarrow>
                 if sr_type rec \<noteq> ''Static'' then (reconcileFailed (MsgTypeMismatch (sr_type rec) (cr_type secret)), w)
                 else (case ParseSecretHosts (rv_host rv) (sr_hosts rec) of
                    Inl e \<Rightarrow> (reconcileFailed (MsgHosts e), w)
                  | Inr _ \<Rightarrow>
                      if validateSecretValue (sr_value rec) \<noteq> None then (reconcileFailed MsgValue, w)
                      else (readySecretStatus None None, w)))
          else if cr_type secret = ''OAuth'' then oauthRuntimeStatus rv secret dat w
          else (reconcileFailed (MsgUnsupportedType (cr_type secret)), w))"

definition probeSecret :: "resolver \<Rightarrow> secret_cr \<Rightarrow> world \<Rightarrow> api_error option \<times> world" where
  "probeSecret rv secret w =
     (case runtime_status rv secret w of (status, w1) \<Rightarrow>
        (case time_now w1 of (now, w2) \<Rightarrow>
           writeSecretStatus rv (cr_namespace secret) (cr_name secret) status
             (w2\<lparr>w_probes := (w_probes w2)(cr_name secret \<mapsto> now)\<rparr>)))"

definition last_probe :: "world \<Rightarrow> secret_cr \<Rightarrow> time" where
  "last_probe w cr =
     (let t = (case st_lastRuntimeUpdate (cr_status cr) of None \<Rightarrow> 0 | Some u \<Rightarrow> u) in
      case w_probes w (cr_name cr) of None \<Rightarrow> t | Some p \<Rightarrow> if t < p then p else t)"

fun probe_loop :: "resolver \<Rightarrow> secret_cr list \<Rightarrow> world \<Rightarrow> world" where
  "probe_loop rv [] w = w"
| "probe_loop rv (cr # crs) w =
     (if cr_agent cr \<noteq> rv_agent rv \<or> cr_deleting cr then probe_loop rv crs w
      else
       (let lastProbe = last_probe w cr in
        if lastProbe = 0 then probe_loop rv crs (snd (probeSecret rv cr w))
        else (case time_now w of (now, w1) \<Rightarrow>
          if now - lastProbe < rv_interval rv then probe_loop rv crs w1
          else probe_loop rv crs (snd (probeSecret rv cr w1)))))"

definition probeSecrets :: "resolver \<Rightarrow> world \<Rightarrow> bool \<times> world" where
  "probeSecrets rv w = (case w_list w of
      None \<Rightarrow> (False, w)
    | Some items \<Rightarrow> (True, probe_loop rv items w))"

text \<open>One item of \<open>runProbeQueue\<close>: the informer's view of the secret is probed unless it is gone.\<close>

definition probe_item :: "resolver \<Rightarrow> string \<Rightarrow> world \<Rightarrow> api_error option \<times> world" where
  "probe_item rv name w = (case w_list w of
      None \<Rightarrow> (Some (ApiFailed ''list''), w)
    | Some items \<Rightarrow>
        (case find (\<lambda>cr. cr_name cr = name) items of
           None \<Rightarrow> (None, w)
         | Some cr \<Rightarrow> if cr_deleting cr then (None, w) else probeSecret rv cr w))"

subsection \<open>The contract of a secret resolver\<close>

text \<open>
  What the request rewriter relies on: a resolved secret carries hosts in canonical form, and
  resolving keeps the invariant of the resolver's state.
\<close>

locale secret_resolver =
  fixes env :: host_env
    and res :: "('e, 's) secretResolver"
    and inv :: "'s \<Rightarrow> bool"
  assumes hosts_canonical: "inv s \<Longrightarrow> fst (res n s) = Inr secret \<Longrightarrow> \<exists>hs. ParseSecretHosts env hs = Inr (rs_hosts secret)"
    and res_inv: "inv s \<Longrightarrow> inv (snd (res n s))"
begin

lemma resolved_hosts:
  assumes "inv s" "fst (res n s) = Inr secret"
  shows "sorted (rs_hosts secret)" "distinct (rs_hosts secret)" "length (rs_hosts secret) \<le> maxSecretHosts"
  using hosts_canonical [OF assms] ParseSecretHosts_Ok by (fastforce dest: le_trans)+

lemma substitute_inv: "inv s \<Longrightarrow> inv (snd (snd (substitute e target path res ss s)))"
proof (induction ss arbitrary: s)
  case (Cons g ss)
  show ?case
  proof (cases g)
    case (Lit t)
    with Cons show ?thesis by (simp add: case_prod_unfold Let_def)
  next
    case (Ref n)
    from Cons.IH [OF res_inv [OF Cons.prems]] Ref show ?thesis
      by (simp add: case_prod_unfold Let_def split: option.splits)
  qed
qed simp

lemma replace_inv: "inv s \<Longrightarrow> inv (snd (snd (replaceSecretRefs e v res target opts s)))"
  by (simp add: replaceSecretRefs_spec substitute_inv)

lemma header_inv: "inv s \<Longrightarrow> inv (snd (snd (replaceHeaderValue e k v res target s)))"
  by (auto simp: replaceHeaderValue_def replacePlaceholders_def replace_inv case_prod_unfold split: option.splits)

lemma items_inv:
  assumes "\<And>x s. inv s \<Longrightarrow> inv (snd (snd (f x s)))" "inv s"
  shows "inv (snd (snd (rewrite_items f xs s)))"
  using assms(2) by (induction xs arbitrary: s) (auto simp: case_prod_unfold Let_def assms(1))

lemma map_inv:
  assumes "\<And>k x s. inv s \<Longrightarrow> inv (snd (snd (f k x s)))" "inv s"
  shows "inv (snd (snd (rewrite_map f m s)))"
  using assms(2)
proof (induction m arbitrary: s)
  case (Cons kv m)
  obtain k xs where kv: "kv = (k, xs)" by fastforce
  from Cons.IH [OF items_inv [of "f k", OF assms(1) Cons.prems]] show ?case
    by (simp add: kv case_prod_unfold Let_def)
qed simp

lemma rewrite_url_inv: "inv s \<Longrightarrow> inv (snd (rewrite_url he u res target s))"
  by (simp add: rewrite_url_def case_prod_unfold Let_def replacePath_def replacePlaceholders_def replace_inv map_inv)

lemma rewrite_inv:
  assumes "inv s"
  shows "inv (snd (rewriteRequest he req res target s))"
proof (cases "req_url req")
  case None
  with assms show ?thesis
    by (simp add: rewriteRequest_def case_prod_unfold Let_def header_inv map_inv)
next
  case (Some u)
  have "inv (snd (rewrite_url he u res target s))" using assms by (rule rewrite_url_inv)
  with Some show ?thesis
    by (simp add: rewriteRequest_def case_prod_unfold Let_def header_inv map_inv)
qed

end

text \<open>Writing a status changes neither the stored records nor the clock.\<close>

lemma retry_frame:
  assumes "\<And>w. w_kv (snd (f w)) = w_kv w"
  shows "w_kv (snd (retry_on_conflict n f w)) = w_kv w"
proof (induction n arbitrary: w)
  case (Suc n)
  obtain r w1 where f: "f w = (r, w1)" by fastforce
  have "w_kv w1 = w_kv w" using assms [of w] by (simp add: f)
  with Suc [of w1] show ?case by (simp add: f split: option.splits api_error.splits)
qed (simp add: assms)

lemma write_attempt_kv: "w_kv (snd (write_attempt rv ns name nxt w)) = w_kv w"
  by (auto simp: write_attempt_def status_update_def time_now_def Let_def
      split: sum.splits api_error.splits list.splits option.splits)

lemma writeStatusForKey_kv [simp]: "w_kv (writeStatusForKey rv key st w) = w_kv w"
  by (simp add: writeStatusForKey_def writeSecretStatus_def retry_frame [OF write_attempt_kv] split: option.splits)

lemma time_now_kv [simp]: "w_kv (snd (time_now w)) = w_kv w"
  by (simp add: time_now_def)

text \<open>Records of other agents and namespaces stay as they are.\<close>

definition foreign_kept :: "resolver \<Rightarrow> (string \<Rightarrow> kv_answer) \<Rightarrow> world \<Rightarrow> bool" where
  "foreign_kept rv kv0 w \<longleftrightarrow>
     (\<forall>p. (\<forall>n. p \<noteq> SecretPath (rv_namespace rv) (rv_agent rv) n) \<longrightarrow> w_kv w p = kv0 p)"

lemma refreshOAuth_kept: "foreign_kept rv kv0 w \<Longrightarrow> foreign_kept rv kv0 (snd (refreshOAuth rv key rec w))"
  by (auto simp: refreshOAuth_def time_now_def foreign_kept_def Let_def split: sum.splits option.splits)

lemma foreign_kept_kv: "w_kv w2 = w_kv w1 \<Longrightarrow> foreign_kept rv kv0 w2 = foreign_kept rv kv0 w1"
  by (simp add: foreign_kept_def)

lemma foreign_kept_status [simp]:
  "foreign_kept rv kv0 (writeStatusForKey rv' key st w) = foreign_kept rv kv0 w"
  "foreign_kept rv kv0 (snd (time_now w)) = foreign_kept rv kv0 w"
  by (rule foreign_kept_kv, simp)+

lemma resolveOAuth_kept:
  "foreign_kept rv kv0 w \<Longrightarrow> foreign_kept rv kv0 (snd (resolveOAuth rv key dat w))"
  by (auto simp: resolveOAuth_def case_prod_unfold refreshOAuth_kept split: sum.splits option.splits)

lemma resolve_kept: "foreign_kept rv kv0 w \<Longrightarrow> foreign_kept rv kv0 (snd (resolve rv n w))"
  by (auto simp: resolve_def resolveOAuth_kept split: kv_answer.splits option.splits sum.splits)

lemma resolve_hosts:
  "fst (resolve rv n w) = Inr secret \<Longrightarrow> \<exists>hs. ParseSecretHosts (rv_host rv) hs = Inr (rs_hosts secret)"
  by (auto simp: resolve_def resolveOAuth_def case_prod_unfold
      split: kv_answer.splits option.splits sum.splits if_splits)

interpretation runtime: secret_resolver "rv_host rv" "resolve rv" "foreign_kept rv kv0" for rv kv0
  by unfold_locales (auto simp: resolve_hosts resolve_kept)

subsection \<open>Properties\<close>

text \<open>
  What the documentation of \<open>SetStatusCondition\<close> promises: the condition of the given type gets
  the new status, conditions of other types stay.
\<close>

definition cond_status :: "condition list \<Rightarrow> string \<Rightarrow> string option" where
  "cond_status cs t = map_option c_status (find (\<lambda>c. c_type c = t) cs)"

definition set_condition_documented :: "(condition \<Rightarrow> condition list \<Rightarrow> condition list) \<Rightarrow> bool" where
  "set_condition_documented setc \<longleftrightarrow> (\<forall>c cs t. cond_status (setc c cs) t =
     (if t = c_type c then Some (c_status c) else cond_status cs t))"

text \<open>Encoding then decoding a record with \<open>encoding/json\<close> gives the record back.\<close>

definition encode_documented :: "(OAuthRecord \<Rightarrow> raw_data option) \<Rightarrow> bool" where
  "encode_documented enc \<longleftrightarrow> (\<forall>r d. enc r = Some d \<longrightarrow> rd_oauth d = Ok r \<and> rd_type d = Ok (or_type r))"

text \<open>Forwarding a request through the runtime resolver changes no OpenBao record outside the
  agent's own secrets.\<close>

lemma rewrite_foreign_records_kept:
  assumes "\<forall>n. p \<noteq> SecretPath (rv_namespace rv) (rv_agent rv) n"
  shows "w_kv (snd (rewriteRequest he req (resolve rv) target w)) p = w_kv w p"
proof -
  have "foreign_kept rv (w_kv w) w" by (simp add: foreign_kept_def)
  then have "foreign_kept rv (w_kv w) (snd (rewriteRequest he req (resolve rv) target w))"
    by (rule runtime.rewrite_inv)
  with assms show ?thesis by (simp add: foreign_kept_def)
qed

definition sample_world :: world where
  "sample_world = \<lparr>w_kv = (\<lambda>_. KvNotFound), w_put_fails = (\<lambda>_. False), w_list = Some [],
     w_api = (\<lambda>_. Inl ApiNotFound), w_outcomes = [], w_probes = Map.empty, w_clock = int, w_ticks = 4\<rparr>"

definition put_condition :: "condition \<Rightarrow> condition list \<Rightarrow> condition list" where
  "put_condition c cs = c # filter (\<lambda>d. c_type d \<noteq> c_type c) cs"

definition sample_resolver :: resolver where
  "sample_resolver = \<lparr>rv_host = ascii_env, rv_oauth = sample_oauth, rv_namespace = ''ns'', rv_agent = ''a'',
     rv_interval = 120 * second, rv_encode = (\<lambda>r. Some \<lparr>rd_type = Ok (or_type r), rd_static = Err [], rd_oauth = Ok r\<rparr>),
     rv_set_condition = put_condition, rv_attempts = 5\<rparr>"

lemma find_other_type:
  "t \<noteq> u \<Longrightarrow> find (\<lambda>c. c_type c = t) (filter (\<lambda>d. c_type d \<noteq> u) cs) = find (\<lambda>c. c_type c = t) cs"
  by (induction cs) auto

lemma put_condition_documented: "set_condition_documented put_condition"
  unfolding set_condition_documented_def put_condition_def cond_status_def
  by (simp add: find_other_type)

lemma SetCondition_status:
  assumes "set_condition_documented setc" "c_type cond \<in> set condTypes" "t \<in> set condTypes"
  shows "cond_status (SetCondition setc cond cs) t = Some (if t = c_type cond then c_status cond else ''False'')"
proof -
  have d: "cond_status (setc c cs) t = (if t = c_type c then Some (c_status c) else cond_status cs t)" for c cs t
    using assms(1) by (simp add: set_condition_documented_def)
  show ?thesis using assms(2,3) by (auto simp: SetCondition_def condTypes_def d)
qed

text \<open>A status that is written names one state: the condition of that state is True and the
  other two are False, a degraded status records its reason and time, and any other clears them.\<close>

lemma status_conditions_exclusive:
  assumes "set_condition_documented (rv_set_condition rv)" "t \<in> set condTypes"
    and "nxt = acceptedSecretStatus \<or> nxt = readySecretStatus e r \<or> nxt = degradedSecretStatus reason m"
  shows "cond_status (st_conditions (next_status rv cr nxt now)) t =
      Some (if t = st_state (next_status rv cr nxt now) then ''True'' else ''False'')
    \<and> (st_failureTime (next_status rv cr nxt now) = None \<longleftrightarrow> st_state (next_status rv cr nxt now) \<noteq> ''Degraded'')"
proof -
  have st: "rt_condition nxt = rt_state nxt" "rt_state nxt \<in> set condTypes"
    using assms(3)
    by (auto simp: acceptedSecretStatus_def readySecretStatus_def degradedSecretStatus_def condTypes_def)
  have "cond_status (SetCondition (rv_set_condition rv)
      \<lparr>c_type = rt_state nxt, c_status = ''True'', c_reason = rt_reason nxt, c_message = rt_message nxt,
       c_generation = cr_generation cr\<rparr> cs) t = Some (if t = rt_state nxt then ''True'' else ''False'')" for cs
    by (subst SetCondition_status [OF assms(1) _ assms(2)]) (use st in simp_all)
  then show ?thesis by (simp add: next_status_def Let_def st(1))
qed

definition sample_cr :: secret_cr where
  "sample_cr = \<lparr>cr_namespace = ''ns'', cr_name = ''s'', cr_generation = 3, cr_deleting = False, cr_finalizers = [], cr_agent = ''a'',
     cr_key = ''KEY'', cr_type = ''Static'', cr_status = \<lparr>st_conditions = [], st_observedGeneration = 0, st_state = [],
     st_runtimeRef = None, st_lastRuntimeUpdate = None, st_tokenExpiry = None, st_lastRefresh = None,
     st_failureTime = None, st_failureReason = [], st_failureMessage = None\<rparr>\<rparr>"

text \<open>A refreshed token is stored and reused: after a successful refresh, resolving the secret
  while the new token is usable returns that token with the record's hosts, without another
  refresh and without writing anything.\<close>

lemma refreshed_token_reused:
  assumes "encode_documented (rv_encode rv)"
    and "refreshOAuth rv key rec w = (Ok rec1, w1)" "\<not> TokenUsable (Token (or_record rec)) (w_clock w (w_ticks w))"
    and "or_type rec = ''OAuth''" "ParseSecretHosts (rv_host rv) (or_hosts rec) = Ok hosts"
    and "w_kv w2 = w_kv w1" "TokenUsable (Token (or_record rec1)) (w_clock w2 (w_ticks w2))"
  shows "resolve rv key w2 =
    (Ok \<lparr>rs_value = AccessToken (the (Token (or_record rec1))), rs_hosts = hosts\<rparr>, snd (time_now w2))"
proof -
  from assms(2,3) obtain token dat where
    r: "or_type rec1 = or_type rec" "or_hosts rec1 = or_hosts rec" "Token (or_record rec1) = Some token"
      "rv_encode rv rec1 = Some dat"
      "w_kv w1 (SecretPath (rv_namespace rv) (rv_agent rv) key) = KvData (Some dat)"
    by (auto simp: refreshOAuth_def time_now_def Let_def split: sum.splits option.splits if_splits)
  have "rd_oauth dat = Ok rec1" "rd_type dat = Ok (or_type rec1)"
    using assms(1) r(4) by (auto simp: encode_documented_def)
  then show ?thesis
    using r(1-3,5) assms(4-7) by (simp add: resolve_def resolveOAuth_def time_now_def)
qed

definition sample_oauth_record :: OAuthRecord where
  "sample_oauth_record = \<lparr>or_type = ''OAuth'', or_name = ''s'', or_hosts = [''api.example.com''],
     or_config = \<lparr>oc_tokenEndpoint = ''https://idp.example.com/token'', oc_resource = [], oc_scopes = []\<rparr>,
     or_record = sample_record\<rparr>"

lemma sample_refreshOAuth:
  "\<exists>r1 w1. refreshOAuth sample_resolver ''KEY'' sample_oauth_record sample_world = (Ok r1, w1)
    \<and> Token (or_record r1) = Some \<lparr>AccessToken = ''at'', TokenType = ''Bearer'', RefreshToken = ''rt'', Expiry = 3600000000005\<rparr>
    \<and> w_clock w1 = int \<and> w_ticks w1 = 6"
proof -
  have a: "auth_config sample_oauth_record = sample_cfg" "or_record sample_oauth_record = sample_record"
    by (simp_all add: auth_config_def sample_cfg_def sample_oauth_record_def)
  have u: "\<not> TokenUsable (Token sample_record) 4"
    by (simp add: TokenUsable_def sample_record_def TrimSpace_visible visible_def RefreshGrace_def second_def)
  have r: "rv_oauth sample_resolver = sample_oauth"
      "rv_encode sample_resolver r = Some \<lparr>rd_type = Ok (or_type r), rd_static = Err [], rd_oauth = Ok r\<rparr>" for r
    by (simp_all add: sample_resolver_def)
  have w: "w_clock sample_world = int" "w_ticks sample_world = 4" "w_put_fails sample_world = (\<lambda>_. False)"
    by (simp_all add: sample_world_def)
  show ?thesis
    by (simp add: refreshOAuth_def time_now_def a u r w sample_refresh Let_def)
qed

text \<open>Decoding reads the type field that the header read also sees.\<close>

definition decode_consistent :: "raw_data \<Rightarrow> bool" where
  "decode_consistent d \<longleftrightarrow> (\<forall>r. rd_static d = Ok r \<longrightarrow> rd_type d = Ok (sr_type r))
     \<and> (\<forall>r. rd_oauth d = Ok r \<longrightarrow> rd_type d = Ok (or_type r))"

text \<open>A status of Ready is true: when a probe of an agent's secret finds it ready, resolving its
  key in the same state succeeds.\<close>

lemma ready_status_resolvable:
  assumes "\<forall>p d. w_kv w p = KvData (Some d) \<longrightarrow> decode_consistent d"
    and "cr_namespace cr = rv_namespace rv" "cr_agent cr = rv_agent rv"
    and "rt_state (fst (runtime_status rv cr w)) = ''Ready''"
  shows "is_ok (fst (resolve rv (cr_key cr) w))"
proof -
  let ?p = "SecretPath (rv_namespace rv) (rv_agent rv) (cr_key cr)"
  note status = acceptedSecretStatus_def readySecretStatus_def degradedSecretStatus_def reconcileFailed_def
  from assms(2-4) obtain d where d: "w_kv w ?p = KvData (Some d)"
    by (auto simp: runtime_status_def status split: kv_answer.splits option.splits)
  then have cons: "decode_consistent d" using assms(1) by blast
  show ?thesis
  proof (cases "cr_type cr = ''Static''")
    case True
    with d assms(2-4) obtain r where r: "rd_static d = Ok r" "sr_type r = ''Static''"
        "is_ok (ParseSecretHosts (rv_host rv) (sr_hosts r))" "validateSecretValue (sr_value r) = None"
      by (auto simp: runtime_status_def status split: sum.splits if_splits)
    with cons d show ?thesis by (auto simp: resolve_def decode_consistent_def is_ok_iff)
  next
    case False
    with d assms(2-4) have o: "cr_type cr = ''OAuth''" "rt_state (fst (oauthRuntimeStatus rv cr d w)) = ''Ready''"
      by (auto simp: runtime_status_def status split: if_splits)
    then obtain r t where r: "rd_oauth d = Ok r" "or_type r = ''OAuth''" "is_ok (ParseSecretHosts (rv_host rv) (or_hosts r))"
        "Token (or_record r) = Some t"
      by (auto simp: oauthRuntimeStatus_def status split: sum.splits option.splits if_splits)
    have htyp: "rd_type d = Ok ''OAuth''" using cons r(1,2) by (auto simp: decode_consistent_def)
    have "is_ok (fst (resolveOAuth rv (cr_key cr) d w))"
      using o(2) r
      by (auto simp: oauthRuntimeStatus_def resolveOAuth_def status is_ok_iff case_prod_unfold
          split: sum.splits option.splits if_splits)
    with d htyp show ?thesis by (simp add: resolve_def)
  qed
qed

end
