(* ===== verification/SecretController.thy ===== *)
theory SecretController
  imports SecretRuntime
begin

section \<open>The Secret controller (\<open>internal/controller/secret\<close>)\<close>

text \<open>
  The controller guards every Secret object with a finalizer, publishes the path of its runtime
  record, and removes the record from OpenBao before it lets a deleted object go. Objects and
  records live in the \<^typ>\<open>world\<close> of the resolver; whether a write to the Kubernetes API succeeds
  is taken from the list of coming outcomes, what a deletion in OpenBao returns is an argument.
\<close>

definition secretFinalizer :: string where
  "secretFinalizer = ''agentz.accuknox.com/secret''"

datatype kv_delete = Deleted | DeleteNotFound | DeleteFailed

record reconciler =
  rc_bao :: bool
  rc_mount :: string
  rc_delete :: "string \<Rightarrow> kv_delete"
  rc_set_condition :: "condition \<Rightarrow> condition list \<Rightarrow> condition list"
  rc_attempts :: nat

datatype reconcile_error = ApiErr api_error | NoBaoClient | NoMountPath | DeleteErr

text \<open>A patch of the object's finalizers.\<close>

definition patch_finalizers :: "string list \<Rightarrow> secret_cr \<Rightarrow> world \<Rightarrow> api_error option \<times> world" where
  "patch_finalizers fs cr w = status_update (cr\<lparr>cr_finalizers := fs\<rparr>) w"

definition accepted_status :: "reconciler \<Rightarrow> secret_cr \<Rightarrow> string \<Rightarrow> time \<Rightarrow> secret_status" where
  "accepted_status rc current path now =
     (cr_status current)\<lparr>
       st_observedGeneration := cr_generation current,
       st_state := ''Accepted'',
       st_runtimeRef := Some path,
       st_lastRuntimeUpdate := Some now,
       st_tokenExpiry := None,
       st_failureReason := [],
       st_failureMessage := None,
       st_failureTime := None,
       st_conditions := SetCondition (rc_set_condition rc)
         \<lparr>c_type = ''Accepted'', c_status = ''True'', c_reason = ''Accepted'',
          c_message = MsgText ''Secret runtime is pending'', c_generation = cr_generation current\<rparr>
         (st_conditions (cr_status current))\<rparr>"

definition active_attempt :: "reconciler \<Rightarrow> secret_cr \<Rightarrow> world \<Rightarrow> api_error option \<times> world" where
  "active_attempt rc secret w =
     (let path = SecretPath (cr_namespace secret) (cr_agent secret) (cr_key secret) in
      case w_api w (cr_namespace secret, cr_name secret) of
        Inl e \<Rightarrow> (Some e, w)
      | Inr current \<Rightarrow>
          (let observed = (st_observedGeneration (cr_status current) = cr_generation current);
               hasRuntime = (st_state (cr_status current) \<noteq> [] \<and> st_runtimeRef (cr_status current) \<noteq> None)
           in if observed \<and> hasRuntime \<and> st_runtimeRef (cr_status current) = Some path then (None, w)
              else (case time_now w of (now, w1) \<Rightarrow>
                (let status = accepted_status rc current path now in
                 if (cr_status current)\<lparr>st_lastRuntimeUpdate := None\<rparr> = status\<lparr>st_lastRuntimeUpdate := None\<rparr>
                 then (None, w1)
                 else status_update (current\<lparr>cr_status := status\<rparr>) w1))))"

definition reconcileActive :: "reconciler \<Rightarrow> secret_cr \<Rightarrow> world \<Rightarrow> api_error option \<times> world" where
  "reconcileActive rc secret = retry_on_conflict (rc_attempts rc - 1) (active_attempt rc secret)"

definition deleteRuntime :: "reconciler \<Rightarrow> secret_cr \<Rightarrow> world \<Rightarrow> reconcile_error option \<times> world" where
  "deleteRuntime rc secret w =
     (if \<not> rc_bao rc then (Some NoBaoClient, w)
      else if TrimSpace (rc_mount rc) = [] then (Some NoMountPath, w)
      else
       (let path = SecretPath (cr_namespace secret) (cr_agent secret) (cr_key secret) in
        case rc_delete rc path of
          DeleteFailed \<Rightarrow> (Some DeleteErr, w)
        | _ \<Rightarrow> (None, w\<lparr>w_kv := (w_kv w)(path := KvNotFound)\<rparr>)))"

definition Reconcile :: "reconciler \<Rightarrow> string \<Rightarrow> string \<Rightarrow> world \<Rightarrow> reconcile_error option \<times> world" where
  "Reconcile rc namespace name w = (case w_api w (namespace, name) of
      Inl ApiNotFound \<Rightarrow> (None, w)
    | Inl e \<Rightarrow> (Some (ApiErr e), w)
    | Inr secret \<Rightarrow>
        if \<not> cr_deleting secret then
          (case (if secretFinalizer \<notin> set (cr_finalizers secret)
                 then patch_finalizers (cr_finalizers secret @ [secretFinalizer]) secret w
                 else (None, w)) of
             (Some e, w1) \<Rightarrow> (Some (ApiErr e), w1)
           | (None, w1) \<Rightarrow> map_prod (map_option ApiErr) id (reconcileActive rc secret w1))
        else
          (case deleteRuntime rc secret w of
             (Some e, w1) \<Rightarrow> (Some e, w1)
           | (None, w1) \<Rightarrow>
               if secretFinalizer \<in> set (cr_finalizers secret)
               then map_prod (map_option ApiErr) id
                      (patch_finalizers (filter (\<lambda>f. f \<noteq> secretFinalizer) (cr_finalizers secret)) secret w1)
               else (None, w1)))"

subsection \<open>Properties\<close>

lemma status_update_kv: "w_kv (snd (status_update cr w)) = w_kv w"
  by (auto simp: status_update_def Let_def split: list.splits option.splits)

lemma status_update_api:
  "w_api (snd (status_update cr w)) k \<noteq> w_api w k \<Longrightarrow>
    k = (cr_namespace cr, cr_name cr) \<and> w_api (snd (status_update cr w)) k = Inr cr"
  by (auto simp: status_update_def Let_def split: list.splits option.splits if_splits)

text \<open>A deleted Secret keeps its finalizer until its OpenBao record is gone: whenever reconciling
  an object that is being deleted changes that object, the record at its path no longer exists.\<close>

lemma finalizer_outlives_record:
  assumes "w_api w (namespace, name) = Inr cr" "cr_deleting cr"
    and "cr_namespace cr = namespace" "cr_name cr = name"
    and "w_api (snd (Reconcile rc namespace name w)) (namespace, name) \<noteq> Inr cr"
  shows "w_kv (snd (Reconcile rc namespace name w)) (SecretPath namespace (cr_agent cr) (cr_key cr)) = KvNotFound"
proof -
  have "fst (deleteRuntime rc cr w) = None"
    using assms by (cases "deleteRuntime rc cr w")
      (auto simp: Reconcile_def deleteRuntime_def Let_def split: option.splits if_splits kv_delete.splits)
  then have "w_kv (snd (deleteRuntime rc cr w)) (SecretPath namespace (cr_agent cr) (cr_key cr)) = KvNotFound"
    using assms(3) by (auto simp: deleteRuntime_def Let_def split: if_splits kv_delete.splits)
  with assms(1,2) \<open>fst (deleteRuntime rc cr w) = None\<close> show ?thesis
    by (auto simp: Reconcile_def patch_finalizers_def status_update_kv map_prod_def case_prod_unfold)
qed

definition sample_rc :: reconciler where
  "sample_rc = \<lparr>rc_bao = True, rc_mount = ''kv'', rc_delete = (\<lambda>_. Deleted), rc_set_condition = put_condition, rc_attempts = 5\<rparr>"

text \<open>Reconciling settles: once an object carries the finalizer and its status names its current
  generation, a state and its runtime path, reconciling it again changes nothing.\<close>

lemma reconcile_settled:
  assumes "w_api w (namespace, name) = Inr cr" "\<not> cr_deleting cr" "secretFinalizer \<in> set (cr_finalizers cr)"
    and "cr_namespace cr = namespace" "cr_name cr = name"
    and "st_observedGeneration (cr_status cr) = cr_generation cr" "st_state (cr_status cr) \<noteq> []"
    and "st_runtimeRef (cr_status cr) = Some (SecretPath namespace (cr_agent cr) (cr_key cr))"
  shows "Reconcile rc namespace name w = (None, w)"
proof -
  have "active_attempt rc cr w = (None, w)" using assms by (simp add: active_attempt_def)
  then have "reconcileActive rc cr w = (None, w)"
    by (cases "rc_attempts rc - 1") (simp_all add: reconcileActive_def)
  with assms show ?thesis by (simp add: Reconcile_def)
qed

end
