(* ===== verification/Url.thy ===== *)
theory Url
  imports SecretHost
begin

section \<open>URLs\<close>

text \<open>
  A parsed URL of \<open>net/url\<close> as the webhooks use it: its scheme, whether it carries user
  information, the host with its port, and the rest unread. \<open>url.Parse\<close> and \<open>URL.String\<close> are
  the two functions of \<open>url_env\<close>; \<open>Hostname\<close>, \<open>Port\<close> and \<open>IsAbs\<close> are defined on the record as
  in the standard library. \<open>https_issues\<close> is the check of an HTTPS URL that the Secret and
  MCPConnection webhooks share line by line.
\<close>

record web_url =
  wu_scheme :: string
  wu_user :: bool
  wu_host :: string
  wu_rest :: string

record url_env =
  url_parse :: "string \<Rightarrow> web_url option"
  url_string :: "web_url \<Rightarrow> string"

definition validOptionalPort :: "string \<Rightarrow> bool" where
  "validOptionalPort p = (case p of [] \<Rightarrow> True | c # cs \<Rightarrow> c = CHR '':'' \<and> list_all is_digit cs)"

text \<open>The part from the last colon on, and the part before it.\<close>

definition from_last_colon :: "string \<Rightarrow> (string \<times> string) option" where
  "from_last_colon s =
     (if CHR '':'' \<in> set s
      then let after = rev (takeWhile (\<lambda>c. c \<noteq> CHR '':'') (rev s))
           in Some (take (length s - length after - 1) s, CHR '':'' # after)
      else None)"

definition url_splitHostPort :: "string \<Rightarrow> string \<times> string" where
  "url_splitHostPort hostPort =
     (let (host, port) = (case from_last_colon hostPort of
            Some (h, p) \<Rightarrow> if validOptionalPort p then (h, tl p) else (hostPort, [])
          | None \<Rightarrow> (hostPort, []))
      in (if HasPrefix host ''['' \<and> HasSuffix host '']'' then butlast (tl host) else host, port))"

definition Hostname :: "web_url \<Rightarrow> string" where
  "Hostname u = fst (url_splitHostPort (wu_host u))"

definition Port :: "web_url \<Rightarrow> string" where
  "Port u = snd (url_splitHostPort (wu_host u))"

definition https_issues :: "field_path \<Rightarrow> string \<Rightarrow> web_url \<Rightarrow> field_errors" where
  "https_issues path text u =
     issue (wu_scheme u = []) (FInvalid path (BStr text) ''must be an absolute url'')
     @ issue (wu_scheme u \<noteq> ''https'') (FInvalid path (BStr text) ''must use https'')
     @ issue (TrimSpace (Hostname u) = []) (FInvalid path (BStr text) ''must include a host'')
     @ issue (wu_user u) (FInvalid path (BStr text) ''must not include credentials'')"

definition https_url :: "web_url \<Rightarrow> bool" where
  "https_url u \<longleftrightarrow> wu_scheme u = ''https'' \<and> TrimSpace (Hostname u) \<noteq> [] \<and> \<not> wu_user u"

lemma https_issues_Nil: "https_issues path text u = [] \<longleftrightarrow> https_url u"
  by (auto simp: https_issues_def https_url_def)

lemma from_last_colon_append:
  "CHR '':'' \<notin> set p \<Longrightarrow> from_last_colon (h @ CHR '':'' # p) = Some (h, CHR '':'' # p)"
proof -
  assume "CHR '':'' \<notin> set p"
  then have "takeWhile (\<lambda>c. c \<noteq> CHR '':'') (rev p) = rev p" by (auto intro: takeWhile_eq_all_conv [THEN iffD2])
  then show ?thesis by (simp add: from_last_colon_def takeWhile_append)
qed

lemma split_plain_port:
  assumes "list_all is_digit p" "\<not> HasPrefix h ''[''"
  shows "url_splitHostPort (h @ CHR '':'' # p) = (h, p)"
proof -
  have "CHR '':'' \<notin> set p" using assms(1) by (auto simp: list_all_iff in_range_def)
  from from_last_colon_append [OF this] show ?thesis
    using assms by (simp add: url_splitHostPort_def validOptionalPort_def)
qed

end
