(* ===== verification/SecretWebhook.thy ===== *)
theory SecretWebhook
  imports Url Rewrite
begin

section \<open>Secret admission\<close>

text \<open>
  The validating and defaulting webhooks of Secrets (\<open>internal/webhook/v1alpha1/secret\<close>). Hosts are
  parsed by the proxy's own parser, so the two meet in the properties: what admission accepts is
  what the proxy can match and reference. \<open>sem\<close> is \<open>equality.Semantic.DeepEqual\<close> on specs.
\<close>

record SecretOAuthSpec =
  oa_provider :: string
  oa_issuer :: string
  oa_authorizationEndpoint :: string
  oa_tokenEndpoint :: string
  oa_registrationEndpoint :: string
  oa_resource :: string
  oa_scopes :: "string list"

record SecretSpec =
  ss_createdBy :: string
  ss_lastModifiedBy :: string
  ss_agentRef :: string
  ss_key :: string
  ss_type :: string
  ss_hosts :: "string list"
  ss_oauth :: "SecretOAuthSpec option"

definition SecretTypeStatic :: string where
  "SecretTypeStatic = ''Static''"

definition SecretTypeOAuth :: string where
  "SecretTypeOAuth = ''OAuth''"

text \<open>The pattern \<open>^[A-Za-z_][A-Za-z0-9_]*$\<close>.\<close>

definition secretKeyPattern :: "string \<Rightarrow> bool" where
  "secretKeyPattern s = (case s of [] \<Rightarrow> False
     | c # cs \<Rightarrow> (is_upper c \<or> is_lower c \<or> c = CHR ''_'')
         \<and> list_all (\<lambda>d. is_upper d \<or> is_lower d \<or> is_digit d \<or> d = CHR ''_'') cs)"

definition validateOptionalHTTPSURL :: "url_env \<Rightarrow> string \<Rightarrow> field_path \<Rightarrow> field_errors" where
  "validateOptionalHTTPSURL ue text path =
     (if TrimSpace text = [] then []
      else case url_parse ue text of
        None \<Rightarrow> [FInvalid path (BStr text) ''parse url'']
      | Some parsed \<Rightarrow> https_issues path text parsed)"

definition validateOAuthSpec :: "url_env \<Rightarrow> SecretOAuthSpec option \<Rightarrow> field_path \<Rightarrow> field_errors" where
  "validateOAuthSpec ue spec path =
     (case spec of
        None \<Rightarrow> [FRequired path ''field is required'']
      | Some oa \<Rightarrow>
          validateOptionalHTTPSURL ue (oa_issuer oa) (Child path ''issuer'')
          @ validateOptionalHTTPSURL ue (oa_authorizationEndpoint oa) (Child path ''authorizationEndpoint'')
          @ validateOptionalHTTPSURL ue (oa_tokenEndpoint oa) (Child path ''tokenEndpoint'')
          @ validateOptionalHTTPSURL ue (oa_registrationEndpoint oa) (Child path ''registrationEndpoint'')
          @ validateOptionalHTTPSURL ue (oa_resource oa) (Child path ''resource'')
          @ issue (TrimSpace (oa_tokenEndpoint oa) = []) (FRequired (Child path ''tokenEndpoint'') ''field is required'')
          @ issue (oa_scopes oa = []) (FRequired (Child path ''scopes'') ''at least one scope is required'')
          @ concat_index 0 (\<lambda>i scope. issue (TrimSpace scope = [])
              (FInvalid (Index (Child path ''scopes'') i) (BStr scope) ''scope must not be empty'')) (oa_scopes oa))"

text \<open>The text of a host parsing error is not modelled in detail.\<close>

definition hosts_issues :: "host_env \<Rightarrow> string list \<Rightarrow> field_path \<Rightarrow> field_errors" where
  "hosts_issues env hosts path =
     (case ParseSecretHosts env hosts of
        Inl e \<Rightarrow> [FInvalid path (BStrs hosts) ''parse secret hosts'']
      | Inr out \<Rightarrow> issue (out \<noteq> hosts) (FInvalid path (BStrs hosts) ''hosts must be canonical''))"

definition validateSpec :: "host_env \<Rightarrow> url_env \<Rightarrow> SecretSpec \<Rightarrow> field_path \<Rightarrow> field_errors" where
  "validateSpec env ue spec path =
     (let key = TrimSpace (ss_key spec) in
      issue (TrimSpace (ss_agentRef spec) = []) (FRequired (Child (Child path ''agentRef'') ''name'') ''field is required'')
      @ issue (key = []) (FRequired (Child path ''key'') ''field is required'')
      @ issue (length key > 128) (FInvalid (Child path ''key'') (BStr (ss_key spec)) ''must be at most 128 characters'')
      @ issue (key \<noteq> [] \<and> \<not> secretKeyPattern key)
          (FInvalid (Child path ''key'') (BStr (ss_key spec)) ''must be a valid environment variable name'')
      @ hosts_issues env (ss_hosts spec) (Child path ''hosts'')
      @ (if ss_type spec = SecretTypeStatic then
           issue (ss_oauth spec \<noteq> None) (FForbidden (Child path ''oauth'') ''oauth config is only valid for oauth secrets'')
         else if ss_type spec = SecretTypeOAuth then validateOAuthSpec ue (ss_oauth spec) (Child path ''oauth'')
         else [FNotSupported (Child path ''type'') (BStr (ss_type spec)) [SecretTypeStatic, SecretTypeOAuth]]))"

definition Validate_secret :: "host_env \<Rightarrow> url_env \<Rightarrow> SecretSpec \<Rightarrow> field_errors" where
  "Validate_secret env ue spec = validateSpec env ue spec [PName ''spec'']"

definition ValidateUpdate_secret ::
  "host_env \<Rightarrow> url_env \<Rightarrow> (SecretSpec \<Rightarrow> SecretSpec \<Rightarrow> bool) \<Rightarrow> SecretSpec \<Rightarrow> SecretSpec \<Rightarrow> field_errors" where
  "ValidateUpdate_secret env ue sem old new =
     (let errs = Validate_secret env ue new; path = [PName ''spec''] in
      if errs \<noteq> [] then errs
      else issue (ss_agentRef old \<noteq> ss_agentRef new)
             (FForbidden (Child (Child path ''agentRef'') ''name'') ''agentRef.name is immutable'')
           @ issue (ss_key old \<noteq> ss_key new) (FForbidden (Child path ''key'') ''key is immutable'')
           @ issue (ss_type old \<noteq> ss_type new) (FForbidden (Child path ''type'') ''type is immutable'')
           @ issue (ss_type old = SecretTypeOAuth \<and> \<not> sem old new)
               (FForbidden path ''oauth secret spec is immutable after creation''))"

definition stableHTTPSURL :: "host_env \<Rightarrow> url_env \<Rightarrow> string \<Rightarrow> string" where
  "stableHTTPSURL env ue text =
     (let v = TrimSpace text in
      if v = [] then []
      else case url_parse ue v of
        None \<Rightarrow> v
      | Some parsed \<Rightarrow>
          (let lowered = parsed\<lparr>wu_host := ToLower (uni_lower env) (wu_host parsed)\<rparr>
           in if wu_scheme lowered = ''https'' \<and> Port lowered = ''443''
              then url_string ue (lowered\<lparr>wu_host := Hostname lowered\<rparr>)
              else url_string ue lowered))"

definition ApplyDefaults :: "host_env \<Rightarrow> url_env \<Rightarrow> SecretSpec \<Rightarrow> SecretSpec" where
  "ApplyDefaults env ue spec =
     spec\<lparr>ss_key := TrimSpace (ss_key spec),
          ss_agentRef := TrimSpace (ss_agentRef spec),
          ss_hosts := (case ParseSecretHosts env (ss_hosts spec) of Inl e \<Rightarrow> ss_hosts spec | Inr hosts \<Rightarrow> hosts),
          ss_oauth := (case ss_oauth spec of
             None \<Rightarrow> None
           | Some oa \<Rightarrow> Some (oa\<lparr>oa_provider := TrimSpace (oa_provider oa),
               oa_issuer := stableHTTPSURL env ue (oa_issuer oa),
               oa_authorizationEndpoint := stableHTTPSURL env ue (oa_authorizationEndpoint oa),
               oa_tokenEndpoint := stableHTTPSURL env ue (oa_tokenEndpoint oa),
               oa_registrationEndpoint := stableHTTPSURL env ue (oa_registrationEndpoint oa),
               oa_resource := stableHTTPSURL env ue (oa_resource oa)\<rparr>))\<rparr>"

subsection \<open>Lemmas\<close>

lemma secretKeyPattern_valid_name:
  "secretKeyPattern k \<Longrightarrow> length k \<le> 128 \<Longrightarrow> valid_name k"
  by (cases k) (auto simp: secretKeyPattern_def valid_name_def isSecretNameFirstByte_def isSecretNameByte_def
      maxSecretNameLen_def list_all_iff)

lemma hosts_issues_Nil: "hosts_issues env hosts path = [] \<longleftrightarrow> ParseSecretHosts env hosts = Ok hosts"
  by (auto simp: hosts_issues_def split: sum.splits)

lemma validateSpec_Nil:
  assumes "validateSpec env ue spec path = []"
  shows "valid_name (TrimSpace (ss_key spec))" "TrimSpace (ss_agentRef spec) \<noteq> []"
    "ParseSecretHosts env (ss_hosts spec) = Ok (ss_hosts spec)"
    "ss_type spec = SecretTypeStatic \<and> ss_oauth spec = None \<or> ss_type spec = SecretTypeOAuth \<and> ss_oauth spec \<noteq> None"
  using assms secretKeyPattern_valid_name
  by (auto simp: validateSpec_def Let_def hosts_issues_Nil validateOAuthSpec_def split: if_splits option.splits)

lemma validateOptionalHTTPSURL_Nil:
  "validateOptionalHTTPSURL ue text path = [] \<longleftrightarrow>
     TrimSpace text = [] \<or> (\<exists>u. url_parse ue text = Some u \<and> https_url u)"
  by (auto simp: validateOptionalHTTPSURL_def https_issues_Nil split: option.splits)

text \<open>C8. A Secret that admission accepts is one the proxy injects, and only where its user said. Once defaulted
  and validated, its key is a name that references can spell, so a text that consists of a reference to
  the key is replaced by the resolved value exactly for the targets that the hosts, as the user wrote
  them, match (and if the value has no line break or other control byte); for every other target the
  text stays the reference that it is. The stored hosts are canonical; and an OAuth Secret has a token
  endpoint that parses to an HTTPS URL with a host and without credentials. The hosts are written in
  visible ASCII and without an IPv6 zone, because canonicalising other hosts can change what they match.\<close>

theorem accepted_secret_injected:
  assumes "dns1123_documented env" "list_all plain_entry (ss_hosts spec0)"
    and "Validate_secret env ue (ApplyDefaults env ue spec0) = []"
    and "res (ss_key spec) s = (Ok \<lparr>rs_value = v, rs_hosts = ss_hosts spec\<rparr>, s1)"
    and spec_def: "spec = ApplyDefaults env ue spec0"
  shows "replacePlaceholders env (PlaceholderPrefix @ ss_key spec) res target s
      = (if SecretHostMatches env target (ss_hosts spec0) \<and> validateSecretValue v = None
         then (v, True, s1) else (PlaceholderPrefix @ ss_key spec, False, s1))
    \<and> ParseSecretHosts env (ss_hosts spec) = Ok (ss_hosts spec)
    \<and> (ss_type spec = SecretTypeStatic \<or>
       (\<exists>oa u. ss_oauth spec = Some oa \<and> url_parse ue (oa_tokenEndpoint oa) = Some u \<and> https_url u))"
proof -
  have v: "validateSpec env ue spec [PName ''spec''] = []"
    using assms(3) by (simp add: spec_def Validate_secret_def)
  note ok = validateSpec_Nil [OF v]
  have key: "TrimSpace (ss_key spec) = ss_key spec" by (simp add: spec_def ApplyDefaults_def)
  have "ParseSecretHosts env (ss_hosts spec0) = Ok (ss_hosts spec)"
    using ok(3) by (auto simp: spec_def ApplyDefaults_def split: sum.splits)
  from canonical_hosts [OF assms(1,2) this] have m: "SecretHostMatches env target (ss_hosts spec) = SecretHostMatches env target (ss_hosts spec0)"
    by simp
  have "segments ([] @ PlaceholderPrefix @ ss_key spec @ []) = Lit [] # Ref (ss_key spec) # segments []"
    using ok(1) key by (intro segments_first) (simp_all add: Contains_def PlaceholderPrefix_def ends_ref_def)
  then have "replacePlaceholders env (PlaceholderPrefix @ ss_key spec) res target s
      = (if SecretHostMatches env target (ss_hosts spec0) \<and> validateSecretValue v = None
         then (v, True, s1) else (PlaceholderPrefix @ ss_key spec, False, s1))"
    using assms(4) m
    by (simp add: replacePlaceholders_def replaceSecretRefs_spec segments.simps [of "[]"] PlaceholderPrefix_def exposed_def)
  moreover have "\<exists>oa u. ss_oauth spec = Some oa \<and> url_parse ue (oa_tokenEndpoint oa) = Some u \<and> https_url u"
    if "ss_type spec \<noteq> SecretTypeStatic"
    using that v ok(4)
    by (auto simp: validateSpec_def Let_def validateOAuthSpec_def validateOptionalHTTPSURL_Nil split: if_splits option.splits)
  ultimately show ?thesis using ok(3) by blast
qed

definition sample_secret :: SecretSpec where
  "sample_secret = \<lparr>ss_createdBy = ''u'', ss_lastModifiedBy = ''u'', ss_agentRef = ''a'', ss_key = ''TOKEN'', ss_type = ''Static'',
     ss_hosts = [''API.Example.com.''], ss_oauth = None\<rparr>"

definition sample_urls :: url_env where
  "sample_urls = \<lparr>url_parse = (\<lambda>_. None), url_string = (\<lambda>u. wu_scheme u @ ''://'' @ wu_host u @ wu_rest u)\<rparr>"

lemma sample_secret_facts:
  "list_all plain_entry (ss_hosts sample_secret)
   \<and> Validate_secret ascii_env sample_urls (ApplyDefaults ascii_env sample_urls sample_secret) = []
   \<and> ss_key (ApplyDefaults ascii_env sample_urls sample_secret) = ''TOKEN''
   \<and> ss_hosts (ApplyDefaults ascii_env sample_urls sample_secret) = [''api.example.com'']
   \<and> SecretHostMatches ascii_env ''api.example.com:443'' (ss_hosts sample_secret)
   \<and> \<not> SecretHostMatches ascii_env ''example.com:443'' (ss_hosts sample_secret)"
  unfolding sample_urls_def by code_simp

theorem accepted_secret_injected_witness:
  "replacePlaceholders ascii_env (PlaceholderPrefix @ ''TOKEN'') (token_resolver ''t0p'') ''api.example.com:443'' () = (''t0p'', True, ())
   \<and> replacePlaceholders ascii_env (PlaceholderPrefix @ ''TOKEN'') (token_resolver ''t0p'') ''example.com:443'' ()
     = (PlaceholderPrefix @ ''TOKEN'', False, ())"
  using accepted_secret_injected [OF ascii_env_documented, of sample_secret sample_urls "token_resolver ''t0p''"
      "ApplyDefaults ascii_env sample_urls sample_secret" "()" "''t0p''" "()" "''api.example.com:443''"]
    accepted_secret_injected [OF ascii_env_documented, of sample_secret sample_urls "token_resolver ''t0p''"
      "ApplyDefaults ascii_env sample_urls sample_secret" "()" "''t0p''" "()" "''example.com:443''"] sample_secret_facts
  by (simp add: token_resolver_def validateSecretValue_def)

text \<open>An accepted update cannot repoint a Secret: the Agent, the key and the type stay, an OAuth
  Secret keeps its whole specification, and the new hosts are canonical.\<close>

lemma secret_update_keeps_identity:
  assumes "ValidateUpdate_secret env ue sem old new = []"
  shows "ss_agentRef new = ss_agentRef old \<and> ss_key new = ss_key old \<and> ss_type new = ss_type old
    \<and> \<not> (ss_type old = SecretTypeOAuth \<and> \<not> sem old new)
    \<and> ParseSecretHosts env (ss_hosts new) = Ok (ss_hosts new)"
proof -
  have "validateSpec env ue new [PName ''spec''] = []"
    using assms by (auto simp: ValidateUpdate_secret_def Validate_secret_def Let_def split: if_splits)
  from validateSpec_Nil(3) [OF this] show ?thesis
    using assms by (auto simp: ValidateUpdate_secret_def Let_def split: if_splits)
qed

text \<open>Dropping the default port of an IPv6 endpoint also drops the brackets of its address: the
  stored URL then reads as another host with another port.\<close>

lemma stable_url_loses_ipv6:
  "let u = \<lparr>wu_scheme = ''https'', wu_user = False, wu_host = ''[2001:db8::1]:443'', wu_rest = ''/token''\<rparr>;
       ue = \<lparr>url_parse = (\<lambda>_. Some u), url_string = (\<lambda>u. wu_scheme u @ ''://'' @ wu_host u @ wu_rest u)\<rparr>
   in Hostname u = ''2001:db8::1'' \<and> stableHTTPSURL ascii_env ue ''https://[2001:db8::1]:443/token'' = ''https://2001:db8::1/token''
      \<and> Hostname (u\<lparr>wu_host := ''2001:db8::1''\<rparr>) = ''2001:db8:'' \<and> Port (u\<lparr>wu_host := ''2001:db8::1''\<rparr>) = ''1''"
  unfolding Let_def by code_simp

end
