(* ===== verification/Sha256.thy ===== *)
theory Sha256
  imports Prelude "HOL-Library.Word"
begin

section \<open>SHA-256\<close>

text \<open>
  The functions \<open>crypto/sha256.Sum256\<close> and \<open>encoding/hex.EncodeToString\<close> of the Go standard
  library, as far as scope namespaces use them: padding to 64-byte blocks, the message
  schedule, the compression rounds on eight 32-bit words with wrap-around addition, and the
  32-byte digest as a byte string.
\<close>

unbundle bit_operations_syntax

type_synonym w32 = "32 word"
type_synonym sha_state = "w32 list"

definition sha_init :: sha_state where
  "sha_init = [1779033703, 3144134277, 1013904242, 2773480762, 1359893119, 2600822924, 528734635, 1541459225]"

definition sha_constants :: "w32 list" where
  "sha_constants =
    [1116352408, 1899447441, 3049323471, 3921009573, 961987163, 1508970993, 2453635748, 2870763221,
     3624381080, 310598401, 607225278, 1426881987, 1925078388, 2162078206, 2614888103, 3248222580,
     3835390401, 4022224774, 264347078, 604807628, 770255983, 1249150122, 1555081692, 1996064986,
     2554220882, 2821834349, 2952996808, 3210313671, 3336571891, 3584528711, 113926993, 338241895,
     666307205, 773529912, 1294757372, 1396182291, 1695183700, 1986661051, 2177026350, 2456956037,
     2730485921, 2820302411, 3259730800, 3345764771, 3516065817, 3600352804, 4094571909, 275423344,
     430227734, 506948616, 659060556, 883997877, 958139571, 1322822218, 1537002063, 1747873779,
     1955562222, 2024104815, 2227730452, 2361852424, 2428436474, 2756734187, 3204031479, 3329325298]"

definition be_bytes :: "nat \<Rightarrow> nat \<Rightarrow> nat list" where
  "be_bytes k n = map (\<lambda>i. n div 256 ^ (k - 1 - i) mod 256) [0..<k]"

definition sha_pad :: "string \<Rightarrow> nat list" where
  "sha_pad s = (let n = length s in
     map byte s @ [128] @ replicate ((64 - (n + 9) mod 64) mod 64) 0 @ be_bytes 8 (8 * n))"

fun be_words :: "nat list \<Rightarrow> w32 list" where
  "be_words (a # b # c # d # bs) = of_nat (((a * 256 + b) * 256 + c) * 256 + d) # be_words bs"
| "be_words _ = []"

definition small_sigma :: "nat \<Rightarrow> nat \<Rightarrow> nat \<Rightarrow> w32 \<Rightarrow> w32" where
  "small_sigma a b c x = word_rotr a x XOR word_rotr b x XOR drop_bit c x"

definition big_sigma :: "nat \<Rightarrow> nat \<Rightarrow> nat \<Rightarrow> w32 \<Rightarrow> w32" where
  "big_sigma a b c x = word_rotr a x XOR word_rotr b x XOR word_rotr c x"

text \<open>The schedule is extended one word at a time, newest word last.\<close>

definition extend_schedule :: "w32 list \<Rightarrow> w32 list" where
  "extend_schedule ws = (let n = length ws in
     ws @ [small_sigma 17 19 10 (ws ! (n - 2)) + ws ! (n - 7) + small_sigma 7 18 3 (ws ! (n - 15)) + ws ! (n - 16)])"

fun sha_round :: "sha_state \<Rightarrow> w32 \<times> w32 \<Rightarrow> sha_state" where
  "sha_round [a, b, c, d, e, f, g, h] (k, w) =
     (let t1 = h + big_sigma 6 11 25 e + ((e AND f) XOR (NOT e AND g)) + k + w;
          t2 = big_sigma 2 13 22 a + ((a AND b) XOR (a AND c) XOR (b AND c))
      in [t1 + t2, a, b, c, d + t1, e, f, g])"
| "sha_round st _ = st"

definition sha_block :: "sha_state \<Rightarrow> w32 list \<Rightarrow> sha_state" where
  "sha_block st block =
     map2 (+) st (foldl sha_round st (zip sha_constants ((extend_schedule ^^ 48) block)))"

function sha_blocks :: "sha_state \<Rightarrow> w32 list \<Rightarrow> sha_state" where
  "sha_blocks st ws = (if length ws < 16 then st else sha_blocks (sha_block st (take 16 ws)) (drop 16 ws))"
  by pat_completeness auto

termination
  by (relation "measure (length \<circ> snd)") auto

declare sha_blocks.simps [simp del]

definition Sum256 :: "string \<Rightarrow> string" where
  "Sum256 s = map char_of (concat (map (be_bytes 4 \<circ> unat) (sha_blocks sha_init (be_words (sha_pad s)))))"

definition hex_encode :: "string \<Rightarrow> string" where
  "hex_encode s = concat (map (\<lambda>c. [digit_char (byte c div 16), digit_char (byte c mod 16)]) s)"

lemma length_sha_round [simp]: "length (sha_round st kw) = length st"
  by (induction st kw rule: sha_round.induct) (auto simp: Let_def)

lemma length_sha_rounds: "length (foldl sha_round st kws) = length st"
  by (induction kws arbitrary: st) simp_all

lemma length_sha_blocks: "length (sha_blocks st ws) = length st"
proof (induction st ws rule: sha_blocks.induct)
  case (1 st ws)
  then show ?case by (subst sha_blocks.simps) (auto simp: sha_block_def length_sha_rounds)
qed

lemma length_concat_same: "(\<And>x. x \<in> set xs \<Longrightarrow> length (f x) = k) \<Longrightarrow> length (concat (map f xs)) = k * length xs"
  by (induction xs) auto

lemma length_Sum256 [simp]: "length (Sum256 s) = 32"
proof -
  have "length (concat (map (be_bytes 4 \<circ> unat) (sha_blocks sha_init (be_words (sha_pad s))))) = 4 * 8"
    by (subst length_concat_same [where k = 4]) (simp_all add: be_bytes_def length_sha_blocks sha_init_def)
  then show ?thesis by (simp add: Sum256_def)
qed

lemma length_hex_encode [simp]: "length (hex_encode s) = 2 * length s"
  unfolding hex_encode_def by (rule length_concat_same) simp

lemma hex_encode_chars: "c \<in> set (hex_encode s) \<Longrightarrow> is_digit c \<or> c \<in> {CHR ''a''..CHR ''f''}"
proof -
  assume "c \<in> set (hex_encode s)"
  then obtain b where "c = digit_char (byte b div 16) \<or> c = digit_char (byte b mod 16)"
    by (auto simp: hex_encode_def)
  moreover have "byte b div 16 < 16" "byte b mod 16 < 16" for b
    using nat_of_char_less_256 [of b] by (simp_all add: div_less_iff_less_mult)
  ultimately obtain d where "c = digit_char d" "d < 16" by metis
  then show ?thesis
    by (auto simp: digit_char_def in_range_def less_eq_char_def split: if_splits)
qed

end
