(* ===== verification/Scope.thy ===== *)
theory Scope
  imports Sha256
begin

section \<open>Scopes, namespaces and Workspace selections\<close>

text \<open>
  Package \<open>internal/scope\<close> and the scope types of \<open>pkg/apis/agentz/v1alpha1\<close>: the deterministic
  namespace of an Organisation or Workspace (\<open>ScopeNamespace\<close>), the explicit selection of
  Organisation resources a Workspace makes, and the resolution of a scoped reference from the
  namespace it is written in (\<open>Namespace\<close>, \<open>SelectedNamespace\<close>).
  The Kubernetes API is a reader: a record of functions from object names to the answer of a
  \<open>Get\<close>, which later theories extend by the kinds they read. A Go string type with declared
  constants stays a string, since the API may deliver any value.
\<close>

datatype get_error = GNotFound | GFailed string

type_synonym label_map = "string \<rightharpoonup> string"

text \<open>Indexing a Go map: the zero value for a missing key.\<close>

definition label :: "label_map \<Rightarrow> string \<Rightarrow> string" where
  "label m k = (case m k of None \<Rightarrow> [] | Some v \<Rightarrow> v)"

definition TenantNameLabel :: string where
  "TenantNameLabel = ''agentz.accuknox.com/tenant''"

definition TenantOrganizationIDLabel :: string where
  "TenantOrganizationIDLabel = ''agentz.accuknox.com/organization-id-hash''"

definition WorkspaceNameLabel :: string where
  "WorkspaceNameLabel = ''agentz.accuknox.com/workspace''"

type_synonym ResourceScope = string

definition ResourceScopeOrganisation :: ResourceScope where
  "ResourceScopeOrganisation = ''Organisation''"

definition ResourceScopeWorkspace :: ResourceScope where
  "ResourceScopeWorkspace = ''Workspace''"

record ResourceReference =
  ref_scope :: ResourceScope
  ref_name :: string

text \<open>\<open>None\<close> is the panic on a scope outside the declared constants.\<close>

definition ScopeNamespace :: "ResourceScope \<Rightarrow> string \<Rightarrow> string option" where
  "ScopeNamespace scope stableID =
     (let digest = hex_encode (take 16 (Sum256 (scope @ [CHR 0x00] @ stableID)))
      in if scope = ResourceScopeOrganisation then Some (''org-'' @ digest)
         else if scope = ResourceScopeWorkspace then Some (''ws-'' @ digest)
         else None)"

record SelectedOrganizationResources =
  GuardrailConnections :: "string list"
  GuardrailPolicies :: "string list"
  Skills :: "string list"
  Sandboxes :: "string list"
  MCPConnections :: "string list"
  InferenceProviders :: "string list"

datatype OrganizationResourceKind =
    KindGuardrailConnection | KindGuardrailPolicy | KindSkill | KindSandbox | KindMCPConnection
  | KindInferenceProvider | KindOther string

definition Names :: "SelectedOrganizationResources \<Rightarrow> OrganizationResourceKind \<Rightarrow> string list" where
  "Names s kind = (case kind of
      KindGuardrailConnection \<Rightarrow> GuardrailConnections s
    | KindGuardrailPolicy \<Rightarrow> GuardrailPolicies s
    | KindSkill \<Rightarrow> Skills s
    | KindSandbox \<Rightarrow> Sandboxes s
    | KindMCPConnection \<Rightarrow> MCPConnections s
    | KindInferenceProvider \<Rightarrow> InferenceProviders s
    | KindOther _ \<Rightarrow> [])"

definition Set_names ::
  "SelectedOrganizationResources \<Rightarrow> OrganizationResourceKind \<Rightarrow> string list \<Rightarrow> SelectedOrganizationResources" where
  "Set_names s kind names = (case kind of
      KindGuardrailConnection \<Rightarrow> s\<lparr>GuardrailConnections := names\<rparr>
    | KindGuardrailPolicy \<Rightarrow> s\<lparr>GuardrailPolicies := names\<rparr>
    | KindSkill \<Rightarrow> s\<lparr>Skills := names\<rparr>
    | KindSandbox \<Rightarrow> s\<lparr>Sandboxes := names\<rparr>
    | KindMCPConnection \<Rightarrow> s\<lparr>MCPConnections := names\<rparr>
    | KindInferenceProvider \<Rightarrow> s\<lparr>InferenceProviders := names\<rparr>
    | KindOther _ \<Rightarrow> s)"

definition Equal :: "SelectedOrganizationResources \<Rightarrow> SelectedOrganizationResources \<Rightarrow> bool" where
  "Equal s other \<longleftrightarrow>
     GuardrailConnections s = GuardrailConnections other \<and>
     GuardrailPolicies s = GuardrailPolicies other \<and>
     Skills s = Skills other \<and>
     Sandboxes s = Sandboxes other \<and>
     MCPConnections s = MCPConnections other \<and>
     InferenceProviders s = InferenceProviders other"

record Workspace =
  ws_name :: string
  ws_type :: string
  ws_workspaceID :: string
  ws_organizationID :: string
  ws_provisioningAttempt :: int
  ws_selected :: SelectedOrganizationResources

record scope_reader =
  getNamespace :: "string \<Rightarrow> (get_error, label_map) result"
  getWorkspace :: "string \<Rightarrow> (get_error, Workspace) result"

datatype scope_error =
    GetCurrentNamespace get_error
  | NoScopeIdentity
  | OrganisationCannotResolveWorkspace
  | InvalidWorkspaceIdentity
  | InvalidScope
  | GetWorkspaceIdentity get_error
  | InvalidOrganisationIdentity
  | GetWorkspaceSelection get_error
  | NotSelected string
  | ScopePanic

definition Namespace ::
  "('a) scope_reader_scheme \<Rightarrow> string \<Rightarrow> ResourceScope \<Rightarrow> (scope_error, string) result" where
  "Namespace c current scope =
     (case getNamespace c current of
        Inl e \<Rightarrow> Err (GetCurrentNamespace e)
      | Inr labels \<Rightarrow>
          (let workspaceName = label labels WorkspaceNameLabel in
           if workspaceName = [] then
             (if label labels TenantNameLabel \<noteq> current then Err NoScopeIdentity
              else if scope \<noteq> ResourceScopeOrganisation then Err OrganisationCannotResolveWorkspace
              else Ok current)
           else if workspaceName \<noteq> current then Err InvalidWorkspaceIdentity
           else if scope = ResourceScopeWorkspace then Ok current
           else if scope \<noteq> ResourceScopeOrganisation then Err InvalidScope
           else
             (case getWorkspace c workspaceName of
                Inl e \<Rightarrow> Err (GetWorkspaceIdentity e)
              | Inr workspace \<Rightarrow>
                  (case ScopeNamespace ResourceScopeOrganisation (ws_organizationID workspace) of
                     None \<Rightarrow> Err ScopePanic
                   | Some organizationNamespace \<Rightarrow>
                       if label labels TenantOrganizationIDLabel \<noteq> organizationNamespace
                       then Err InvalidOrganisationIdentity
                       else Ok organizationNamespace))))"

record Selection =
  sel_scope :: ResourceScope
  sel_kind :: OrganizationResourceKind
  sel_name :: string

definition SelectedNamespace ::
  "('a) scope_reader_scheme \<Rightarrow> string \<Rightarrow> Selection \<Rightarrow> (scope_error, string) result" where
  "SelectedNamespace c current selection =
     (case Namespace c current (sel_scope selection) of
        Inl e \<Rightarrow> Err e
      | Inr ns \<Rightarrow>
          if sel_scope selection = ResourceScopeWorkspace \<or> ns = current then Ok ns
          else
            (case getWorkspace c current of
               Inl e \<Rightarrow> Err (GetWorkspaceSelection e)
             | Inr workspace \<Rightarrow>
                 if sel_name selection \<notin> set (Names (ws_selected workspace) (sel_kind selection))
                 then Err (NotSelected (sel_name selection))
                 else Ok ns))"

subsection \<open>Lemmas\<close>

lemma ScopeNamespace_org: "ScopeNamespace ResourceScopeOrganisation i = Some ns \<Longrightarrow> HasPrefix ns ''org-'' \<and> length ns = 36"
  by (auto simp: ScopeNamespace_def Let_def HasPrefix_def)

lemma ScopeNamespace_ws: "ScopeNamespace ResourceScopeWorkspace i = Some ns \<Longrightarrow> HasPrefix ns ''ws-'' \<and> length ns = 35"
  by (auto simp: ScopeNamespace_def Let_def HasPrefix_def ResourceScopeOrganisation_def ResourceScopeWorkspace_def)

lemma ScopeNamespace_defined: "ScopeNamespace ResourceScopeOrganisation i \<noteq> None"
  by (simp add: ScopeNamespace_def)

lemma scopes_differ [simp]: "ResourceScopeWorkspace \<noteq> ResourceScopeOrganisation"
  "ResourceScopeOrganisation \<noteq> ResourceScopeWorkspace"
  by (simp_all add: ResourceScopeOrganisation_def ResourceScopeWorkspace_def)

lemma Equal_iff: "Equal s t \<longleftrightarrow> s = t"
  by (auto simp: Equal_def)

lemma Names_Set: "Names (Set_names s kind names) kind' =
    (if kind = kind' \<and> (\<forall>x. kind \<noteq> KindOther x) then names else Names s kind')"
  by (cases kind; cases kind') (auto simp: Names_def Set_names_def)

text \<open>Where a resolution succeeds: in the namespace itself, or in the Organisation namespace
  named by both the namespace's label and its Workspace.\<close>

lemma Namespace_Ok:
  assumes "Namespace c current scope = Ok ns"
  obtains (here) labels where "getNamespace c current = Ok labels" "ns = current"
    "scope = ResourceScopeOrganisation \<and> label labels WorkspaceNameLabel = [] \<and> label labels TenantNameLabel = current
     \<or> scope = ResourceScopeWorkspace \<and> label labels WorkspaceNameLabel = current \<and> current \<noteq> []"
  | (organisation) labels workspace where "getNamespace c current = Ok labels" "scope = ResourceScopeOrganisation"
    "label labels WorkspaceNameLabel = current" "getWorkspace c current = Ok workspace"
    "ScopeNamespace ResourceScopeOrganisation (ws_organizationID workspace) = Some ns"
    "label labels TenantOrganizationIDLabel = ns"
  using assms by (auto simp: Namespace_def Let_def split: sum.splits if_splits option.splits)

lemma SelectedNamespace_Ok:
  assumes "SelectedNamespace c current sel = Ok ns"
  shows "Namespace c current (sel_scope sel) = Ok ns"
    and "ns \<noteq> current \<Longrightarrow> sel_scope sel \<noteq> ResourceScopeWorkspace \<Longrightarrow>
      \<exists>workspace. getWorkspace c current = Ok workspace \<and> sel_name sel \<in> set (Names (ws_selected workspace) (sel_kind sel))"
  using assms by (auto simp: SelectedNamespace_def split: sum.splits if_splits)

text \<open>The labels the tenant and workspace controllers maintain: an Organisation namespace names
  itself as its Organisation.\<close>

definition organisations_labelled :: "('a) scope_reader_scheme \<Rightarrow> bool" where
  "organisations_labelled c \<longleftrightarrow>
     (\<forall>n labels i. getNamespace c n = Ok labels \<and> ScopeNamespace ResourceScopeOrganisation i = Some n \<longrightarrow>
        label labels TenantOrganizationIDLabel = n)"

text \<open>C4. A scoped reference never leaves its Organisation and never reaches an Organisation resource
  that was not selected: when it resolves, the namespace found carries the Organisation label of
  the namespace the reference is written in, and if it is another namespace then the reference
  has Organisation scope, the current namespace is a Workspace of that Organisation and its
  Workspace object selects the named resource.\<close>

theorem reference_stays_in_organisation:
  assumes "organisations_labelled c" "SelectedNamespace c current sel = Ok ns"
    and "getNamespace c current = Ok here" "getNamespace c ns = Ok there"
  shows "label there TenantOrganizationIDLabel = label here TenantOrganizationIDLabel \<and>
    (ns = current \<or>
     (\<exists>workspace. sel_scope sel = ResourceScopeOrganisation \<and> getWorkspace c current = Ok workspace
        \<and> ScopeNamespace ResourceScopeOrganisation (ws_organizationID workspace) = Some ns
        \<and> sel_name sel \<in> set (Names (ws_selected workspace) (sel_kind sel))))"
proof -
  note sel = SelectedNamespace_Ok [OF assms(2)]
  from sel(1) show ?thesis
  proof (cases rule: Namespace_Ok)
    case (here labels)
    then show ?thesis using assms(3,4) by simp
  next
    case (organisation labels workspace)
    then have "label there TenantOrganizationIDLabel = ns"
      using assms(1,4) by (auto simp: organisations_labelled_def)
    moreover have "ns = current \<or> sel_name sel \<in> set (Names (ws_selected workspace) (sel_kind sel))"
      using sel(2) organisation by auto
    ultimately show ?thesis using organisation assms(3) by auto
  qed
qed

definition no_selection :: SelectedOrganizationResources where
  "no_selection = \<lparr>GuardrailConnections = [], GuardrailPolicies = [], Skills = [], Sandboxes = [],
     MCPConnections = [], InferenceProviders = []\<rparr>"

text \<open>A cluster with the Organisation \<open>o\<close> and one Workspace in it that selects the sandbox \<open>base\<close>.\<close>

definition sample_org :: string where
  "sample_org = the (ScopeNamespace ResourceScopeOrganisation ''o'')"

definition sample_workspace :: Workspace where
  "sample_workspace = \<lparr>ws_name = ''w'', ws_type = ''general'', ws_workspaceID = ''w1'', ws_organizationID = ''o'',
     ws_provisioningAttempt = 1, ws_selected = no_selection\<lparr>Sandboxes := [''base'']\<rparr>\<rparr>"

definition sample_namespaces :: "string \<Rightarrow> (get_error, label_map) result" where
  "sample_namespaces n =
     (if n = ''w'' then Ok [WorkspaceNameLabel \<mapsto> ''w'', TenantOrganizationIDLabel \<mapsto> sample_org]
      else if n = sample_org then Ok [TenantNameLabel \<mapsto> n, TenantOrganizationIDLabel \<mapsto> n]
      else Err GNotFound)"

definition sample_workspaces :: "string \<Rightarrow> (get_error, Workspace) result" where
  "sample_workspaces n = (if n = ''w'' then Ok sample_workspace else Err GNotFound)"

definition sample_cluster :: scope_reader where
  "sample_cluster = \<lparr>getNamespace = sample_namespaces, getWorkspace = sample_workspaces\<rparr>"

lemma sample_org: "ScopeNamespace ResourceScopeOrganisation ''o'' = Some sample_org"
  using ScopeNamespace_defined [of "''o''"] by (auto simp: sample_org_def)

lemma org_not_w: "ScopeNamespace ResourceScopeOrganisation i \<noteq> Some ''w''"
  using ScopeNamespace_org [of i "''w''"] by auto

lemma sample_org_name: "sample_org \<noteq> ''w''" "sample_org \<noteq> []"
  using sample_org org_not_w [of "''o''"] ScopeNamespace_org [of "''o''" "[]"] by auto

lemma labels_distinct [simp]: "WorkspaceNameLabel \<noteq> TenantOrganizationIDLabel" "TenantOrganizationIDLabel \<noteq> WorkspaceNameLabel"
  "WorkspaceNameLabel \<noteq> TenantNameLabel" "TenantNameLabel \<noteq> WorkspaceNameLabel"
  "TenantNameLabel \<noteq> TenantOrganizationIDLabel" "TenantOrganizationIDLabel \<noteq> TenantNameLabel"
  by (simp_all add: WorkspaceNameLabel_def TenantOrganizationIDLabel_def TenantNameLabel_def)

lemma sample_labelled: "getNamespace c = sample_namespaces \<Longrightarrow> organisations_labelled c"
  by (auto simp: organisations_labelled_def sample_namespaces_def label_def org_not_w split: if_splits)

lemma sample_selected:
  assumes "getNamespace c = sample_namespaces" "getWorkspace c = sample_workspaces"
  shows "SelectedNamespace c ''w'' \<lparr>sel_scope = ResourceScopeOrganisation, sel_kind = KindSandbox, sel_name = ''base''\<rparr> = Ok sample_org"
  using assms sample_org sample_org_name
  by (simp add: SelectedNamespace_def Namespace_def sample_namespaces_def sample_workspaces_def sample_workspace_def
      label_def Names_def no_selection_def)

theorem reference_stays_in_organisation_witness:
  "label [WorkspaceNameLabel \<mapsto> ''w'', TenantOrganizationIDLabel \<mapsto> sample_org] TenantOrganizationIDLabel
   = label [TenantNameLabel \<mapsto> sample_org, TenantOrganizationIDLabel \<mapsto> sample_org] TenantOrganizationIDLabel"
proof -
  have "getNamespace sample_cluster = sample_namespaces" "getWorkspace sample_cluster = sample_workspaces"
    by (simp_all add: sample_cluster_def)
  note s = sample_labelled [OF this(1)] sample_selected [OF this] this(1)
  have "getNamespace sample_cluster ''w'' = Ok [WorkspaceNameLabel \<mapsto> ''w'', TenantOrganizationIDLabel \<mapsto> sample_org]"
    "getNamespace sample_cluster sample_org = Ok [TenantNameLabel \<mapsto> sample_org, TenantOrganizationIDLabel \<mapsto> sample_org]"
    using sample_org_name by (simp_all add: s(3) sample_namespaces_def)
  from reference_stays_in_organisation [OF s(1,2) this] show ?thesis by simp
qed

end
