(* ===== verification/SkillRefs.thy ===== *)
theory SkillRefs
  imports Scope
begin

section \<open>Skill references\<close>

text \<open>
  The check of skill references that the Agent and Sandbox webhooks share
  (\<open>internal/skill/references.go\<close>). A \<open>Get\<close> of an object of which only its deletion matters
  answers whether the deletion timestamp is set. Error values of a scope resolution are printed
  where the code puts \<open>err.Error()\<close> into a field error.
\<close>

record skill_reader = scope_reader +
  getSkill :: "string \<Rightarrow> string \<Rightarrow> (get_error, bool) result"

definition get_error_text :: "get_error \<Rightarrow> string" where
  "get_error_text e = (case e of GNotFound \<Rightarrow> ''not found'' | GFailed m \<Rightarrow> m)"

definition scope_error_text :: "scope_error \<Rightarrow> string" where
  "scope_error_text e = (case e of
      GetCurrentNamespace g \<Rightarrow> ''get current namespace: '' @ get_error_text g
    | NoScopeIdentity \<Rightarrow> ''current namespace has no AgentZ scope identity''
    | OrganisationCannotResolveWorkspace \<Rightarrow> ''organisation namespaces cannot resolve workspace resources''
    | InvalidWorkspaceIdentity \<Rightarrow> ''current namespace has an invalid Workspace identity''
    | InvalidScope \<Rightarrow> ''resource scope is invalid''
    | GetWorkspaceIdentity g \<Rightarrow> ''get current Workspace identity: '' @ get_error_text g
    | InvalidOrganisationIdentity \<Rightarrow> ''current namespace has an invalid Organisation identity''
    | GetWorkspaceSelection g \<Rightarrow> ''get Workspace selection: '' @ get_error_text g
    | NotSelected n \<Rightarrow> ''organisation resource '' @ n @ '' is not selected by Workspace''
    | ScopePanic \<Rightarrow> [])"

definition skill_issues :: "('a) skill_reader_scheme \<Rightarrow> string \<Rightarrow> nat \<Rightarrow> ResourceReference \<Rightarrow> field_errors" where
  "skill_issues reader namespace i ref =
     (let path = Index [PName ''spec'', PName ''skills''] i in
      case SelectedNamespace reader namespace
             \<lparr>sel_scope = ref_scope ref, sel_kind = KindSkill, sel_name = ref_name ref\<rparr> of
        Inl e \<Rightarrow> [FInvalid (Child path ''scope'') (BStr (ref_scope ref)) (scope_error_text e)]
      | Inr ns \<Rightarrow>
          (case getSkill reader ns (ref_name ref) of
             Inl GNotFound \<Rightarrow> [FNotFound (Child path ''name'') (BStr (ref_name ref))]
           | Inl (GFailed _) \<Rightarrow> [FInternal (Child path ''name'')]
           | Inr deleting \<Rightarrow>
               issue deleting (FForbidden (Child path ''name'') (''skill '' @ ref_name ref @ '' is being deleted''))))"

definition ValidateReferences ::
  "('a) skill_reader_scheme \<Rightarrow> string \<Rightarrow> ResourceReference list \<Rightarrow> field_errors" where
  "ValidateReferences reader namespace refs = concat_index 0 (skill_issues reader namespace) refs"

text \<open>A reference that a client may use: it resolves and the object found is not being deleted.\<close>

definition live_reference ::
  "('a) scope_reader_scheme \<Rightarrow> (string \<Rightarrow> string \<Rightarrow> (get_error, bool) result) \<Rightarrow> OrganizationResourceKind \<Rightarrow>
     string \<Rightarrow> ResourceReference \<Rightarrow> bool" where
  "live_reference reader get kind namespace ref \<longleftrightarrow>
     (\<exists>ns. SelectedNamespace reader namespace \<lparr>sel_scope = ref_scope ref, sel_kind = kind, sel_name = ref_name ref\<rparr> = Ok ns
        \<and> get ns (ref_name ref) = Ok False)"

lemma skill_issues_Nil:
  "skill_issues reader namespace i ref = [] \<longleftrightarrow> live_reference reader (getSkill reader) KindSkill namespace ref"
  by (auto simp: skill_issues_def live_reference_def Let_def split: sum.splits get_error.splits)

lemma ValidateReferences_Nil:
  "ValidateReferences reader namespace refs = [] \<longleftrightarrow>
     list_all (live_reference reader (getSkill reader) KindSkill namespace) refs"
  by (simp add: ValidateReferences_def concat_index_Nil skill_issues_Nil list_all_length)

end
