(* ===== verification/Text.thy ===== *)
theory Text
  imports Prelude
begin

section \<open>UTF-8, JSON strings and slash paths\<close>

text \<open>
  What the validators use of \<open>unicode/utf8\<close>, \<open>encoding/json\<close> and \<open>path\<close>: the width of the
  encoding at the head of a byte string (none where Go decodes \<open>RuneError\<close> of width one), rune
  counts and validity, the quoted form of a string in \<open>json.Marshal\<close>, and the base name and
  extension of a slash-separated path.
\<close>

definition in_bytes :: "nat \<Rightarrow> nat \<Rightarrow> string \<Rightarrow> nat \<Rightarrow> bool" where
  "in_bytes lo hi s i \<longleftrightarrow> i < length s \<and> in_range lo hi (s ! i)"

definition rune_width :: "string \<Rightarrow> nat option" where
  "rune_width s = (case s of
      [] \<Rightarrow> None
    | c # _ \<Rightarrow> (let b = byte c; cont = in_bytes 128 191 s in
        if b < 128 then Some 1
        else if 194 \<le> b \<and> b \<le> 223 \<and> cont 1 then Some 2
        else if 224 \<le> b \<and> b \<le> 239
          \<and> in_bytes (if b = 224 then 160 else 128) (if b = 237 then 159 else 191) s 1 \<and> cont 2 then Some 3
        else if 240 \<le> b \<and> b \<le> 244
          \<and> in_bytes (if b = 240 then 144 else 128) (if b = 244 then 143 else 191) s 1 \<and> cont 2 \<and> cont 3 then Some 4
        else None))"

lemma rune_width_bounds: "rune_width s = Some n \<Longrightarrow> 0 < n \<and> n \<le> length s"
  by (auto simp: rune_width_def Let_def in_bytes_def Suc_le_eq split: list.splits if_splits)

text \<open>The runes of a string: the bytes of a valid encoding, or a single invalid byte.\<close>

function runes :: "string \<Rightarrow> (string \<times> bool) list" where
  "runes s = (if s = [] then [] else
     case rune_width s of
       None \<Rightarrow> (take 1 s, False) # runes (drop 1 s)
     | Some n \<Rightarrow> (take n s, True) # runes (drop n s))"
  by pat_completeness auto

termination
  by (relation "measure length") (auto dest: rune_width_bounds)

declare runes.simps [simp del]

definition RuneCountInString :: "string \<Rightarrow> nat" where
  "RuneCountInString s = length (runes s)"

definition ValidString :: "string \<Rightarrow> bool" where
  "ValidString s \<longleftrightarrow> list_all snd (runes s)"

lemma concat_runes: "concat (map fst (runes s)) = s"
proof (induction s rule: runes.induct)
  case (1 s)
  show ?case
  proof (cases "s = []")
    case True
    then show ?thesis by (simp add: runes.simps)
  next
    case False
    then show ?thesis
      using 1 by (subst runes.simps) (auto split: option.splits simp del: take_Suc)
  qed
qed

lemma RuneCount_le: "RuneCountInString s \<le> length s"
proof -
  have "length (runes s) \<le> length s"
  proof (induction s rule: runes.induct)
    case (1 s)
    show ?case
    proof (cases "s = []")
      case True
      then show ?thesis by (simp add: runes.simps)
    next
      case False
      show ?thesis
      proof (cases "rune_width s")
        case None
        have "length (runes (drop 1 s)) \<le> length s - 1" using 1(1) [OF False None] by simp
        then show ?thesis using False None by (subst runes.simps) (cases s; simp)
      next
        case (Some n)
        then show ?thesis
          using False 1(2) [OF False Some] rune_width_bounds [OF Some] by (subst runes.simps) auto
      qed
    qed
  qed
  then show ?thesis by (simp add: RuneCountInString_def)
qed

lemma runes_ascii: "list_all is_ascii s \<Longrightarrow> runes s = map (\<lambda>c. ([c], True)) s"
proof (induction s)
  case Nil
  then show ?case by (simp add: runes.simps)
next
  case (Cons c cs)
  then show ?case by (subst runes.simps) (simp add: rune_width_def)
qed

lemma ascii_text: "list_all is_ascii s \<Longrightarrow> ValidString s \<and> RuneCountInString s = length s"
  by (simp add: ValidString_def RuneCountInString_def runes_ascii list_all_iff)

text \<open>A string in \<open>json.Marshal\<close>'s output, with its HTML-safe escapes.\<close>

definition json_hex4 :: "nat \<Rightarrow> string" where
  "json_hex4 n = [CHR 0x5C, CHR ''u''] @ map (\<lambda>i. digit_char (n div 16 ^ (3 - i) mod 16)) [0..<4]"

definition json_rune :: "string \<times> bool \<Rightarrow> string" where
  "json_rune r =
     (if \<not> snd r then json_hex4 0xfffd
      else case fst r of
        [c] \<Rightarrow>
          (if c = CHR 0x22 \<or> c = CHR 0x5C then [CHR 0x5C, c]
           else if byte c = 8 then [CHR 0x5C, CHR ''b'']
           else if byte c = 12 then [CHR 0x5C, CHR ''f'']
           else if byte c = 10 then [CHR 0x5C, CHR ''n'']
           else if byte c = 13 then [CHR 0x5C, CHR ''r'']
           else if byte c = 9 then [CHR 0x5C, CHR ''t'']
           else if byte c < 32 \<or> c \<in> {CHR ''<'', CHR ''>'', CHR ''&''} then json_hex4 (byte c)
           else [c])
      | bs \<Rightarrow>
          (if bs = map char_of [226::nat, 128, 168] then json_hex4 0x2028
           else if bs = map char_of [226::nat, 128, 169] then json_hex4 0x2029
           else bs))"

definition json_string :: "string \<Rightarrow> string" where
  "json_string s = [CHR 0x22] @ concat (map json_rune (runes s)) @ [CHR 0x22]"

definition json_bool :: "bool \<Rightarrow> string" where
  "json_bool b = (if b then ''true'' else ''false'')"

definition json_object :: "(string \<times> string) list \<Rightarrow> string" where
  "json_object fs = ''{'' @ Join '','' (map (\<lambda>(k, v). json_string k @ '':'' @ v) fs) @ ''}''"

definition json_array :: "string list \<Rightarrow> string" where
  "json_array vs = ''['' @ Join '','' vs @ '']''"

text \<open>Package \<open>path\<close>.\<close>

definition slash :: char where
  "slash = CHR ''/''"

definition path_base :: "string \<Rightarrow> string" where
  "path_base p =
     (if p = [] then ''.''
      else let q = rev (dropWhile (\<lambda>c. c = slash) (rev p));
               b = rev (takeWhile (\<lambda>c. c \<noteq> slash) (rev q))
           in if b = [] then ''/'' else b)"

definition path_ext :: "string \<Rightarrow> string" where
  "path_ext p =
     (let tail = takeWhile (\<lambda>c. c \<noteq> slash \<and> c \<noteq> CHR ''.'') (rev p);
          rest = dropWhile (\<lambda>c. c \<noteq> slash \<and> c \<noteq> CHR ''.'') (rev p)
      in case rest of c # _ \<Rightarrow> if c = CHR ''.'' then CHR ''.'' # rev tail else [] | [] \<Rightarrow> [])"

lemma path_base_plain: "path_base p = p \<Longrightarrow> p \<noteq> ''/'' \<Longrightarrow> slash \<notin> set p"
proof -
  assume b: "path_base p = p" and n: "p \<noteq> ''/''"
  then consider "p = []" | "p = ''.''"
    | q where "p = rev (takeWhile (\<lambda>c. c \<noteq> slash) q)"
    by (auto simp: path_base_def Let_def split: if_splits) metis
  then show ?thesis
  proof cases
    case 3
    then show ?thesis by (auto dest: set_takeWhileD)
  qed (auto simp: slash_def)
qed

lemma path_ext_suffix: "path_ext p \<noteq> [] \<Longrightarrow> HasSuffix p (path_ext p)"
proof -
  let ?P = "\<lambda>c. c \<noteq> slash \<and> c \<noteq> CHR ''.''"
  assume "path_ext p \<noteq> []"
  then obtain rest where r: "dropWhile ?P (rev p) = CHR ''.'' # rest" "path_ext p = CHR ''.'' # rev (takeWhile ?P (rev p))"
    by (auto simp: path_ext_def Let_def split: list.splits if_splits)
  have "rev p = takeWhile ?P (rev p) @ CHR ''.'' # rest"
    using takeWhile_dropWhile_id [of ?P "rev p"] r(1) by simp
  then have "p = rev rest @ path_ext p"
    by (metis append.assoc append_Cons append_Nil r(2) rev.simps(2) rev_append rev_rev_ident)
  then show ?thesis by (auto simp: HasSuffix_iff)
qed

end
