(* ===== verification/ToolValidate.thy ===== *)
theory ToolValidate
  imports Text
begin

section \<open>Uploaded tool definitions\<close>

text \<open>
  Package \<open>internal/tool\<close>: the checks that gateway and admission webhook apply to the scripts an
  Agent registers as tools. The nil slice of inputs, which the code rejects, is \<open>None\<close>. The
  argument \<open>uni\<close> is the Unicode case table behind \<open>strings.ToLower\<close>.
\<close>

record ToolInput =
  in_name :: string
  in_description :: string
  in_type :: string
  in_required :: bool

record AgentTool =
  tool_name :: string
  tool_description :: string
  tool_language :: string
  tool_filename :: string
  tool_script :: string
  tool_inputs :: "ToolInput list option"

definition name_char :: "char \<Rightarrow> bool" where
  "name_char c \<longleftrightarrow> is_lower c \<or> is_digit c \<or> c = CHR ''_''"

text \<open>The pattern \<open>^[a-z][a-z0-9_]{0,63}$\<close>.\<close>

definition namePattern :: "string \<Rightarrow> bool" where
  "namePattern s = (case s of [] \<Rightarrow> False | c # cs \<Rightarrow> is_lower c \<and> length cs \<le> 63 \<and> list_all name_char cs)"

definition reserved_tools :: "string list" where
  "reserved_tools =
    [''report_progress'',
     ''bash'', ''shell'', ''read'', ''write'', ''edit'', ''glob'', ''grep'', ''task'',
     ''webfetch'', ''websearch'', ''todowrite'', ''question'', ''lsp'', ''apply_patch'',
     ''plan_enter'', ''plan_exit'', ''invalid'', ''execute'', ''skill'', ''list_skills'',
     ''analyze_file'', ''memory'', ''journal'', ''create_workflow'', ''get_workflow'',
     ''list_workflows'', ''delete_workflows'', ''create_workflow_schedule'',
     ''update_workflow_schedule'', ''delete_workflow_schedule'',
     ''list_workflow_schedules'', ''set_workflowrun_status'', ''create_dashboard'',
     ''get_dashboard'', ''list_dashboards'', ''delete_dashboard'', ''publish_dashboard_data'',
     ''list_mcp_resources'', ''list_mcp_resource_templates'', ''read_mcp_resource'']"

definition input_types :: "string list" where
  "input_types = [''string'', ''number'', ''integer'', ''boolean'', ''json'']"

definition tool_languages :: "string list" where
  "tool_languages = [''bash'', ''python'', ''node'']"

definition marshal_input :: "ToolInput \<Rightarrow> string" where
  "marshal_input i = json_object [(''name'', json_string (in_name i)), (''description'', json_string (in_description i)),
     (''type'', json_string (in_type i)), (''required'', json_bool (in_required i))]"

definition marshal_tool :: "AgentTool \<Rightarrow> string" where
  "marshal_tool t = json_object [(''name'', json_string (tool_name t)),
     (''description'', json_string (tool_description t)), (''language'', json_string (tool_language t)),
     (''filename'', json_string (tool_filename t)), (''script'', json_string (tool_script t)),
     (''inputs'', case tool_inputs t of None \<Rightarrow> ''null'' | Some is \<Rightarrow> json_array (map marshal_input is))]"

definition invalidName :: string where
  "invalidName = ''use at most 64 lowercase letters, digits or underscores, starting with a letter''"

definition language_ext :: "string \<Rightarrow> string option" where
  "language_ext l =
     (if l = ''bash'' then Some ''.sh'' else if l = ''python'' then Some ''.py''
      else if l = ''node'' then Some ''.js'' else None)"

definition badFile :: "(string \<Rightarrow> string) \<Rightarrow> string \<Rightarrow> string \<Rightarrow> bool" where
  "badFile uni filename ext \<longleftrightarrow>
     filename = [] \<or> length filename > 255 \<or> path_base filename \<noteq> filename
     \<or> ContainsAny filename [CHR 0x5C, CHR 0x00, CHR 0x0D, CHR 0x0A]
     \<or> ToLower uni (path_ext filename) \<noteq> ext"

definition invalidScript :: "string \<Rightarrow> bool" where
  "invalidScript s \<longleftrightarrow> \<not> ValidString s \<or> CHR 0x00 \<in> set s \<or> TrimSpace s = []"

definition input_issues :: "field_path \<Rightarrow> string list \<Rightarrow> ToolInput \<Rightarrow> field_errors" where
  "input_issues ip seen i =
     issue (\<not> namePattern (in_name i)) (FInvalid (Child ip ''name'') (BStr (in_name i)) invalidName)
     @ issue (in_name i \<in> set seen) (FDuplicate (Child ip ''name'') (BStr (in_name i)))
     @ issue (RuneCountInString (in_description i) > 1024) (FTooLong (Child ip ''description'') 1024)
     @ issue (in_type i \<notin> set input_types) (FNotSupported (Child ip ''type'') (BStr (in_type i)) input_types)"

fun inputs_loop :: "field_path \<Rightarrow> nat \<Rightarrow> string list \<Rightarrow> ToolInput list \<Rightarrow> field_errors" where
  "inputs_loop p j seen [] = []"
| "inputs_loop p j seen (i # is) = input_issues (Index p j) seen i @ inputs_loop p (Suc j) (in_name i # seen) is"

definition tool_issues :: "(string \<Rightarrow> string) \<Rightarrow> field_path \<Rightarrow> string list \<Rightarrow> AgentTool \<Rightarrow> field_errors" where
  "tool_issues uni at seen t =
     (let inputs = (case tool_inputs t of None \<Rightarrow> [] | Some is \<Rightarrow> is);
          ext = (case language_ext (tool_language t) of None \<Rightarrow> [] | Some e \<Rightarrow> e)
      in issue (\<not> namePattern (tool_name t)) (FInvalid (Child at ''name'') (BStr (tool_name t)) invalidName)
       @ issue (tool_name t \<in> set seen) (FDuplicate (Child at ''name'') (BStr (tool_name t)))
       @ issue (tool_name t \<in> set reserved_tools \<or> HasPrefix (tool_name t) ''gateway_'')
           (FForbidden (Child at ''name'') ''reserved runtime tool name'')
       @ issue (TrimSpace (tool_description t) = [] \<or> RuneCountInString (tool_description t) > 4096)
           (FInvalid (Child at ''description'') (BStr []) ''provide a description of at most 4096 characters'')
       @ issue (language_ext (tool_language t) = None)
           (FNotSupported (Child at ''language'') (BStr (tool_language t)) tool_languages)
       @ issue (badFile uni (tool_filename t) ext)
           (FInvalid (Child at ''filename'') (BStr (tool_filename t))
              ''upload a .sh, .py or .js filename matching the language'')
       @ issue (invalidScript (tool_script t))
           (FInvalid (Child at ''script'') (BStr []) ''upload a nonempty UTF-8 script without NUL bytes'')
       @ issue (length (tool_script t) > 64 * 1024)
           (FForbidden (Child at ''script'') ''script must not exceed 64 KiB'')
       @ issue (tool_inputs t = None)
           (FRequired (Child at ''inputs'') ''provide an array; use an empty array for tools without inputs'')
       @ issue (length inputs > 32) (FTooMany (Child at ''inputs'') (length inputs) 32)
       @ inputs_loop (Child at ''inputs'') 0 [] inputs)"

fun tools_loop :: "(string \<Rightarrow> string) \<Rightarrow> field_path \<Rightarrow> nat \<Rightarrow> string list \<Rightarrow> AgentTool list \<Rightarrow> field_errors" where
  "tools_loop uni p i seen [] = []"
| "tools_loop uni p i seen (t # ts) =
     tool_issues uni (Index p i) seen t @ tools_loop uni p (Suc i) (tool_name t # seen) ts"

definition Validate_tools :: "(string \<Rightarrow> string) \<Rightarrow> AgentTool list \<Rightarrow> field_path \<Rightarrow> field_errors" where
  "Validate_tools uni tools p =
     issue (length tools > 32) (FTooMany p (length tools) 32)
     @ issue (length (json_array (map marshal_tool tools)) > 256 * 1024)
         (FForbidden p ''combined tool definitions must not exceed 256 KiB'')
     @ tools_loop uni p 0 [] tools"

subsection \<open>Lemmas\<close>

definition input_valid :: "ToolInput \<Rightarrow> bool" where
  "input_valid i \<longleftrightarrow> namePattern (in_name i) \<and> RuneCountInString (in_description i) \<le> 1024
     \<and> in_type i \<in> set input_types"

interpretation inputs: seen_loop "inputs_loop p" "\<lambda>j. input_issues (Index p j)" in_name input_valid for p
  by unfold_locales (auto simp: input_issues_def input_valid_def)

text \<open>What one accepted definition satisfies, names aside.\<close>

definition tool_valid :: "(string \<Rightarrow> string) \<Rightarrow> AgentTool \<Rightarrow> bool" where
  "tool_valid uni t \<longleftrightarrow>
     namePattern (tool_name t) \<and> tool_name t \<notin> set reserved_tools \<and> \<not> HasPrefix (tool_name t) ''gateway_''
     \<and> TrimSpace (tool_description t) \<noteq> [] \<and> RuneCountInString (tool_description t) \<le> 4096
     \<and> (\<exists>ext. language_ext (tool_language t) = Some ext \<and> \<not> badFile uni (tool_filename t) ext)
     \<and> \<not> invalidScript (tool_script t) \<and> length (tool_script t) \<le> 64 * 1024
     \<and> (\<exists>is. tool_inputs t = Some is \<and> length is \<le> 32 \<and> list_all input_valid is \<and> distinct (map in_name is))"

lemma tool_issues_Nil: "tool_issues uni p seen t = [] \<longleftrightarrow> tool_valid uni t \<and> tool_name t \<notin> set seen"
  by (cases "tool_inputs t"; cases "language_ext (tool_language t)")
     (auto simp: tool_issues_def tool_valid_def Let_def inputs.loop_silent_start not_less)

interpretation tools: seen_loop "tools_loop uni p" "\<lambda>i. tool_issues uni (Index p i)" tool_name "tool_valid uni" for uni p
  by unfold_locales (auto simp: tool_issues_Nil)

lemma language_ext_nonempty: "language_ext l = Some ext \<Longrightarrow> ext \<noteq> []"
  by (auto simp: language_ext_def split: if_splits)

lemma good_file_plain:
  assumes "\<not> badFile uni f ext" "ext \<noteq> []"
  shows "slash \<notin> set f" "CHR 0x00 \<notin> set f" "f \<noteq> []" "length f \<le> 255"
proof -
  have "f \<noteq> ''/''"
  proof
    assume "f = ''/''"
    then have "path_ext f = []" by (simp add: path_ext_def slash_def)
    then show False using assms by (simp add: badFile_def ToLower_def)
  qed
  then show "slash \<notin> set f" using assms path_base_plain by (auto simp: badFile_def)
  show "CHR 0x00 \<notin> set f" "f \<noteq> []" "length f \<le> 255" using assms(1) by (auto simp: badFile_def)
qed

lemma Validate_tools_Nil:
  "Validate_tools uni tools p = [] \<longleftrightarrow>
     length tools \<le> 32 \<and> length (json_array (map marshal_tool tools)) \<le> 256 * 1024
     \<and> distinct (map tool_name tools) \<and> list_all (tool_valid uni) tools"
  by (auto simp: Validate_tools_def tools.loop_silent_start not_less)

text \<open>C34. Accepted tool definitions can be registered safely beside the runtime's own tools: there are
  at most 32 of them with pairwise different names, no name is a reserved runtime name or starts
  like a gateway tool, every upload name is a plain file name without slash or NUL and with the
  extension of its interpreter, every script is valid UTF-8 without NUL of at most 64 KiB, and the
  inputs of each tool have pairwise different names.\<close>

theorem accepted_tools_safe:
  assumes "Validate_tools uni tools p = []" "t \<in> set tools"
  shows "length tools \<le> 32 \<and> distinct (map tool_name tools)
    \<and> namePattern (tool_name t) \<and> tool_name t \<notin> set reserved_tools \<and> \<not> HasPrefix (tool_name t) ''gateway_''
    \<and> slash \<notin> set (tool_filename t) \<and> CHR 0x00 \<notin> set (tool_filename t)
    \<and> (\<exists>ext. language_ext (tool_language t) = Some ext \<and> ToLower uni (path_ext (tool_filename t)) = ext)
    \<and> ValidString (tool_script t) \<and> CHR 0x00 \<notin> set (tool_script t) \<and> length (tool_script t) \<le> 64 * 1024
    \<and> (\<exists>is. tool_inputs t = Some is \<and> length is \<le> 32 \<and> distinct (map in_name is))"
proof -
  have v: "length tools \<le> 32" "distinct (map tool_name tools)" "tool_valid uni t"
    using assms by (auto simp: Validate_tools_Nil list_all_iff)
  then obtain ext where e: "language_ext (tool_language t) = Some ext" "\<not> badFile uni (tool_filename t) ext"
    by (auto simp: tool_valid_def)
  note f = good_file_plain [OF e(2) language_ext_nonempty [OF e(1)]]
  have "ToLower uni (path_ext (tool_filename t)) = ext" using e(2) by (simp add: badFile_def)
  then show ?thesis using v e(1) f(1,2) by (auto simp: tool_valid_def invalidScript_def)
qed

definition sample_tool :: AgentTool where
  "sample_tool = \<lparr>tool_name = ''lookup'', tool_description = ''Look up a record'', tool_language = ''python'',
     tool_filename = ''lookup.py'', tool_script = ''print(1)'',
     tool_inputs = Some [\<lparr>in_name = ''id'', in_description = [], in_type = ''string'', in_required = False\<rparr>]\<rparr>"

lemma sample_tool_valid: "Validate_tools (\<lambda>s. s) [sample_tool] [] = []"
  by code_simp

theorem accepted_tools_safe_witness:
  "tool_name sample_tool \<notin> set reserved_tools \<and> slash \<notin> set (tool_filename sample_tool)"
  using accepted_tools_safe [OF sample_tool_valid, of sample_tool] by simp

end
