(* ===== verification/AgentQuota.thy ===== *)
theory AgentQuota
  imports SkillRefs ToolValidate "HOL-Library.Multiset"
begin

section \<open>Agent quota accounting\<close>

text \<open>
  Package \<open>internal/agentquota\<close> with the Tenant and Agent types it reads. A count is a Go \<open>int32\<close>,
  here a \<open>32 word\<close> read by \<^const>\<open>sint\<close>, so that converting a length and subtracting counts
  wrap as in Go. A \<open>resource.Quantity\<close> of \<open>k8s.io/apimachinery\<close> is an element of any linearly
  ordered abelian group \<open>'q\<close>: \<open>Add\<close>, \<open>Sub\<close>, \<open>Cmp\<close>, \<open>Sign\<close> and the zero value are \<open>+\<close>, \<open>-\<close>,
  the order, comparison with 0, and 0. A Go map with few keys is an association list in key order.
\<close>

record 'q ComputeResources =
  cpu :: 'q
  memory :: 'q

record 'q AgentDefaults =
  def_resources :: "'q ComputeResources"
  def_qosClass :: string

record 'q AgentQuota =
  q_count :: "32 word"
  q_resources :: "'q ComputeResources"
  q_defaults :: "'q AgentDefaults"

record 'q DashboardPublishQuota =
  RequestBytes :: 'q
  RecordsPerRequest :: "32 word"
  RequestsPerMinutePerAgent :: "32 word"
  AcceptedBytesPerDay :: 'q
  TemporalRecordsPerDay :: "64 word"
  RetainedTemporalRecords :: "64 word"
  LatestBytesPerAgent :: 'q

record 'q DashboardQueryQuota =
  RequestsPerMinutePerUser :: "32 word"
  ReturnedCellsPerHour :: "64 word"
  ConcurrentRequests :: "32 word"
  CellsPerRequest :: "32 word"
  ResponseBytes :: 'q
  PointsPerSeries :: "32 word"
  Timeout :: "64 word"

record 'q DashboardQuota =
  DashboardsPerAgent :: "32 word"
  WidgetsPerDashboard :: "32 word"
  Publish :: "'q DashboardPublishQuota"
  Query :: "'q DashboardQueryQuota"

record 'q Tenant =
  tn_name :: string
  tn_organizationID :: string
  tn_agentQuota :: "'q AgentQuota option"
  tn_dashboardQuota :: "'q DashboardQuota option"

type_synonym 'q resource_list = "(string \<times> 'q) list"

record 'q ResourceRequirements =
  Limits :: "'q resource_list"
  Requests :: "'q resource_list"
  Claims :: "string list"

text \<open>An environment variable is kept as its encoded text: nothing here reads it.\<close>

record 'q AgentSpec =
  sp_autoArchiveHours :: "32 word"
  sp_createdBy :: string
  sp_lastModifiedBy :: string
  sp_appearance :: "(string \<times> string) option"
  sp_image :: string
  sp_imagePullPolicy :: string
  sp_resources :: "'q ResourceRequirements"
  sp_env :: "string list"
  sp_instruction :: string
  sp_telemetry :: "bool \<times> string"
  sp_memoryEnabled :: bool
  sp_sandboxRef :: ResourceReference
  sp_skills :: "ResourceReference list"
  sp_tools :: "AgentTool list"
  sp_nixStoreSize :: 'q

record 'q Agent =
  agt_namespace :: string
  agt_name :: string
  agt_spec :: "'q AgentSpec"

record 'q Usage =
  u_count :: "32 word"
  u_resources :: "'q ComputeResources"

record Exceeded =
  ex_count :: bool
  ex_cpu :: bool
  ex_memory :: bool

record 'q QuotaResources =
  qr_limit :: "'q ComputeResources"
  qr_allocated :: "'q ComputeResources"
  qr_available :: "'q ComputeResources"

record QuotaCount =
  qc_limit :: "32 word"
  qc_allocated :: "32 word"
  qc_available :: "32 word"

record 'q AgentQuotaStatus =
  qs_count :: QuotaCount
  qs_resources :: "'q QuotaResources"

definition PodQOSGuaranteed :: string where "PodQOSGuaranteed = ''Guaranteed''"
definition PodQOSBurstable :: string where "PodQOSBurstable = ''Burstable''"
definition PodQOSBestEffort :: string where "PodQOSBestEffort = ''BestEffort''"

lemma qos_distinct [simp]: "PodQOSGuaranteed \<noteq> PodQOSBurstable" "PodQOSGuaranteed \<noteq> PodQOSBestEffort"
  "PodQOSBurstable \<noteq> PodQOSBestEffort" "PodQOSBurstable \<noteq> PodQOSGuaranteed" "PodQOSBestEffort \<noteq> PodQOSGuaranteed"
  "PodQOSBestEffort \<noteq> PodQOSBurstable"
  by (simp_all add: PodQOSGuaranteed_def PodQOSBurstable_def PodQOSBestEffort_def)

definition resource_pair :: "'q ComputeResources \<Rightarrow> 'q resource_list" where
  "resource_pair r = [(''cpu'', cpu r), (''memory'', memory r)]"

definition Resources :: "'q AgentDefaults \<Rightarrow> 'q ResourceRequirements" where
  "Resources defaults =
     (if def_qosClass defaults = PodQOSGuaranteed then
        \<lparr>Limits = resource_pair (def_resources defaults), Requests = resource_pair (def_resources defaults), Claims = []\<rparr>
      else if def_qosClass defaults = PodQOSBurstable then
        \<lparr>Limits = [], Requests = resource_pair (def_resources defaults), Claims = []\<rparr>
      else \<lparr>Limits = [], Requests = [], Claims = []\<rparr>)"

text \<open>The request for one resource: the limit stands in for a missing request, zero for both.\<close>

definition effective :: "'q::zero ResourceRequirements \<Rightarrow> string \<Rightarrow> 'q" where
  "effective r k =
     (case map_of (Requests r) k of
        Some v \<Rightarrow> v
      | None \<Rightarrow> (case map_of (Limits r) k of Some v \<Rightarrow> v | None \<Rightarrow> 0))"

definition EffectiveRequests :: "'q::zero ResourceRequirements \<Rightarrow> 'q ComputeResources" where
  "EffectiveRequests r = \<lparr>cpu = effective r ''cpu'', memory = effective r ''memory''\<rparr>"

fun measure_loop :: "'q::monoid_add ComputeResources \<Rightarrow> 'q Agent list \<Rightarrow> 'q ComputeResources" where
  "measure_loop acc [] = acc"
| "measure_loop acc (a # as) =
     (let requests = EffectiveRequests (sp_resources (agt_spec a))
      in measure_loop \<lparr>cpu = cpu acc + cpu requests, memory = memory acc + memory requests\<rparr> as)"

definition Measure :: "'q::monoid_add Agent list \<Rightarrow> 'q Usage" where
  "Measure agents =
     \<lparr>u_count = of_nat (length agents), u_resources = measure_loop \<lparr>cpu = 0, memory = 0\<rparr> agents\<rparr>"

record 'q quota_reader = skill_reader +
  getTenant :: "string \<Rightarrow> (get_error, 'q Tenant) result"
  listNamespaces :: "string \<Rightarrow> string \<Rightarrow> (get_error, string list) result"
  listAgents :: "(get_error, 'q Agent list) result"

datatype quota_error =
    ListNamespaces get_error | ListAgents get_error
  | GetAgentNamespace get_error | NoTenantIdentity string | GetTenant string get_error

definition Agents :: "('q, 'a) quota_reader_scheme \<Rightarrow> string \<Rightarrow> (quota_error, 'q Agent list) result" where
  "Agents reader tenantName =
     (case listNamespaces reader TenantOrganizationIDLabel tenantName of
        Inl e \<Rightarrow> Err (ListNamespaces e)
      | Inr namespaces \<Rightarrow>
          (case listAgents reader of
             Inl e \<Rightarrow> Err (ListAgents e)
           | Inr allAgents \<Rightarrow> Ok (filter (\<lambda>a. agt_namespace a \<in> set namespaces) allAgents)))"

definition TenantForNamespace :: "('q, 'a) quota_reader_scheme \<Rightarrow> string \<Rightarrow> (quota_error, 'q Tenant) result" where
  "TenantForNamespace reader namespace =
     (case getNamespace reader namespace of
        Inl e \<Rightarrow> Err (GetAgentNamespace e)
      | Inr labels \<Rightarrow>
          (let tenantName = label labels TenantOrganizationIDLabel in
           if tenantName = [] then Err (NoTenantIdentity namespace)
           else (case getTenant reader tenantName of
                   Inl e \<Rightarrow> Err (GetTenant tenantName e)
                 | Inr tenant \<Rightarrow> Ok tenant)))"

definition Add :: "'q::monoid_add Usage \<Rightarrow> 'q ResourceRequirements \<Rightarrow> 'q Usage" where
  "Add u resources =
     (let requests = EffectiveRequests resources in
      \<lparr>u_count = u_count u + 1,
       u_resources = \<lparr>cpu = cpu (u_resources u) + cpu requests, memory = memory (u_resources u) + memory requests\<rparr>\<rparr>)"

definition Exceeded_quota :: "'q::linorder Usage \<Rightarrow> 'q AgentQuota \<Rightarrow> Exceeded" where
  "Exceeded_quota u quota =
     \<lparr>ex_count = (sint (u_count u) > sint (q_count quota)),
      ex_cpu = (cpu (u_resources u) > cpu (q_resources quota)),
      ex_memory = (memory (u_resources u) > memory (q_resources quota))\<rparr>"

definition max_int32 :: "32 word \<Rightarrow> 32 word \<Rightarrow> 32 word" where
  "max_int32 a b = (if sint a > sint b then a else b)"

definition available :: "'q::linordered_ab_group_add \<Rightarrow> 'q \<Rightarrow> 'q" where
  "available limit used = (let rest = limit - used in if rest < 0 then 0 else rest)"

definition Status :: "'q::linordered_ab_group_add Usage \<Rightarrow> 'q AgentQuota \<Rightarrow> 'q AgentQuotaStatus" where
  "Status u quota =
     \<lparr>qs_count = \<lparr>qc_limit = q_count quota, qc_allocated = u_count u,
         qc_available = max_int32 (q_count quota - u_count u) 0\<rparr>,
      qs_resources = \<lparr>qr_limit = q_resources quota, qr_allocated = u_resources u,
         qr_available = \<lparr>cpu = available (cpu (q_resources quota)) (cpu (u_resources u)),
           memory = available (memory (q_resources quota)) (memory (u_resources u))\<rparr>\<rparr>\<rparr>"

subsection \<open>Lemmas\<close>

lemma sum_list_acc: "(acc :: 'q::monoid_add) + sum_list (x # xs) = acc + x + sum_list xs"
  by (simp add: add.assoc)

lemma measure_loop_sum:
  "measure_loop acc as = \<lparr>cpu = cpu acc + (\<Sum>a\<leftarrow>as. effective (sp_resources (agt_spec a)) ''cpu''),
     memory = memory acc + (\<Sum>a\<leftarrow>as. effective (sp_resources (agt_spec a)) ''memory'')\<rparr>"
  by (induction as arbitrary: acc) (simp_all add: Let_def EffectiveRequests_def add.assoc)

lemma Measure_sum:
  "u_resources (Measure agents) = \<lparr>cpu = (\<Sum>a\<leftarrow>agents. effective (sp_resources (agt_spec a)) ''cpu''),
     memory = (\<Sum>a\<leftarrow>agents. effective (sp_resources (agt_spec a)) ''memory'')\<rparr>"
  by (simp add: Measure_def measure_loop_sum)

text \<open>Adding one agent to the usage is measuring it with the others.\<close>

lemma Add_Measure:
  "Add (Measure agents) (sp_resources (agt_spec a)) = Measure (a # (agents :: 'q::comm_monoid_add Agent list))"
  by (simp add: Add_def Measure_def measure_loop_sum Let_def EffectiveRequests_def ac_simps)

lemma Measure_perm:
  fixes as :: "'q::comm_monoid_add Agent list"
  assumes "mset as = mset bs"
  shows "Measure as = Measure bs"
proof -
  have "sum_list (map f as) = sum_list (map f bs)" for f :: "'q Agent \<Rightarrow> 'q"
    using assms by (metis mset_map sum_mset_sum_list)
  then show ?thesis
    using mset_eq_length [OF assms] by (simp add: Measure_def measure_loop_sum)
qed

lemma sint_of_nat32: "n < 2 ^ 31 \<Longrightarrow> sint (of_nat n :: 32 word) = int n"
  by (simp add: signed_of_nat signed_take_bit_int_eq_self)

lemma within_quota_iff:
  "Exceeded_quota (Measure agents) quota = \<lparr>ex_count = False, ex_cpu = False, ex_memory = False\<rparr> \<longleftrightarrow>
     sint (of_nat (length agents) :: 32 word) \<le> sint (q_count quota)
     \<and> cpu (u_resources (Measure agents)) \<le> cpu (q_resources quota)
     \<and> memory (u_resources (Measure agents)) \<le> memory (q_resources quota)"
  by (auto simp: Exceeded_quota_def Measure_def not_less)

lemma available_max: "available limit used = max (limit - used) 0"
  by (auto simp: available_def Let_def max_def)

lemma sint_diff32:
  fixes a b :: "32 word"
  assumes "0 \<le> sint a" "0 \<le> sint b"
  shows "sint (a - b) = sint a - sint b"
proof -
  have "sint a < 2 ^ 31" "sint b < 2 ^ 31" using sint_lt [of a] sint_lt [of b] by simp_all
  then show ?thesis
    using assms by (simp add: sint_word_ariths signed_take_bit_int_eq_self)
qed

text \<open>The reported quota status is exact: for a tenant with fewer than 2 to the 31 agents and a
  non-negative count limit, the allocated count and resources are the number of agents and the
  sums of their effective requests, the available amounts are the limit minus the allocation or
  zero, and a dimension is reported exceeded exactly when its allocation is above the limit.\<close>

lemma status_exact:
  fixes agents :: "'q::linordered_ab_group_add Agent list"
  assumes "length agents < 2 ^ 31" "0 \<le> sint (q_count quota)"
  defines "st \<equiv> Status (Measure agents) quota" and "ex \<equiv> Exceeded_quota (Measure agents) quota"
  shows "sint (qc_allocated (qs_count st)) = int (length agents)
    \<and> sint (qc_available (qs_count st)) = max (sint (q_count quota) - int (length agents)) 0
    \<and> cpu (qr_allocated (qs_resources st)) = (\<Sum>a\<leftarrow>agents. effective (sp_resources (agt_spec a)) ''cpu'')
    \<and> memory (qr_allocated (qs_resources st)) = (\<Sum>a\<leftarrow>agents. effective (sp_resources (agt_spec a)) ''memory'')
    \<and> cpu (qr_available (qs_resources st)) = max (cpu (q_resources quota) - cpu (qr_allocated (qs_resources st))) 0
    \<and> memory (qr_available (qs_resources st)) = max (memory (q_resources quota) - memory (qr_allocated (qs_resources st))) 0
    \<and> (ex_count ex \<longleftrightarrow> sint (q_count quota) < int (length agents))
    \<and> (ex_cpu ex \<longleftrightarrow> cpu (q_resources quota) < cpu (qr_allocated (qs_resources st)))
    \<and> (ex_memory ex \<longleftrightarrow> memory (q_resources quota) < memory (qr_allocated (qs_resources st)))"
proof -
  have n: "sint (of_nat (length agents) :: 32 word) = int (length agents)"
    using assms(1) by (rule sint_of_nat32)
  have c: "sint (max_int32 (q_count quota - of_nat (length agents)) 0) = max (sint (q_count quota) - int (length agents)) 0"
    using sint_diff32 [OF assms(2), of "of_nat (length agents)"] n by (simp add: max_int32_def)
  show ?thesis
    unfolding st_def ex_def Status_def Exceeded_quota_def
    by (simp add: Measure_sum available_max) (simp add: Measure_def n c)
qed

definition sample_spec :: "int AgentSpec" where
  "sample_spec = \<lparr>sp_autoArchiveHours = 0, sp_createdBy = ''u'', sp_lastModifiedBy = ''u'', sp_appearance = None,
     sp_image = ''img'', sp_imagePullPolicy = ''IfNotPresent'',
     sp_resources = \<lparr>Limits = [(''cpu'', 900), (''memory'', 4)], Requests = [(''cpu'', 500)], Claims = []\<rparr>,
     sp_env = [], sp_instruction = [], sp_telemetry = (False, []), sp_memoryEnabled = False,
     sp_sandboxRef = \<lparr>ref_scope = ResourceScopeOrganisation, ref_name = ''base''\<rparr>,
     sp_skills = [], sp_tools = [sample_tool], sp_nixStoreSize = 5\<rparr>"

definition sample_agent :: "int Agent" where
  "sample_agent = \<lparr>agt_namespace = ''w'', agt_name = ''a'', agt_spec = sample_spec\<rparr>"

definition sample_quota :: "int AgentQuota" where
  "sample_quota = \<lparr>q_count = 3, q_resources = \<lparr>cpu = 1200, memory = 8\<rparr>,
     q_defaults = \<lparr>def_resources = \<lparr>cpu = 500, memory = 2\<rparr>, def_qosClass = PodQOSBurstable\<rparr>\<rparr>"

end
