(* ===== verification/AgentWebhook.thy ===== *)
theory AgentWebhook
  imports AgentQuota
begin

section \<open>Agent admission\<close>

text \<open>
  The validating and defaulting webhooks of Agents (\<open>internal/webhook/v1alpha1/agent\<close>). A
  validator's answer is the list of field errors, empty for admission, and \<open>None\<close> where the code
  panics. The reader is optional as in the code; \<open>equality.Semantic.DeepEqual\<close> of
  \<open>k8s.io/apimachinery\<close> is the argument \<open>sem\<close>.
\<close>

record 'q agent_reader = "'q quota_reader" +
  getSandbox :: "string \<Rightarrow> string \<Rightarrow> (get_error, bool) result"

type_synonym admission = "field_errors option"

definition AgentNameMCPConnection :: string where
  "AgentNameMCPConnection = ''mcp-connection''"

definition WorkspaceTypeCoding :: string where
  "WorkspaceTypeCoding = ''coding''"

definition spec_path :: field_path where
  "spec_path = [PName ''spec'']"

text \<open>The memory check: the errors, and whether the code returns at once. \<open>None\<close> is the call of
  \<open>Get\<close> on a nil reader.\<close>

definition memory_issues :: "('q, 'a) agent_reader_scheme option \<Rightarrow> 'q Agent \<Rightarrow> (field_errors \<times> bool) option" where
  "memory_issues reader agt =
     (if \<not> sp_memoryEnabled (agt_spec agt) then Some ([], False)
      else case reader of
        None \<Rightarrow> None
      | Some r \<Rightarrow>
          (case getWorkspace r (agt_namespace agt) of
             Inl e \<Rightarrow> Some ([FInternal (Child spec_path ''memory'')], True)
           | Inr workspace \<Rightarrow>
               Some (issue (ws_type workspace = WorkspaceTypeCoding)
                 (FForbidden (Child spec_path ''memory'') ''memory is disabled in coding workspaces''), False)))"

definition sandbox_issues :: "('q, 'a) agent_reader_scheme option \<Rightarrow> 'q Agent \<Rightarrow> field_errors \<times> bool" where
  "sandbox_issues reader agt =
     (let ref = sp_sandboxRef (agt_spec agt); path = Child spec_path ''sandboxRef'' in
      case reader of
        None \<Rightarrow> ([], False)
      | Some r \<Rightarrow>
          if ref_name ref = [] then ([], False)
          else case SelectedNamespace r (agt_namespace agt)
                      \<lparr>sel_scope = ref_scope ref, sel_kind = KindSandbox, sel_name = ref_name ref\<rparr> of
            Inl e \<Rightarrow> ([FInvalid (Child path ''scope'') (BStr (ref_scope ref))
                        ''scope cannot be resolved from the Agent namespace''], True)
          | Inr namespace \<Rightarrow>
              (case getSandbox r namespace (ref_name ref) of
                 Inl GNotFound \<Rightarrow> ([FNotFound (Child path ''name'') (BStr (ref_name ref))], False)
               | Inl (GFailed _) \<Rightarrow> ([FInternal (Child path ''name'')], False)
               | Inr deleting \<Rightarrow>
                   (issue deleting (FForbidden (Child path ''name'') ''referenced sandbox is terminating''), False)))"

definition validateAgent ::
  "(string \<Rightarrow> string) \<Rightarrow> ('q, 'a) agent_reader_scheme option \<Rightarrow> 'q Agent \<Rightarrow> admission" where
  "validateAgent uni reader agt =
     (let spec = agt_spec agt; errs1 = Validate_tools uni (sp_tools spec) (Child spec_path ''tools'') in
      case memory_issues reader agt of
        None \<Rightarrow> None
      | Some (errs2, stop2) \<Rightarrow>
          if stop2 then Some (errs1 @ errs2)
          else
            (let errs3 = errs1 @ errs2
               @ issue (agt_name agt = AgentNameMCPConnection)
                   (FInvalid [PName ''metadata'', PName ''name''] (BStr (agt_name agt)) ''reserved agent name'')
               @ issue (TrimSpace (ref_name (sp_sandboxRef spec)) = [])
                   (FRequired (Child (Child spec_path ''sandboxRef'') ''name'') ''field is required'');
               (errs4, stop4) = sandbox_issues reader agt
             in if stop4 then Some (errs3 @ errs4)
                else Some (errs3 @ errs4
                  @ issue (RuneCountInString (sp_instruction spec) > 32000)
                      (FInvalid (Child spec_path ''instruction'') (BStr (sp_instruction spec))
                         ''instruction must be at most 32000 characters'')
                  @ (case reader of None \<Rightarrow> []
                     | Some r \<Rightarrow> ValidateReferences r (agt_namespace agt) (sp_skills spec)))))"

definition same_key :: "'q Agent \<Rightarrow> 'q Agent \<Rightarrow> bool" where
  "same_key a b \<longleftrightarrow> agt_namespace a = agt_namespace b \<and> agt_name a = agt_name b"

definition quota_exceeded ::
  "'q::linordered_ab_group_add Usage \<Rightarrow> 'q AgentQuota \<Rightarrow> 'q Agent option \<Rightarrow> 'q Agent \<Rightarrow> Exceeded" where
  "quota_exceeded usage quota oldAgt newAgt =
     (let prospective = Add usage (sp_resources (agt_spec newAgt));
          exceeded = Exceeded_quota prospective quota
      in case oldAgt of
           None \<Rightarrow> exceeded
         | Some old \<Rightarrow>
             (let current = Add usage (sp_resources (agt_spec old)) in
              \<lparr>ex_count = False,
               ex_cpu = (ex_cpu exceeded \<and> cpu (u_resources prospective) > cpu (u_resources current)),
               ex_memory = (ex_memory exceeded \<and> memory (u_resources prospective) > memory (u_resources current))\<rparr>))"

definition exceeded_issues :: "Exceeded \<Rightarrow> field_errors" where
  "exceeded_issues exceeded =
     (let path = Child spec_path ''resources'' in
      issue (ex_count exceeded) (FForbidden path ''Tenant Agent count quota exceeded'')
      @ issue (ex_cpu exceeded) (FForbidden (Key (Child path ''requests'') ''cpu'') ''Tenant CPU quota exceeded'')
      @ issue (ex_memory exceeded) (FForbidden (Key (Child path ''requests'') ''memory'') ''Tenant memory quota exceeded''))"

definition validateQuota ::
  "('q::linordered_ab_group_add, 'a) agent_reader_scheme option \<Rightarrow> 'q Agent option \<Rightarrow> 'q Agent \<Rightarrow> field_errors" where
  "validateQuota reader oldAgt newAgt =
     (case reader of
        None \<Rightarrow> []
      | Some r \<Rightarrow>
          (case TenantForNamespace r (agt_namespace newAgt) of
             Inl e \<Rightarrow> [FInternal (Child spec_path ''resources'')]
           | Inr tenant \<Rightarrow>
               (case tn_agentQuota tenant of
                  None \<Rightarrow> []
                | Some quota \<Rightarrow>
                    (case Agents r (tn_name tenant) of
                       Inl e \<Rightarrow> [FInternal (Child spec_path ''resources'')]
                     | Inr agents \<Rightarrow>
                         (let others = (case oldAgt of None \<Rightarrow> agents
                                        | Some old \<Rightarrow> filter (\<lambda>a. \<not> same_key a old) agents)
                          in exceeded_issues (quota_exceeded (Measure others) quota oldAgt newAgt))))))"

definition ValidateCreate ::
  "(string \<Rightarrow> string) \<Rightarrow> ('q::linordered_ab_group_add, 'a) agent_reader_scheme option \<Rightarrow> 'q Agent \<Rightarrow> admission" where
  "ValidateCreate uni reader agt =
     (case validateAgent uni reader agt of
        None \<Rightarrow> None
      | Some errs \<Rightarrow> Some (errs @ validateQuota reader None agt))"

definition ValidateUpdate ::
  "(string \<Rightarrow> string) \<Rightarrow> ('q AgentSpec \<Rightarrow> 'q AgentSpec \<Rightarrow> bool) \<Rightarrow> ('q \<Rightarrow> string) \<Rightarrow>
     ('q::linordered_ab_group_add, 'a) agent_reader_scheme option \<Rightarrow> 'q Agent \<Rightarrow> 'q Agent \<Rightarrow> admission" where
  "ValidateUpdate uni sem quantity_text reader oldAgt newAgt =
     (if sem (agt_spec oldAgt) (agt_spec newAgt) then Some []
      else case validateAgent uni reader newAgt of
        None \<Rightarrow> None
      | Some errs \<Rightarrow>
          Some (errs @ validateQuota reader (Some oldAgt) newAgt
            @ issue (sp_nixStoreSize (agt_spec oldAgt) > sp_nixStoreSize (agt_spec newAgt))
                (FInvalid (Child spec_path ''nixStoreSize'')
                   (BStr (quantity_text (sp_nixStoreSize (agt_spec newAgt)))) ''must not decrease'')))"

text \<open>Defaulting. The context holds an admission request or not; the request carries its operation and, for an update, the old object;
  \<open>None\<close> stands for an old object that does not decode. The 5Gi store size is an argument.\<close>

datatype 'q operation = Create | UpdateFrom "'q Agent option" | OtherOperation

datatype default_error = NoRequest | DecodeOld | DefaultQuota quota_error

definition set_spec :: "'q Agent \<Rightarrow> 'q AgentSpec \<Rightarrow> 'q Agent" where
  "set_spec agt spec = agt\<lparr>agt_spec := spec\<rparr>"

definition default_fields :: "string \<Rightarrow> 'q::linordered_ab_group_add \<Rightarrow> 'q AgentSpec \<Rightarrow> 'q AgentSpec" where
  "default_fields defaultImage fiveGi spec =
     (let s1 = (if sp_image spec = [] then spec\<lparr>sp_image := defaultImage\<rparr> else spec);
          s2 = (if sp_imagePullPolicy s1 = [] then s1\<lparr>sp_imagePullPolicy := ''IfNotPresent''\<rparr> else s1)
      in if sp_nixStoreSize s2 = 0 then s2\<lparr>sp_nixStoreSize := fiveGi\<rparr> else s2)"

definition resourcesSpecified :: "'q ResourceRequirements \<Rightarrow> bool" where
  "resourcesSpecified r \<longleftrightarrow> Requests r \<noteq> [] \<or> Limits r \<noteq> [] \<or> Claims r \<noteq> []"

definition Default_resources ::
  "('q::linordered_ab_group_add, 'a) quota_reader_scheme \<Rightarrow> string \<Rightarrow> 'q \<Rightarrow> bool \<Rightarrow> 'q Agent \<Rightarrow> (default_error, 'q Agent) result" where
  "Default_resources reader defaultImage fiveGi create agt =
     (let spec = default_fields defaultImage fiveGi (agt_spec agt); agt1 = set_spec agt spec in
      if \<not> create \<or> resourcesSpecified (sp_resources spec) then Ok agt1
      else case TenantForNamespace reader (agt_namespace agt) of
        Inl e \<Rightarrow> Err (DefaultQuota e)
      | Inr tenant \<Rightarrow>
          (case tn_agentQuota tenant of
             None \<Rightarrow> Ok agt1
           | Some quota \<Rightarrow> Ok (set_spec agt1 (spec\<lparr>sp_resources := Resources (q_defaults quota)\<rparr>))))"

definition Default_agent ::
  "('q AgentSpec \<Rightarrow> 'q AgentSpec \<Rightarrow> bool) \<Rightarrow> ('q::linordered_ab_group_add, 'a) quota_reader_scheme \<Rightarrow> string \<Rightarrow> 'q \<Rightarrow>
     'q operation option \<Rightarrow> 'q Agent \<Rightarrow> (default_error, 'q Agent) result" where
  "Default_agent sem reader defaultImage fiveGi request agt =
     (case request of
        None \<Rightarrow> Err NoRequest
      | Some operation \<Rightarrow> (case operation of
        UpdateFrom None \<Rightarrow> Err DecodeOld
      | UpdateFrom (Some old) \<Rightarrow>
          if sem (agt_spec old) (agt_spec agt) then Ok agt
          else Default_resources reader defaultImage fiveGi False agt
      | Create \<Rightarrow> Default_resources reader defaultImage fiveGi True agt
      | OtherOperation \<Rightarrow> Default_resources reader defaultImage fiveGi False agt))"

subsection \<open>Lemmas\<close>

lemma exceeded_issues_Nil:
  "exceeded_issues ex = [] \<longleftrightarrow> \<not> ex_count ex \<and> \<not> ex_cpu ex \<and> \<not> ex_memory ex"
  by (auto simp: exceeded_issues_def Let_def)

text \<open>What an admission guarantees, whatever else the object contains.\<close>

lemma ValidateCreate_quota: "ValidateCreate uni reader agt = Some [] \<Longrightarrow> validateQuota reader None agt = []"
  by (auto simp: ValidateCreate_def split: option.splits)

lemma ValidateUpdate_cases:
  assumes "ValidateUpdate uni sem qt reader old new = Some []"
  obtains (same) "sem (agt_spec old) (agt_spec new)"
  | (checked) "validateQuota reader (Some old) new = []" "sp_nixStoreSize (agt_spec old) \<le> sp_nixStoreSize (agt_spec new)"
  using assms by (auto simp: ValidateUpdate_def split: option.splits if_splits)

text \<open>The agents of a tenant, and the tenant's quota over them.\<close>

definition tenant_agents :: "string list \<Rightarrow> 'q Agent list \<Rightarrow> 'q Agent list" where
  "tenant_agents namespaces agents = filter (\<lambda>a. agt_namespace a \<in> set namespaces) agents"

definition within_quota :: "'q::linordered_ab_group_add AgentQuota \<Rightarrow> 'q Agent list \<Rightarrow> bool" where
  "within_quota quota agents \<longleftrightarrow>
     int (length agents) \<le> sint (q_count quota)
     \<and> cpu (u_resources (Measure agents)) \<le> cpu (q_resources quota)
     \<and> memory (u_resources (Measure agents)) \<le> memory (q_resources quota)"

definition within_count :: "'q AgentQuota \<Rightarrow> 'q Agent list \<Rightarrow> bool" where
  "within_count quota agents \<longleftrightarrow> int (length agents) \<le> sint (q_count quota)"

definition requests_nonneg :: "'q::linordered_ab_group_add Agent \<Rightarrow> bool" where
  "requests_nonneg a \<longleftrightarrow> 0 \<le> effective (sp_resources (agt_spec a)) ''cpu'' \<and> 0 \<le> effective (sp_resources (agt_spec a)) ''memory''"

definition key_of :: "'q Agent \<Rightarrow> string \<times> string" where
  "key_of a = (agt_namespace a, agt_name a)"

lemma same_key_iff: "same_key a b \<longleftrightarrow> key_of a = key_of b"
  by (auto simp: same_key_def key_of_def)

text \<open>Replacing or removing the agent with a key, as multisets.\<close>

lemma split_key:
  assumes "distinct (map key_of as)" "old \<in> set as"
  shows "mset as = add_mset old (mset (filter (\<lambda>b. \<not> same_key b old) as))"
  using assms
proof (induction as)
  case (Cons a as)
  show ?case
  proof (cases "a = old")
    case True
    then have "filter (\<lambda>b. \<not> same_key b old) as = as"
      using Cons.prems(1) by (auto simp: same_key_iff filter_id_conv image_iff)
    then show ?thesis using True by (simp add: same_key_iff)
  next
    case False
    then have "old \<in> set as" "\<not> same_key a old"
      using Cons.prems by (auto simp: same_key_iff image_iff)
    then show ?thesis using Cons by (simp add: add_mset_commute)
  qed
qed simp

lemma replace_key:
  assumes "distinct (map key_of as)" "old \<in> set as"
  shows "mset (map (\<lambda>b. if same_key b old then new else b) as) = add_mset new (mset (filter (\<lambda>b. \<not> same_key b old) as))"
proof -
  let ?f = "\<lambda>b. if same_key b old then new else b"
  have "image_mset ?f (mset (filter (\<lambda>b. \<not> same_key b old) as)) = mset (filter (\<lambda>b. \<not> same_key b old) as)"
    by (rule multiset.map_ident_strong) auto
  then show ?thesis
    unfolding mset_map split_key [OF assms] image_mset_add_mset by (simp add: same_key_def)
qed

lemma within_quota_perm: "mset as = mset bs \<Longrightarrow> within_quota q as = within_quota q bs"
  using Measure_perm [of as bs] mset_eq_length [of as bs] by (simp add: within_quota_def)

text \<open>Agents that are left out must not lower the sums.\<close>

lemma sum_filter_le:
  "\<forall>a\<in>set as. P a \<or> requests_nonneg a \<Longrightarrow> k = ''cpu'' \<or> k = ''memory'' \<Longrightarrow>
     (\<Sum>a\<leftarrow>filter P as. effective (sp_resources (agt_spec a)) k) \<le> (\<Sum>a\<leftarrow>as. effective (sp_resources (agt_spec a)) k)"
  by (induction as) (auto simp: requests_nonneg_def add_increasing)

lemma within_quota_filter:
  assumes "within_quota q as" "\<forall>a\<in>set as. P a \<or> requests_nonneg a"
  shows "within_quota q (filter P as)"
proof -
  have "int (length (filter P as)) \<le> sint (q_count q)"
    using assms(1) length_filter_le [of P as] unfolding within_quota_def by linarith
  then show ?thesis
    using assms(1) sum_filter_le [OF assms(2), of "''cpu''"] sum_filter_le [OF assms(2), of "''memory''"]
    by (auto simp: within_quota_def Measure_sum intro: order_trans)
qed

text \<open>What the quota check knows of a tenant: its namespaces carry its name and are the ones listed.\<close>

definition tenant_known :: "('q, 'a) agent_reader_scheme \<Rightarrow> 'q Tenant \<Rightarrow> 'q AgentQuota \<Rightarrow> string list \<Rightarrow> bool" where
  "tenant_known r tenant quota namespaces \<longleftrightarrow>
     tn_name tenant \<noteq> [] \<and> getTenant r (tn_name tenant) = Ok tenant \<and> tn_agentQuota tenant = Some quota
     \<and> listNamespaces r TenantOrganizationIDLabel (tn_name tenant) = Ok namespaces
     \<and> list_all (\<lambda>n. case getNamespace r n of Inl _ \<Rightarrow> False
                   | Inr labels \<Rightarrow> label labels TenantOrganizationIDLabel = tn_name tenant) namespaces"

definition with_agents :: "('q, 'a) agent_reader_scheme \<Rightarrow> 'q Agent list \<Rightarrow> ('q, 'a) agent_reader_scheme" where
  "with_agents r agents = r\<lparr>listAgents := Ok agents\<rparr>"

lemma with_agents_simps [simp]:
  "getNamespace (with_agents r as) = getNamespace r" "getTenant (with_agents r as) = getTenant r"
  "listNamespaces (with_agents r as) = listNamespaces r" "listAgents (with_agents r as) = Ok as"
  by (simp_all add: with_agents_def)

lemma validateQuota_known:
  assumes "tenant_known r tenant quota namespaces" "agt_namespace new \<in> set namespaces"
  shows "validateQuota (Some (with_agents r as)) old new =
    exceeded_issues (quota_exceeded (Measure (case old of None \<Rightarrow> tenant_agents namespaces as
      | Some o1 \<Rightarrow> filter (\<lambda>a. \<not> same_key a o1) (tenant_agents namespaces as))) quota old new)"
proof -
  from assms have "TenantForNamespace (with_agents r as) (agt_namespace new) = Ok tenant"
    by (auto simp: TenantForNamespace_def tenant_known_def list_all_iff split: sum.splits)
  moreover have "Agents (with_agents r as) (tn_name tenant) = Ok (tenant_agents namespaces as)"
    using assms(1) by (simp add: Agents_def tenant_known_def tenant_agents_def)
  ultimately show ?thesis
    using assms(1) by (simp add: validateQuota_def tenant_known_def)
qed

lemma create_checked:
  assumes "validateQuota (Some (with_agents r as)) None a = []" "tenant_known r tenant quota namespaces"
    and "sint (q_count quota) < 2 ^ 31 - 1" "within_count quota (tenant_agents namespaces as)" "agt_namespace a \<in> set namespaces"
  shows "within_quota quota (tenant_agents namespaces (a # as))"
proof -
  let ?as = "tenant_agents namespaces as"
  have "length (a # ?as) < 2 ^ 31" using assms(3,4) by (simp add: within_count_def)
  then have n: "sint (of_nat (length (a # ?as)) :: 32 word) = int (length (a # ?as))" by (rule sint_of_nat32)
  have "exceeded_issues (Exceeded_quota (Measure (a # ?as)) quota) = []"
    using assms(1) validateQuota_known [OF assms(2,5), of as None] by (simp add: quota_exceeded_def Let_def Add_Measure)
  then have "within_quota quota (a # ?as)"
    unfolding exceeded_issues_Nil within_quota_def using n
    by (simp add: Exceeded_quota_def not_less) (simp add: Measure_def)
  then show ?thesis using assms(5) by (simp add: tenant_agents_def)
qed

lemma create_elsewhere: "agt_namespace a \<notin> set namespaces \<Longrightarrow> tenant_agents namespaces (a # as) = tenant_agents namespaces as"
  by (simp add: tenant_agents_def)

lemma within_quota_count: "within_quota quota agents \<Longrightarrow> within_count quota agents"
  by (simp add: within_quota_def within_count_def)

lemma create_within:
  assumes "validateQuota (Some (with_agents r as)) None a = []" "tenant_known r tenant quota namespaces"
    and "sint (q_count quota) < 2 ^ 31 - 1" "within_quota quota (tenant_agents namespaces as)"
  shows "within_quota quota (tenant_agents namespaces (a # as))"
  using create_checked [OF assms(1-3) within_quota_count [OF assms(4)]] create_elsewhere [of a namespaces as] assms(4)
  by (cases "agt_namespace a \<in> set namespaces") simp_all

lemma filter_replace:
  "same_key old new \<Longrightarrow> tenant_agents namespaces (map (\<lambda>b. if same_key b old then new else b) as)
     = map (\<lambda>b. if same_key b old then new else b) (tenant_agents namespaces as)"
  by (induction as) (auto simp: tenant_agents_def same_key_def)

lemma update_within:
  assumes "validateQuota (Some (with_agents r as)) (Some old) new = []" "tenant_known r tenant quota namespaces"
    and "within_quota quota (tenant_agents namespaces as)" "distinct (map key_of as)" "old \<in> set as" "same_key old new"
  shows "within_quota quota (tenant_agents namespaces (map (\<lambda>b. if same_key b old then new else b) as))"
proof (cases "agt_namespace new \<in> set namespaces")
  case True
  let ?as = "tenant_agents namespaces as" and ?f = "\<lambda>b. if same_key b old then new else b"
  let ?rest = "filter (\<lambda>a. \<not> same_key a old) ?as"
  have old: "old \<in> set ?as" using assms(5,6) True by (simp add: tenant_agents_def same_key_def)
  have d: "distinct (map key_of ?as)" using assms(4) by (simp add: tenant_agents_def distinct_map_filter)
  have "mset ?as = mset (old # ?rest)" unfolding mset.simps by (rule split_key [OF d old])
  from within_quota_perm [OF this] have before: "within_quota quota (old # ?rest)" using assms(3) by blast
  have "exceeded_issues (quota_exceeded (Measure ?rest) quota (Some old) new) = []"
    using assms(1) validateQuota_known [OF assms(2) True, of as "Some old"] by simp
  then have "within_quota quota (new # ?rest)"
    unfolding quota_exceeded_def Let_def Add_Measure exceeded_issues_Nil using before
    by (auto simp: Exceeded_quota_def within_quota_def)
  moreover have "mset (map ?f ?as) = mset (new # ?rest)"
    unfolding mset.simps by (rule replace_key [OF d old])
  ultimately have "within_quota quota (map ?f ?as)"
    using within_quota_perm by blast
  then show ?thesis using assms(6) by (simp add: filter_replace)
next
  case False
  then have "map (\<lambda>b. if same_key b old then new else b) (tenant_agents namespaces as) = tenant_agents namespaces as"
    using assms(6) by (intro map_idI) (auto simp: tenant_agents_def same_key_def)
  then show ?thesis using assms(3,6) by (simp add: filter_replace)
qed

subsection \<open>Admission over time\<close>

text \<open>
  The Agents of a cluster as admission lets them change: the API server applies a creation under a
  new key, an update that keeps the key, and a deletion, each after the webhook saw the Agents
  that exist at that moment. The webhook does not look for negative requests
  (\<open>negative_request_frees_quota\<close>); \<open>P\<close> is a predicate that the Agents satisfy that are deleted.
\<close>

inductive admitted_step ::
  "('q Agent \<Rightarrow> bool) \<Rightarrow> (string \<Rightarrow> string) \<Rightarrow> ('q AgentSpec \<Rightarrow> 'q AgentSpec \<Rightarrow> bool) \<Rightarrow> ('q \<Rightarrow> string) \<Rightarrow>
     ('q::linordered_ab_group_add, 'a) agent_reader_scheme \<Rightarrow> 'q Agent list \<Rightarrow> 'q Agent list \<Rightarrow> bool"
  for P uni sem qt r where
  create: "key_of a \<notin> set (map key_of as) \<Longrightarrow>
    ValidateCreate uni (Some (with_agents r as)) a = Some [] \<Longrightarrow> admitted_step P uni sem qt r as (a # as)"
| update: "old \<in> set as \<Longrightarrow> same_key old new \<Longrightarrow>
    ValidateUpdate uni sem qt (Some (with_agents r as)) old new = Some [] \<Longrightarrow>
    admitted_step P uni sem qt r as (map (\<lambda>b. if same_key b old then new else b) as)"
| delete: "list_all P (filter (\<lambda>b. key_of b = k) as) \<Longrightarrow> admitted_step P uni sem qt r as (filter (\<lambda>b. key_of b \<noteq> k) as)"

text \<open>\<open>equality.Semantic\<close> compares quantities by value.\<close>

definition semantic_documented :: "('q AgentSpec \<Rightarrow> 'q AgentSpec \<Rightarrow> bool) \<Rightarrow> bool" where
  "semantic_documented sem \<longleftrightarrow> (\<forall>s t. sem s t \<longrightarrow> sp_resources s = sp_resources t \<and> sp_nixStoreSize s = sp_nixStoreSize t)"

lemma admitted_step_keys:
  assumes "admitted_step P uni sem qt r as bs" "distinct (map key_of as)"
  shows "distinct (map key_of bs)"
  using assms
proof (induction rule: admitted_step.induct)
  case (update old as new)
  have "map key_of (map (\<lambda>b. if same_key b old then new else b) as) = map key_of as"
    using update.hyps(2) by (auto simp: same_key_iff)
  then show ?case using update.prems by argo
qed (simp_all add: distinct_map_filter)

lemma same_resources_within:
  assumes "sp_resources (agt_spec new) = sp_resources (agt_spec old)" "same_key old new"
    and "distinct (map key_of as)" "old \<in> set as" "within_quota q (tenant_agents ns as)"
  shows "within_quota q (tenant_agents ns (map (\<lambda>b. if same_key b old then new else b) as))"
proof -
  let ?f = "\<lambda>b. if same_key b old then new else b"
  have "sp_resources (agt_spec (?f b)) = sp_resources (agt_spec b)" if "b \<in> set as" for b
  proof (cases "same_key b old")
    case True
    then have "b = old" using assms(3,4) that by (metis distinct_map inj_onD same_key_iff)
    then show ?thesis using assms(1) by simp
  qed simp
  then have "map (\<lambda>b. effective (sp_resources (agt_spec b)) k) (map ?f (tenant_agents ns as))
      = map (\<lambda>b. effective (sp_resources (agt_spec b)) k) (tenant_agents ns as)" for k
    by (auto simp: tenant_agents_def)
  from this [of "''cpu''"] this [of "''memory''"] show ?thesis
    using assms(5) unfolding filter_replace [OF assms(2)] within_quota_def Measure_sum length_map
    by (simp only: ComputeResources.simps)
qed

lemma admitted_step_within:
  assumes "admitted_step P uni sem qt r as bs" "distinct (map key_of as)" "semantic_documented sem"
    and "tenant_known r tenant quota namespaces" "sint (q_count quota) < 2 ^ 31 - 1" "\<And>a. P a \<Longrightarrow> requests_nonneg a"
    and "within_quota quota (tenant_agents namespaces as)"
  shows "within_quota quota (tenant_agents namespaces bs)"
  using assms(1)
proof cases
  case (create a)
  then show ?thesis using create_within [OF ValidateCreate_quota assms(4,5,7)] by simp
next
  case (update old new)
  from update(4) have "within_quota quota (tenant_agents namespaces (map (\<lambda>b. if same_key b old then new else b) as))"
  proof (cases rule: ValidateUpdate_cases)
    case same
    then show ?thesis
      using assms(3) update(3) by (intro same_resources_within [OF _ update(3) assms(2) update(2) assms(7)]) (auto simp: semantic_documented_def)
  next
    case checked
    then show ?thesis by (intro update_within [OF _ assms(4,7,2) update(2,3)])
  qed
  then show ?thesis unfolding update(1) .
next
  case (delete k)
  then have "\<forall>a\<in>set (tenant_agents namespaces as). key_of a \<noteq> k \<or> requests_nonneg a"
    using assms(6) by (auto simp: tenant_agents_def list_all_iff)
  from within_quota_filter [OF assms(7) this] show ?thesis
    unfolding delete by (simp add: tenant_agents_def conj_commute)
qed

lemma admitted_step_count:
  assumes "admitted_step P uni sem qt r as bs" "tenant_known r tenant quota namespaces" "sint (q_count quota) < 2 ^ 31 - 1"
    and "within_count quota (tenant_agents namespaces as)"
  shows "within_count quota (tenant_agents namespaces bs)"
  using assms(1)
proof cases
  case (create a)
  then show ?thesis
    using within_quota_count [OF create_checked [OF ValidateCreate_quota assms(2-4)]] create_elsewhere [of a namespaces as] assms(4)
    by (cases "agt_namespace a \<in> set namespaces") simp_all
next
  case (update old new)
  then show ?thesis using assms(4) filter_replace [OF update(3), of namespaces as] by (simp add: within_count_def)
next
  case (delete k)
  have "length (filter (\<lambda>b. key_of b \<noteq> k) (tenant_agents namespaces as)) \<le> length (tenant_agents namespaces as)" by simp
  then show ?thesis using assms(4) unfolding delete within_count_def by (simp add: tenant_agents_def conj_commute)
qed

text \<open>C3. A Tenant's quota is never exceeded by admission. Starting from Agents within the quota, after any
  sequence of admitted creations and updates and of deletions the Agents of the Tenant's namespaces
  number at most the quota's count; and the sums of their effective CPU and memory requests are at
  most the quota's, provided that no Agent is deleted that had a negative request. (The webhook admits
  negative requests: while such an Agent exists it lowers the sums, and its deletion can raise them over
  the quota.) The count limit lies below the largest 32-bit integer, at which the increment would wrap.\<close>

theorem quota_never_exceeded:
  assumes "(admitted_step P uni sem qt r)\<^sup>*\<^sup>* as bs" "distinct (map key_of as)" "semantic_documented sem"
    and "tenant_known r tenant quota namespaces" "sint (q_count quota) < 2 ^ 31 - 1"
    and "within_quota quota (tenant_agents namespaces as)"
  shows "int (length (tenant_agents namespaces bs)) \<le> sint (q_count quota)
    \<and> ((\<forall>a. P a \<longrightarrow> requests_nonneg a) \<longrightarrow> within_quota quota (tenant_agents namespaces bs))"
proof -
  have "distinct (map key_of bs) \<and> within_count quota (tenant_agents namespaces bs)
      \<and> ((\<forall>a. P a \<longrightarrow> requests_nonneg a) \<longrightarrow> within_quota quota (tenant_agents namespaces bs))"
    using assms(1)
  proof (induction rule: rtranclp_induct)
    case base
    then show ?case using assms(2,6) by (simp add: within_quota_count)
  next
    case (step cs ds)
    then show ?case
      using admitted_step_keys [OF step(2)] admitted_step_count [OF step(2) assms(4,5)]
        admitted_step_within [OF step(2) _ assms(3,4,5)] by blast
  qed
  then show ?thesis by (simp add: within_count_def)
qed

text \<open>The sample cluster with the Organisation's tenant, its Workspace and one sandbox.\<close>

definition sample_tenant :: "int Tenant" where
  "sample_tenant = \<lparr>tn_name = sample_org, tn_organizationID = ''o'', tn_agentQuota = Some sample_quota, tn_dashboardQuota = None\<rparr>"

definition sample_reader :: "int agent_reader" where
  "sample_reader = \<lparr>getNamespace = sample_namespaces, getWorkspace = sample_workspaces,
     getSkill = (\<lambda>_ _. Err GNotFound),
     getTenant = (\<lambda>n. if n = sample_org then Ok sample_tenant else Err GNotFound),
     listNamespaces = (\<lambda>_ v. Ok (if v = sample_org then [''w''] else [])), listAgents = Ok [],
     getSandbox = (\<lambda>ns n. if ns = sample_org \<and> n = ''base'' then Ok False else Err GNotFound)\<rparr>"

lemma sample_known: "tenant_known sample_reader sample_tenant sample_quota [''w'']"
  using sample_org_name
  by (simp add: tenant_known_def sample_reader_def sample_tenant_def sample_namespaces_def label_def)

lemma sample_validateQuota: "validateQuota (Some (with_agents sample_reader [])) None sample_agent = []"
  by (subst validateQuota_known [OF sample_known])
     (simp_all add: sample_agent_def quota_exceeded_def tenant_agents_def Add_Measure exceeded_issues_Nil Exceeded_quota_def
       Measure_def sample_spec_def sample_quota_def EffectiveRequests_def effective_def Let_def Add_def)

lemma sample_validateAgent: "validateAgent (\<lambda>s. s) (Some (with_agents sample_reader [])) sample_agent = Some []"
proof -
  let ?r = "with_agents sample_reader []"
  have "SelectedNamespace ?r ''w'' \<lparr>sel_scope = ResourceScopeOrganisation, sel_kind = KindSandbox, sel_name = ''base''\<rparr> = Ok sample_org"
    by (rule sample_selected) (simp_all add: sample_reader_def with_agents_def)
  then have "sandbox_issues (Some ?r) sample_agent = ([], False)"
    by (simp add: sandbox_issues_def sample_agent_def sample_spec_def with_agents_def sample_reader_def issue_def)
  moreover have "TrimSpace ''base'' \<noteq> []"
    by (simp add: TrimSpace_visible visible_def)
  moreover have "Validate_tools (\<lambda>s. s) [sample_tool] (Child spec_path ''tools'') = []"
    using sample_tool_valid by (simp add: Validate_tools_Nil)
  moreover have "RuneCountInString [] = 0"
    using ascii_text [of "[]"] by simp
  ultimately show ?thesis
    by (simp add: validateAgent_def memory_issues_def sample_agent_def sample_spec_def Let_def ValidateReferences_def
        AgentNameMCPConnection_def)
qed

theorem quota_never_exceeded_witness:
  "within_quota sample_quota (tenant_agents [''w''] [sample_agent])"
proof -
  have "admitted_step requests_nonneg (\<lambda>s. s) (=) (\<lambda>_. []) sample_reader [] [sample_agent]"
    by (rule admitted_step.create) (simp_all add: ValidateCreate_def sample_validateAgent sample_validateQuota)
  then have "(admitted_step requests_nonneg (\<lambda>s. s) (=) (\<lambda>_. []) sample_reader)\<^sup>*\<^sup>* [] [sample_agent]" by (rule r_into_rtranclp)
  from quota_never_exceeded [OF this _ _ sample_known] show ?thesis
    by (simp add: semantic_documented_def sample_quota_def within_quota_def tenant_agents_def Measure_def)
qed

text \<open>An Agent with a negative request lowers the measured usage, so that further Agents are admitted
  beyond what the quota allows without it.\<close>

lemma negative_request_frees_quota:
  fixes as :: "int Agent list"
  assumes "effective (sp_resources (agt_spec a)) ''cpu'' = - c"
  shows "cpu (u_resources (Measure (a # as))) = cpu (u_resources (Measure as)) - c"
  using assms by (simp add: Measure_sum)

text \<open>Defaulting is safe for quotas: an Agent created without resources gets exactly the Tenant's
  default requests (none for the class BestEffort), an Agent with resources keeps them, and no
  update ever changes the resources; image, pull policy and store size are filled only where empty.\<close>

lemma defaulting_respects_resources:
  assumes "Default_agent sem reader img gi (Some request) agt = Ok agt'"
  shows "agt_namespace agt' = agt_namespace agt \<and> agt_name agt' = agt_name agt
    \<and> (request \<noteq> Create \<or> resourcesSpecified (sp_resources (agt_spec agt)) \<longrightarrow>
         sp_resources (agt_spec agt') = sp_resources (agt_spec agt))
    \<and> (request = Create \<and> \<not> resourcesSpecified (sp_resources (agt_spec agt)) \<longrightarrow>
         (\<exists>tenant. TenantForNamespace reader (agt_namespace agt) = Ok tenant \<and>
           (case tn_agentQuota tenant of None \<Rightarrow> sp_resources (agt_spec agt') = sp_resources (agt_spec agt)
            | Some q \<Rightarrow> EffectiveRequests (sp_resources (agt_spec agt')) =
                (if def_qosClass (q_defaults q) \<in> {PodQOSGuaranteed, PodQOSBurstable} then def_resources (q_defaults q)
                 else \<lparr>cpu = 0, memory = 0\<rparr>))))
    \<and> (sp_image (agt_spec agt) \<noteq> [] \<longrightarrow> sp_image (agt_spec agt') = sp_image (agt_spec agt))
    \<and> (sp_nixStoreSize (agt_spec agt) \<noteq> 0 \<longrightarrow> sp_nixStoreSize (agt_spec agt') = sp_nixStoreSize (agt_spec agt))"
proof -
  have f: "sp_resources (default_fields img gi s) = sp_resources s"
    "sp_image s \<noteq> [] \<Longrightarrow> sp_image (default_fields img gi s) = sp_image s"
    "sp_nixStoreSize s \<noteq> 0 \<Longrightarrow> sp_nixStoreSize (default_fields img gi s) = sp_nixStoreSize s" for s
    by (simp_all add: default_fields_def Let_def)
  have e: "EffectiveRequests (Resources d) = (if def_qosClass d \<in> {PodQOSGuaranteed, PodQOSBurstable}
      then def_resources d else \<lparr>cpu = 0, memory = 0\<rparr>)" for d :: "'a AgentDefaults"
    by (simp add: EffectiveRequests_def effective_def Resources_def resource_pair_def)
  show ?thesis
    using assms
    by (auto simp: Default_agent_def Default_resources_def set_spec_def f e Let_def
        split: operation.splits option.splits sum.splits if_splits)
qed

end
