(* ===== verification/TenantWebhook.thy ===== *)
theory TenantWebhook
  imports AgentWebhook
begin

section \<open>Tenant admission\<close>

text \<open>
  The validating and defaulting webhooks of Tenants (\<open>internal/webhook/v1alpha1/tenant\<close>). Creation
  passes no old object. The text of a quantity, which only appears in messages, is the argument
  \<open>qt\<close>; durations and counts are machine words compared as signed integers, and a duration in a message
  stays its number of nanoseconds.
\<close>

definition quota_path :: field_path where
  "quota_path = [PName ''spec'', PName ''dashboardQuota'']"

definition publish_path :: "string \<Rightarrow> field_path" where
  "publish_path f = Child (Child quota_path ''publish'') f"

definition query_path :: "string \<Rightarrow> field_path" where
  "query_path f = Child (Child quota_path ''query'') f"

definition positiveCounts :: "'q DashboardQuota \<Rightarrow> (field_path \<times> int) list" where
  "positiveCounts quota =
    [(Child quota_path ''dashboardsPerAgent'', sint (DashboardsPerAgent quota)),
     (Child quota_path ''widgetsPerDashboard'', sint (WidgetsPerDashboard quota)),
     (publish_path ''recordsPerRequest'', sint (RecordsPerRequest (Publish quota))),
     (publish_path ''requestsPerMinutePerAgent'', sint (RequestsPerMinutePerAgent (Publish quota))),
     (publish_path ''temporalRecordsPerDay'', sint (TemporalRecordsPerDay (Publish quota))),
     (publish_path ''retainedTemporalRecords'', sint (RetainedTemporalRecords (Publish quota))),
     (query_path ''requestsPerMinutePerUser'', sint (RequestsPerMinutePerUser (Query quota))),
     (query_path ''returnedCellsPerHour'', sint (ReturnedCellsPerHour (Query quota))),
     (query_path ''concurrentRequests'', sint (ConcurrentRequests (Query quota))),
     (query_path ''cellsPerRequest'', sint (CellsPerRequest (Query quota))),
     (query_path ''pointsPerSeries'', sint (PointsPerSeries (Query quota)))]"

definition positiveQuantities :: "'q DashboardQuota \<Rightarrow> (field_path \<times> 'q) list" where
  "positiveQuantities quota =
    [(publish_path ''requestBytes'', RequestBytes (Publish quota)),
     (publish_path ''acceptedBytesPerDay'', AcceptedBytesPerDay (Publish quota)),
     (publish_path ''latestBytesPerAgent'', LatestBytesPerAgent (Publish quota)),
     (query_path ''responseBytes'', ResponseBytes (Query quota))]"

definition decreases :: "'q::linorder DashboardQuota \<Rightarrow> 'q DashboardQuota \<Rightarrow> (field_path \<times> bool) list" where
  "decreases quota old =
    [(Child quota_path ''dashboardsPerAgent'', sint (DashboardsPerAgent quota) < sint (DashboardsPerAgent old)),
     (Child quota_path ''widgetsPerDashboard'', sint (WidgetsPerDashboard quota) < sint (WidgetsPerDashboard old)),
     (publish_path ''requestBytes'', RequestBytes (Publish quota) < RequestBytes (Publish old)),
     (publish_path ''recordsPerRequest'',
        sint (RecordsPerRequest (Publish quota)) < sint (RecordsPerRequest (Publish old))),
     (publish_path ''requestsPerMinutePerAgent'',
        sint (RequestsPerMinutePerAgent (Publish quota)) < sint (RequestsPerMinutePerAgent (Publish old))),
     (publish_path ''acceptedBytesPerDay'', AcceptedBytesPerDay (Publish quota) < AcceptedBytesPerDay (Publish old)),
     (publish_path ''temporalRecordsPerDay'',
        sint (TemporalRecordsPerDay (Publish quota)) < sint (TemporalRecordsPerDay (Publish old))),
     (publish_path ''retainedTemporalRecords'',
        sint (RetainedTemporalRecords (Publish quota)) < sint (RetainedTemporalRecords (Publish old))),
     (publish_path ''latestBytesPerAgent'', LatestBytesPerAgent (Publish quota) < LatestBytesPerAgent (Publish old)),
     (query_path ''requestsPerMinutePerUser'',
        sint (RequestsPerMinutePerUser (Query quota)) < sint (RequestsPerMinutePerUser (Query old))),
     (query_path ''returnedCellsPerHour'',
        sint (ReturnedCellsPerHour (Query quota)) < sint (ReturnedCellsPerHour (Query old))),
     (query_path ''concurrentRequests'', sint (ConcurrentRequests (Query quota)) < sint (ConcurrentRequests (Query old))),
     (query_path ''cellsPerRequest'', sint (CellsPerRequest (Query quota)) < sint (CellsPerRequest (Query old))),
     (query_path ''responseBytes'', ResponseBytes (Query quota) < ResponseBytes (Query old)),
     (query_path ''pointsPerSeries'', sint (PointsPerSeries (Query quota)) < sint (PointsPerSeries (Query old))),
     (query_path ''timeout'', sint (Timeout (Query quota)) < sint (Timeout (Query old)))]"

definition dashboard_quota_of :: "'q Tenant option \<Rightarrow> 'q DashboardQuota option" where
  "dashboard_quota_of t = (case t of None \<Rightarrow> None | Some tenant \<Rightarrow> tn_dashboardQuota tenant)"

definition agent_quota_of :: "'q Tenant option \<Rightarrow> 'q AgentQuota option" where
  "agent_quota_of t = (case t of None \<Rightarrow> None | Some tenant \<Rightarrow> tn_agentQuota tenant)"

definition validateDashboardQuota ::
  "('q \<Rightarrow> string) \<Rightarrow> 'q::linordered_ab_group_add Tenant option \<Rightarrow> 'q Tenant \<Rightarrow> field_errors" where
  "validateDashboardQuota qt oldObj newObj =
     (case tn_dashboardQuota newObj of
        None \<Rightarrow> issue (dashboard_quota_of oldObj \<noteq> None) (FForbidden quota_path ''cannot be removed'')
      | Some quota \<Rightarrow>
          (let issues =
             concat (map (\<lambda>(p, v). issue (v < 1) (FInvalid p (BInt v) ''must be at least 1'')) (positiveCounts quota))
             @ concat (map (\<lambda>(p, q). issue (q \<le> 0) (FInvalid p (BStr (qt q)) ''must be positive'')) (positiveQuantities quota))
             @ issue (sint (Timeout (Query quota)) \<le> 0)
                 (FInvalid (query_path ''timeout'') (BInt (sint (Timeout (Query quota)))) ''must be positive'')
           in case dashboard_quota_of oldObj of
                None \<Rightarrow> issues
              | Some old \<Rightarrow> issues
                  @ concat (map (\<lambda>(p, d). issue d (FForbidden p ''cannot decrease'')) (decreases quota old))))"

definition agent_quota_path :: field_path where
  "agent_quota_path = [PName ''spec'', PName ''agentQuota'']"

definition qosClasses :: "string list" where
  "qosClasses = [PodQOSGuaranteed, PodQOSBurstable, PodQOSBestEffort]"

definition agent_quota_issues :: "('q \<Rightarrow> string) \<Rightarrow> 'q::linordered_ab_group_add AgentQuota \<Rightarrow> field_errors" where
  "agent_quota_issues qt quota =
     (let path = agent_quota_path; res = Child path ''resources'';
          def = Child (Child path ''defaults'') ''resources'';
          limit = q_resources quota; defaults = def_resources (q_defaults quota)
      in issue (sint (q_count quota) < 1) (FInvalid (Child path ''count'') (BInt (sint (q_count quota))) ''must be at least 1'')
       @ issue (cpu limit \<le> 0) (FInvalid (Child res ''cpu'') (BStr (qt (cpu limit))) ''must be positive'')
       @ issue (memory limit \<le> 0) (FInvalid (Child res ''memory'') (BStr (qt (memory limit))) ''must be positive'')
       @ issue (cpu defaults \<le> 0) (FInvalid (Child def ''cpu'') (BStr (qt (cpu defaults))) ''must be positive'')
       @ issue (memory defaults \<le> 0) (FInvalid (Child def ''memory'') (BStr (qt (memory defaults))) ''must be positive'')
       @ issue (cpu defaults > cpu limit)
           (FInvalid (Child def ''cpu'') (BStr (qt (cpu defaults))) ''must not exceed the Tenant CPU quota'')
       @ issue (memory defaults > memory limit)
           (FInvalid (Child def ''memory'') (BStr (qt (memory defaults))) ''must not exceed the Tenant memory quota'')
       @ issue (def_qosClass (q_defaults quota) \<notin> set qosClasses)
           (FNotSupported (Child (Child path ''defaults'') ''qosClass'') (BStr (def_qosClass (q_defaults quota))) qosClasses))"

definition reduction_issues ::
  "('q::linordered_ab_group_add, 'a) quota_reader_scheme \<Rightarrow> string \<Rightarrow> 'q AgentQuota \<Rightarrow> 'q AgentQuota \<Rightarrow> field_errors" where
  "reduction_issues reader name quota oldQuota =
     (let cpuReduced = cpu (q_resources quota) < cpu (q_resources oldQuota);
          memoryReduced = memory (q_resources quota) < memory (q_resources oldQuota);
          path = Child agent_quota_path ''resources''
      in if \<not> cpuReduced \<and> \<not> memoryReduced then []
         else case Agents reader name of
           Inl e \<Rightarrow> [FInternal path]
         | Inr agents \<Rightarrow>
             (let exceeded = Exceeded_quota (Measure agents) quota in
              issue (cpuReduced \<and> ex_cpu exceeded)
                (FForbidden (Child path ''cpu'') ''cannot be less than allocated Agent CPU requests'')
              @ issue (memoryReduced \<and> ex_memory exceeded)
                (FForbidden (Child path ''memory'') ''cannot be less than allocated Agent memory requests'')))"

definition validateAgentQuota ::
  "('q \<Rightarrow> string) \<Rightarrow> ('q::linordered_ab_group_add, 'a) quota_reader_scheme option \<Rightarrow> 'q Tenant option \<Rightarrow> 'q Tenant \<Rightarrow> field_errors" where
  "validateAgentQuota qt reader oldObj newObj =
     (case tn_agentQuota newObj of
        None \<Rightarrow> issue (agent_quota_of oldObj \<noteq> None) (FForbidden agent_quota_path ''cannot be removed'')
      | Some quota \<Rightarrow>
          (case agent_quota_of oldObj of
             None \<Rightarrow> agent_quota_issues qt quota
           | Some oldQuota \<Rightarrow>
               agent_quota_issues qt quota
               @ issue (sint (q_count quota) < sint (q_count oldQuota))
                   (FForbidden (Child agent_quota_path ''count'') ''cannot decrease'')
               @ (case reader of None \<Rightarrow> [] | Some r \<Rightarrow> reduction_issues r (tn_name newObj) quota oldQuota)))"

definition validateTenant ::
  "('q \<Rightarrow> string) \<Rightarrow> ('q::linordered_ab_group_add, 'a) quota_reader_scheme option \<Rightarrow> 'q Tenant option \<Rightarrow> 'q Tenant \<Rightarrow> admission" where
  "validateTenant qt reader oldObj newObj =
     (case ScopeNamespace ResourceScopeOrganisation (tn_organizationID newObj) of
        None \<Rightarrow> None
      | Some expectedName \<Rightarrow> Some
         (issue (oldObj = None \<and> tn_name newObj \<noteq> expectedName)
            (FInvalid [PName ''metadata'', PName ''name''] (BStr (tn_name newObj)) (''must equal '' @ expectedName))
          @ issue (case oldObj of None \<Rightarrow> False | Some old \<Rightarrow> tn_organizationID old \<noteq> tn_organizationID newObj)
            (FForbidden [PName ''spec'', PName ''organizationID''] ''is immutable'')
          @ validateAgentQuota qt reader oldObj newObj
          @ validateDashboardQuota qt oldObj newObj))"

definition Default_tenant :: "'q AgentQuota \<Rightarrow> 'q DashboardQuota \<Rightarrow> 'q Tenant \<Rightarrow> 'q Tenant" where
  "Default_tenant agentQuota dashboardQuota tenant =
     tenant\<lparr>tn_agentQuota := (case tn_agentQuota tenant of None \<Rightarrow> Some agentQuota | Some q \<Rightarrow> Some q),
            tn_dashboardQuota := (case tn_dashboardQuota tenant of None \<Rightarrow> Some dashboardQuota | Some q \<Rightarrow> Some q)\<rparr>"

subsection \<open>Lemmas\<close>

lemma validateTenant_Ok:
  assumes "validateTenant qt reader (Some old) new = Some []"
  shows "tn_organizationID new = tn_organizationID old" "validateAgentQuota qt reader (Some old) new = []"
    "validateDashboardQuota qt (Some old) new = []"
  using assms by (auto simp: validateTenant_def split: option.splits)

text \<open>No dimension of a dashboard quota is lower than in the other one.\<close>

definition dashboard_le :: "'q::linorder DashboardQuota \<Rightarrow> 'q DashboardQuota \<Rightarrow> bool" where
  "dashboard_le old new \<longleftrightarrow>
     sint (DashboardsPerAgent old) \<le> sint (DashboardsPerAgent new)
     \<and> sint (WidgetsPerDashboard old) \<le> sint (WidgetsPerDashboard new)
     \<and> RequestBytes (Publish old) \<le> RequestBytes (Publish new)
     \<and> sint (RecordsPerRequest (Publish old)) \<le> sint (RecordsPerRequest (Publish new))
     \<and> sint (RequestsPerMinutePerAgent (Publish old)) \<le> sint (RequestsPerMinutePerAgent (Publish new))
     \<and> AcceptedBytesPerDay (Publish old) \<le> AcceptedBytesPerDay (Publish new)
     \<and> sint (TemporalRecordsPerDay (Publish old)) \<le> sint (TemporalRecordsPerDay (Publish new))
     \<and> sint (RetainedTemporalRecords (Publish old)) \<le> sint (RetainedTemporalRecords (Publish new))
     \<and> LatestBytesPerAgent (Publish old) \<le> LatestBytesPerAgent (Publish new)
     \<and> sint (RequestsPerMinutePerUser (Query old)) \<le> sint (RequestsPerMinutePerUser (Query new))
     \<and> sint (ReturnedCellsPerHour (Query old)) \<le> sint (ReturnedCellsPerHour (Query new))
     \<and> sint (ConcurrentRequests (Query old)) \<le> sint (ConcurrentRequests (Query new))
     \<and> sint (CellsPerRequest (Query old)) \<le> sint (CellsPerRequest (Query new))
     \<and> ResponseBytes (Query old) \<le> ResponseBytes (Query new)
     \<and> sint (PointsPerSeries (Query old)) \<le> sint (PointsPerSeries (Query new))
     \<and> sint (Timeout (Query old)) \<le> sint (Timeout (Query new))"

lemma dashboard_update:
  assumes "validateDashboardQuota qt (Some old) new = []" "tn_dashboardQuota old = Some q"
  shows "\<exists>q'. tn_dashboardQuota new = Some q' \<and> dashboard_le q q'"
  using assms
  by (auto simp: validateDashboardQuota_def dashboard_quota_of_def dashboard_le_def decreases_def
      split: option.splits)

lemma agent_quota_update:
  assumes "validateAgentQuota qt (Some r) (Some old) new = []" "tn_agentQuota old = Some q"
  obtains q' where "tn_agentQuota new = Some q'" "agent_quota_issues qt q' = []"
    "sint (q_count q) \<le> sint (q_count q')" "reduction_issues r (tn_name new) q' q = []"
  using assms by (auto simp: validateAgentQuota_def agent_quota_of_def not_less split: option.splits)

lemma reduction_within:
  assumes "reduction_issues r name q' q = []" "Agents r name = Ok agents" "within_quota q agents"
    and "sint (q_count q) \<le> sint (q_count q')"
  shows "within_quota q' agents"
  using assms
  by (auto simp: reduction_issues_def within_quota_def Exceeded_quota_def Let_def split: if_splits intro: order_trans)

text \<open>C37. Changing a Tenant never takes away what is in use: an admitted update keeps the Organisation,
  keeps both quotas present, lowers no dimension of the dashboard quota and not the Agent count,
  and if the Agents of the Tenant were within the old quota they are within the new one, even
  when CPU or memory were reduced.\<close>

theorem tenant_update_safe:
  assumes "validateTenant qt (Some r) (Some old) new = Some []"
    and "tn_agentQuota old = Some q" "tn_dashboardQuota old = Some d"
    and "Agents r (tn_name new) = Ok agents" "within_quota q agents"
  shows "tn_organizationID new = tn_organizationID old
    \<and> (\<exists>q'. tn_agentQuota new = Some q' \<and> within_quota q' agents \<and> sint (q_count q) \<le> sint (q_count q'))
    \<and> (\<exists>d'. tn_dashboardQuota new = Some d' \<and> dashboard_le d d')"
proof -
  note v = validateTenant_Ok [OF assms(1)]
  obtain q' where q': "tn_agentQuota new = Some q'" "sint (q_count q) \<le> sint (q_count q')"
    "reduction_issues r (tn_name new) q' q = []"
    using agent_quota_update [OF v(2) assms(2)] by blast
  show ?thesis
    using v(1) q'(1,2) reduction_within [OF q'(3) assms(4,5) q'(2)] dashboard_update [OF v(3) assms(3)] by blast
qed

definition sample_dashboard :: "int DashboardQuota" where
  "sample_dashboard = \<lparr>DashboardsPerAgent = 5, WidgetsPerDashboard = 10,
     Publish = \<lparr>RequestBytes = 1, RecordsPerRequest = 1, RequestsPerMinutePerAgent = 1, AcceptedBytesPerDay = 1,
       TemporalRecordsPerDay = 1, RetainedTemporalRecords = 1, LatestBytesPerAgent = 1\<rparr>,
     Query = \<lparr>RequestsPerMinutePerUser = 1, ReturnedCellsPerHour = 1, ConcurrentRequests = 1, CellsPerRequest = 1,
       ResponseBytes = 1, PointsPerSeries = 1, Timeout = 1\<rparr>\<rparr>"

definition sample_old :: "int Tenant" where
  "sample_old = sample_tenant\<lparr>tn_dashboardQuota := Some sample_dashboard\<rparr>"

definition sample_reduced :: "int Tenant" where
  "sample_reduced = sample_old\<lparr>tn_agentQuota := Some (sample_quota\<lparr>q_resources := \<lparr>cpu = 600, memory = 8\<rparr>\<rparr>)\<rparr>"

lemma sample_update:
  "validateTenant (\<lambda>_. []) (Some (with_agents sample_reader [sample_agent])) (Some sample_old) sample_reduced = Some []"
proof -
  let ?r = "with_agents sample_reader [sample_agent]"
  have agents: "Agents ?r sample_org = Ok [sample_agent]"
    by (simp add: Agents_def sample_reader_def with_agents_def sample_agent_def tenant_agents_def)
  have "validateAgentQuota (\<lambda>_. []) (Some ?r) (Some sample_old) sample_reduced = []"
    using agents
    by (simp add: validateAgentQuota_def agent_quota_of_def sample_reduced_def sample_old_def sample_tenant_def agent_quota_issues_def
        reduction_issues_def sample_quota_def qosClasses_def Let_def Exceeded_quota_def Measure_def sample_agent_def sample_spec_def
        EffectiveRequests_def effective_def Add_def)
  moreover have "validateDashboardQuota (\<lambda>_. []) (Some sample_old) sample_reduced = []"
    by (simp add: validateDashboardQuota_def dashboard_quota_of_def sample_reduced_def sample_old_def sample_dashboard_def
        positiveCounts_def positiveQuantities_def decreases_def Let_def)
  ultimately show ?thesis
    using sample_org by (simp add: validateTenant_def sample_reduced_def sample_old_def sample_tenant_def issue_def)
qed

theorem tenant_update_safe_witness:
  "within_quota (sample_quota\<lparr>q_resources := \<lparr>cpu = 600, memory = 8\<rparr>\<rparr>) [sample_agent]"
proof -
  have "Agents (with_agents sample_reader [sample_agent]) (tn_name sample_reduced) = Ok [sample_agent]"
    by (simp add: Agents_def sample_reader_def with_agents_def sample_agent_def sample_reduced_def sample_old_def sample_tenant_def)
  moreover have "within_quota sample_quota [sample_agent]"
    by (simp add: within_quota_def sample_quota_def Measure_def sample_agent_def sample_spec_def EffectiveRequests_def effective_def Add_def)
  ultimately show ?thesis
    using tenant_update_safe [OF sample_update, of sample_quota sample_dashboard]
    by (simp add: sample_old_def sample_reduced_def sample_tenant_def)
qed

text \<open>The quota a Tenant ends up with admits at least one Agent with the defaults: a Tenant whose
  creation is admitted has the name derived from its Organisation, and if it has an Agent quota
  then one Agent with the default resources fits into it, whatever the quality-of-service class.\<close>

lemma new_tenant_admits_default_agent:
  assumes "validateTenant qt reader None tenant = Some []" "tn_agentQuota tenant = Some q"
    and "sp_resources (agt_spec a) = Resources (q_defaults q)"
  shows "ScopeNamespace ResourceScopeOrganisation (tn_organizationID tenant) = Some (tn_name tenant)
    \<and> within_quota q [a]"
proof -
  have v: "ScopeNamespace ResourceScopeOrganisation (tn_organizationID tenant) = Some (tn_name tenant)"
    "agent_quota_issues qt q = []"
    using assms(1,2)
    by (auto simp: validateTenant_def validateAgentQuota_def agent_quota_of_def split: option.splits)
  have "EffectiveRequests (Resources (q_defaults q)) = (if def_qosClass (q_defaults q) = PodQOSBestEffort
      then \<lparr>cpu = 0, memory = 0\<rparr> else def_resources (q_defaults q))"
    using v(2) by (auto simp: agent_quota_issues_def Let_def qosClasses_def EffectiveRequests_def effective_def
        Resources_def resource_pair_def)
  then have "within_quota q [a]"
    using v(2) unfolding within_quota_def Measure_sum
    by (auto simp: agent_quota_issues_def Let_def EffectiveRequests_def assms(3) split: if_splits)
  then show ?thesis using v(1) by blast
qed

end
