(* ===== verification/McpWebhook.thy ===== *)
theory McpWebhook
  imports Url Tunnel
begin

section \<open>MCPConnection admission\<close>

text \<open>
  The validating and defaulting webhooks of MCPConnections (\<open>internal/webhook/v1alpha1/mcpconn\<close>).
  A connection names a remote endpoint, static headers, and a credential in OpenBao with the place
  where it is inserted into requests. Headers, a Go map, are an association list; the code visits
  them in any order. \<open>uuid.Parse\<close> of \<open>github.com/google/uuid\<close> is the argument \<open>uuid_ok\<close>, and
  \<open>sem\<close> is \<open>equality.Semantic.DeepEqual\<close> on specs.
\<close>

record SecretRef =
  sr_path :: string
  sr_key :: string

record HeaderLocation =
  hl_name :: string
  hl_prefix :: "string option"

record AuthLocation =
  al_header :: "HeaderLocation option"
  al_query :: "string option"
  al_cookie :: "string option"

record BearerAuth =
  ba_secretRef :: "SecretRef option"
  ba_location :: "AuthLocation option"

record OAuthAuth =
  oo_issuer :: string
  oo_authorizationEndpoint :: string
  oo_tokenEndpoint :: string
  oo_registrationEndpoint :: string
  oo_resource :: string
  oo_scopes :: "string list"
  oo_secretRef :: "SecretRef option"
  oo_location :: "AuthLocation option"

record ConnectionAuth =
  ca_bearer :: "BearerAuth option"
  ca_oauth :: "OAuthAuth option"

record Endpoint =
  ep_url :: string
  ep_timeout :: "int option"
  ep_insecureSkipVerify :: bool
  ep_headers :: "(string \<times> string) list"

record ConnectionSpec =
  cs_createdBy :: string
  cs_lastModifiedBy :: string
  cs_endpoint :: Endpoint
  cs_auth :: "ConnectionAuth option"

record Connection =
  cn_namespace :: string
  cn_name :: string
  cn_spec :: ConnectionSpec

definition reservedAuthHeaders :: "string list" where
  "reservedAuthHeaders = [''Authorization'', ''Proxy-Authorization'', ''Host'', ''Content-Length'', ''Transfer-Encoding'', ''Connection'']"

definition SecretRecordKey :: string where
  "SecretRecordKey = ''credentials''"

definition McpSecretPath :: "string \<Rightarrow> string \<Rightarrow> string" where
  "McpSecretPath namespace name = namespace @ ''/'' @ ''mcp-connections'' @ ''/'' @ name"

definition canonical_name :: "string \<Rightarrow> string" where
  "canonical_name name = CanonicalHeaderKey (TrimSpace name)"

definition header_issues :: "field_path \<Rightarrow> string \<times> string \<Rightarrow> field_errors" where
  "header_issues path kv =
     (let (name, v) = kv; canonicalName = canonical_name name; headerPath = Key (Child path ''headers'') name in
      if canonicalName = [] then [FInvalid headerPath (BStr name) ''header name must not be empty'']
      else issue (canonicalName \<in> set reservedAuthHeaders)
             (FInvalid headerPath (BStr name) (''header '' @ canonicalName @ '' is reserved''))
           @ issue (TrimSpace v = []) (FInvalid headerPath (BStr v) ''header value must not be empty''))"

definition validateEndpoint :: "url_env \<Rightarrow> Endpoint \<Rightarrow> field_path \<Rightarrow> field_errors" where
  "validateEndpoint ue endpoint path =
     (let rawURL = TrimSpace (ep_url endpoint); urlPath = Child path ''url'' in
      if rawURL = [] then [FRequired urlPath ''field is required'']
      else case url_parse ue rawURL of
        None \<Rightarrow> [FInvalid urlPath (BStr (ep_url endpoint)) ''parse url'']
      | Some parsed \<Rightarrow>
          https_issues urlPath (ep_url endpoint) parsed @ concat (map (header_issues path) (ep_headers endpoint)))"

definition validateSecretRef :: "(string \<Rightarrow> bool) \<Rightarrow> string \<Rightarrow> string \<Rightarrow> SecretRef \<Rightarrow> field_path \<Rightarrow> field_errors" where
  "validateSecretRef uuid_ok namespace name ref path =
     (let wantPath = McpSecretPath namespace name;
          revision_ok = (case CutPrefix (sr_path ref) (wantPath @ ''/'') of None \<Rightarrow> False | Some revision \<Rightarrow> uuid_ok revision)
      in issue (sr_path ref = []) (FRequired (Child path ''path'') ''field is required'')
       @ issue (sr_key ref = []) (FRequired (Child path ''key'') ''field is required'')
       @ issue (sr_path ref \<noteq> TrimSpace (sr_path ref))
           (FInvalid (Child path ''path'') (BStr (sr_path ref)) ''path must not contain leading or trailing whitespace'')
       @ issue (sr_key ref \<noteq> TrimSpace (sr_key ref))
           (FInvalid (Child path ''key'') (BStr (sr_key ref)) ''key must not contain leading or trailing whitespace'')
       @ issue (sr_path ref \<noteq> [] \<and> sr_path ref \<noteq> wantPath \<and> \<not> revision_ok)
           (FInvalid (Child path ''path'') (BStr (sr_path ref)) (''must be '' @ wantPath))
       @ issue (sr_key ref \<noteq> [] \<and> sr_key ref \<noteq> SecretRecordKey)
           (FInvalid (Child path ''key'') (BStr (sr_key ref)) (''must be '' @ SecretRecordKey)))"

definition location_modes :: "AuthLocation \<Rightarrow> nat" where
  "location_modes l = (if al_header l \<noteq> None then 1 else 0) + (if al_query l \<noteq> None then 1 else 0)
     + (if al_cookie l \<noteq> None then 1 else 0)"

definition validateAuthLocation :: "AuthLocation option \<Rightarrow> field_path \<Rightarrow> field_errors" where
  "validateAuthLocation location path =
     (case location of
        None \<Rightarrow> []
      | Some l \<Rightarrow>
          (case al_header l of
             None \<Rightarrow> []
           | Some h \<Rightarrow>
               (let headerName = canonical_name (hl_name h); p = Child (Child path ''header'') ''name'' in
                issue (headerName = []) (FRequired p ''field is required'')
                @ issue (headerName \<in> set reservedAuthHeaders \<and> headerName \<noteq> ''Authorization'')
                    (FInvalid p (BStr (hl_name h)) (''header '' @ headerName @ '' is reserved''))))
          @ (case al_query l of None \<Rightarrow> []
             | Some q \<Rightarrow> issue (TrimSpace q = []) (FRequired (Child (Child path ''queryParameter'') ''name'') ''field is required''))
          @ (case al_cookie l of None \<Rightarrow> []
             | Some c \<Rightarrow> issue (TrimSpace c = []) (FRequired (Child (Child path ''cookie'') ''name'') ''field is required''))
          @ issue (location_modes l > 1)
              (FInvalid path (BStr ''multiple auth locations'') ''exactly one auth location may be configured''))"

definition secret_ref_issues ::
  "(string \<Rightarrow> bool) \<Rightarrow> string \<Rightarrow> string \<Rightarrow> SecretRef option \<Rightarrow> field_path \<Rightarrow> field_errors" where
  "secret_ref_issues uuid_ok namespace name ref path =
     (case ref of None \<Rightarrow> [] | Some r \<Rightarrow> validateSecretRef uuid_ok namespace name r (Child path ''secretRef''))"

definition validateBearerAuth :: "(string \<Rightarrow> bool) \<Rightarrow> string \<Rightarrow> string \<Rightarrow> BearerAuth \<Rightarrow> field_path \<Rightarrow> field_errors" where
  "validateBearerAuth uuid_ok namespace name auth path =
     secret_ref_issues uuid_ok namespace name (ba_secretRef auth) path
     @ validateAuthLocation (ba_location auth) (Child path ''location'')"

definition mcp_validateOptionalHTTPSURL :: "url_env \<Rightarrow> string \<Rightarrow> field_path \<Rightarrow> field_errors" where
  "mcp_validateOptionalHTTPSURL ue s path =
     (if TrimSpace s = [] then []
      else case url_parse ue (TrimSpace s) of
        None \<Rightarrow> [FInvalid path (BStr s) ''parse url'']
      | Some parsed \<Rightarrow> https_issues path s parsed)"

definition validateOAuthAuth ::
  "url_env \<Rightarrow> (string \<Rightarrow> bool) \<Rightarrow> string \<Rightarrow> string \<Rightarrow> OAuthAuth \<Rightarrow> field_path \<Rightarrow> field_errors" where
  "validateOAuthAuth ue uuid_ok namespace name auth path =
     mcp_validateOptionalHTTPSURL ue (oo_issuer auth) (Child path ''issuer'')
     @ mcp_validateOptionalHTTPSURL ue (oo_authorizationEndpoint auth) (Child path ''authorizationEndpoint'')
     @ mcp_validateOptionalHTTPSURL ue (oo_tokenEndpoint auth) (Child path ''tokenEndpoint'')
     @ mcp_validateOptionalHTTPSURL ue (oo_registrationEndpoint auth) (Child path ''registrationEndpoint'')
     @ mcp_validateOptionalHTTPSURL ue (oo_resource auth) (Child path ''resource'')
     @ concat_index 0 (\<lambda>i scope. issue (TrimSpace scope = [])
         (FInvalid (Index (Child path ''scopes'') i) (BStr scope) ''scope must not be empty'')) (oo_scopes auth)
     @ secret_ref_issues uuid_ok namespace name (oo_secretRef auth) path
     @ validateAuthLocation (oo_location auth) (Child path ''location'')"

definition validateAuth ::
  "url_env \<Rightarrow> (string \<Rightarrow> bool) \<Rightarrow> string \<Rightarrow> string \<Rightarrow> ConnectionAuth option \<Rightarrow> field_path \<Rightarrow> field_errors" where
  "validateAuth ue uuid_ok namespace name auth path =
     (case auth of
        None \<Rightarrow> []
      | Some a \<Rightarrow>
          (case ca_bearer a of None \<Rightarrow> [] | Some b \<Rightarrow> validateBearerAuth uuid_ok namespace name b (Child path ''bearer''))
          @ (case ca_oauth a of None \<Rightarrow> [] | Some oa \<Rightarrow> validateOAuthAuth ue uuid_ok namespace name oa (Child path ''oauth''))
          @ issue (ca_bearer a \<noteq> None \<and> ca_oauth a \<noteq> None)
              (FInvalid path (BStr ''multiple auth modes'') ''exactly one auth mode may be configured''))"

definition location_header :: "AuthLocation option \<Rightarrow> string option" where
  "location_header l = (case l of None \<Rightarrow> None | Some loc \<Rightarrow> map_option hl_name (al_header loc))"

text \<open>The header that carries the credential, if one is configured: bearer first, then OAuth.\<close>

definition auth_header :: "ConnectionAuth \<Rightarrow> string" where
  "auth_header a =
     (case (case ca_bearer a of None \<Rightarrow> None | Some b \<Rightarrow> location_header (ba_location b)) of
        Some n \<Rightarrow> n
      | None \<Rightarrow>
          (case (case ca_oauth a of None \<Rightarrow> None | Some oa \<Rightarrow> location_header (oo_location oa)) of
             Some n \<Rightarrow> n
           | None \<Rightarrow> []))"

definition validateAuthHeaderConflicts ::
  "(string \<times> string) list \<Rightarrow> ConnectionAuth option \<Rightarrow> field_path \<Rightarrow> field_errors" where
  "validateAuthHeaderConflicts headers auth path =
     (case auth of
        None \<Rightarrow> []
      | Some a \<Rightarrow>
          if TrimSpace (auth_header a) = [] then []
          else concat (map (\<lambda>(key, v). issue (canonical_name key = canonical_name (auth_header a))
                 (FInvalid (Key (Child (Child path ''endpoint'') ''headers'') key) (BStr key)
                    (''header '' @ canonical_name (auth_header a) @ '' conflicts with auth insertion location''))) headers))"

definition Validate_connection :: "url_env \<Rightarrow> (string \<Rightarrow> bool) \<Rightarrow> Connection \<Rightarrow> field_errors" where
  "Validate_connection ue uuid_ok conn =
     (let specPath = [PName ''spec'']; spec = cn_spec conn in
      validateEndpoint ue (cs_endpoint spec) (Child specPath ''endpoint'')
      @ validateAuth ue uuid_ok (cn_namespace conn) (cn_name conn) (cs_auth spec) (Child specPath ''auth'')
      @ validateAuthHeaderConflicts (ep_headers (cs_endpoint spec)) (cs_auth spec) specPath)"

text \<open>The old specification with the new credential references and actor.\<close>

definition rotated_auth :: "ConnectionAuth \<Rightarrow> ConnectionAuth \<Rightarrow> ConnectionAuth" where
  "rotated_auth old new =
     old\<lparr>ca_bearer := (case (ca_bearer old, ca_bearer new) of
            (Some b, Some b') \<Rightarrow> Some (b\<lparr>ba_secretRef := ba_secretRef b'\<rparr>) | _ \<Rightarrow> ca_bearer old),
         ca_oauth := (case (ca_oauth old, ca_oauth new) of
            (Some oa, Some oa') \<Rightarrow> Some (oa\<lparr>oo_secretRef := oo_secretRef oa'\<rparr>) | _ \<Rightarrow> ca_oauth old)\<rparr>"

definition rotated_spec :: "ConnectionSpec \<Rightarrow> ConnectionSpec \<Rightarrow> ConnectionSpec" where
  "rotated_spec old new =
     old\<lparr>cs_lastModifiedBy := cs_lastModifiedBy new,
         cs_auth := (case (cs_auth old, cs_auth new) of
            (Some a, Some a') \<Rightarrow> Some (rotated_auth a a') | _ \<Rightarrow> cs_auth old)\<rparr>"

definition ValidateUpdate_connection ::
  "url_env \<Rightarrow> (string \<Rightarrow> bool) \<Rightarrow> (ConnectionSpec \<Rightarrow> ConnectionSpec \<Rightarrow> bool) \<Rightarrow> Connection \<Rightarrow> Connection \<Rightarrow> field_errors" where
  "ValidateUpdate_connection ue uuid_ok sem old new =
     (let errs = Validate_connection ue uuid_ok new in
      if errs \<noteq> [] then errs
      else issue (\<not> sem (rotated_spec (cn_spec old) (cn_spec new)) (cn_spec new))
             (FForbidden [PName ''spec''] ''mcp connection spec is immutable after creation''))"

definition ValidateDelete_connection ::
  "(string \<Rightarrow> string \<Rightarrow> string list option) option \<Rightarrow> Connection \<Rightarrow> (string, unit) result" where
  "ValidateDelete_connection kubeClient conn =
     (case kubeClient of
        None \<Rightarrow> Ok ()
      | Some referencing \<Rightarrow>
          (case referencing (cn_namespace conn) (cn_name conn) of
             None \<Rightarrow> Err ''list referencing sandboxes''
           | Some names \<Rightarrow>
               if names = [] then Ok ()
               else Err (''mcp connection is referenced by sandboxes: '' @ Join '', '' names)))"

definition ApplyDefaults_connection :: "host_env \<Rightarrow> url_env \<Rightarrow> ConnectionSpec \<Rightarrow> ConnectionSpec" where
  "ApplyDefaults_connection env ue spec =
     (case url_parse ue (TrimSpace (ep_url (cs_endpoint spec))) of
        None \<Rightarrow> spec
      | Some parsed \<Rightarrow>
          (let lowered = parsed\<lparr>wu_host := ToLower (uni_lower env) (wu_host parsed)\<rparr>;
               final = (if wu_scheme lowered = ''https'' \<and> Port lowered = ''443''
                        then lowered\<lparr>wu_host := Hostname lowered\<rparr> else lowered)
           in spec\<lparr>cs_endpoint := (cs_endpoint spec)\<lparr>ep_url := url_string ue final\<rparr>\<rparr>))"

subsection \<open>Lemmas\<close>

lemma validateSecretRef_Nil:
  "validateSecretRef uuid_ok ns n ref path = [] \<longleftrightarrow>
     sr_key ref = SecretRecordKey \<and> sr_path ref \<noteq> [] \<and> sr_path ref = TrimSpace (sr_path ref) \<and>
     (sr_path ref = McpSecretPath ns n \<or> (\<exists>rv. uuid_ok rv \<and> sr_path ref = McpSecretPath ns n @ ''/'' @ rv))"
proof -
  have k: "SecretRecordKey = TrimSpace SecretRecordKey" "SecretRecordKey \<noteq> []"
    by (simp_all add: SecretRecordKey_def TrimSpace_visible visible_def)
  show ?thesis
    using k by (auto simp: validateSecretRef_def Let_def CutPrefix_Some split: option.splits) (auto simp: CutPrefix_def HasPrefix_iff)
qed

text \<open>The credential reference in use.\<close>

definition connection_ref :: "ConnectionSpec \<Rightarrow> SecretRef option" where
  "connection_ref spec = (case cs_auth spec of None \<Rightarrow> None
     | Some a \<Rightarrow> (case ca_bearer a of Some b \<Rightarrow> ba_secretRef b
                | None \<Rightarrow> (case ca_oauth a of Some oa \<Rightarrow> oo_secretRef oa | None \<Rightarrow> None)))"

lemma Validate_connection_ref:
  assumes "Validate_connection ue uuid_ok conn = []" "connection_ref (cn_spec conn) = Some ref"
  shows "validateSecretRef uuid_ok (cn_namespace conn) (cn_name conn) ref p = []"
proof -
  have "\<exists>p. validateSecretRef uuid_ok (cn_namespace conn) (cn_name conn) ref p = []"
    using assms
    by (auto simp: Validate_connection_def connection_ref_def validateAuth_def validateBearerAuth_def validateOAuthAuth_def
        secret_ref_issues_def Let_def split: option.splits)
  then show ?thesis by (simp add: validateSecretRef_Nil)
qed

lemma path_segments:
  assumes "CHR ''/'' \<notin> set ns" "CHR ''/'' \<notin> set n"
  shows "Split (CHR ''/'') (McpSecretPath ns n) = [ns, ''mcp-connections'', n]"
    "Split (CHR ''/'') (McpSecretPath ns n @ ''/'' @ rv) = [ns, ''mcp-connections'', n] @ Split (CHR ''/'') rv"
  using assms by (simp_all add: McpSecretPath_def Split_append Split_absent)

text \<open>C28. Two accepted connections never share a credential record: when the credential references of
  accepted connections have the same path, they are the same connection of the same namespace.
  Names of objects contain no slash. Nothing is assumed of \<open>uuid.Parse\<close>, which looks only at the middle of some
  texts: whatever it lets through as a revision, slashes included, stays below the path of its own connection.\<close>

theorem credential_paths_separate:
  assumes "Validate_connection ue uuid_ok c1 = []" "Validate_connection ue uuid_ok c2 = []"
    and "connection_ref (cn_spec c1) = Some r1" "connection_ref (cn_spec c2) = Some r2" "sr_path r1 = sr_path r2"
    and "CHR ''/'' \<notin> set (cn_namespace c1 @ cn_name c1 @ cn_namespace c2 @ cn_name c2)"
  shows "cn_namespace c1 = cn_namespace c2 \<and> cn_name c1 = cn_name c2"
proof -
  have "\<exists>tail. Split (CHR ''/'') (sr_path r) = [cn_namespace c, ''mcp-connections'', cn_name c] @ tail"
    if "Validate_connection ue uuid_ok c = []" "connection_ref (cn_spec c) = Some r"
      "CHR ''/'' \<notin> set (cn_namespace c)" "CHR ''/'' \<notin> set (cn_name c)" for c r
    using Validate_connection_ref [OF that(1,2), of "[]"] path_segments [OF that(3,4)]
    by (auto simp: validateSecretRef_Nil)
  from this [OF assms(1,3)] this [OF assms(2,4)] show ?thesis
    using assms(5,6) by auto
qed

definition sample_connection :: Connection where
  "sample_connection = \<lparr>cn_namespace = ''w'', cn_name = ''c'', cn_spec = \<lparr>cs_createdBy = ''u'', cs_lastModifiedBy = ''u'',
     cs_endpoint = \<lparr>ep_url = ''https://mcp.example.com'', ep_timeout = None, ep_insecureSkipVerify = False, ep_headers = [(''X-Team'', ''a'')]\<rparr>,
     cs_auth = Some \<lparr>ca_bearer = Some \<lparr>ba_secretRef = Some \<lparr>sr_path = ''w/mcp-connections/c'', sr_key = ''credentials''\<rparr>,
        ba_location = Some \<lparr>al_header = Some \<lparr>hl_name = ''x-api-key'', hl_prefix = None\<rparr>, al_query = None, al_cookie = None\<rparr>\<rparr>,
      ca_oauth = None\<rparr>\<rparr>\<rparr>"

definition sample_mcp_urls :: url_env where
  "sample_mcp_urls = \<lparr>url_parse = (\<lambda>_. Some \<lparr>wu_scheme = ''https'', wu_user = False, wu_host = ''mcp.example.com'', wu_rest = []\<rparr>),
     url_string = (\<lambda>_. [])\<rparr>"

text \<open>A revision in the longer form that \<open>uuid.Parse\<close> reads without its first and last byte.\<close>

definition revised_connection :: Connection where
  "revised_connection = sample_connection\<lparr>cn_spec := (cn_spec sample_connection)\<lparr>cs_auth := Some \<lparr>ca_bearer =
     Some \<lparr>ba_secretRef = Some \<lparr>sr_path = ''w/mcp-connections/c//7d4/'', sr_key = ''credentials''\<rparr>, ba_location = None\<rparr>,
     ca_oauth = None\<rparr>\<rparr>\<rparr>"

lemma sample_connection_valid:
  "Validate_connection sample_mcp_urls (\<lambda>s. s = ''/7d4/'') sample_connection = []"
  "Validate_connection sample_mcp_urls (\<lambda>s. s = ''/7d4/'') revised_connection = []"
  unfolding sample_mcp_urls_def by code_simp+

theorem credential_paths_separate_witness:
  "cn_name revised_connection = cn_name (revised_connection\<lparr>cn_name := ''c''\<rparr>)"
proof -
  have "revised_connection\<lparr>cn_name := ''c''\<rparr> = revised_connection" by (simp add: revised_connection_def sample_connection_def)
  then have v: "Validate_connection sample_mcp_urls (\<lambda>s. s = ''/7d4/'') (revised_connection\<lparr>cn_name := ''c''\<rparr>) = []"
    using sample_connection_valid(2) by simp
  show ?thesis
    using credential_paths_separate [OF sample_connection_valid(2) v]
    by (simp add: connection_ref_def revised_connection_def sample_connection_def)
qed

text \<open>Static headers of an accepted connection never interfere with its authentication: none is a
  reserved header, in particular none is \<open>Authorization\<close>, and none is the header that carries the
  credential, whatever the case or the surrounding blanks of their names; the endpoint is an HTTPS
  URL with a host and without credentials.\<close>

lemma headers_keep_credentials:
  assumes "Validate_connection ue uuid_ok conn = []" "(key, v) \<in> set (ep_headers (cs_endpoint (cn_spec conn)))"
  shows "canonical_name key \<notin> set reservedAuthHeaders \<and> canonical_name key \<noteq> [] \<and> TrimSpace v \<noteq> []
    \<and> (\<exists>u. url_parse ue (TrimSpace (ep_url (cs_endpoint (cn_spec conn)))) = Some u \<and> https_url u)
    \<and> (case cs_auth (cn_spec conn) of None \<Rightarrow> True
       | Some a \<Rightarrow> TrimSpace (auth_header a) = [] \<or> canonical_name key \<noteq> canonical_name (auth_header a))"
proof -
  let ?e = "cs_endpoint (cn_spec conn)"
  have ok: "validateEndpoint ue ?e (Child [PName ''spec''] ''endpoint'') = []"
    "validateAuthHeaderConflicts (ep_headers ?e) (cs_auth (cn_spec conn)) [PName ''spec''] = []"
    using assms(1) by (simp_all add: Validate_connection_def Let_def)
  from ok(1) obtain u where u: "url_parse ue (TrimSpace (ep_url ?e)) = Some u" "https_url u"
      "\<forall>kv\<in>set (ep_headers ?e). header_issues (Child [PName ''spec''] ''endpoint'') kv = []"
    by (auto simp: validateEndpoint_def Let_def https_issues_Nil split: option.splits if_splits)
  from u(3) assms(2) have "header_issues (Child [PName ''spec''] ''endpoint'') (key, v) = []" by blast
  then have "canonical_name key \<notin> set reservedAuthHeaders \<and> canonical_name key \<noteq> [] \<and> TrimSpace v \<noteq> []"
    by (auto simp: header_issues_def Let_def split: if_splits)
  moreover have "case cs_auth (cn_spec conn) of None \<Rightarrow> True
       | Some a \<Rightarrow> TrimSpace (auth_header a) = [] \<or> canonical_name key \<noteq> canonical_name (auth_header a)"
    using ok(2) assms(2) by (fastforce simp: validateAuthHeaderConflicts_def split: option.splits if_splits)
  ultimately show ?thesis using u by blast
qed

lemma forget_bearer_ref:
  "ba_secretRef_update f b = c \<Longrightarrow> c\<lparr>ba_secretRef := r\<rparr> = b\<lparr>ba_secretRef := r\<rparr>"
  by (auto simp: comp_def)

lemma forget_oauth_ref:
  "oo_secretRef_update f b = c \<Longrightarrow> c\<lparr>oo_secretRef := r\<rparr> = b\<lparr>oo_secretRef := r\<rparr>"
  by (auto simp: comp_def)

text \<open>After creation only the credential can be rotated: when an update is accepted, endpoint,
  headers, creator, authentication mode, OAuth metadata and insertion place are those of the old
  connection; at most the credential references and the last modifier differ.\<close>

lemma rotation_keeps_target:
  assumes "ValidateUpdate_connection ue uuid_ok sem old new = []" "\<forall>s t. sem s t \<longrightarrow> s = t"
  shows "cs_endpoint (cn_spec new) = cs_endpoint (cn_spec old) \<and> cs_createdBy (cn_spec new) = cs_createdBy (cn_spec old)
    \<and> map_option (\<lambda>a. (map_option (ba_secretRef_update (\<lambda>_. None)) (ca_bearer a),
          map_option (oo_secretRef_update (\<lambda>_. None)) (ca_oauth a))) (cs_auth (cn_spec new))
      = map_option (\<lambda>a. (map_option (ba_secretRef_update (\<lambda>_. None)) (ca_bearer a),
          map_option (oo_secretRef_update (\<lambda>_. None)) (ca_oauth a))) (cs_auth (cn_spec old))"
proof -
  have "rotated_spec (cn_spec old) (cn_spec new) = cn_spec new"
    using assms by (auto simp: ValidateUpdate_connection_def Let_def split: if_splits)
  then have eq: "cn_spec new = rotated_spec (cn_spec old) (cn_spec new)" ..
  have "cs_endpoint (cn_spec new) = cs_endpoint (cn_spec old)" "cs_createdBy (cn_spec new) = cs_createdBy (cn_spec old)"
    by (subst eq, simp add: rotated_spec_def)+
  moreover have "cs_auth (cn_spec new) = (case (cs_auth (cn_spec old), cs_auth (cn_spec new)) of
      (Some a, Some a') \<Rightarrow> Some (rotated_auth a a') | _ \<Rightarrow> cs_auth (cn_spec old))"
    by (subst eq) (simp add: rotated_spec_def)
  ultimately show ?thesis
    by (auto simp: rotated_auth_def split: option.splits dest: forget_bearer_ref forget_oauth_ref)
qed

end
