(* ===== verification/SandboxHost.thy ===== *)
theory SandboxHost
  imports SecretHost
begin

section \<open>Sandbox hosts\<close>

text \<open>
  Package \<open>internal/sandboxutil\<close>: the egress destinations a Sandbox may allow, as canonical host
  entries. Unlike the hosts of a secret, an address needs a prefix length and a trailing dot is
  not removed.
\<close>

datatype HostKind = HostKindCIDR | HostKindDomain | HostKindWildcard | HostKindDeepWildcard

record Host =
  h_kind :: HostKind
  h_value :: string

datatype sandbox_host_error =
    EmptyHost | InvalidCIDR | MissingPrefixLength | InvalidDomain | WildcardForm

definition validateDomain :: "host_env \<Rightarrow> string \<Rightarrow> sandbox_host_error option" where
  "validateDomain env v = (if dns1123 env v = [] then None else Some InvalidDomain)"

definition ParseHost :: "host_env \<Rightarrow> string \<Rightarrow> (sandbox_host_error, Host) result" where
  "ParseHost env e0 =
     (let v = TrimSpace e0 in
      if v = [] then Err EmptyHost
      else if Contains v ''/'' then
        (case ParsePrefix v of
           None \<Rightarrow> Err InvalidCIDR
         | Some p \<Rightarrow> Ok \<lparr>h_kind = HostKindCIDR, h_value = cidr_string (Masked p)\<rparr>)
      else if ParseAddr v \<noteq> None then Err MissingPrefixLength
      else
        (let w = ToLower (uni_lower env) v in
         case CutPrefix w ''**.'' of
           Some after \<Rightarrow>
             (case validateDomain env after of
                Some e \<Rightarrow> Err e
              | None \<Rightarrow> Ok \<lparr>h_kind = HostKindDeepWildcard, h_value = ''**.'' @ after\<rparr>)
         | None \<Rightarrow>
             (case CutPrefix w ''*.'' of
                Some after \<Rightarrow>
                  (case validateDomain env after of
                     Some e \<Rightarrow> Err e
                   | None \<Rightarrow> Ok \<lparr>h_kind = HostKindWildcard, h_value = ''*.'' @ after\<rparr>)
              | None \<Rightarrow>
                  if Contains w ''*'' then Err WildcardForm
                  else (case validateDomain env w of
                          Some e \<Rightarrow> Err e
                        | None \<Rightarrow> Ok \<lparr>h_kind = HostKindDomain, h_value = w\<rparr>))))"

fun host_list_loop :: "host_env \<Rightarrow> nat \<Rightarrow> Host list \<Rightarrow> string list \<Rightarrow> (nat \<times> sandbox_host_error, Host list) result" where
  "host_list_loop env i hosts [] = Ok hosts"
| "host_list_loop env i hosts (entry # rest) =
     (case ParseHost env entry of
        Inl e \<Rightarrow> Err (i, e)
      | Inr host \<Rightarrow>
          if h_value host \<in> set (map h_value hosts) then host_list_loop env (Suc i) hosts rest
          else host_list_loop env (Suc i) (hosts @ [host]) rest)"

definition ParseHostList :: "host_env \<Rightarrow> string list \<Rightarrow> (nat \<times> sandbox_host_error, Host list) result" where
  "ParseHostList env entries = map_sum id (sort_key h_value) (host_list_loop env 0 [] entries)"

subsection \<open>Lemmas\<close>

lemma Contains_single_iff: "Contains s [c] \<longleftrightarrow> c \<in> set s"
  by (rule Contains_single)

lemma validateDomain_dns: "dns1123_documented env \<Longrightarrow> validateDomain env d = None \<Longrightarrow> dns_name d"
  by (auto simp: validateDomain_def dns1123_documented_def split: if_splits)

lemma dns_no: "dns_name d \<Longrightarrow> CHR ''/'' \<notin> set d" "dns_name d \<Longrightarrow> CHR ''*'' \<notin> set d" "dns_name d \<Longrightarrow> CHR ''%'' \<notin> set d"
  by (auto dest!: dns_name_not simp: dns_char_def dns_alnum_def in_range_def)

lemma cidr_parse:
  assumes "cidr_wf p"
  shows "ParseHost env (cidr_string p) = Ok \<lparr>h_kind = HostKindCIDR, h_value = cidr_string (Masked p)\<rparr>"
proof -
  have "TrimSpace (cidr_string p) = cidr_string p" "cidr_string p \<noteq> []"
    using cidr_string_visible [OF assms] by (auto intro: TrimSpace_visible)
  moreover have "CHR ''/'' \<in> set (cidr_string p)" by (cases p) (simp add: cidr_string_def)
  ultimately show ?thesis
    by (simp add: ParseHost_def Contains_single_iff ParsePrefix_cidr_string [OF assms])
qed

lemma domain_parse:
  assumes "dns_name d" "dns1123 env d = []" "ParseAddr d = None"
  shows "ParseHost env d = Ok \<lparr>h_kind = HostKindDomain, h_value = d\<rparr>"
proof -
  have "TrimSpace d = d" "d \<noteq> []" "ToLower (uni_lower env) d = d"
    using assms(1) dns_name_visible dns_name_ToLower by (auto intro: TrimSpace_visible simp: dns_name_def)
  moreover have "CutPrefix d p = None" if "CHR ''*'' \<in> set p" for p
    using dns_no(2) [OF assms(1)] that by (auto simp: CutPrefix_def HasPrefix_iff)
  ultimately show ?thesis
    using assms dns_no [OF assms(1)] by (simp add: ParseHost_def Contains_single_iff validateDomain_def)
qed

lemma visible_append: "visible a \<Longrightarrow> visible b \<Longrightarrow> visible (a @ b)"
  by (auto simp: visible_def)

lemma wildcard_parse:
  assumes "dns_name d" "dns1123 env d = []" "stars = ''*.'' \<and> k = HostKindWildcard \<or> stars = ''**.'' \<and> k = HostKindDeepWildcard"
  shows "ParseHost env (stars @ d) = Ok \<lparr>h_kind = k, h_value = stars @ d\<rparr>"
proof -
  have v: "visible (stars @ d)"
    using assms(3) dns_name_visible [OF assms(1)] by (intro visible_append) (auto simp: visible_def)
  have low: "ToLower uni (stars @ d) = stars @ d" for uni
  proof -
    have "list_all is_ascii (stars @ d)" "map ascii_lower (stars @ d) = stars @ d"
      using v assms(3) dns_name_ToLower [OF assms(1), of "\<lambda>s. s"]
      by (auto simp: visible_def list_all_iff ToLower_def ascii_lower_def in_range_def split: if_splits)
    then show ?thesis by (simp add: ToLower_def)
  qed
  have "ParseAddr (stars @ d) = None"
    using assms(3) star_ParseAddr [OF assms(1), of "''.''"] star_ParseAddr [OF assms(1), of "''*.''"] by auto
  moreover have "CutPrefix (''*.'' @ d) ''**.'' = None"
    using assms(1) by (auto simp: CutPrefix_def HasPrefix_iff)
  moreover have "\<not> Contains (stars @ d) ''/''" "stars @ d \<noteq> []"
    using assms(3) dns_no(1) [OF assms(1)] by (auto simp: Contains_single_iff)
  moreover have "CutPrefix (''*.'' @ d) ''*.'' = Some d" "CutPrefix (''**.'' @ d) ''**.'' = Some d"
    by (simp_all add: CutPrefix_def HasPrefix_iff)
  ultimately have "ParseHost env (stars @ d) = (case CutPrefix (stars @ d) ''**.'' of
      Some after \<Rightarrow> Ok \<lparr>h_kind = HostKindDeepWildcard, h_value = ''**.'' @ d\<rparr>
    | None \<Rightarrow> Ok \<lparr>h_kind = HostKindWildcard, h_value = ''*.'' @ d\<rparr>)"
    "CutPrefix (''*.'' @ d) ''**.'' = None" "CutPrefix (''**.'' @ d) ''**.'' = Some d"
    using assms(2,3) TrimSpace_visible [OF v] low [of "uni_lower env"]
    by (elim disjE conjE; simp add: ParseHost_def validateDomain_def)+
  with assms(3) show ?thesis by (elim disjE conjE; simp)
qed

text \<open>The result of parsing an entry, by kind. ASCII entries: other ones go through the case tables.\<close>

lemma ascii_lower_ParseAddr:
  assumes "list_all is_ascii v" "dns_name (map ascii_lower v)" "ParseAddr v = None"
  shows "ParseAddr (map ascii_lower v) = None"
proof (rule ccontr)
  let ?w = "map ascii_lower v"
  assume n: "ParseAddr ?w \<noteq> None"
  have no: "CHR '':'' \<notin> set ?w" "CHR ''%'' \<notin> set ?w"
    using dns_name_not [OF assms(2)] by (auto simp: dns_char_def dns_alnum_def in_range_def)
  have find_dot: "find (\<lambda>c. c = CHR ''.'' \<or> c = CHR '':'' \<or> c = CHR ''%'') s \<in> {None, Some (CHR ''.'')}"
    if "CHR '':'' \<notin> set s" "CHR ''%'' \<notin> set s" for s
    using that by (induction s) auto
  have "parse_v4_fields ?w \<noteq> None"
    using n find_dot [OF no] by (auto simp: ParseAddr_def split: option.splits)
  then obtain fs where "parse_v4_loop [] 0 0 ?w = Some fs" by (auto simp: parse_v4_fields_def)
  then have digits: "\<forall>c\<in>set ?w. is_digit c \<or> c = CHR ''.''"
  proof -
    have "parse_v4_loop fs0 val len s = Some fs1 \<Longrightarrow> \<forall>c\<in>set s. is_digit c \<or> c = CHR ''.''" for fs0 val len s fs1
      by (induction fs0 val len s rule: parse_v4_loop.induct) (auto simp: Let_def split: if_splits)
    then show "parse_v4_loop [] 0 0 ?w = Some fs \<Longrightarrow> ?thesis" by blast
  qed
  have "ascii_lower c = c" if "c \<in> set v" for c
  proof (rule ccontr)
    assume "ascii_lower c \<noteq> c"
    then have u: "is_upper c" using ascii_lower_id by blast
    then have "byte (ascii_lower c) = byte c + 32" by (auto simp: ascii_lower_def in_range_def)
    moreover have "is_digit (ascii_lower c) \<or> ascii_lower c = CHR ''.''" using digits that by simp
    ultimately show False using u by (auto simp: in_range_def)
  qed
  then have "?w = v" by (simp add: map_idI)
  then show False using n assms(3) by simp
qed

text \<open>Canonical sandbox hosts are stable: the value stored for an ASCII entry parses again to the
  same host, so storing, defaulting and reconciling a Sandbox repeatedly never changes it.\<close>

lemma ParseHost_canonical:
  assumes "dns1123_documented env" "list_all is_ascii e0" "ParseHost env e0 = Ok h"
  shows "ParseHost env (h_value h) = Ok h"
proof -
  let ?v = "TrimSpace e0"
  have a: "list_all is_ascii ?v" using assms(2) set_TrimSpace [of e0] by (auto simp: list_all_iff)
  then have w: "ToLower (uni_lower env) ?v = map ascii_lower ?v" by (rule ToLower_ascii)
  consider (cidr) p where "ParsePrefix ?v = Some p" "h = \<lparr>h_kind = HostKindCIDR, h_value = cidr_string (Masked p)\<rparr>"
    | (star) d stars k where "h = \<lparr>h_kind = k, h_value = stars @ d\<rparr>" "validateDomain env d = None"
        "stars = ''*.'' \<and> k = HostKindWildcard \<or> stars = ''**.'' \<and> k = HostKindDeepWildcard"
    | (domain) "h = \<lparr>h_kind = HostKindDomain, h_value = map ascii_lower ?v\<rparr>"
        "validateDomain env (map ascii_lower ?v) = None" "ParseAddr ?v = None"
    using assms(3) unfolding ParseHost_def Let_def w
    by (auto split: if_splits option.splits)
  then show ?thesis
  proof cases
    case (cidr p)
    then show ?thesis using cidr_parse [OF Masked_wf [OF ParsePrefix_wf [OF cidr(1)]]] by simp
  next
    case (star d stars k)
    have "dns_name d" by (rule validateDomain_dns [OF assms(1) star(2)])
    from wildcard_parse [OF this _ star(3)] star show ?thesis by (simp add: validateDomain_def split: if_splits)
  next
    case domain
    have d: "dns_name (map ascii_lower ?v)" by (rule validateDomain_dns [OF assms(1) domain(2)])
    from domain_parse [OF this _ ascii_lower_ParseAddr [OF a d domain(3)]] domain show ?thesis
      by (simp add: validateDomain_def split: if_splits)
  qed
qed

lemma host_list_loop_Ok:
  assumes "host_list_loop env i hosts entries = Ok out" "distinct (map h_value hosts)"
  shows "distinct (map h_value out)
    \<and> set out \<subseteq> set hosts \<union> {h. \<exists>e\<in>set entries. ParseHost env e = Ok h}
    \<and> set (map h_value out) = set (map h_value hosts) \<union> {v. \<exists>e\<in>set entries. \<exists>h. ParseHost env e = Ok h \<and> v = h_value h}
    \<and> list_all (\<lambda>e. is_ok (ParseHost env e)) entries"
  using assms
proof (induction entries arbitrary: i hosts)
  case (Cons e es)
  obtain h where h: "ParseHost env e = Ok h"
    using Cons.prems(1) by (auto split: sum.splits)
  show ?case
  proof (cases "h_value h \<in> set (map h_value hosts)")
    case True
    then show ?thesis using Cons.prems Cons.IH [of "Suc i" hosts] h by auto
  next
    case False
    then show ?thesis using Cons.prems Cons.IH [of "Suc i" "hosts @ [h]"] h by auto
  qed
qed simp

lemma ParseHostList_Ok:
  assumes "ParseHostList env entries = Ok out"
  shows "distinct (map h_value out)" "sorted (map h_value out)"
    "set out \<subseteq> {h. \<exists>e\<in>set entries. ParseHost env e = Ok h}"
    "set (map h_value out) = {v. \<exists>e\<in>set entries. \<exists>h. ParseHost env e = Ok h \<and> v = h_value h}"
proof -
  obtain hs where hs: "host_list_loop env 0 [] entries = Ok hs" "out = sort_key h_value hs"
    using assms by (auto simp: ParseHostList_def map_sum_def split: sum.splits)
  note l = host_list_loop_Ok [OF hs(1)]
  have "distinct (map h_value hs)" using l by simp
  then show "distinct (map h_value out)"
    unfolding hs(2) by (metis distinct_map distinct_sort set_sort)
  show "sorted (map h_value out)" unfolding hs(2) by simp
  show "set out \<subseteq> {h. \<exists>e\<in>set entries. ParseHost env e = Ok h}" using l unfolding hs(2) by auto
  show "set (map h_value out) = {v. \<exists>e\<in>set entries. \<exists>h. ParseHost env e = Ok h \<and> v = h_value h}"
    using l unfolding hs(2) by simp
qed

end
