(* ===== verification/NetworkPolicy.thy ===== *)
theory NetworkPolicy
  imports Url SandboxHost "HOL-Library.Product_Lexorder"
begin

section \<open>Cilium egress rules\<close>

text \<open>
  Package \<open>internal/networkpolicy\<close>: the egress rules built for exact TCP destinations and
  Kubernetes Services. A rule of Cilium's policy API has the destinations it selects and the
  ports and DNS names it restricts them to; a list of rules permits what any of them permits.
\<close>

datatype selector = MatchName string | MatchPattern string

datatype protocol = TCP | UDP | AnyProtocol

record port_rule =
  pr_ports :: "(string \<times> protocol) list"
  pr_dns :: "selector list option"

type_synonym labels = "(string \<times> string) list"

record egress_rule =
  eg_fqdns :: "selector list"
  eg_cidrs :: "string list"
  eg_services :: "(string \<times> string) list"
  eg_endpoints :: "labels list"
  eg_ports :: "port_rule list"

definition no_egress :: egress_rule where
  "no_egress = \<lparr>eg_fqdns = [], eg_cidrs = [], eg_services = [], eg_endpoints = [], eg_ports = []\<rparr>"

text \<open>A destination: host and \<open>int32\<close> port, the port as an integer within its range.\<close>

type_synonym target = "string \<times> int"

datatype target_error = UrlParse | UrlScheme | UrlNoHost | PortSyntax | PortRange

definition URLTarget :: "url_env \<Rightarrow> string \<Rightarrow> (target_error, target) result" where
  "URLTarget ue s =
     (case url_parse ue s of
        None \<Rightarrow> Err UrlParse
      | Some u \<Rightarrow>
          if wu_scheme u \<noteq> ''http'' \<and> wu_scheme u \<noteq> ''https'' then Err UrlScheme
          else if Hostname u = [] then Err UrlNoHost
          else if Port u = [] then Ok (Hostname u, if wu_scheme u = ''http'' then 80 else 443)
          else if \<not> list_all is_digit (Port u) \<or> dec_val (Port u) > 2147483647 then Err PortSyntax
          else if dec_val (Port u) < 1 \<or> dec_val (Port u) > 65535 then Err PortRange
          else Ok (Hostname u, int (dec_val (Port u))))"

definition dnsEndpointSelector :: labels where
  "dnsEndpointSelector = [(''k8s:io.kubernetes.pod.namespace'', ''kube-system''), (''k8s:k8s-app'', ''kube-dns'')]"

definition dnsPorts :: "(string \<times> protocol) list" where
  "dnsPorts = [(''53'', UDP), (''53'', TCP)]"

definition dns_rule :: "selector list \<Rightarrow> egress_rule" where
  "dns_rule names = no_egress\<lparr>eg_endpoints := [dnsEndpointSelector], eg_ports := [\<lparr>pr_ports = dnsPorts, pr_dns = Some names\<rparr>]\<rparr>"

definition ServiceEgress :: "string \<Rightarrow> string \<Rightarrow> int \<Rightarrow> int list \<Rightarrow> egress_rule list" where
  "ServiceEgress namespace name port morePorts =
     [no_egress\<lparr>eg_services := [(namespace, name)],
        eg_ports := [\<lparr>pr_ports = map (\<lambda>p. (int_str p, TCP)) (port # morePorts), pr_dns = None\<rparr>]\<rparr>,
      dns_rule [MatchName (name @ ''.'' @ namespace @ ''.svc.cluster.local'')]]"

text \<open>The Kubernetes Service a host names, if it has the form \<open>name.namespace.svc.cluster.local\<close>.\<close>

definition service_of_host :: "string \<Rightarrow> (string \<times> string) option" where
  "service_of_host host =
     (case CutSuffix (TrimSuffix host ''.'') ''.svc.cluster.local'' of
        None \<Rightarrow> None
      | Some p \<Rightarrow>
          (let (name, namespace, found) = Cut p ''.'' in
           if found \<and> name \<noteq> [] \<and> namespace \<noteq> [] \<and> \<not> Contains namespace ''.'' then Some (namespace, name) else None))"

definition strip_zone :: "addr \<Rightarrow> addr" where
  "strip_zone a = (case a of V4 w \<Rightarrow> V4 w | V6 w _ \<Rightarrow> V6 w [])"

text \<open>\<open>netip.PrefixFrom\<close>, which drops the zone.\<close>

definition PrefixFrom :: "addr \<Rightarrow> nat \<Rightarrow> cidr" where
  "PrefixFrom a bits = Cidr (strip_zone a) bits"

definition tcp_port :: "int \<Rightarrow> port_rule list" where
  "tcp_port port = [\<lparr>pr_ports = [(int_str port, TCP)], pr_dns = None\<rparr>]"

definition external_rules :: "target \<Rightarrow> egress_rule list" where
  "external_rules t =
     (case service_of_host (fst t) of
        Some (namespace, name) \<Rightarrow> ServiceEgress namespace name (snd t) []
      | None \<Rightarrow>
          (case ParseAddr (fst t) of
             Some a \<Rightarrow> [no_egress\<lparr>eg_cidrs := [cidr_string (PrefixFrom a (bit_len a))], eg_ports := tcp_port (snd t)\<rparr>]
           | None \<Rightarrow> [no_egress\<lparr>eg_fqdns := [MatchName (fst t)], eg_ports := tcp_port (snd t)\<rparr>]))"

definition external_dns :: "target \<Rightarrow> selector list" where
  "external_dns t = (if service_of_host (fst t) = None \<and> ParseAddr (fst t) = None then [MatchName (fst t)] else [])"

text \<open>\<open>slices.Compact\<close> drops elements equal to their predecessor.\<close>

fun compact :: "'a list \<Rightarrow> 'a list" where
  "compact (x # y # zs) = (if x = y then compact (y # zs) else x # compact (y # zs))"
| "compact xs = xs"

definition ExternalEgress :: "target list \<Rightarrow> egress_rule list" where
  "ExternalEgress targets =
     (let ts = compact (sort targets); rules = concat (map external_rules ts); dns = concat (map external_dns ts)
      in if dns = [] then rules else rules @ [dns_rule dns])"

subsection \<open>Lemmas\<close>

lemma set_compact [simp]: "set (compact xs) = set xs"
  by (induction xs rule: compact.induct) auto

lemma compact_sorted: "sorted xs \<Longrightarrow> sorted (compact xs) \<and> distinct (compact xs)"
proof (induction xs rule: compact.induct)
  case (1 x y zs)
  then have IH: "sorted (compact (y # zs)) \<and> distinct (compact (y # zs))" by (auto split: if_splits)
  show ?case
  proof (cases "x = y")
    case False
    with 1(3) have "x < y" "\<forall>z\<in>set zs. y \<le> z" by auto
    then have "x \<notin> set (compact (y # zs))" "\<forall>z\<in>set (compact (y # zs)). x \<le> z" by auto
    with IH False show ?thesis by simp
  qed (use IH in simp)
qed simp_all

text \<open>What a rule permits beyond name resolution: a TCP connection to a name, a network or a Service.\<close>

datatype destination = ToName selector | ToNetwork string | ToService string string

definition rule_ports :: "egress_rule \<Rightarrow> (string \<times> protocol) set" where
  "rule_ports r = set (concat (map pr_ports (eg_ports r)))"

definition rule_permits :: "egress_rule \<Rightarrow> destination \<Rightarrow> string \<Rightarrow> bool" where
  "rule_permits r d port \<longleftrightarrow> (port, TCP) \<in> rule_ports r \<and>
     (case d of ToName s \<Rightarrow> s \<in> set (eg_fqdns r) | ToNetwork c \<Rightarrow> c \<in> set (eg_cidrs r)
      | ToService ns n \<Rightarrow> (ns, n) \<in> set (eg_services r))"

definition permits :: "egress_rule list \<Rightarrow> destination \<Rightarrow> string \<Rightarrow> bool" where
  "permits rules d port \<longleftrightarrow> list_ex (\<lambda>r. rule_permits r d port) rules"

definition resolvable :: "egress_rule list \<Rightarrow> string \<Rightarrow> bool" where
  "resolvable rules name \<longleftrightarrow> (\<exists>r\<in>set rules. dnsEndpointSelector \<in> set (eg_endpoints r)
     \<and> (\<exists>p\<in>set (eg_ports r). \<exists>names. pr_dns p = Some names \<and> MatchName name \<in> set names))"

definition target_destination :: "string \<Rightarrow> destination" where
  "target_destination host = (case service_of_host host of
      Some (ns, n) \<Rightarrow> ToService ns n
    | None \<Rightarrow> (case ParseAddr host of Some a \<Rightarrow> ToNetwork (cidr_string (PrefixFrom a (bit_len a)))
             | None \<Rightarrow> ToName (MatchName host)))"

lemma permits_append: "permits (rs @ qs) d p \<longleftrightarrow> permits rs d p \<or> permits qs d p"
  by (simp add: permits_def)

lemma permits_dns: "\<not> rule_permits (dns_rule names) d p"
  by (cases d) (simp_all add: rule_permits_def dns_rule_def no_egress_def)

lemma permits_external: "permits (external_rules t) d p \<longleftrightarrow> d = target_destination (fst t) \<and> p = int_str (snd t)"
proof (cases "service_of_host (fst t)")
  case None
  show ?thesis
    by (cases "ParseAddr (fst t)"; cases d)
       (auto simp: None external_rules_def permits_def target_destination_def no_egress_def rule_permits_def
         rule_ports_def tcp_port_def)
next
  case (Some s)
  show ?thesis
    by (cases s; cases d)
       (auto simp: Some external_rules_def permits_def target_destination_def no_egress_def rule_permits_def
         rule_ports_def ServiceEgress_def dns_rule_def)
qed

lemma permits_concat: "permits (concat (map f ts)) d p \<longleftrightarrow> (\<exists>t\<in>set ts. permits (f t) d p)"
  by (auto simp: permits_def list_ex_iff)

text \<open>The external egress rules permit exactly the given destinations: a TCP connection is permitted
  to the Service, network or name of a target on that target's port and to nothing else, and every
  name that is permitted can be resolved.\<close>

lemma ExternalEgress_exact:
  "(permits (ExternalEgress targets) d p \<longleftrightarrow>
      (\<exists>host port. (host, port) \<in> set targets \<and> d = target_destination host \<and> p = int_str port))
   \<and> \<not> (permits (ExternalEgress targets) (ToName (MatchName name)) p \<and> \<not> resolvable (ExternalEgress targets) name)"
proof -
  let ?ts = "compact (sort targets)"
  let ?dns = "concat (map external_dns ?ts)"
  have iff: "permits (ExternalEgress targets) d p \<longleftrightarrow>
      (\<exists>host port. (host, port) \<in> set targets \<and> d = target_destination host \<and> p = int_str port)" for d
    unfolding ExternalEgress_def Let_def
    by (auto simp: permits_append permits_dns permits_concat permits_external permits_def [of "[dns_rule _]"] Bex_def)
  have "resolvable (ExternalEgress targets) name" if pm: "permits (ExternalEgress targets) (ToName (MatchName name)) p"
  proof -
    obtain host port where t: "(host, port) \<in> set ?ts" "ToName (MatchName name) = target_destination host"
      using pm unfolding iff by auto
    then have "external_dns (host, port) = [MatchName name]"
      by (auto simp: target_destination_def external_dns_def split: option.splits)
    then have n: "MatchName name \<in> set ?dns" using t(1) by force
    then have "dns_rule ?dns \<in> set (ExternalEgress targets)"
      by (auto simp: ExternalEgress_def Let_def)
    then show ?thesis
      using n unfolding resolvable_def by (intro bexI [of _ "dns_rule ?dns"]) (simp_all add: dns_rule_def no_egress_def)
  qed
  with iff show ?thesis by blast
qed

text \<open>A URL target is the URL's host with a port between 1 and 65535, the scheme's own when the URL
  names none.\<close>

lemma URLTarget_port:
  assumes "URLTarget ue s = Ok (host, port)"
  shows "1 \<le> port \<and> port \<le> 65535 \<and> host \<noteq> [] \<and>
    (\<exists>u. url_parse ue s = Some u \<and> host = Hostname u \<and> wu_scheme u \<in> {''http'', ''https''} \<and>
       (if Port u = [] then port = (if wu_scheme u = ''http'' then 80 else 443) else port = int (dec_val (Port u))))"
proof -
  obtain u where "url_parse ue s = Some u" using assms by (auto simp: URLTarget_def split: option.splits)
  then show ?thesis using assms by (auto simp: URLTarget_def split: if_splits)
qed

end
