(* ===== verification/Egress.thy ===== *)
theory Egress
  imports NetworkPolicy Encoding
begin

section \<open>The egress policy of an Agent\<close>

text \<open>
  The Cilium policy the agent controller generates for an Agent's pods
  (\<open>internal/controller/agent/egress.go\<close>): the Sandbox's allowed hosts, the platform's own
  endpoints, DNS for exactly those names, and the Agent's secret proxy. Of the Agent, the resolved
  Sandbox configuration and the controller configuration, the records hold what the policy
  depends on; the stored policies are a map from namespace and name.
\<close>

record egress_agent =
  ea_namespace :: string
  ea_name :: string
  ea_labels :: labels
  ea_annotations :: labels
  ea_telemetryEnabled :: bool
  ea_traceEndpoint :: string

record egress_config =
  ec_allowedHosts :: "string list"
  ec_mcpURL :: string
  ec_inferenceURL :: string

record egress_env =
  ee_host :: host_env
  ee_url :: url_env
  ee_gatewayURL :: string

definition parseEndpointURL :: "egress_env \<Rightarrow> string \<Rightarrow> web_url option" where
  "parseEndpointURL env endpoint =
     (let s = TrimSpace endpoint in
      if s = [] then None
      else url_parse (ee_url env) (if Contains s ''://'' then s else ''http://'' @ s))"

definition endpointHost :: "egress_env \<Rightarrow> string \<Rightarrow> string" where
  "endpointHost env endpoint =
     (case parseEndpointURL env endpoint of
        None \<Rightarrow> []
      | Some parsed \<Rightarrow>
          (let host = Trim (Hostname parsed) ''[]'' in if host = [] \<or> host = ''localhost'' then [] else host))"

record serviceEgressTarget =
  st_name :: string
  st_namespace :: string
  st_port :: string

definition parseServiceEgressTarget :: "egress_env \<Rightarrow> string \<Rightarrow> serviceEgressTarget option" where
  "parseServiceEgressTarget env endpoint =
     (case parseEndpointURL env endpoint of
        None \<Rightarrow> None
      | Some parsed \<Rightarrow>
          (let host = ToLower (uni_lower (ee_host env)) (Trim (Hostname parsed) ''[]'');
               parts = Split (CHR ''.'') host;
               port = (if Port parsed = []
                       then (if ToLower (uni_lower (ee_host env)) (wu_scheme parsed) = ''https'' then ''443'' else ''80'')
                       else Port parsed)
           in if length parts \<noteq> 5 then None
              else if parts ! 2 \<noteq> ''svc'' \<or> parts ! 3 \<noteq> ''cluster'' \<or> parts ! 4 \<noteq> ''local'' then None
              else if parts ! 0 = [] \<or> parts ! 1 = [] then None
              else if \<not> list_all is_digit port \<or> dec_val port > 65535 then None
              else Some \<lparr>st_name = parts ! 0, st_namespace = parts ! 1, st_port = port\<rparr>))"

definition dnsHostForEndpoint :: "egress_env \<Rightarrow> string \<Rightarrow> Host list" where
  "dnsHostForEndpoint env endpoint =
     (let host = endpointHost env endpoint in
      if host = [] then []
      else case ParseAddr host of
        Some a \<Rightarrow> [\<lparr>h_kind = HostKindCIDR, h_value = cidr_string (PrefixFrom a (bit_len a))\<rparr>]
      | None \<Rightarrow> (case ParseHost (ee_host env) host of Inl e \<Rightarrow> [] | Inr parsed \<Rightarrow> [parsed]))"

definition egressHostForEndpoint :: "egress_env \<Rightarrow> string \<Rightarrow> Host list" where
  "egressHostForEndpoint env endpoint =
     (case parseServiceEgressTarget env endpoint of Some t \<Rightarrow> [] | None \<Rightarrow> dnsHostForEndpoint env endpoint)"

fun keep_new :: "'a list \<Rightarrow> 'a list \<Rightarrow> 'a list" where
  "keep_new seen [] = []"
| "keep_new seen (x # xs) = (if x \<in> set seen then keep_new seen xs else x # keep_new (x # seen) xs)"

definition uniqueHosts :: "Host list \<Rightarrow> Host list" where
  "uniqueHosts hosts = keep_new [] hosts"

fun name_selector :: "Host \<Rightarrow> selector list" where
  "name_selector h = (case h_kind h of
      HostKindDomain \<Rightarrow> [MatchName (h_value h)]
    | HostKindWildcard \<Rightarrow> [MatchPattern (h_value h)]
    | HostKindDeepWildcard \<Rightarrow> [MatchPattern (h_value h)]
    | HostKindCIDR \<Rightarrow> [])"

definition cidr_of_host :: "Host \<Rightarrow> string list" where
  "cidr_of_host h = (if h_kind h = HostKindCIDR then [h_value h] else [])"

definition agent_dns_selector :: labels where
  "agent_dns_selector = [(''io.kubernetes.pod.namespace'', ''kube-system''), (''k8s-app'', ''kube-dns'')]"

definition dnsEgressRule :: "Host list \<Rightarrow> egress_rule option" where
  "dnsEgressRule hosts =
     (let dns = concat (map name_selector hosts) in
      if dns = [] then None
      else Some (no_egress\<lparr>eg_endpoints := [agent_dns_selector],
                   eg_ports := [\<lparr>pr_ports = [(''53'', AnyProtocol)], pr_dns = Some dns\<rparr>]\<rparr>))"

definition buildHostEgressRules :: "Host list \<Rightarrow> Host list \<Rightarrow> egress_rule list" where
  "buildHostEgressRules hosts dnsHosts =
     (let fqdns = concat (map name_selector hosts); cidrs = concat (map cidr_of_host hosts) in
      (case dnsEgressRule dnsHosts of None \<Rightarrow> [] | Some r \<Rightarrow> [r])
      @ (if fqdns \<noteq> [] then [no_egress\<lparr>eg_fqdns := fqdns\<rparr>] else [])
      @ (if cidrs \<noteq> [] then [no_egress\<lparr>eg_cidrs := cidrs\<rparr>] else []))"

definition service_rule :: "serviceEgressTarget \<Rightarrow> egress_rule" where
  "service_rule t = no_egress\<lparr>eg_services := [(st_namespace t, st_name t)],
     eg_ports := [\<lparr>pr_ports = [(st_port t, TCP)], pr_dns = None\<rparr>]\<rparr>"

definition serviceEgressRules :: "egress_env \<Rightarrow> string list \<Rightarrow> egress_rule list" where
  "serviceEgressRules env endpoints = map service_rule (keep_new [] (List.map_filter (parseServiceEgressTarget env) endpoints))"

definition gatewayEgressRule :: "string \<Rightarrow> string \<Rightarrow> egress_rule" where
  "gatewayEgressRule namespace gatewayName =
     no_egress\<lparr>eg_endpoints := [[(''io.kubernetes.pod.namespace'', namespace), (''app.kubernetes.io/name'', gatewayName),
         (''app.kubernetes.io/instance'', gatewayName), (''gateway.networking.k8s.io/gateway-name'', gatewayName)]],
       eg_ports := [\<lparr>pr_ports = [(''80'', TCP)], pr_dns = None\<rparr>]\<rparr>"

definition sinjectorEgressRule :: "egress_agent \<Rightarrow> egress_rule" where
  "sinjectorEgressRule agt =
     no_egress\<lparr>eg_endpoints := [[(''io.kubernetes.pod.namespace'', ea_namespace agt), (''agentz.accuknox.com/sinjector'', ea_name agt)]],
       eg_ports := [\<lparr>pr_ports = [(''4096'', TCP)], pr_dns = None\<rparr>]\<rparr>"

definition GatewayName :: string where
  "GatewayName = ''inference''"

definition proxyAddress :: "egress_agent \<Rightarrow> string" where
  "proxyAddress agt = ''http://'' @ ea_name agt @ ''-sinjector'' @ ''.'' @ ea_namespace agt @ ''.svc.cluster.local:4096''"

record policy_spec =
  ps_selector :: labels
  ps_egress :: "egress_rule list"

definition egress_hosts :: "egress_env \<Rightarrow> egress_agent \<Rightarrow> Host list \<Rightarrow> Host list" where
  "egress_hosts env agt hosts =
     hosts @ (if ea_telemetryEnabled agt then egressHostForEndpoint env (ea_traceEndpoint agt) else [])
     @ egressHostForEndpoint env (ee_gatewayURL env)"

definition dns_hosts :: "egress_env \<Rightarrow> egress_agent \<Rightarrow> egress_config \<Rightarrow> Host list \<Rightarrow> Host list" where
  "dns_hosts env agt cfg hosts =
     hosts @ (if ea_telemetryEnabled agt then dnsHostForEndpoint env (ea_traceEndpoint agt) else [])
     @ dnsHostForEndpoint env (ee_gatewayURL env) @ dnsHostForEndpoint env (proxyAddress agt)
     @ dnsHostForEndpoint env (ec_mcpURL cfg) @ dnsHostForEndpoint env (ec_inferenceURL cfg)"

definition buildEgressPolicySpec ::
  "egress_env \<Rightarrow> egress_agent \<Rightarrow> egress_config \<Rightarrow> (nat \<times> sandbox_host_error, policy_spec) result" where
  "buildEgressPolicySpec env agt cfg =
     (case ParseHostList (ee_host env) (ec_allowedHosts cfg) of
        Inl e \<Rightarrow> Err e
      | Inr hosts \<Rightarrow> Ok
          \<lparr>ps_selector = [(''agentz.accuknox.com/agent'', ea_name agt)],
           ps_egress =
             buildHostEgressRules (uniqueHosts (egress_hosts env agt hosts)) (uniqueHosts (dns_hosts env agt cfg hosts))
             @ serviceEgressRules env [ee_gatewayURL env, ea_traceEndpoint agt]
             @ (if ec_mcpURL cfg \<noteq> [] then serviceEgressRules env [ec_mcpURL cfg] else [])
             @ (if ec_inferenceURL cfg = [] then [gatewayEgressRule (ea_namespace agt) GatewayName] else [])
             @ (if ec_inferenceURL cfg \<noteq> [] then serviceEgressRules env [ec_inferenceURL cfg] else [])
             @ [sinjectorEgressRule agt]\<rparr>)"

text \<open>Reconciling: the API calls may fail; \<open>del\<close> and \<open>put\<close> are their outcomes. A call whose answer is lost has
  its effect and still returns an error.\<close>

record stored_policy =
  sp_labels :: labels
  sp_annotations :: labels
  sp_policy :: policy_spec

datatype api_outcome = ApiOk | ApiMissing | ApiFailure | ApiLost

datatype egress_error = HostError "nat \<times> sandbox_host_error" | DeletePolicy | WritePolicy

definition reconcileEgressPolicy ::
  "egress_env \<Rightarrow> labels \<Rightarrow> api_outcome \<Rightarrow> api_outcome \<Rightarrow> egress_agent \<Rightarrow> egress_config \<Rightarrow>
     (string \<times> string \<rightharpoonup> stored_policy) \<Rightarrow> egress_error option \<times> (string \<times> string \<rightharpoonup> stored_policy)" where
  "reconcileEgressPolicy env resourceLabels del put agt cfg store =
     (let key = (ea_namespace agt, ea_name agt @ ''-egress'') in
      case buildEgressPolicySpec env agt cfg of
        Inl e \<Rightarrow> (Some (HostError e), store)
      | Inr spec \<Rightarrow>
          if ps_egress spec = [] then
            (let removed = store(key := None) in
             case del of
               ApiOk \<Rightarrow> (None, removed)
             | ApiMissing \<Rightarrow> (None, store)
             | ApiFailure \<Rightarrow> (Some DeletePolicy, store)
             | ApiLost \<Rightarrow> (Some DeletePolicy, removed))
          else
            (let written = store(key \<mapsto>
                 \<lparr>sp_labels = resourceLabels, sp_annotations = ea_annotations agt, sp_policy = spec\<rparr>) in
             case put of
               ApiOk \<Rightarrow> (None, written)
             | ApiLost \<Rightarrow> (Some WritePolicy, written)
             | _ \<Rightarrow> (Some WritePolicy, store)))"

definition agentNoProxyHosts :: "egress_env \<Rightarrow> egress_agent \<Rightarrow> string list" where
  "agentNoProxyHosts env agt =
     (let gatewayHost = endpointHost env (ee_gatewayURL env); traceHost = endpointHost env (ea_traceEndpoint agt) in
      keep_new [] ([''127.0.0.1'', ''::1'', ''localhost'', ''.cluster.local'', ''.svc'']
        @ (if gatewayHost \<noteq> [] then [gatewayHost] else [])
        @ (if ea_telemetryEnabled agt \<and> traceHost \<noteq> [] then [traceHost] else [])))"

subsection \<open>Lemmas\<close>

lemma set_keep_new: "set (keep_new seen xs) = set xs - set seen"
  by (induction seen xs rule: keep_new.induct) auto

lemma distinct_keep_new: "distinct (keep_new seen xs)"
  by (induction seen xs rule: keep_new.induct) (auto simp: set_keep_new)

text \<open>What a policy opens. A rule restricts what it selects to its ports, or to nothing if it has none; a port
  may be given for any protocol.\<close>

datatype reach = Name selector | Network string | Service string string | Pods labels

fun selects :: "egress_rule \<Rightarrow> reach \<Rightarrow> bool" where
  "selects r (Name n) = (n \<in> set (eg_fqdns r))"
| "selects r (Network c) = (c \<in> set (eg_cidrs r))"
| "selects r (Service namespace name) = ((namespace, name) \<in> set (eg_services r))"
| "selects r (Pods l) = (l \<in> set (eg_endpoints r))"

definition on_port :: "egress_rule \<Rightarrow> string \<Rightarrow> protocol \<Rightarrow> bool" where
  "on_port r port proto \<longleftrightarrow> eg_ports r = [] \<or> list_ex (\<lambda>q. (port, proto) \<in> set (pr_ports q) \<or> (port, AnyProtocol) \<in> set (pr_ports q)) (eg_ports r)"

definition opens :: "egress_rule list \<Rightarrow> reach \<Rightarrow> string \<Rightarrow> protocol \<Rightarrow> bool" where
  "opens rules d port proto \<longleftrightarrow> list_ex (\<lambda>r. selects r d \<and> on_port r port proto) rules"

definition resolves :: "egress_rule list \<Rightarrow> selector \<Rightarrow> bool" where
  "resolves rules n \<longleftrightarrow> list_ex (\<lambda>r. list_ex (\<lambda>q. case pr_dns q of None \<Rightarrow> False | Some names \<Rightarrow> n \<in> set names) (eg_ports r)) rules"

text \<open>What a host of the Sandbox's list stands for, and what the address of a platform component names: a
  Service of the cluster, if the host has the form \<open>name.namespace.svc.cluster.local\<close>, and a name or
  address in any case.\<close>

inductive host_reach :: "Host \<Rightarrow> reach \<Rightarrow> bool" where
  domain: "host_reach \<lparr>h_kind = HostKindDomain, h_value = v\<rparr> (Name (MatchName v))"
| wildcard: "host_reach \<lparr>h_kind = HostKindWildcard, h_value = v\<rparr> (Name (MatchPattern v))"
| deep: "host_reach \<lparr>h_kind = HostKindDeepWildcard, h_value = v\<rparr> (Name (MatchPattern v))"
| network: "host_reach \<lparr>h_kind = HostKindCIDR, h_value = v\<rparr> (Network v)"

inductive address_reach :: "egress_env \<Rightarrow> string \<Rightarrow> reach \<Rightarrow> bool" for env :: egress_env where
  name: "\<lbrakk> endpointHost env e = host; host \<noteq> []; ParseAddr host = None; ParseHost (ee_host env) host = Ok h; host_reach h d \<rbrakk>
    \<Longrightarrow> address_reach env e d"
| ip: "\<lbrakk> endpointHost env e = host; host \<noteq> []; ParseAddr host = Some a \<rbrakk>
    \<Longrightarrow> address_reach env e (Network (cidr_string (PrefixFrom a (bit_len a))))"

inductive names_service :: "egress_env \<Rightarrow> string \<Rightarrow> string \<Rightarrow> string \<Rightarrow> string \<Rightarrow> bool" for env :: egress_env where
  "\<lbrakk> parseEndpointURL env e = Some u;
     ToLower (uni_lower (ee_host env)) (Trim (Hostname u) ''[]'') = name @ ''.'' @ namespace @ ''.svc.cluster.local'';
     name \<noteq> []; namespace \<noteq> []; CHR ''.'' \<notin> set name; CHR ''.'' \<notin> set namespace;
     port = (if Port u = [] then (if ToLower (uni_lower (ee_host env)) (wu_scheme u) = ''https'' then ''443'' else ''80'') else Port u);
     list_all is_digit port; dec_val port \<le> 65535 \<rbrakk>
   \<Longrightarrow> names_service env e namespace name port"

text \<open>The destinations an Agent is meant to reach, one rule for each reason.\<close>

inductive resolvable_name :: "egress_env \<Rightarrow> egress_agent \<Rightarrow> egress_config \<Rightarrow> Host list \<Rightarrow> selector \<Rightarrow> bool"
  for env :: egress_env and agt :: egress_agent and cfg :: egress_config and hosts :: "Host list" where
  listed: "\<lbrakk> h \<in> set hosts; host_reach h (Name n) \<rbrakk> \<Longrightarrow> resolvable_name env agt cfg hosts n"
| platform: "\<lbrakk> e \<in> {ee_gatewayURL env, proxyAddress agt, ec_mcpURL cfg, ec_inferenceURL cfg}; address_reach env e (Name n) \<rbrakk>
    \<Longrightarrow> resolvable_name env agt cfg hosts n"
| trace: "\<lbrakk> ea_telemetryEnabled agt; address_reach env (ea_traceEndpoint agt) (Name n) \<rbrakk> \<Longrightarrow> resolvable_name env agt cfg hosts n"

inductive intended :: "egress_env \<Rightarrow> egress_agent \<Rightarrow> egress_config \<Rightarrow> Host list \<Rightarrow> reach \<Rightarrow> string \<Rightarrow> protocol \<Rightarrow> bool"
  for env :: egress_env and agt :: egress_agent and cfg :: egress_config and hosts :: "Host list" where
  allowed_host: "\<lbrakk> h \<in> set hosts; host_reach h d \<rbrakk> \<Longrightarrow> intended env agt cfg hosts d port proto"
| gateway_host: "\<lbrakk> \<nexists>ns n p. names_service env (ee_gatewayURL env) ns n p; address_reach env (ee_gatewayURL env) d \<rbrakk>
    \<Longrightarrow> intended env agt cfg hosts d port proto"
| trace_host: "\<lbrakk> ea_telemetryEnabled agt; \<nexists>ns n p. names_service env (ea_traceEndpoint agt) ns n p; address_reach env (ea_traceEndpoint agt) d \<rbrakk>
    \<Longrightarrow> intended env agt cfg hosts d port proto"
| gateway_service: "names_service env (ee_gatewayURL env) ns n port \<Longrightarrow> intended env agt cfg hosts (Service ns n) port TCP"
| trace_service: "names_service env (ea_traceEndpoint agt) ns n port \<Longrightarrow> intended env agt cfg hosts (Service ns n) port TCP"
| mcp_service: "names_service env (ec_mcpURL cfg) ns n port \<Longrightarrow> intended env agt cfg hosts (Service ns n) port TCP"
| inference_service: "names_service env (ec_inferenceURL cfg) ns n port \<Longrightarrow> intended env agt cfg hosts (Service ns n) port TCP"
| inference_gateway: "ec_inferenceURL cfg = [] \<Longrightarrow> intended env agt cfg hosts
      (Pods [(''io.kubernetes.pod.namespace'', ea_namespace agt), (''app.kubernetes.io/name'', ''inference''),
        (''app.kubernetes.io/instance'', ''inference''), (''gateway.networking.k8s.io/gateway-name'', ''inference'')]) ''80'' TCP"
| secret_proxy: "intended env agt cfg hosts
      (Pods [(''io.kubernetes.pod.namespace'', ea_namespace agt), (''agentz.accuknox.com/sinjector'', ea_name agt)]) ''4096'' TCP"
| dns: "resolvable_name env agt cfg hosts n \<Longrightarrow> intended env agt cfg hosts
      (Pods [(''io.kubernetes.pod.namespace'', ''kube-system''), (''k8s-app'', ''kube-dns'')]) ''53'' proto"

lemma opens_append [simp]: "opens (rs @ qs) d port proto \<longleftrightarrow> opens rs d port proto \<or> opens qs d port proto"
  "\<not> opens [] d port proto" "resolves (rs @ qs) n \<longleftrightarrow> resolves rs n \<or> resolves qs n" "\<not> resolves [] n"
  by (simp_all add: opens_def resolves_def)

lemma host_reach_selector: "host_reach h d \<longleftrightarrow>
    (case d of Name n \<Rightarrow> n \<in> set (name_selector h) | Network c \<Rightarrow> c \<in> set (cidr_of_host h) | _ \<Rightarrow> False)"
  by (cases h; cases "h_kind h"; cases d) (auto simp: host_reach.simps cidr_of_host_def)

lemma resolves_dns: "(case dnsEgressRule dnsHosts of None \<Rightarrow> False | Some r \<Rightarrow> resolves [r] n) \<longleftrightarrow> (\<exists>h\<in>set dnsHosts. host_reach h (Name n))"
proof -
  have "(\<exists>h\<in>set dnsHosts. host_reach h (Name n)) \<longleftrightarrow> n \<in> set (concat (map name_selector dnsHosts))"
    by (simp add: host_reach_selector del: name_selector.simps)
  then show ?thesis by (auto simp: dnsEgressRule_def Let_def resolves_def no_egress_def simp del: set_concat concat_eq_Nil_conv)
qed

lemma host_rules_open:
  "opens (buildHostEgressRules hosts dnsHosts) d port proto \<longleftrightarrow> (\<exists>h\<in>set hosts. host_reach h d)
     \<or> d = Pods agent_dns_selector \<and> port = ''53'' \<and> (\<exists>h\<in>set dnsHosts. \<exists>n. host_reach h (Name n))"
proof -
  let ?f = "concat (map name_selector hosts)" and ?c = "concat (map cidr_of_host hosts)" and ?d = "concat (map name_selector dnsHosts)"
  have h: "(\<exists>h\<in>set hosts. host_reach h d) \<longleftrightarrow> (case d of Name n \<Rightarrow> n \<in> set ?f | Network c \<Rightarrow> c \<in> set ?c | _ \<Rightarrow> False)"
    by (cases d) (simp_all add: host_reach_selector del: name_selector.simps)
  have e: "(\<exists>h\<in>set dnsHosts. \<exists>n. host_reach h (Name n)) \<longleftrightarrow> ?d \<noteq> []"
    by (auto simp: host_reach_selector ex_in_conv simp del: name_selector.simps)
  show ?thesis unfolding h e buildHostEgressRules_def dnsEgressRule_def Let_def
    by (cases d) (auto simp: opens_def on_port_def no_egress_def simp del: name_selector.simps set_concat concat_eq_Nil_conv)
qed

lemma host_rules_resolve:
  "resolves (buildHostEgressRules hosts dnsHosts) n \<longleftrightarrow> (\<exists>h\<in>set dnsHosts. host_reach h (Name n))"
  unfolding resolves_dns [symmetric] buildHostEgressRules_def Let_def
  by (auto simp: resolves_def no_egress_def split: option.splits)

lemma service_parts: "Split (CHR ''.'') host = [name, namespace, ''svc'', ''cluster'', ''local''] \<longleftrightarrow>
    host = name @ ''.'' @ namespace @ ''.svc.cluster.local'' \<and> CHR ''.'' \<notin> set name \<and> CHR ''.'' \<notin> set namespace"
proof
  assume parts: "Split (CHR ''.'') host = [name, namespace, ''svc'', ''cluster'', ''local'']"
  then have "host = Join ''.'' [name, namespace, ''svc'', ''cluster'', ''local'']" using Join_Split [of "CHR ''.''" host] by simp
  then show "host = name @ ''.'' @ namespace @ ''.svc.cluster.local'' \<and> CHR ''.'' \<notin> set name \<and> CHR ''.'' \<notin> set namespace"
    using parts Split_parts [of name "CHR ''.''" host] Split_parts [of namespace "CHR ''.''" host] by simp
qed (simp add: Split_append)

lemma five_parts: "(length parts = 5 \<and> parts ! 2 = a \<and> parts ! 3 = b \<and> parts ! 4 = c) \<longleftrightarrow> (\<exists>x y. parts = [x, y, a, b, c])"
  by (auto simp: length_Suc_conv eval_nat_numeral)

lemma service_fields: "names_service env e namespace name port \<longleftrightarrow> (\<exists>u. parseEndpointURL env e = Some u
    \<and> ToLower (uni_lower (ee_host env)) (Trim (Hostname u) ''[]'') = name @ ''.'' @ namespace @ ''.svc.cluster.local''
    \<and> name \<noteq> [] \<and> namespace \<noteq> [] \<and> CHR ''.'' \<notin> set name \<and> CHR ''.'' \<notin> set namespace
    \<and> port = (if Port u = [] then (if ToLower (uni_lower (ee_host env)) (wu_scheme u) = ''https'' then ''443'' else ''80'') else Port u)
    \<and> list_all is_digit port \<and> dec_val port \<le> 65535)"
  unfolding names_service.simps by (simp only: simp_thms ex_simps)

lemma none_or_some: "(if c then None else x) = Some t \<longleftrightarrow> \<not> c \<and> x = Some t"
  by simp

lemma service_target: "parseServiceEgressTarget env e = Some t \<longleftrightarrow> names_service env e (st_namespace t) (st_name t) (st_port t)"
proof (cases "parseEndpointURL env e")
  case (Some u)
  let ?host = "ToLower (uni_lower (ee_host env)) (Trim (Hostname u) ''[]'')"
    and ?port = "if Port u = [] then (if ToLower (uni_lower (ee_host env)) (wu_scheme u) = ''https'' then ''443'' else ''80'') else Port u"
  define parts where "parts = Split (CHR ''.'') ?host"
  define port where "port = ?port"
  have "parseServiceEgressTarget env e = Some t \<longleftrightarrow> (length parts = 5 \<and> parts ! 2 = ''svc'' \<and> parts ! 3 = ''cluster'' \<and> parts ! 4 = ''local'')
      \<and> parts ! 0 \<noteq> [] \<and> parts ! 1 \<noteq> [] \<and> list_all is_digit port \<and> dec_val port \<le> 65535
      \<and> t = \<lparr>st_name = parts ! 0, st_namespace = parts ! 1, st_port = port\<rparr>"
    unfolding parseServiceEgressTarget_def Some option.case Let_def parts_def [symmetric] port_def [symmetric]
    by (simp only: none_or_some de_Morgan_disj not_not not_less conj_assoc option.inject) blast
  also have "\<dots> \<longleftrightarrow> (\<exists>name ns. Split (CHR ''.'') ?host = [name, ns, ''svc'', ''cluster'', ''local''] \<and> name \<noteq> [] \<and> ns \<noteq> []
        \<and> list_all is_digit port \<and> dec_val port \<le> 65535 \<and> t = \<lparr>st_name = name, st_namespace = ns, st_port = port\<rparr>)"
    unfolding five_parts parts_def [symmetric] by auto
  also have "\<dots> \<longleftrightarrow> names_service env e (st_namespace t) (st_name t) (st_port t)"
    unfolding service_parts service_fields Some port_def by (cases t) (auto simp only: serviceEgressTarget.simps option.inject)
  finally show ?thesis .
qed (simp add: parseServiceEgressTarget_def names_service.simps)

lemma address_host: "address_reach env e d \<longleftrightarrow> (\<exists>h\<in>set (dnsHostForEndpoint env e). host_reach h d)"
proof -
  have "ParseHost (ee_host env) (endpointHost env e) = Ok h \<longleftrightarrow> Ok h = ParseHost (ee_host env) (endpointHost env e)" for h by auto
  then show ?thesis
    by (cases "ParseAddr (endpointHost env e)"; cases "ParseHost (ee_host env) (endpointHost env e)"; cases "endpointHost env e = []")
      (auto simp: address_reach.simps dnsHostForEndpoint_def host_reach.simps Let_def)
qed

lemma endpoint_host: "(\<exists>h\<in>set (egressHostForEndpoint env e). host_reach h d) \<longleftrightarrow>
    (\<nexists>ns n p. names_service env e ns n p) \<and> address_reach env e d"
proof -
  have "parseServiceEgressTarget env e = None \<longleftrightarrow> (\<nexists>ns n p. names_service env e ns n p)"
    using service_target [of env e] by (metis not_None_eq serviceEgressTarget.select_convs)
  then show ?thesis by (auto simp: egressHostForEndpoint_def address_host split: option.splits)
qed

lemma service_rules_open: "opens (serviceEgressRules env es) d port proto \<longleftrightarrow>
    (\<exists>e\<in>set es. \<exists>ns n. d = Service ns n \<and> proto = TCP \<and> names_service env e ns n port)"
proof -
  have "opens (map service_rule ts) d port proto \<longleftrightarrow> (\<exists>t\<in>set ts. d = Service (st_namespace t) (st_name t) \<and> port = st_port t \<and> proto = TCP)" for ts
    by (cases d) (auto simp: opens_def list_ex_iff on_port_def service_rule_def no_egress_def)
  moreover have target: "(\<exists>t. parseServiceEgressTarget env e = Some t \<and> d = Service (st_namespace t) (st_name t) \<and> port = st_port t) \<longleftrightarrow>
      (\<exists>ns n. d = Service ns n \<and> names_service env e ns n port)" for e
    by (auto simp: service_target) (metis serviceEgressTarget.select_convs)
  moreover have "set (keep_new [] (List.map_filter (parseServiceEgressTarget env) es)) = {t. \<exists>e\<in>set es. parseServiceEgressTarget env e = Some t}"
    by (force simp: set_keep_new map_filter_def)
  ultimately have "opens (serviceEgressRules env es) d port proto \<longleftrightarrow>
      (\<exists>t. (\<exists>e\<in>set es. parseServiceEgressTarget env e = Some t) \<and> d = Service (st_namespace t) (st_name t) \<and> port = st_port t \<and> proto = TCP)"
    by (simp add: serviceEgressRules_def)
  also have "\<dots> \<longleftrightarrow> (\<exists>e\<in>set es. proto = TCP \<and> (\<exists>ns n. d = Service ns n \<and> names_service env e ns n port))"
    unfolding target [symmetric] by blast
  finally show ?thesis by blast
qed

lemma service_rules_resolve: "\<not> resolves (serviceEgressRules env es) n"
  by (auto simp: resolves_def list_ex_iff serviceEgressRules_def service_rule_def no_egress_def)

lemma no_endpoint: "parseServiceEgressTarget env [] = None"
proof -
  have "TrimSpace [] = []" by (simp add: TrimSpace_visible visible_def)
  then show ?thesis by (simp add: parseServiceEgressTarget_def parseEndpointURL_def)
qed

lemma no_service: "\<not> names_service env [] ns n p"
proof -
  have "TrimSpace [] = []" by (simp add: TrimSpace_visible visible_def)
  then show ?thesis by (simp add: names_service.simps parseEndpointURL_def)
qed

lemma platform_rules_open:
  "opens [sinjectorEgressRule agt] d port proto \<longleftrightarrow> port = ''4096'' \<and> proto = TCP
     \<and> d = Pods [(''io.kubernetes.pod.namespace'', ea_namespace agt), (''agentz.accuknox.com/sinjector'', ea_name agt)]"
  "opens [gatewayEgressRule namespace GatewayName] d port proto \<longleftrightarrow> port = ''80'' \<and> proto = TCP
     \<and> d = Pods [(''io.kubernetes.pod.namespace'', namespace), (''app.kubernetes.io/name'', ''inference''),
         (''app.kubernetes.io/instance'', ''inference''), (''gateway.networking.k8s.io/gateway-name'', ''inference'')]"
  "\<not> resolves [sinjectorEgressRule agt] n" "\<not> resolves [gatewayEgressRule namespace GatewayName] n"
  by (cases d; auto simp: opens_def on_port_def resolves_def sinjectorEgressRule_def gatewayEgressRule_def GatewayName_def no_egress_def)+

lemma set_uniqueHosts: "set (uniqueHosts hosts) = set hosts"
  by (simp add: uniqueHosts_def set_keep_new)

lemma resolvable_hosts: "(\<exists>h\<in>set (dns_hosts env agt cfg hosts). host_reach h (Name n)) \<longleftrightarrow> resolvable_name env agt cfg hosts n"
  by (auto simp: dns_hosts_def resolvable_name.simps address_host)

text \<open>C7. The policy generated for an Agent opens exactly the intended destinations, each on exactly the
  intended ports, and resolves exactly the intended names. On every port it opens the names and networks
  of the Sandbox's allowed hosts and of the addresses of the gateway and, if telemetry is enabled, of the
  trace endpoint, unless these name a Service of the cluster; on its TCP port it opens every Service that
  the gateway, trace, MCP or inference endpoint names (the trace endpoint's also when telemetry is
  disabled, as the code has it); the Agent's own secret proxy on 4096; without an inference endpoint the
  namespace's inference gateway on 80; and the DNS service on 53, for the names of the allowed hosts and of
  the platform's addresses only, if there are any. So every name that is opened can be resolved.\<close>

theorem egress_policy_exact:
  assumes "buildEgressPolicySpec env agt cfg = Ok p"
  shows "ps_selector p = [(''agentz.accuknox.com/agent'', ea_name agt)]
    \<and> (\<exists>hosts. ParseHostList (ee_host env) (ec_allowedHosts cfg) = Ok hosts
      \<and> (\<forall>d port proto. opens (ps_egress p) d port proto \<longleftrightarrow> intended env agt cfg hosts d port proto)
      \<and> (\<forall>n. resolves (ps_egress p) n \<longleftrightarrow> resolvable_name env agt cfg hosts n)
      \<and> (\<forall>n port proto. \<not> (opens (ps_egress p) (Name n) port proto \<and> \<not> resolves (ps_egress p) n)))"
proof -
  obtain hosts where hosts: "ParseHostList (ee_host env) (ec_allowedHosts cfg) = Ok hosts"
    using assms by (auto simp: buildEgressPolicySpec_def split: sum.splits)
  have sel: "ps_selector p = [(''agentz.accuknox.com/agent'', ea_name agt)]" and rules: "ps_egress p =
      buildHostEgressRules (uniqueHosts (egress_hosts env agt hosts)) (uniqueHosts (dns_hosts env agt cfg hosts))
      @ serviceEgressRules env [ee_gatewayURL env, ea_traceEndpoint agt]
      @ (if ec_mcpURL cfg \<noteq> [] then serviceEgressRules env [ec_mcpURL cfg] else [])
      @ (if ec_inferenceURL cfg = [] then [gatewayEgressRule (ea_namespace agt) GatewayName] else [])
      @ (if ec_inferenceURL cfg \<noteq> [] then serviceEgressRules env [ec_inferenceURL cfg] else [])
      @ [sinjectorEgressRule agt]"
    using assms hosts by (auto simp: buildEgressPolicySpec_def)
  have h: "(\<exists>h\<in>set (egress_hosts env agt hosts). host_reach h d) \<longleftrightarrow> (\<exists>h\<in>set hosts. host_reach h d)
      \<or> ea_telemetryEnabled agt \<and> (\<exists>h\<in>set (egressHostForEndpoint env (ea_traceEndpoint agt)). host_reach h d)
      \<or> (\<exists>h\<in>set (egressHostForEndpoint env (ee_gatewayURL env)). host_reach h d)" for d
    by (auto simp: egress_hosts_def)
  have dns: "(\<exists>h\<in>set (dns_hosts env agt cfg hosts). \<exists>n. host_reach h (Name n)) \<longleftrightarrow> (\<exists>n. resolvable_name env agt cfg hosts n)"
    using resolvable_hosts by blast
  have mcp: "opens (if ec_mcpURL cfg \<noteq> [] then serviceEgressRules env [ec_mcpURL cfg] else []) d port proto \<longleftrightarrow>
      (\<exists>ns n. d = Service ns n \<and> proto = TCP \<and> names_service env (ec_mcpURL cfg) ns n port)" for d port proto
    by (simp add: service_rules_open no_service)
  have inference: "opens (if ec_inferenceURL cfg = [] then [gatewayEgressRule (ea_namespace agt) GatewayName] else []) d port proto \<longleftrightarrow>
      ec_inferenceURL cfg = [] \<and> opens [gatewayEgressRule (ea_namespace agt) GatewayName] d port proto"
    "opens (if ec_inferenceURL cfg \<noteq> [] then serviceEgressRules env [ec_inferenceURL cfg] else []) d port proto \<longleftrightarrow>
      (\<exists>ns n. d = Service ns n \<and> proto = TCP \<and> names_service env (ec_inferenceURL cfg) ns n port)" for d port proto
    by (simp_all add: service_rules_open no_service)
  have services: "opens (serviceEgressRules env [ee_gatewayURL env, ea_traceEndpoint agt]) d port proto \<longleftrightarrow>
      (\<exists>ns n. d = Service ns n \<and> proto = TCP \<and> names_service env (ee_gatewayURL env) ns n port)
      \<or> (\<exists>ns n. d = Service ns n \<and> proto = TCP \<and> names_service env (ea_traceEndpoint agt) ns n port)" for d port proto
    by (simp add: service_rules_open)
  note opened_by = rules opens_append host_rules_open set_uniqueHosts h dns endpoint_host services mcp inference
    platform_rules_open agent_dns_selector_def
  have opened: "opens (ps_egress p) d port proto \<longleftrightarrow> intended env agt cfg hosts d port proto" for d port proto
  proof
    assume "opens (ps_egress p) d port proto"
    then show "intended env agt cfg hosts d port proto"
      unfolding opened_by by (elim disjE exE conjE bexE) (simp_all only: intended.intros not_ex simp_thms)
  next
    assume "intended env agt cfg hosts d port proto"
    then show "opens (ps_egress p) d port proto"
      unfolding opened_by by cases auto
  qed
  have names: "resolves (ps_egress p) n \<longleftrightarrow> resolvable_name env agt cfg hosts n" for n
    unfolding rules opens_append host_rules_resolve set_uniqueHosts resolvable_hosts
    by (simp add: platform_rules_open service_rules_resolve)
  have "resolvable_name env agt cfg hosts n" if "intended env agt cfg hosts (Name n) port proto" for n port proto
    using that by cases (auto intro: resolvable_name.intros)
  with sel hosts opened names show ?thesis by blast
qed

definition sample_egress_env :: egress_env where
  "sample_egress_env = \<lparr>ee_host = ascii_env, ee_url = \<lparr>url_parse = (\<lambda>_. None), url_string = (\<lambda>_. [])\<rparr>, ee_gatewayURL = []\<rparr>"

definition sample_egress_agent :: egress_agent where
  "sample_egress_agent = \<lparr>ea_namespace = ''w'', ea_name = ''a'', ea_labels = [], ea_annotations = [], ea_telemetryEnabled = False, ea_traceEndpoint = []\<rparr>"

definition sample_egress_cfg :: egress_config where
  "sample_egress_cfg = \<lparr>ec_allowedHosts = [''*.Example.com'', ''10.1.2.3/8''], ec_mcpURL = [], ec_inferenceURL = []\<rparr>"

theorem egress_policy_exact_witness:
  "\<exists>p. buildEgressPolicySpec sample_egress_env sample_egress_agent sample_egress_cfg = Ok p
     \<and> opens (ps_egress p) (Name (MatchPattern ''*.example.com'')) ''443'' TCP \<and> resolves (ps_egress p) (MatchPattern ''*.example.com'')
     \<and> \<not> opens (ps_egress p) (Network ''0.0.0.0/0'') ''443'' TCP"
proof -
  let ?hosts = "[\<lparr>h_kind = HostKindWildcard, h_value = ''*.example.com''\<rparr>, \<lparr>h_kind = HostKindCIDR, h_value = ''10.0.0.0/8''\<rparr>]"
  let ?env = sample_egress_env and ?agt = sample_egress_agent and ?cfg = sample_egress_cfg
  have h: "ParseHostList ascii_env [''*.Example.com'', ''10.1.2.3/8''] = Ok ?hosts" by code_simp
  have e: "TrimSpace [] = []" by code_simp
  have none: "\<not> address_reach ?env [] d" for d
    by (simp add: address_reach.simps endpointHost_def parseEndpointURL_def e)
  have yes: "intended ?env ?agt ?cfg ?hosts (Name (MatchPattern ''*.example.com'')) ''443'' TCP"
    by (rule intended.allowed_host [of "\<lparr>h_kind = HostKindWildcard, h_value = ''*.example.com''\<rparr>"]) (simp_all add: host_reach.simps)
  have no: "\<not> intended ?env ?agt ?cfg ?hosts (Network ''0.0.0.0/0'') ''443'' TCP"
    proof -
    have "ee_gatewayURL ?env = []" "\<not> ea_telemetryEnabled ?agt" by (simp_all add: sample_egress_env_def sample_egress_agent_def)
    then show ?thesis by (auto simp: intended.simps host_reach.simps none)
  qed
  have hosts: "ParseHostList (ee_host ?env) (ec_allowedHosts ?cfg) = Ok ?hosts"
    using h by (simp add: sample_egress_env_def sample_egress_cfg_def)
  then obtain p where p: "buildEgressPolicySpec ?env ?agt ?cfg = Ok p"
    by (simp add: buildEgressPolicySpec_def)
  from egress_policy_exact [OF p] hosts yes no p show ?thesis by (metis sum.inject(2))
qed

text \<open>Reconciling never deletes a policy, since every policy opens at least the Agent's secret proxy; on success
  the generated policy is stored; on an error the Agent's policy is the generated one or what it was; and
  no other policy is touched.\<close>

lemma reconcile_egress:
  "case reconcileEgressPolicy env rl del put agt cfg store of (e, store') \<Rightarrow>
     (e = None \<or> store' \<noteq> store \<longrightarrow> (\<exists>p. buildEgressPolicySpec env agt cfg = Ok p \<and>
        store' = store((ea_namespace agt, ea_name agt @ ''-egress'') \<mapsto>
          \<lparr>sp_labels = rl, sp_annotations = ea_annotations agt, sp_policy = p\<rparr>)))"
proof -
  have "ps_egress p \<noteq> []" if "buildEgressPolicySpec env agt cfg = Ok p" for p
    using that by (auto simp: buildEgressPolicySpec_def split: sum.splits)
  then show ?thesis
    by (auto simp: reconcileEgressPolicy_def Let_def split: sum.splits api_outcome.splits option.splits)
qed

text \<open>A trace endpoint that names a Service opens it even when telemetry is disabled.\<close>

lemma disabled_telemetry_opens_service:
  assumes "parseServiceEgressTarget env (ea_traceEndpoint agt) = Some t" "\<not> ea_telemetryEnabled agt"
    and "buildEgressPolicySpec env agt cfg = Ok p"
  shows "service_rule t \<in> set (ps_egress p)"
  using assms by (auto simp: buildEgressPolicySpec_def serviceEgressRules_def map_filter_def set_keep_new split: sum.splits)

end
