(* ===== verification/Guard.thy ===== *)
theory Guard
  imports Prelude
begin

section \<open>Referential integrity under admission\<close>

text \<open>
  Objects of a cluster refer to each other by name, and admission keeps the references alive from
  both ends: a consumer is admitted only if what it refers to exists, and an object is deleted only
  if no consumer refers to it. The step relation is shared by every kind of object; its parameters
  are the three decisions, which the components instantiate with their webhooks. A state is the list
  of consumers and the set of live objects.
\<close>

inductive guarded_step ::
  "('c list \<Rightarrow> 'o set \<Rightarrow> 'c \<Rightarrow> bool) \<Rightarrow> ('c list \<Rightarrow> 'o set \<Rightarrow> 'c \<Rightarrow> 'c \<Rightarrow> bool) \<Rightarrow> ('c list \<Rightarrow> 'o set \<Rightarrow> 'o \<Rightarrow> bool) \<Rightarrow>
     'c list \<times> 'o set \<Rightarrow> 'c list \<times> 'o set \<Rightarrow> bool"
  for admit update free where
  add: "admit cs live c \<Longrightarrow> guarded_step admit update free (cs, live) (c # cs, live)"
| change: "c \<in> set cs \<Longrightarrow> update cs live c c' \<Longrightarrow> guarded_step admit update free (cs, live) (c' # remove1 c cs, live)"
| remove: "guarded_step admit update free (cs, live) (remove1 c cs, live)"
| create: "guarded_step admit update free (cs, live) (cs, insert ob live)"
| delete: "free cs live ob \<Longrightarrow> guarded_step admit update free (cs, live) (cs, live - {ob})"

definition references_live :: "('c \<Rightarrow> 'o set) \<Rightarrow> 'c list \<times> 'o set \<Rightarrow> bool" where
  "references_live refs st \<longleftrightarrow> (\<forall>c\<in>set (fst st). refs c \<subseteq> snd st)"

text \<open>What the two webhooks promise each other.\<close>

locale guarded_references =
  fixes admit :: "'c list \<Rightarrow> 'o set \<Rightarrow> 'c \<Rightarrow> bool"
    and update :: "'c list \<Rightarrow> 'o set \<Rightarrow> 'c \<Rightarrow> 'c \<Rightarrow> bool"
    and free :: "'c list \<Rightarrow> 'o set \<Rightarrow> 'o \<Rightarrow> bool"
    and refs :: "'c \<Rightarrow> 'o set"
  assumes admit_live: "admit cs live c \<Longrightarrow> refs c \<subseteq> live"
    and update_live: "update cs live c c' \<Longrightarrow> refs c' \<subseteq> live \<or> refs c' \<subseteq> refs c"
    and free_unreferenced: "free cs live ob \<Longrightarrow> c \<in> set cs \<Longrightarrow> ob \<notin> refs c"
begin

lemma step_live: "guarded_step admit update free s t \<Longrightarrow> references_live refs s \<Longrightarrow> references_live refs t"
proof (induction rule: guarded_step.induct)
  case (change c cs live c')
  then have "refs c' \<subseteq> live"
    using update_live [OF change.hyps(2)] by (auto simp: references_live_def)
  then show ?case
    using change.prems set_remove1_subset [of c cs] by (auto simp: references_live_def)
next
  case (remove cs live c)
  then show ?case using set_remove1_subset [of c cs] by (auto simp: references_live_def)
next
  case (delete cs live ob)
  then show ?case using free_unreferenced [OF delete.hyps] by (auto simp: references_live_def)
qed (use admit_live in \<open>auto simp: references_live_def\<close>)

lemma run_live: "(guarded_step admit update free)\<^sup>*\<^sup>* s t \<Longrightarrow> references_live refs s \<Longrightarrow> references_live refs t"
  by (induction rule: rtranclp_induct) (auto intro: step_live)

end

end
