(* ===== verification/SandboxWebhook.thy ===== *)
theory SandboxWebhook
  imports AgentWebhook Egress Guard
begin

section \<open>Sandbox and Skill admission\<close>

text \<open>
  The webhooks of Sandboxes (\<open>internal/webhook/v1alpha1/sandbox\<close>) and of Skills, with the package
  defaults of the Sandbox controller and the functions that find the consumers of an object
  (\<open>internal/sandboxutil/agents.go\<close>, \<open>internal/skill/references.go\<close>). A \<open>Get\<close> answers what the
  webhook reads of the object: of a provider whether it is being deleted and its model identifiers,
  of a connection whether its tool catalog is ready and the tool names. Maps that the code fills
  and then iterates are kept in the order of first insertion; Go leaves that order open, and only
  the order of the field errors depends on it.
\<close>

record InferenceModelRef =
  mr_scope :: ResourceScope
  mr_provider :: string
  mr_model :: string

record SandboxInference =
  si_models :: "InferenceModelRef list"
  si_defaultModel :: InferenceModelRef
  si_smallModel :: "InferenceModelRef option"
  si_attachmentModel :: "InferenceModelRef option"

record SandboxMCPTool =
  mt_name :: string
  mt_requireConsent :: bool

record MCPConnectionRef =
  mc_scope :: ResourceScope
  mc_name :: string
  mc_tools :: "SandboxMCPTool list"

record SandboxSpec =
  sx_guardrails :: "ResourceReference list"
  sx_createdBy :: string
  sx_lastModifiedBy :: string
  sx_inference :: SandboxInference
  sx_packages :: "string list"
  sx_allowedHosts :: "string list"
  sx_mcpConnectionRefs :: "MCPConnectionRef list"
  sx_skills :: "ResourceReference list"

record Sandbox =
  sb_namespace :: string
  sb_name :: string
  sb_spec :: SandboxSpec

record 'q sandbox_reader = "'q agent_reader" +
  getPool :: "string \<Rightarrow> string \<Rightarrow> (get_error, bool) result"
  getProvider :: "string \<Rightarrow> string \<Rightarrow> (get_error, bool \<times> string list) result"
  getConnection :: "string \<Rightarrow> string \<Rightarrow> (get_error, bool \<times> string list) result"
  listSandboxes :: "(get_error, Sandbox list) result"

definition InferencePoolProvider :: string where
  "InferencePoolProvider = ''agentz-pools''"

subsection \<open>Finding consumers\<close>

fun referencing_loop ::
  "('a) scope_reader_scheme \<Rightarrow> string \<Rightarrow> string \<Rightarrow> 'q Agent list \<Rightarrow> (scope_error, string list) result" where
  "referencing_loop c ns sandboxName [] = Ok []"
| "referencing_loop c ns sandboxName (agt # rest) =
     (let ref = sp_sandboxRef (agt_spec agt) in
      if ref_name ref \<noteq> sandboxName then referencing_loop c ns sandboxName rest
      else case Namespace c (agt_namespace agt) (ref_scope ref) of
        Inl e \<Rightarrow> Err e
      | Inr namespace \<Rightarrow>
          (case referencing_loop c ns sandboxName rest of
             Inl e \<Rightarrow> Err e
           | Inr names \<Rightarrow> Ok (if namespace = ns then agt_name agt # names else names)))"

datatype consumer_error = ListConsumers get_error | ResolveConsumer scope_error

definition ReferencingAgentNames ::
  "('q, 'a) quota_reader_scheme \<Rightarrow> string \<Rightarrow> string \<Rightarrow> (consumer_error, string list) result" where
  "ReferencingAgentNames c ns sandboxName =
     (case listAgents c of
        Inl e \<Rightarrow> Err (ListConsumers e)
      | Inr agents \<Rightarrow>
          (case referencing_loop c ns sandboxName agents of
             Inl e \<Rightarrow> Err (ResolveConsumer e)
           | Inr names \<Rightarrow> Ok (sort names)))"

text \<open>One consumer against a skill: whether one of its references resolves to it. The scan stops
  at the first hit or at the first reference by that name that cannot be resolved.\<close>

fun consumer_check ::
  "('a) scope_reader_scheme \<Rightarrow> string \<times> string \<Rightarrow> string \<Rightarrow> ResourceReference list \<Rightarrow> (scope_error, bool) result" where
  "consumer_check c key namespace [] = Ok False"
| "consumer_check c key namespace (ref # refs) =
     (if ref_name ref \<noteq> snd key then consumer_check c key namespace refs
      else case Namespace c namespace (ref_scope ref) of
        Inl e \<Rightarrow> Err e
      | Inr ns \<Rightarrow> if ns = fst key then Ok True else consumer_check c key namespace refs)"

fun consumers_loop ::
  "('a) scope_reader_scheme \<Rightarrow> string \<times> string \<Rightarrow> (string \<times> string \<times> string \<times> ResourceReference list) list \<Rightarrow>
     (scope_error, string list) result" where
  "consumers_loop c key [] = Ok []"
| "consumers_loop c key ((k, namespace, name, refs) # rest) =
     (case consumer_check c key namespace refs of
        Inl e \<Rightarrow> Err e
      | Inr hit \<Rightarrow>
          (case consumers_loop c key rest of
             Inl e \<Rightarrow> Err e
           | Inr names \<Rightarrow> Ok (if hit then (k @ '' '' @ namespace @ ''/'' @ name) # names else names)))"

definition skill_consumers :: "'q Agent list \<Rightarrow> Sandbox list \<Rightarrow> (string \<times> string \<times> string \<times> ResourceReference list) list" where
  "skill_consumers agents sandboxes =
     map (\<lambda>a. (''Agent'', agt_namespace a, agt_name a, sp_skills (agt_spec a))) agents
     @ map (\<lambda>s. (''Sandbox'', sb_namespace s, sb_name s, sx_skills (sb_spec s))) sandboxes"

definition ReferencingConsumers ::
  "('q, 'a) sandbox_reader_scheme \<Rightarrow> string \<times> string \<Rightarrow> (consumer_error, string list) result" where
  "ReferencingConsumers reader key =
     (case listAgents reader of
        Inl e \<Rightarrow> Err (ListConsumers e)
      | Inr agents \<Rightarrow>
          (case listSandboxes reader of
             Inl e \<Rightarrow> Err (ListConsumers e)
           | Inr sandboxes \<Rightarrow>
               (case consumers_loop reader key (skill_consumers agents sandboxes) of
                  Inl e \<Rightarrow> Err (ResolveConsumer e)
                | Inr names \<Rightarrow> Ok (sort names))))"

datatype delete_error = ConsumersFailed consumer_error | InUse "string list" | DeleteForbidden field_errors

definition ValidateDelete_skill ::
  "('q, 'a) sandbox_reader_scheme \<Rightarrow> string \<times> string \<Rightarrow> (delete_error, unit) result" where
  "ValidateDelete_skill reader key =
     (case ReferencingConsumers reader key of
        Inl e \<Rightarrow> Err (ConsumersFailed e)
      | Inr names \<Rightarrow> if names = [] then Ok () else Err (InUse names))"

definition ValidateDelete_sandbox ::
  "('q, 'a) quota_reader_scheme option \<Rightarrow> string \<Rightarrow> string \<Rightarrow> (delete_error, unit) result" where
  "ValidateDelete_sandbox reader ns name =
     (case reader of
        None \<Rightarrow> Ok ()
      | Some r \<Rightarrow>
          (case ReferencingAgentNames r ns name of
             Inl e \<Rightarrow> Err (ConsumersFailed e)
           | Inr [] \<Rightarrow> Ok ()
           | Inr (a # _) \<Rightarrow> Err (DeleteForbidden
               [FForbidden [PName ''metadata'', PName ''name''] (''sandbox is referenced by agent '' @ a)])))"

subsection \<open>Sandbox validation\<close>

definition host_issues :: "host_env \<Rightarrow> (sandbox_host_error \<Rightarrow> string) \<Rightarrow> nat \<Rightarrow> string \<Rightarrow> field_errors" where
  "host_issues env err_text i entry =
     (case ParseHost env entry of
        Inl e \<Rightarrow> [FInvalid (Index (Child spec_path ''allowedHosts'') i) (BStr entry) (err_text e)]
      | Inr h \<Rightarrow> [])"

definition validateAllowedHostFields :: "host_env \<Rightarrow> (sandbox_host_error \<Rightarrow> string) \<Rightarrow> SandboxSpec \<Rightarrow> field_errors" where
  "validateAllowedHostFields env err_text spec = concat_index 0 (host_issues env err_text) (sx_allowedHosts spec)"

text \<open>The scan of the model list: the errors, the set of models, the models per provider and the pools.\<close>

record model_scan =
  ms_fields :: field_errors
  ms_allowed :: "InferenceModelRef list"
  ms_byProvider :: "(ResourceReference \<times> string list) list"
  ms_pools :: "string list"

fun append_model :: "ResourceReference \<Rightarrow> string \<Rightarrow> (ResourceReference \<times> string list) list \<Rightarrow> (ResourceReference \<times> string list) list" where
  "append_model p m [] = [(p, [m])]"
| "append_model p m ((q, ms) # rest) = (if q = p then (q, ms @ [m]) # rest else (q, ms) # append_model p m rest)"

definition inference_path :: field_path where
  "inference_path = Child spec_path ''inference''"

definition model_text :: "InferenceModelRef \<Rightarrow> string" where
  "model_text m = mr_scope m @ ''/'' @ mr_provider m @ ''/'' @ mr_model m"

definition model_step :: "nat \<Rightarrow> model_scan \<Rightarrow> InferenceModelRef \<Rightarrow> model_scan" where
  "model_step i sc m =
     (let modelPath = Index (Child inference_path ''models'') i;
          fields = ms_fields sc
            @ issue (TrimSpace (mr_provider m) = []) (FRequired (Child modelPath ''provider'') ''field is required'')
            @ issue (TrimSpace (mr_model m) = []) (FRequired (Child modelPath ''model'') ''field is required'')
      in if m \<in> set (ms_allowed sc)
         then sc\<lparr>ms_fields := fields @ [FDuplicate modelPath (BStr (model_text m))]\<rparr>
         else
           (let sc' = sc\<lparr>ms_fields := fields, ms_allowed := m # ms_allowed sc\<rparr> in
            if mr_provider m = InferencePoolProvider then
              (if mr_scope m \<noteq> ResourceScopeWorkspace
               then sc'\<lparr>ms_fields := fields @ [FNotSupported (Child modelPath ''scope'') (BStr (mr_scope m)) [ResourceScopeWorkspace]]\<rparr>
               else sc'\<lparr>ms_pools := (if mr_model m \<in> set (ms_pools sc) then ms_pools sc else ms_pools sc @ [mr_model m])\<rparr>)
            else sc'\<lparr>ms_byProvider := append_model \<lparr>ref_scope = mr_scope m, ref_name = mr_provider m\<rparr> (mr_model m) (ms_byProvider sc)\<rparr>))"

fun models_loop :: "nat \<Rightarrow> model_scan \<Rightarrow> InferenceModelRef list \<Rightarrow> model_scan" where
  "models_loop i sc [] = sc"
| "models_loop i sc (m # ms) = models_loop (Suc i) (model_step i sc m) ms"

definition empty_scan :: model_scan where
  "empty_scan = \<lparr>ms_fields = [], ms_allowed = [], ms_byProvider = [], ms_pools = []\<rparr>"

definition pool_issues :: "('q, 'a) sandbox_reader_scheme \<Rightarrow> string \<Rightarrow> string \<Rightarrow> field_errors" where
  "pool_issues r namespace poolID =
     (case Namespace r namespace ResourceScopeWorkspace of
        Inl e \<Rightarrow> [FInvalid (Child inference_path ''models'') (BStr poolID)
                   ''Workspace inference pool scope cannot be resolved from the Sandbox namespace'']
      | Inr ns \<Rightarrow>
          (case getPool r ns poolID of
             Inl GNotFound \<Rightarrow> [FNotFound (Child inference_path ''models'') (BStr poolID)]
           | Inl (GFailed _) \<Rightarrow> [FInternal (Child inference_path ''models'')]
           | Inr deleting \<Rightarrow> issue deleting
               (FForbidden (Child inference_path ''models'') (''pool '' @ poolID @ '' is terminating''))))"

definition provider_issues :: "('q, 'a) sandbox_reader_scheme \<Rightarrow> string \<Rightarrow> ResourceReference \<times> string list \<Rightarrow> field_errors" where
  "provider_issues r namespace entry =
     (case entry of (ref, modelIDs) \<Rightarrow>
        (let path = Child inference_path ''models'' in
         case SelectedNamespace r namespace
                \<lparr>sel_scope = ref_scope ref, sel_kind = KindInferenceProvider, sel_name = ref_name ref\<rparr> of
           Inl e \<Rightarrow> [FInvalid path (BStr (ref_scope ref @ ''/'' @ ref_name ref))
                      ''inference provider scope cannot be resolved from the Sandbox namespace'']
         | Inr ns \<Rightarrow>
             (case getProvider r ns (ref_name ref) of
                Inl GNotFound \<Rightarrow> [FNotFound path (BStr (ref_name ref))]
              | Inl (GFailed _) \<Rightarrow> [FInternal path]
              | Inr (deleting, enabled) \<Rightarrow>
                  if deleting then [FForbidden path (''provider '' @ ref_name ref @ '' is terminating'')]
                  else map (\<lambda>m. FNotFound path (BStr (ref_name ref @ ''/'' @ m))) (filter (\<lambda>m. m \<notin> set enabled) modelIDs))))"

definition validateInference :: "('q, 'a) sandbox_reader_scheme option \<Rightarrow> Sandbox \<Rightarrow> field_errors" where
  "validateInference reader sandbox =
     (let policy = sx_inference (sb_spec sandbox); sc = models_loop 0 empty_scan (si_models policy) in
      if si_models policy = [] then [FRequired (Child inference_path ''models'') ''at least one model is required'']
      else ms_fields sc
        @ issue (si_defaultModel policy \<notin> set (ms_allowed sc))
            (FInvalid (Child inference_path ''defaultModel'') (BStr (model_text (si_defaultModel policy))) ''must belong to the model allowlist'')
        @ (case si_smallModel policy of None \<Rightarrow> []
           | Some m \<Rightarrow> issue (m \<notin> set (ms_allowed sc))
               (FInvalid (Child inference_path ''smallModel'') (BStr (model_text m)) ''must belong to the model allowlist''))
        @ (case reader of None \<Rightarrow> []
           | Some r \<Rightarrow> concat (map (pool_issues r (sb_namespace sandbox)) (ms_pools sc))
               @ concat (map (provider_issues r (sb_namespace sandbox)) (ms_byProvider sc))))"

fun tool_refs_loop :: "field_path \<Rightarrow> string list \<Rightarrow> nat \<Rightarrow> (string \<times> nat) list \<Rightarrow> SandboxMCPTool list \<Rightarrow> field_errors" where
  "tool_refs_loop toolsPath toolNames i seen [] = []"
| "tool_refs_loop toolsPath toolNames i seen (t # ts) =
     (let n = TrimSpace (mt_name t); p = Child (Index toolsPath i) ''name'' in
      if n = [] then FRequired p ''field is required'' # tool_refs_loop toolsPath toolNames (Suc i) seen ts
      else case map_of seen n of
        Some j \<Rightarrow> FDuplicate p (BStr (n @ '' (first seen at index '' @ int_str (int j) @ '')''))
          # tool_refs_loop toolsPath toolNames (Suc i) seen ts
      | None \<Rightarrow> issue (n \<notin> set toolNames) (FNotSupported p (BStr n) toolNames)
          @ tool_refs_loop toolsPath toolNames (Suc i) ((n, i) # seen) ts)"

definition catalog_names :: "string list \<Rightarrow> string list" where
  "catalog_names tools = sort (filter (\<lambda>n. n \<noteq> []) (map TrimSpace tools))"

definition connection_issues :: "('q, 'a) sandbox_reader_scheme \<Rightarrow> string \<Rightarrow> field_path \<Rightarrow> MCPConnectionRef \<Rightarrow> field_errors" where
  "connection_issues r namespace path ref =
     (case SelectedNamespace r namespace
             \<lparr>sel_scope = mc_scope ref, sel_kind = KindMCPConnection, sel_name = mc_name ref\<rparr> of
        Inl e \<Rightarrow> [FInvalid (Child path ''scope'') (BStr (mc_scope ref)) ''scope cannot be resolved from the Sandbox namespace'']
      | Inr ns \<Rightarrow>
          (case getConnection r ns (mc_name ref) of
             Inl GNotFound \<Rightarrow> [FNotFound (Child path ''name'') (BStr (mc_name ref))]
           | Inl (GFailed _) \<Rightarrow> [FInternal (Child path ''name'')]
           | Inr (toolCatalogReady, tools) \<Rightarrow>
               if mc_tools ref = [] then [FRequired (Child path ''tools'') ''at least one tool is required'']
               else if \<not> toolCatalogReady
               then [FForbidden (Child path ''tools'') (''mcp connection '' @ mc_name ref @ '' tool catalog is not ready'')]
               else tool_refs_loop (Child path ''tools'') (catalog_names tools) 0 [] (mc_tools ref)))"

fun connections_loop ::
  "('q, 'a) sandbox_reader_scheme option \<Rightarrow> string \<Rightarrow> nat \<Rightarrow> (ResourceReference \<times> nat) list \<Rightarrow> MCPConnectionRef list \<Rightarrow> field_errors" where
  "connections_loop reader namespace i seen [] = []"
| "connections_loop reader namespace i seen (ref # refs) =
     (let path = Index (Child spec_path ''mcpConnectionRefs'') i;
          key = \<lparr>ref_scope = mc_scope ref, ref_name = mc_name ref\<rparr> in
      if mc_name ref = [] then FRequired (Child path ''name'') ''field is required'' # connections_loop reader namespace (Suc i) seen refs
      else case map_of seen key of
        Some j \<Rightarrow> FDuplicate (Child path ''name'') (BStr (mc_name ref @ '' (first seen at index '' @ int_str (int j) @ '')''))
          # connections_loop reader namespace (Suc i) seen refs
      | None \<Rightarrow> (case reader of None \<Rightarrow> [] | Some r \<Rightarrow> connection_issues r namespace path ref)
          @ connections_loop reader namespace (Suc i) ((key, i) # seen) refs)"

definition validateMCPConnectionRefs :: "('q, 'a) sandbox_reader_scheme option \<Rightarrow> Sandbox \<Rightarrow> field_errors" where
  "validateMCPConnectionRefs reader sandbox =
     connections_loop reader (sb_namespace sandbox) 0 [] (sx_mcpConnectionRefs (sb_spec sandbox))"

definition validateSandbox ::
  "host_env \<Rightarrow> (sandbox_host_error \<Rightarrow> string) \<Rightarrow> ('q, 'a) sandbox_reader_scheme option \<Rightarrow> Sandbox \<Rightarrow> field_errors" where
  "validateSandbox env err_text reader sandbox =
     validateAllowedHostFields env err_text (sb_spec sandbox)
     @ (case reader of None \<Rightarrow> [] | Some r \<Rightarrow> ValidateReferences r (sb_namespace sandbox) (sx_skills (sb_spec sandbox)))
     @ validateMCPConnectionRefs reader sandbox
     @ validateInference reader sandbox"

definition ValidateUpdate_sandbox ::
  "host_env \<Rightarrow> (sandbox_host_error \<Rightarrow> string) \<Rightarrow> (SandboxSpec \<Rightarrow> SandboxSpec \<Rightarrow> bool) \<Rightarrow>
     ('q, 'a) sandbox_reader_scheme option \<Rightarrow> Sandbox \<Rightarrow> Sandbox \<Rightarrow> field_errors" where
  "ValidateUpdate_sandbox env err_text sem reader old new =
     (if sem (sb_spec old) (sb_spec new) then [] else validateSandbox env err_text reader new)"

subsection \<open>Defaulting\<close>

definition DefaultPackages :: "string list" where
  "DefaultPackages = [''gnused'', ''gawk'', ''gnugrep'', ''bc'', ''jq'', ''yq-go'', ''curl'', ''mcporter'', ''python3'', ''nodejs'']"

definition DefaultPackagesForWebhook :: "string list \<Rightarrow> string list" where
  "DefaultPackagesForWebhook names =
     compact (sort (filter (\<lambda>n. n \<noteq> []) (map TrimSpace names) @ DefaultPackages))"

text \<open>The canonical hosts, \<open>None\<close> when an entry does not parse: the code then keeps the list as written
  and leaves the error to validation.\<close>

fun canonical_loop :: "host_env \<Rightarrow> string list \<Rightarrow> string list \<Rightarrow> string list option" where
  "canonical_loop env seen [] = Some []"
| "canonical_loop env seen (entry # rest) =
     (case ParseHost env entry of
        Inl e \<Rightarrow> None
      | Inr host \<Rightarrow>
          if h_value host \<in> set seen then canonical_loop env seen rest
          else map_option (Cons (h_value host)) (canonical_loop env (h_value host # seen) rest))"

datatype sandbox_operation = SandboxUpdateFrom "Sandbox option" | SandboxOther

definition Default_sandbox ::
  "host_env \<Rightarrow> (SandboxSpec \<Rightarrow> SandboxSpec \<Rightarrow> bool) \<Rightarrow> sandbox_operation option \<Rightarrow> Sandbox \<Rightarrow> (default_error, Sandbox) result" where
  "Default_sandbox env sem request sandbox =
     (let spec = sb_spec sandbox; spec1 = spec\<lparr>sx_packages := DefaultPackagesForWebhook (sx_packages spec)\<rparr>;
          defaulted = sandbox\<lparr>sb_spec := (case canonical_loop env [] (sx_allowedHosts spec) of
             None \<Rightarrow> spec1 | Some hosts \<Rightarrow> spec1\<lparr>sx_allowedHosts := hosts\<rparr>)\<rparr>
      in case request of
           None \<Rightarrow> Err NoRequest
         | Some (SandboxUpdateFrom None) \<Rightarrow> Err DecodeOld
         | Some (SandboxUpdateFrom (Some old)) \<Rightarrow> Ok (if sem (sb_spec old) spec then sandbox else defaulted)
         | Some SandboxOther \<Rightarrow> Ok defaulted)"

subsection \<open>What an accepted Sandbox guarantees\<close>

definition model_wellformed :: "InferenceModelRef \<Rightarrow> bool" where
  "model_wellformed m \<longleftrightarrow> TrimSpace (mr_provider m) \<noteq> [] \<and> TrimSpace (mr_model m) \<noteq> []
     \<and> (mr_provider m = InferencePoolProvider \<longrightarrow> mr_scope m = ResourceScopeWorkspace)"

definition provider_ref :: "InferenceModelRef \<Rightarrow> ResourceReference" where
  "provider_ref m = \<lparr>ref_scope = mr_scope m, ref_name = mr_provider m\<rparr>"

definition entries :: "(ResourceReference \<times> string list) list \<Rightarrow> (ResourceReference \<times> string) set" where
  "entries bp = {(p, m). \<exists>ms. (p, ms) \<in> set bp \<and> m \<in> set ms}"

lemma entries_append_model [simp]: "entries (append_model p m bp) = insert (p, m) (entries bp)"
  by (induction p m bp rule: append_model.induct) (auto simp: entries_def)

lemma model_step_silent:
  "ms_fields (model_step i sc m) = [] \<longleftrightarrow> ms_fields sc = [] \<and> model_wellformed m \<and> m \<notin> set (ms_allowed sc)"
  by (auto simp: model_step_def Let_def model_wellformed_def issue_def)

lemma model_step_allowed [simp]: "set (ms_allowed (model_step i sc m)) = insert m (set (ms_allowed sc))"
  by (auto simp: model_step_def Let_def)

lemma model_step_collect:
  assumes "ms_fields (model_step i sc m) = []"
  shows "set (ms_pools (model_step i sc m)) = set (ms_pools sc) \<union> (if mr_provider m = InferencePoolProvider then {mr_model m} else {})"
    and "entries (ms_byProvider (model_step i sc m)) =
      entries (ms_byProvider sc) \<union> (if mr_provider m = InferencePoolProvider then {} else {(provider_ref m, mr_model m)})"
  using assms unfolding model_step_silent
  by (auto simp: model_step_def Let_def model_wellformed_def provider_ref_def)

lemma models_loop_silent:
  "ms_fields (models_loop i sc ms) = [] \<longleftrightarrow>
     ms_fields sc = [] \<and> list_all model_wellformed ms \<and> distinct ms \<and> set ms \<inter> set (ms_allowed sc) = {}"
  by (induction i sc ms rule: models_loop.induct) (auto simp: model_step_silent)

lemma models_loop_allowed: "set (ms_allowed (models_loop i sc ms)) = set (ms_allowed sc) \<union> set ms"
  by (induction i sc ms rule: models_loop.induct) auto

lemma models_loop_collect:
  assumes "ms_fields (models_loop i sc ms) = []"
  shows "set (ms_pools (models_loop i sc ms)) = set (ms_pools sc) \<union> mr_model ` {m \<in> set ms. mr_provider m = InferencePoolProvider}"
    and "entries (ms_byProvider (models_loop i sc ms)) =
      entries (ms_byProvider sc) \<union> (\<lambda>m. (provider_ref m, mr_model m)) ` {m \<in> set ms. mr_provider m \<noteq> InferencePoolProvider}"
proof -
  have "set (ms_pools (models_loop i sc ms)) = set (ms_pools sc) \<union> mr_model ` {m \<in> set ms. mr_provider m = InferencePoolProvider}
    \<and> entries (ms_byProvider (models_loop i sc ms)) =
      entries (ms_byProvider sc) \<union> (\<lambda>m. (provider_ref m, mr_model m)) ` {m \<in> set ms. mr_provider m \<noteq> InferencePoolProvider}"
    using assms
  proof (induction i sc ms rule: models_loop.induct)
    case (2 i sc m ms)
    then have "ms_fields (model_step i sc m) = []" by (simp add: models_loop_silent)
    from 2 model_step_collect [OF this] show ?case by (auto split: if_splits)
  qed simp
  then show "set (ms_pools (models_loop i sc ms)) = set (ms_pools sc) \<union> mr_model ` {m \<in> set ms. mr_provider m = InferencePoolProvider}"
    "entries (ms_byProvider (models_loop i sc ms)) =
      entries (ms_byProvider sc) \<union> (\<lambda>m. (provider_ref m, mr_model m)) ` {m \<in> set ms. mr_provider m \<noteq> InferencePoolProvider}"
    by blast+
qed

text \<open>A model the Agent can be routed to.\<close>

definition model_available :: "('q, 'a) sandbox_reader_scheme \<Rightarrow> string \<Rightarrow> InferenceModelRef \<Rightarrow> bool" where
  "model_available r namespace m \<longleftrightarrow>
     (if mr_provider m = InferencePoolProvider
      then \<exists>ns. Namespace r namespace ResourceScopeWorkspace = Ok ns \<and> getPool r ns (mr_model m) = Ok False
      else \<exists>ns enabled. SelectedNamespace r namespace
             \<lparr>sel_scope = mr_scope m, sel_kind = KindInferenceProvider, sel_name = mr_provider m\<rparr> = Ok ns
           \<and> getProvider r ns (mr_provider m) = Ok (False, enabled) \<and> mr_model m \<in> set enabled)"

lemma pool_issues_Nil:
  "pool_issues r namespace p = [] \<longleftrightarrow>
     (\<exists>ns. Namespace r namespace ResourceScopeWorkspace = Ok ns \<and> getPool r ns p = Ok False)"
  by (auto simp: pool_issues_def split: sum.splits get_error.splits)

lemma provider_issues_Nil:
  "provider_issues r namespace (ref, ms) = [] \<longleftrightarrow>
     (\<exists>ns enabled. SelectedNamespace r namespace
          \<lparr>sel_scope = ref_scope ref, sel_kind = KindInferenceProvider, sel_name = ref_name ref\<rparr> = Ok ns
        \<and> getProvider r ns (ref_name ref) = Ok (False, enabled) \<and> set ms \<subseteq> set enabled)"
  by (auto simp: provider_issues_def Let_def filter_empty_conv split: sum.splits get_error.splits prod.splits)

lemma validateInference_Nil:
  assumes "validateInference (Some r) sb = []"
  defines "policy \<equiv> sx_inference (sb_spec sb)"
  shows "si_models policy \<noteq> []" "distinct (si_models policy)" "si_defaultModel policy \<in> set (si_models policy)"
    "set_option (si_smallModel policy) \<subseteq> set (si_models policy)" "list_all (model_available r (sb_namespace sb)) (si_models policy)"
proof -
  let ?sc = "models_loop 0 empty_scan (si_models policy)"
  have ne: "si_models policy \<noteq> []"
    using assms(1) by (auto simp: validateInference_def Let_def policy_def)
  then have all: "ms_fields ?sc = []" "si_defaultModel policy \<in> set (ms_allowed ?sc)"
      "set_option (si_smallModel policy) \<subseteq> set (ms_allowed ?sc)"
      "\<forall>p\<in>set (ms_pools ?sc). pool_issues r (sb_namespace sb) p = []"
      "\<forall>e\<in>set (ms_byProvider ?sc). provider_issues r (sb_namespace sb) e = []"
    using assms(1) unfolding validateInference_def Let_def policy_def [symmetric]
    by (auto split: option.splits if_splits)
  note scan = models_loop_collect [OF all(1)]
  have "model_available r (sb_namespace sb) m" if m: "m \<in> set (si_models policy)" for m
  proof (cases "mr_provider m = InferencePoolProvider")
    case True
    then have "mr_model m \<in> set (ms_pools ?sc)" using m scan(1) by auto
    then show ?thesis using all(4) True by (auto simp: model_available_def pool_issues_Nil)
  next
    case False
    then have "(provider_ref m, mr_model m) \<in> entries (ms_byProvider ?sc)" using m scan(2) by auto
    then obtain ms where "(provider_ref m, ms) \<in> set (ms_byProvider ?sc)" "mr_model m \<in> set ms"
      by (auto simp: entries_def)
    then show ?thesis
      using all(5) False by (fastforce simp: model_available_def provider_issues_Nil provider_ref_def)
  qed
  then show "list_all (model_available r (sb_namespace sb)) (si_models policy)" by (simp add: list_all_iff)
  show "si_models policy \<noteq> []" by (rule ne)
  show "distinct (si_models policy)" using all(1) by (simp add: models_loop_silent)
  show "si_defaultModel policy \<in> set (si_models policy)" "set_option (si_smallModel policy) \<subseteq> set (si_models policy)"
    using all(2,3) by (auto simp: models_loop_allowed empty_scan_def)
qed

interpretation tool_refs: first_seen_loop "tool_refs_loop p names" "\<lambda>t. TrimSpace (mt_name t)"
    "\<lambda>t. TrimSpace (mt_name t) \<noteq> [] \<and> TrimSpace (mt_name t) \<in> set names" for p names
  by unfold_locales (auto simp: Let_def issue_def split: option.splits)

text \<open>A connection reference whose tools are all in the catalog of a connection that exists.\<close>

definition connection_usable :: "('q, 'a) sandbox_reader_scheme \<Rightarrow> string \<Rightarrow> MCPConnectionRef \<Rightarrow> bool" where
  "connection_usable r namespace ref \<longleftrightarrow>
     (\<exists>ns tools. SelectedNamespace r namespace
          \<lparr>sel_scope = mc_scope ref, sel_kind = KindMCPConnection, sel_name = mc_name ref\<rparr> = Ok ns
        \<and> getConnection r ns (mc_name ref) = Ok (True, tools) \<and> mc_tools ref \<noteq> []
        \<and> list_all (\<lambda>t. TrimSpace (mt_name t) \<noteq> [] \<and> TrimSpace (mt_name t) \<in> TrimSpace ` set tools) (mc_tools ref)
        \<and> distinct (map (\<lambda>t. TrimSpace (mt_name t)) (mc_tools ref)))"

lemma set_catalog_names [simp]: "set (catalog_names tools) = TrimSpace ` set tools - {[]}"
  by (auto simp: catalog_names_def)

lemma connection_issues_Nil: "connection_issues r namespace p ref = [] \<longleftrightarrow> connection_usable r namespace ref"
  by (auto simp: connection_issues_def connection_usable_def tool_refs.loop_silent_start list_all_iff
      split: sum.splits get_error.splits prod.splits if_splits)

interpretation connections: first_seen_loop "connections_loop (Some r) namespace"
    "\<lambda>ref. \<lparr>ref_scope = mc_scope ref, ref_name = mc_name ref\<rparr>"
    "\<lambda>ref. mc_name ref \<noteq> [] \<and> connection_usable r namespace ref" for r namespace
  by unfold_locales (auto simp: Let_def connection_issues_Nil split: option.splits)

lemma host_issues_Nil: "host_issues env et i entry = [] \<longleftrightarrow> (\<exists>h. ParseHost env entry = Ok h)"
  by (auto simp: host_issues_def split: sum.splits)

lemma validateAllowedHostFields_Nil:
  "validateAllowedHostFields env et spec = [] \<longleftrightarrow> (\<forall>entry\<in>set (sx_allowedHosts spec). \<exists>h. ParseHost env entry = Ok h)"
  by (simp add: validateAllowedHostFields_def concat_index_Nil host_issues_Nil all_set_conv_all_nth)

lemma host_list_loop_total:
  "\<forall>entry\<in>set es. \<exists>h. ParseHost env entry = Ok h \<Longrightarrow> \<exists>hosts'. host_list_loop env i hosts es = Ok hosts'"
  by (induction env i hosts es rule: host_list_loop.induct) (auto split: sum.splits)

lemma validateSandbox_Nil:
  assumes "validateSandbox env et (Some r) sb = []"
  shows "\<forall>entry\<in>set (sx_allowedHosts (sb_spec sb)). \<exists>h. ParseHost env entry = Ok h"
    "list_all (live_reference r (getSkill r) KindSkill (sb_namespace sb)) (sx_skills (sb_spec sb))"
    "list_all (connection_usable r (sb_namespace sb)) (sx_mcpConnectionRefs (sb_spec sb))"
    "distinct (map (\<lambda>ref. \<lparr>ref_scope = mc_scope ref, ref_name = mc_name ref\<rparr>) (sx_mcpConnectionRefs (sb_spec sb)))"
    "validateInference (Some r) sb = []"
  using assms
  by (auto simp: validateSandbox_def validateAllowedHostFields_Nil ValidateReferences_Nil validateMCPConnectionRefs_def
      connections.loop_silent_start list_all_iff)

text \<open>C10. A Sandbox that admission accepts can be served to every Agent that refers to it: its model list is
  non-empty without repetitions and contains the default and the small model; each model is enabled
  by a provider, or is a pool, that exists and is not being deleted; each MCP connection is listed
  once, exists with a ready catalog and offers every tool that is exposed; and building the egress
  policy of an Agent from its allowed hosts succeeds.\<close>

theorem accepted_sandbox_usable:
  assumes "validateSandbox env et (Some r) sb = []" "ee_host eenv = env" "ec_allowedHosts cfg = sx_allowedHosts (sb_spec sb)"
  defines "policy \<equiv> sx_inference (sb_spec sb)"
  shows "si_models policy \<noteq> [] \<and> distinct (si_models policy) \<and> si_defaultModel policy \<in> set (si_models policy)
    \<and> set_option (si_smallModel policy) \<subseteq> set (si_models policy)
    \<and> list_all (model_available r (sb_namespace sb)) (si_models policy)
    \<and> list_all (connection_usable r (sb_namespace sb)) (sx_mcpConnectionRefs (sb_spec sb))
    \<and> distinct (map (\<lambda>ref. \<lparr>ref_scope = mc_scope ref, ref_name = mc_name ref\<rparr>) (sx_mcpConnectionRefs (sb_spec sb)))
    \<and> (\<exists>p. buildEgressPolicySpec eenv agt cfg = Ok p)"
proof -
  note v = validateSandbox_Nil [OF assms(1)]
  from host_list_loop_total [OF v(1), of 0 "[]"] have "\<exists>p. buildEgressPolicySpec eenv agt cfg = Ok p"
    using assms(2,3) by (auto simp: buildEgressPolicySpec_def ParseHostList_def)
  then show ?thesis
    using v validateInference_Nil [OF v(5)] by (simp add: policy_def)
qed

definition sample_model :: InferenceModelRef where
  "sample_model = \<lparr>mr_scope = ResourceScopeWorkspace, mr_provider = ''p'', mr_model = ''m''\<rparr>"

definition sample_sandbox :: Sandbox where
  "sample_sandbox = \<lparr>sb_namespace = ''w'', sb_name = ''s'', sb_spec =
     \<lparr>sx_guardrails = [], sx_createdBy = ''u'', sx_lastModifiedBy = ''u'',
      sx_inference = \<lparr>si_models = [sample_model], si_defaultModel = sample_model, si_smallModel = None, si_attachmentModel = None\<rparr>,
      sx_packages = [], sx_allowedHosts = [''10.0.0.0/8''],
      sx_mcpConnectionRefs = [\<lparr>mc_scope = ResourceScopeWorkspace, mc_name = ''c'', mc_tools = [\<lparr>mt_name = ''t'', mt_requireConsent = True\<rparr>]\<rparr>],
      sx_skills = [\<lparr>ref_scope = ResourceScopeWorkspace, ref_name = ''k''\<rparr>]\<rparr>\<rparr>"

definition sample_sandboxes :: "int sandbox_reader" where
  "sample_sandboxes = \<lparr>getNamespace = sample_namespaces, getWorkspace = sample_workspaces,
     getSkill = (\<lambda>ns n. if ns = ''w'' \<and> n = ''k'' then Ok False else Err GNotFound),
     getTenant = (\<lambda>n. if n = sample_org then Ok sample_tenant else Err GNotFound),
     listNamespaces = (\<lambda>_ v. Ok (if v = sample_org then [''w''] else [])), listAgents = Ok [],
     getSandbox = (\<lambda>ns n. if ns = ''w'' \<and> n = ''s'' then Ok False else Err GNotFound),
     getPool = (\<lambda>_ _. Err GNotFound),
     getProvider = (\<lambda>ns n. if ns = ''w'' \<and> n = ''p'' then Ok (False, [''m'']) else Err GNotFound),
     getConnection = (\<lambda>ns n. if ns = ''w'' \<and> n = ''c'' then Ok (True, [''t'']) else Err GNotFound),
     listSandboxes = Ok []\<rparr>"

lemma sample_here:
  assumes "getNamespace r = sample_namespaces"
  shows "Namespace r ''w'' ResourceScopeWorkspace = Ok ''w''"
    and "SelectedNamespace r ''w'' \<lparr>sel_scope = ResourceScopeWorkspace, sel_kind = k, sel_name = n\<rparr> = Ok ''w''"
  using assms by (simp_all add: SelectedNamespace_def Namespace_def sample_namespaces_def label_def Let_def)

lemma sample_sandbox_valid: "validateSandbox env et (Some sample_sandboxes) sample_sandbox = []"
proof -
  let ?r = sample_sandboxes
  have ns: "getNamespace ?r = sample_namespaces" by (simp add: sample_sandboxes_def)
  note here = sample_here [OF ns]
  have host: "ParseHost env ''10.0.0.0/8'' = Ok \<lparr>h_kind = HostKindCIDR, h_value = ''10.0.0.0/8''\<rparr>"
    by code_simp
  have t: "TrimSpace ''p'' = ''p''" "TrimSpace ''m'' = ''m''" "TrimSpace ''t'' = ''t''"
    by (simp_all add: TrimSpace_visible visible_def)
  have "validateAllowedHostFields env et (sb_spec sample_sandbox) = []"
    using host by (simp add: validateAllowedHostFields_Nil sample_sandbox_def)
  moreover have "ValidateReferences ?r ''w'' (sx_skills (sb_spec sample_sandbox)) = []"
    using here(2) by (simp add: ValidateReferences_Nil live_reference_def sample_sandbox_def sample_sandboxes_def)
  moreover have "validateMCPConnectionRefs (Some ?r) sample_sandbox = []"
    using here(2) t by (simp add: validateMCPConnectionRefs_def connections.loop_silent_start connection_issues_Nil connection_usable_def
        sample_sandbox_def sample_sandboxes_def)
  moreover have "validateInference (Some ?r) sample_sandbox = []"
    using here t by (simp add: validateInference_def Let_def sample_sandbox_def sample_model_def empty_scan_def model_step_def
        InferencePoolProvider_def provider_issues_def sample_sandboxes_def)
  ultimately show ?thesis by (simp add: validateSandbox_def sample_sandbox_def)
qed

theorem accepted_sandbox_usable_witness:
  "model_available sample_sandboxes ''w'' sample_model"
proof -
  let ?cfg = "\<lparr>ec_allowedHosts = [''10.0.0.0/8''], ec_mcpURL = [], ec_inferenceURL = []\<rparr>"
  have "ec_allowedHosts ?cfg = sx_allowedHosts (sb_spec sample_sandbox)" by (simp add: sample_sandbox_def)
  from accepted_sandbox_usable [OF sample_sandbox_valid refl this] show ?thesis
    by (simp add: sample_sandbox_def)
qed

subsection \<open>References stay alive\<close>

text \<open>
  Agents as consumers of Sandboxes, and Agents and Sandboxes as consumers of Skills. The reader of
  each request sees the consumers and the live objects of that moment; namespaces and Workspaces
  do not change. On the values of the model, \<open>Semantic.DeepEqual\<close> is equality.
\<close>

definition resolved_refs :: "('a) scope_reader_scheme \<Rightarrow> string \<Rightarrow> ResourceReference list \<Rightarrow> (string \<times> string) set" where
  "resolved_refs r namespace refs = {(ns, ref_name ref) |ns ref. ref \<in> set refs \<and> Namespace r namespace (ref_scope ref) = Ok ns}"

definition live_object :: "(string \<times> string) set \<Rightarrow> string \<Rightarrow> string \<Rightarrow> (get_error, bool) result" where
  "live_object live ns n = (if (ns, n) \<in> live then Ok False else Err GNotFound)"

definition agents_cluster ::
  "('q, 'a) agent_reader_scheme \<Rightarrow> 'q Agent list \<Rightarrow> (string \<times> string) set \<Rightarrow> ('q, 'a) agent_reader_scheme" where
  "agents_cluster r as live = r\<lparr>listAgents := Ok as, getSandbox := live_object live\<rparr>"

definition sandbox_refs :: "('a) scope_reader_scheme \<Rightarrow> 'q Agent \<Rightarrow> (string \<times> string) set" where
  "sandbox_refs r a = resolved_refs r (agt_namespace a) [sp_sandboxRef (agt_spec a)]"

definition agent_admitted ::
  "(string \<Rightarrow> string) \<Rightarrow> ('q::linordered_ab_group_add, 'a) agent_reader_scheme \<Rightarrow> 'q Agent list \<Rightarrow> (string \<times> string) set \<Rightarrow> 'q Agent \<Rightarrow> bool" where
  "agent_admitted uni r as live a \<longleftrightarrow> ValidateCreate uni (Some (agents_cluster r as live)) a = Some []"

definition agent_updated ::
  "(string \<Rightarrow> string) \<Rightarrow> ('q \<Rightarrow> string) \<Rightarrow> ('q::linordered_ab_group_add, 'a) agent_reader_scheme \<Rightarrow> 'q Agent list \<Rightarrow>
     (string \<times> string) set \<Rightarrow> 'q Agent \<Rightarrow> 'q Agent \<Rightarrow> bool" where
  "agent_updated uni qt r as live a b \<longleftrightarrow>
     same_key a b \<and> ValidateUpdate uni (=) qt (Some (agents_cluster r as live)) a b = Some []"

definition sandbox_deleted ::
  "('q, 'a) agent_reader_scheme \<Rightarrow> 'q Agent list \<Rightarrow> (string \<times> string) set \<Rightarrow> string \<times> string \<Rightarrow> bool" where
  "sandbox_deleted r as live ob \<longleftrightarrow> ValidateDelete_sandbox (Some (agents_cluster r as live)) (fst ob) (snd ob) = Ok ()"

lemma Namespace_cong:
  "getNamespace r = getNamespace r' \<Longrightarrow> getWorkspace r = getWorkspace r' \<Longrightarrow> Namespace r = Namespace r'"
  by (intro ext) (simp only: Namespace_def)

lemma SelectedNamespace_cong:
  "getNamespace r = getNamespace r' \<Longrightarrow> getWorkspace r = getWorkspace r' \<Longrightarrow> SelectedNamespace r = SelectedNamespace r'"
  by (intro ext) (simp only: SelectedNamespace_def Namespace_cong [of r r'])

lemma agents_cluster_simps [simp]:
  "Namespace (agents_cluster r as live) = Namespace r" "SelectedNamespace (agents_cluster r as live) = SelectedNamespace r"
  "listAgents (agents_cluster r as live) = Ok as" "getSandbox (agents_cluster r as live) = live_object live"
  by (auto intro!: Namespace_cong SelectedNamespace_cong simp: agents_cluster_def)

lemma live_reference_resolved:
  assumes "list_all (live_reference r (live_object live) kd namespace) refs"
  shows "resolved_refs r namespace refs \<subseteq> live"
  using assms
  by (auto simp: resolved_refs_def list_all_iff live_reference_def live_object_def dest!: SelectedNamespace_Ok(1) split: if_splits)

lemma early_return_reports [simp]:
  "memory_issues reader a \<noteq> Some ([], True)" "sandbox_issues reader a \<noteq> ([], True)"
  by (auto simp: memory_issues_def sandbox_issues_def Let_def split: if_splits option.splits sum.splits get_error.splits)

text \<open>An Agent that is validated without errors refers to a live Sandbox and to live Skills.\<close>

lemma validateAgent_refs:
  assumes "validateAgent uni (Some r) a = Some []"
  shows "live_reference r (getSandbox r) KindSandbox (agt_namespace a) (sp_sandboxRef (agt_spec a))"
    and "list_all (live_reference r (getSkill r) KindSkill (agt_namespace a)) (sp_skills (agt_spec a))"
proof -
  have ok: "sandbox_issues (Some r) a = ([], False)" "TrimSpace (ref_name (sp_sandboxRef (agt_spec a))) \<noteq> []"
      "ValidateReferences r (agt_namespace a) (sp_skills (agt_spec a)) = []"
    using assms by (auto simp: validateAgent_def Let_def split: option.splits prod.splits if_splits)
  from ok(2) have "ref_name (sp_sandboxRef (agt_spec a)) \<noteq> []" by (metis TrimSpace_Nil)
  then show "live_reference r (getSandbox r) KindSandbox (agt_namespace a) (sp_sandboxRef (agt_spec a))"
    using ok(1) by (auto simp: sandbox_issues_def Let_def live_reference_def split: sum.splits get_error.splits)
  show "list_all (live_reference r (getSkill r) KindSkill (agt_namespace a)) (sp_skills (agt_spec a))"
    using ok(3) by (simp add: ValidateReferences_Nil)
qed

lemma ValidateCreate_agent: "ValidateCreate uni r a = Some [] \<Longrightarrow> validateAgent uni r a = Some []"
  by (auto simp: ValidateCreate_def split: option.splits)

lemma ValidateUpdate_agent: "ValidateUpdate uni (=) qt r a b = Some [] \<Longrightarrow> agt_spec a = agt_spec b \<or> validateAgent uni r b = Some []"
  by (auto simp: ValidateUpdate_def split: option.splits if_splits)

lemma sandbox_refs_live:
  assumes "validateAgent uni (Some (agents_cluster r as live)) a = Some []"
  shows "sandbox_refs r a \<subseteq> live"
proof -
  have "list_all (live_reference (agents_cluster r as live) (live_object live) KindSandbox (agt_namespace a)) [sp_sandboxRef (agt_spec a)]"
    using validateAgent_refs(1) [OF assms] by simp
  from live_reference_resolved [OF this] show ?thesis by (simp add: sandbox_refs_def resolved_refs_def)
qed

lemma referencing_loop_Nil:
  "referencing_loop c ns n as = Ok [] \<Longrightarrow> a \<in> set as \<Longrightarrow> (ns, n) \<notin> sandbox_refs c a"
  by (induction c ns n as rule: referencing_loop.induct)
     (auto simp: Let_def sandbox_refs_def resolved_refs_def split: if_splits sum.splits)

lemma sort_Nil [simp]: "sort xs = [] \<longleftrightarrow> xs = []"
  by (metis length_0_conv length_sort)

lemma sandbox_deleted_unreferenced: "sandbox_deleted r as live ob \<Longrightarrow> a \<in> set as \<Longrightarrow> ob \<notin> sandbox_refs r a"
proof -
  assume del: "sandbox_deleted r as live ob" and a: "a \<in> set as"
  have "referencing_loop (agents_cluster r as live) (fst ob) (snd ob) as = Ok []"
    using del by (auto simp: sandbox_deleted_def ValidateDelete_sandbox_def ReferencingAgentNames_def split: sum.splits list.splits)
  from referencing_loop_Nil [OF this a] show ?thesis by (simp add: sandbox_refs_def resolved_refs_def)
qed

interpretation sandbox_guard: guarded_references
    "agent_admitted uni r" "agent_updated uni qt r" "sandbox_deleted r" "sandbox_refs r"
    for uni qt and r :: "('q::linordered_ab_group_add, 'a) agent_reader_scheme"
proof
  show "agent_admitted uni r as live a \<Longrightarrow> sandbox_refs r a \<subseteq> live" for as live a
    by (auto simp: agent_admitted_def dest!: ValidateCreate_agent sandbox_refs_live)
  show "agent_updated uni qt r as live a b \<Longrightarrow> sandbox_refs r b \<subseteq> live \<or> sandbox_refs r b \<subseteq> sandbox_refs r a" for as live a b
    using ValidateUpdate_agent [of uni qt "Some (agents_cluster r as live)" a b]
    by (auto simp: agent_updated_def same_key_def sandbox_refs_def dest: sandbox_refs_live [unfolded sandbox_refs_def])
  show "sandbox_deleted r as live ob \<Longrightarrow> a \<in> set as \<Longrightarrow> ob \<notin> sandbox_refs r a" for as live ob a
    by (rule sandbox_deleted_unreferenced)
qed

text \<open>C9. No Agent ever loses its Sandbox: whatever creations, updates and deletions of Agents and creations
  and deletions of Sandboxes the webhooks admit, every Agent keeps referring to a Sandbox that
  exists, if that held at the start.\<close>

theorem sandbox_references_live:
  assumes "(guarded_step (agent_admitted uni r) (agent_updated uni qt r) (sandbox_deleted r))\<^sup>*\<^sup>* s t"
    and "references_live (sandbox_refs r) s"
  shows "references_live (sandbox_refs r) t"
  using assms by (rule sandbox_guard.run_live)

lemma sample_agents_cluster: "agents_cluster sample_reader as {(sample_org, ''base'')} = with_agents sample_reader as"
  by (simp add: agents_cluster_def with_agents_def sample_reader_def live_object_def fun_eq_iff)

theorem sandbox_references_live_witness:
  "references_live (sandbox_refs sample_reader) ([sample_agent], {(sample_org, ''base'')})"
proof -
  let ?step = "guarded_step (agent_admitted (\<lambda>s. s) sample_reader) (agent_updated (\<lambda>s. s) (\<lambda>_. []) sample_reader)
      (sandbox_deleted sample_reader)"
  have "agent_admitted (\<lambda>s. s) sample_reader [] {(sample_org, ''base'')} sample_agent"
    by (simp add: agent_admitted_def sample_agents_cluster ValidateCreate_def sample_validateAgent sample_validateQuota)
  then have "?step ([], {(sample_org, ''base'')}) ([sample_agent], {(sample_org, ''base'')})"
    by (rule guarded_step.add)
  then have "?step\<^sup>*\<^sup>* ([], {(sample_org, ''base'')}) ([sample_agent], {(sample_org, ''base'')})" by (rule r_into_rtranclp)
  from sandbox_references_live [OF this] show ?thesis by (simp add: references_live_def)
qed

datatype 'q consumer = AgentConsumer "'q Agent" | SandboxConsumer Sandbox

fun agents_of :: "'q consumer list \<Rightarrow> 'q Agent list" where
  "agents_of [] = []"
| "agents_of (AgentConsumer a # cs) = a # agents_of cs"
| "agents_of (SandboxConsumer s # cs) = agents_of cs"

fun sandboxes_of :: "'q consumer list \<Rightarrow> Sandbox list" where
  "sandboxes_of [] = []"
| "sandboxes_of (AgentConsumer a # cs) = sandboxes_of cs"
| "sandboxes_of (SandboxConsumer s # cs) = s # sandboxes_of cs"

definition consumers_cluster ::
  "('q, 'a) sandbox_reader_scheme \<Rightarrow> 'q consumer list \<Rightarrow> (string \<times> string) set \<Rightarrow> ('q, 'a) sandbox_reader_scheme" where
  "consumers_cluster r cs live =
     r\<lparr>listAgents := Ok (agents_of cs), listSandboxes := Ok (sandboxes_of cs), getSkill := live_object live\<rparr>"

definition skill_refs :: "('a) scope_reader_scheme \<Rightarrow> 'q consumer \<Rightarrow> (string \<times> string) set" where
  "skill_refs r c = (case c of
      AgentConsumer a \<Rightarrow> resolved_refs r (agt_namespace a) (sp_skills (agt_spec a))
    | SandboxConsumer s \<Rightarrow> resolved_refs r (sb_namespace s) (sx_skills (sb_spec s)))"

record admission_env =
  ae_case :: "string \<Rightarrow> string"
  ae_host :: host_env
  ae_text :: "sandbox_host_error \<Rightarrow> string"

definition consumer_admitted ::
  "admission_env \<Rightarrow> ('q::linordered_ab_group_add, 'a) sandbox_reader_scheme \<Rightarrow> 'q consumer list \<Rightarrow>
     (string \<times> string) set \<Rightarrow> 'q consumer \<Rightarrow> bool" where
  "consumer_admitted ae r cs live c = (case c of
      AgentConsumer a \<Rightarrow> ValidateCreate (ae_case ae) (Some (consumers_cluster r cs live)) a = Some []
    | SandboxConsumer s \<Rightarrow> validateSandbox (ae_host ae) (ae_text ae) (Some (consumers_cluster r cs live)) s = [])"

definition consumer_updated ::
  "admission_env \<Rightarrow> ('q \<Rightarrow> string) \<Rightarrow> ('q::linordered_ab_group_add, 'a) sandbox_reader_scheme \<Rightarrow> 'q consumer list \<Rightarrow>
     (string \<times> string) set \<Rightarrow> 'q consumer \<Rightarrow> 'q consumer \<Rightarrow> bool" where
  "consumer_updated ae qt r cs live c d = (case (c, d) of
      (AgentConsumer a, AgentConsumer b) \<Rightarrow> same_key a b
        \<and> ValidateUpdate (ae_case ae) (=) qt (Some (consumers_cluster r cs live)) a b = Some []
    | (SandboxConsumer s, SandboxConsumer t) \<Rightarrow> sb_namespace s = sb_namespace t \<and> sb_name s = sb_name t
        \<and> ValidateUpdate_sandbox (ae_host ae) (ae_text ae) (=) (Some (consumers_cluster r cs live)) s t = []
    | _ \<Rightarrow> False)"

definition skill_deleted ::
  "('q, 'a) sandbox_reader_scheme \<Rightarrow> 'q consumer list \<Rightarrow> (string \<times> string) set \<Rightarrow> string \<times> string \<Rightarrow> bool" where
  "skill_deleted r cs live ob \<longleftrightarrow> ValidateDelete_skill (consumers_cluster r cs live) ob = Ok ()"

lemma consumers_cluster_simps [simp]:
  "Namespace (consumers_cluster r cs live) = Namespace r" "SelectedNamespace (consumers_cluster r cs live) = SelectedNamespace r"
  "listAgents (consumers_cluster r cs live) = Ok (agents_of cs)" "listSandboxes (consumers_cluster r cs live) = Ok (sandboxes_of cs)"
  "getSkill (consumers_cluster r cs live) = live_object live"
  by (auto intro!: Namespace_cong SelectedNamespace_cong simp: consumers_cluster_def)

lemma live_reference_cluster [simp]: "live_reference (consumers_cluster r cs live) = live_reference r"
  by (intro ext) (simp add: live_reference_def)

lemma consumer_admitted_live: "consumer_admitted ae r cs live c \<Longrightarrow> skill_refs r c \<subseteq> live"
proof (cases c)
  case (AgentConsumer a)
  moreover assume "consumer_admitted ae r cs live c"
  ultimately have "validateAgent (ae_case ae) (Some (consumers_cluster r cs live)) a = Some []"
    by (simp add: consumer_admitted_def ValidateCreate_agent)
  from validateAgent_refs(2) [OF this] have "list_all (live_reference r (live_object live) KindSkill (agt_namespace a)) (sp_skills (agt_spec a))"
    by simp
  from live_reference_resolved [OF this] AgentConsumer show ?thesis by (simp add: skill_refs_def)
next
  case (SandboxConsumer s)
  moreover assume "consumer_admitted ae r cs live c"
  ultimately have "validateSandbox (ae_host ae) (ae_text ae) (Some (consumers_cluster r cs live)) s = []"
    by (simp add: consumer_admitted_def)
  from validateSandbox_Nil(2) [OF this] have "list_all (live_reference r (live_object live) KindSkill (sb_namespace s)) (sx_skills (sb_spec s))"
    by simp
  from live_reference_resolved [OF this] SandboxConsumer show ?thesis by (simp add: skill_refs_def)
qed

lemma consumer_updated_live:
  assumes "consumer_updated ae qt r cs live c d"
  shows "skill_refs r d \<subseteq> live \<or> skill_refs r d \<subseteq> skill_refs r c"
proof (cases d)
  case (AgentConsumer b)
  then obtain a where a: "c = AgentConsumer a" "same_key a b"
      "ValidateUpdate (ae_case ae) (=) qt (Some (consumers_cluster r cs live)) a b = Some []"
    using assms by (cases c) (auto simp: consumer_updated_def)
  from ValidateUpdate_agent [OF a(3)] show ?thesis
  proof
    assume "agt_spec a = agt_spec b"
    then show ?thesis using a(1,2) AgentConsumer by (simp add: skill_refs_def same_key_def)
  next
    assume "validateAgent (ae_case ae) (Some (consumers_cluster r cs live)) b = Some []"
    from validateAgent_refs(2) [OF this] have "list_all (live_reference r (live_object live) KindSkill (agt_namespace b)) (sp_skills (agt_spec b))"
      by simp
    from live_reference_resolved [OF this] AgentConsumer show ?thesis by (simp add: skill_refs_def)
  qed
next
  case (SandboxConsumer t)
  then obtain s where s: "c = SandboxConsumer s" "sb_namespace s = sb_namespace t"
      "ValidateUpdate_sandbox (ae_host ae) (ae_text ae) (=) (Some (consumers_cluster r cs live)) s t = []"
    using assms by (cases c) (auto simp: consumer_updated_def)
  show ?thesis
  proof (cases "sb_spec s = sb_spec t")
    case True
    then show ?thesis using s(1,2) SandboxConsumer by (simp add: skill_refs_def)
  next
    case False
    then have "consumer_admitted ae r cs live d"
      using s(3) SandboxConsumer by (simp add: consumer_admitted_def ValidateUpdate_sandbox_def)
    from consumer_admitted_live [OF this] show ?thesis ..
  qed
qed

lemma consumer_check_False:
  "consumer_check c key namespace refs = Ok False \<Longrightarrow> key \<notin> resolved_refs c namespace refs"
  by (induction c key namespace refs rule: consumer_check.induct)
     (auto simp: resolved_refs_def split: if_splits sum.splits)

lemma consumers_loop_Nil:
  "consumers_loop c key xs = Ok [] \<Longrightarrow> (k, namespace, name, refs) \<in> set xs \<Longrightarrow> key \<notin> resolved_refs c namespace refs"
  by (induction c key xs rule: consumers_loop.induct) (auto split: if_splits sum.splits dest: consumer_check_False)

lemma set_agents_of: "AgentConsumer a \<in> set cs \<Longrightarrow> a \<in> set (agents_of cs)"
  by (induction cs rule: agents_of.induct) auto

lemma set_sandboxes_of: "SandboxConsumer s \<in> set cs \<Longrightarrow> s \<in> set (sandboxes_of cs)"
  by (induction cs rule: sandboxes_of.induct) auto

lemma skill_deleted_unreferenced:
  assumes "skill_deleted r cs live ob" "c \<in> set cs"
  shows "ob \<notin> skill_refs r c"
proof -
  have loop: "consumers_loop (consumers_cluster r cs live) ob (skill_consumers (agents_of cs) (sandboxes_of cs)) = Ok []"
    using assms(1) by (auto simp: skill_deleted_def ValidateDelete_skill_def ReferencingConsumers_def split: sum.splits if_splits)
  have res: "resolved_refs (consumers_cluster r cs live) = resolved_refs r"
    by (intro ext) (simp add: resolved_refs_def)
  show ?thesis
  proof (cases c)
    case (AgentConsumer a)
    then have "(''Agent'', agt_namespace a, agt_name a, sp_skills (agt_spec a)) \<in> set (skill_consumers (agents_of cs) (sandboxes_of cs))"
      using set_agents_of [of a cs] assms(2) by (auto simp: skill_consumers_def)
    from consumers_loop_Nil [OF loop this] AgentConsumer show ?thesis by (simp add: skill_refs_def res)
  next
    case (SandboxConsumer s)
    then have "(''Sandbox'', sb_namespace s, sb_name s, sx_skills (sb_spec s)) \<in> set (skill_consumers (agents_of cs) (sandboxes_of cs))"
      using set_sandboxes_of [of s cs] assms(2) by (auto simp: skill_consumers_def)
    from consumers_loop_Nil [OF loop this] SandboxConsumer show ?thesis by (simp add: skill_refs_def res)
  qed
qed

interpretation skill_guard: guarded_references
    "consumer_admitted ae r" "consumer_updated ae qt r" "skill_deleted r" "skill_refs r"
    for ae qt and r :: "('q::linordered_ab_group_add, 'a) sandbox_reader_scheme"
  by unfold_locales (fact consumer_admitted_live, fact consumer_updated_live, fact skill_deleted_unreferenced)

text \<open>No Agent and no Sandbox ever loses a Skill it lists: under every sequence of admitted creations,
  updates and deletions of Agents, Sandboxes and Skills, each listed Skill exists in the namespace
  its reference resolves to, if that held at the start.\<close>

lemma skill_references_live:
  assumes "(guarded_step (consumer_admitted ae r) (consumer_updated ae qt r) (skill_deleted r))\<^sup>*\<^sup>* s t"
    and "references_live (skill_refs r) s"
  shows "references_live (skill_refs r) t"
  using assms by (rule skill_guard.run_live)

subsection \<open>Defaulting is stable\<close>

lemma canonical_loop_values:
  "canonical_loop env seen es = Some hs \<Longrightarrow>
     distinct hs \<and> set hs \<inter> set seen = {} \<and> (\<forall>v\<in>set hs. \<exists>e\<in>set es. \<exists>h. ParseHost env e = Ok h \<and> h_value h = v)"
  by (induction env seen es arbitrary: hs rule: canonical_loop.induct) (fastforce split: sum.splits if_splits)+

lemma canonical_loop_fixed:
  "\<forall>v\<in>set hs. \<exists>h. ParseHost env v = Ok h \<and> h_value h = v \<Longrightarrow> distinct hs \<Longrightarrow> set hs \<inter> set seen = {} \<Longrightarrow>
     canonical_loop env seen hs = Some hs"
proof (induction hs arbitrary: seen)
  case (Cons v hs)
  then obtain h where "ParseHost env v = Ok h" "h_value h = v" by auto
  then show ?case using Cons by auto
qed simp

lemma canonical_loop_defined:
  "(\<exists>hs. canonical_loop env seen es = Some hs) \<longleftrightarrow> (\<forall>e\<in>set es. \<exists>h. ParseHost env e = Ok h)"
  by (induction env seen es rule: canonical_loop.induct) (auto split: sum.splits)

lemma canonical_loop_stable:
  assumes "dns1123_documented env" "list_all (list_all is_ascii) es" "canonical_loop env [] es = Some hs"
  shows "canonical_loop env [] hs = Some hs"
proof (rule canonical_loop_fixed)
  note v = canonical_loop_values [OF assms(3)]
  show "\<forall>v\<in>set hs. \<exists>h. ParseHost env v = Ok h \<and> h_value h = v"
  proof
    fix v assume "v \<in> set hs"
    then obtain e h where "e \<in> set es" "ParseHost env e = Ok h" "h_value h = v" using v by blast
    moreover from this have "list_all is_ascii e" using assms(2) by (simp add: list_all_iff)
    ultimately show "\<exists>h. ParseHost env v = Ok h \<and> h_value h = v" using ParseHost_canonical [OF assms(1), of e h] by auto
  qed
  show "distinct hs" "set hs \<inter> set [] = {}" using v by auto
qed

lemma DefaultPackages_trimmed: "d \<in> set DefaultPackages \<Longrightarrow> TrimSpace d = d \<and> d \<noteq> []"
  by (auto simp: DefaultPackages_def intro!: TrimSpace_visible simp: visible_def)

lemma packages_set: "set (DefaultPackagesForWebhook names) = (TrimSpace ` set names - {[]}) \<union> set DefaultPackages"
  by (auto simp: DefaultPackagesForWebhook_def)

lemma packages_sorted: "sorted (DefaultPackagesForWebhook names) \<and> distinct (DefaultPackagesForWebhook names)"
  by (simp add: DefaultPackagesForWebhook_def compact_sorted)

lemma packages_idem: "DefaultPackagesForWebhook (DefaultPackagesForWebhook names) = DefaultPackagesForWebhook names"
proof (rule sorted_distinct_set_unique)
  have "TrimSpace p = p \<and> p \<noteq> []" if "p \<in> set (DefaultPackagesForWebhook names)" for p
    using that DefaultPackages_trimmed by (auto simp: packages_set)
  then have "TrimSpace ` set (DefaultPackagesForWebhook names) - {[]} = set (DefaultPackagesForWebhook names)" by force
  then show "set (DefaultPackagesForWebhook (DefaultPackagesForWebhook names)) = set (DefaultPackagesForWebhook names)"
    by (simp add: packages_set [of "DefaultPackagesForWebhook names"]) (auto simp: packages_set)
qed (simp_all add: packages_sorted)

text \<open>Defaulting a Sandbox is stable and harmless: a defaulted Sandbox is not changed by any later
  request, its packages are sorted, without repetitions and contain the required ones, nothing but
  packages and allowed hosts is touched, and the check of the allowed hosts gives the same verdict
  before and after.\<close>

lemma default_sandbox_stable:
  assumes "dns1123_documented env" "list_all (list_all is_ascii) (sx_allowedHosts (sb_spec sb))"
    and "Default_sandbox env sem (Some SandboxOther) sb = Ok sb'" "request \<noteq> SandboxUpdateFrom None"
  shows "Default_sandbox env sem (Some request) sb' = Ok sb'
    \<and> sorted (sx_packages (sb_spec sb')) \<and> distinct (sx_packages (sb_spec sb'))
    \<and> set DefaultPackages \<subseteq> set (sx_packages (sb_spec sb'))
    \<and> sb'\<lparr>sb_spec := (sb_spec sb')\<lparr>sx_packages := p, sx_allowedHosts := h\<rparr>\<rparr> = sb\<lparr>sb_spec := (sb_spec sb)\<lparr>sx_packages := p, sx_allowedHosts := h\<rparr>\<rparr>
    \<and> (validateAllowedHostFields env et (sb_spec sb') = [] \<longleftrightarrow> validateAllowedHostFields env et (sb_spec sb) = [])"
proof (cases "canonical_loop env [] (sx_allowedHosts (sb_spec sb))")
  case None
  then have sb': "sb' = sb\<lparr>sb_spec := (sb_spec sb)\<lparr>sx_packages := DefaultPackagesForWebhook (sx_packages (sb_spec sb))\<rparr>\<rparr>"
    using assms(3) by (simp add: Default_sandbox_def Let_def)
  show ?thesis
    using assms(4) None packages_sorted
    by (cases request) (auto simp: sb' Default_sandbox_def Let_def packages_idem packages_set validateAllowedHostFields_Nil split: option.splits)
next
  case (Some hs)
  then have sb': "sb' = sb\<lparr>sb_spec := (sb_spec sb)\<lparr>sx_packages := DefaultPackagesForWebhook (sx_packages (sb_spec sb)), sx_allowedHosts := hs\<rparr>\<rparr>"
    using assms(3) by (simp add: Default_sandbox_def Let_def)
  have st: "canonical_loop env [] hs = Some hs" by (rule canonical_loop_stable [OF assms(1,2) Some])
  then have "\<forall>e\<in>set hs. \<exists>h. ParseHost env e = Ok h" "\<forall>e\<in>set (sx_allowedHosts (sb_spec sb)). \<exists>h. ParseHost env e = Ok h"
    using canonical_loop_defined [of env "[]"] Some by blast+
  then show ?thesis
    using assms(4) st packages_sorted
    by (cases request) (auto simp: sb' Default_sandbox_def Let_def packages_idem packages_set validateAllowedHostFields_Nil split: option.splits)
qed

end
