(* ===== verification/InferencePool.thy ===== *)
theory InferencePool
  imports SandboxWebhook
begin

section \<open>Inference pools\<close>

text \<open>
  A pool is an ordered fallback chain of provider models behind one logical model
  (\<open>internal/inference/pools.go\<close>, \<open>internal/webhook/v1alpha1/inferencepool\<close>). Token limits are
  32-bit signed integers. Of a provider only its name, kind and models are read here; the display
  name and catalog provenance of a model are left out.
\<close>

record InferenceModelCapabilities =
  cap_attachment :: bool
  cap_reasoning :: bool
  cap_temperature :: bool
  cap_toolCall :: bool

record InferenceModelLimits =
  lim_context :: "32 word"
  lim_input :: "32 word option"
  lim_output :: "32 word"

record InferenceModel =
  im_id :: string
  im_capabilities :: InferenceModelCapabilities
  im_modalitiesIn :: "string list"
  im_modalitiesOut :: "string list"
  im_limits :: InferenceModelLimits
  im_api :: "string option"

record InferenceProvider =
  ip_name :: string
  ip_kind :: string
  ip_models :: "InferenceModel list"

record InferencePoolMember =
  pm_scope :: ResourceScope
  pm_provider :: string
  pm_model :: string

record InferencePool =
  pool_namespace :: string
  pool_name :: string
  pool_automaticFailover :: bool
  pool_members :: "InferencePoolMember list"

record InferencePoolContract =
  ct_api :: string
  ct_capabilities :: InferenceModelCapabilities
  ct_modalitiesIn :: "string list"
  ct_modalitiesOut :: "string list"
  ct_limits :: InferenceModelLimits

record ResolvedPoolMember =
  rm_ref :: InferencePoolMember
  rm_provider :: InferenceProvider
  rm_model :: InferenceModel
  rm_api :: string
  rm_protocol :: string
  rm_section :: string

text \<open>The zero value of the contract is \<open>None\<close>.\<close>

record PoolDefinition =
  pd_contract :: "InferencePoolContract option"
  pd_protocol :: string
  pd_warnings :: "string list"
  pd_members :: "ResolvedPoolMember list"

record Issue =
  is_field :: string
  is_message :: string

record pool_reader = scope_reader +
  getInferenceProvider :: "string \<Rightarrow> string \<Rightarrow> (get_error, InferenceProvider) result"

definition ModalityText :: string where
  "ModalityText = ''text''"

definition ProviderAPI :: "string \<Rightarrow> InferenceModel \<Rightarrow> string" where
  "ProviderAPI kd model =
     (case im_api model of
        Some api \<Rightarrow> api
      | None \<Rightarrow>
          if kd = ''OpenAICodex'' then ''Responses''
          else if kd = ''Anthropic'' \<or> kd = ''AnthropicCompatible'' then ''Messages''
          else ''ChatCompletions'')"

definition SupportsPoolAPI :: "string \<Rightarrow> string \<Rightarrow> bool" where
  "SupportsPoolAPI poolAPI memberAPI \<longleftrightarrow>
     poolAPI = memberAPI
     \<or> poolAPI = ''ChatCompletions'' \<and> memberAPI = ''Messages''
     \<or> poolAPI = ''Responses'' \<and> memberAPI = ''ChatCompletions''
     \<or> poolAPI = ''Messages'' \<and> memberAPI \<in> {''ChatCompletions'', ''Responses''}"

definition ProviderProtocol :: "string \<Rightarrow> InferenceModel \<Rightarrow> string" where
  "ProviderProtocol kd model =
     (if im_api model = Some ''Messages'' \<or> kd = ''Anthropic'' \<or> kd = ''AnthropicCompatible'' then ''Anthropic'' else ''OpenAI'')"

definition modalityIntersection :: "string list \<Rightarrow> string list \<Rightarrow> string list" where
  "modalityIntersection current member = filter (\<lambda>m. m \<in> set member) current"

definition min_int32 :: "32 word \<Rightarrow> 32 word \<Rightarrow> 32 word" where
  "min_int32 a b = (if sint b < sint a then b else a)"

definition section_name :: "nat \<Rightarrow> InferencePoolMember \<Rightarrow> string" where
  "section_name i ref = ''p'' @ int_str (int (Suc i)) @ ''-'' @ pm_provider ref @ ''-''
     @ hex_encode (take 5 (Sum256 (pm_provider ref @ [CHR 0x00] @ pm_model ref)))"

subsection \<open>Resolving the members\<close>

record pool_scan =
  ps_issues :: "Issue list"
  ps_resolved :: "ResolvedPoolMember list"
  ps_seen :: "InferencePoolMember list"
  ps_providers :: "((string \<times> string) \<times> InferenceProvider) list"

definition text_issues :: "string \<Rightarrow> InferenceModel \<Rightarrow> Issue list" where
  "text_issues f model =
     issue (ModalityText \<notin> set (im_modalitiesIn model)) \<lparr>is_field = f @ ''.model'', is_message = ''model must support text input''\<rparr>
     @ issue (ModalityText \<notin> set (im_modalitiesOut model)) \<lparr>is_field = f @ ''.model'', is_message = ''model must support text output''\<rparr>"

text \<open>The provider of a member: cached, read, missing (\<open>Ok None\<close>) or failing.\<close>

definition load_provider ::
  "('a) pool_reader_scheme \<Rightarrow> ((string \<times> string) \<times> InferenceProvider) list \<Rightarrow> string \<times> string \<Rightarrow> (get_error, InferenceProvider option) result" where
  "load_provider r cache key =
     (case map_of cache key of
        Some p \<Rightarrow> Ok (Some p)
      | None \<Rightarrow>
          (case getInferenceProvider r (fst key) (snd key) of
             Inl GNotFound \<Rightarrow> Ok None
           | Inl e \<Rightarrow> Err e
           | Inr p \<Rightarrow> Ok (Some p)))"

definition add_issue :: "string \<Rightarrow> string \<Rightarrow> pool_scan \<Rightarrow> pool_scan" where
  "add_issue f m sc = sc\<lparr>ps_issues := ps_issues sc @ [\<lparr>is_field = f, is_message = m\<rparr>]\<rparr>"

definition member_step :: "('a) pool_reader_scheme \<Rightarrow> string \<Rightarrow> nat \<Rightarrow> pool_scan \<Rightarrow> InferencePoolMember \<Rightarrow> (get_error, pool_scan) result" where
  "member_step r namespace i sc ref =
     (let f = ''members.'' @ int_str (int i) in
      case SelectedNamespace r namespace
             \<lparr>sel_scope = pm_scope ref, sel_kind = KindInferenceProvider, sel_name = pm_provider ref\<rparr> of
        Inl e \<Rightarrow> Ok (add_issue (f @ ''.scope'') ''scope is not available from the selected Pool scope'' sc)
      | Inr ns \<Rightarrow>
          if ref \<in> set (ps_seen sc) then Ok (add_issue f ''scoped provider-model reference is duplicated'' sc)
          else
            (let sc1 = sc\<lparr>ps_seen := ref # ps_seen sc\<rparr>; key = (ns, pm_provider ref) in
             case load_provider r (ps_providers sc) key of
               Inl e \<Rightarrow> Err e
             | Inr None \<Rightarrow> Ok (add_issue (f @ ''.provider'') ''provider does not exist'' sc1)
             | Inr (Some provider) \<Rightarrow>
                 (let sc2 = sc1\<lparr>ps_providers := (key, provider) # ps_providers sc\<rparr> in
                  case find (\<lambda>m. im_id m = pm_model ref) (ip_models provider) of
                    None \<Rightarrow> Ok (add_issue (f @ ''.model'') ''model is not enabled by provider'' sc2)
                  | Some model \<Rightarrow> Ok (sc2\<lparr>ps_issues := ps_issues sc @ text_issues f model,
                      ps_resolved := ps_resolved sc @ [\<lparr>rm_ref = ref, rm_provider = provider, rm_model = model,
                        rm_api = ProviderAPI (ip_kind provider) model, rm_protocol = ProviderProtocol (ip_kind provider) model,
                        rm_section = section_name i ref\<rparr>]\<rparr>))))"

fun members_loop ::
  "('a) pool_reader_scheme \<Rightarrow> string \<Rightarrow> nat \<Rightarrow> pool_scan \<Rightarrow> InferencePoolMember list \<Rightarrow> (get_error, pool_scan) result" where
  "members_loop r namespace i sc [] = Ok sc"
| "members_loop r namespace i sc (ref # refs) =
     (case member_step r namespace i sc ref of
        Inl e \<Rightarrow> Err e
      | Inr sc' \<Rightarrow> members_loop r namespace (Suc i) sc' refs)"

definition empty_pool_scan :: pool_scan where
  "empty_pool_scan = \<lparr>ps_issues = [], ps_resolved = [], ps_seen = [], ps_providers = []\<rparr>"

subsection \<open>The contract\<close>

definition effective_input :: "InferenceModelLimits \<Rightarrow> 32 word" where
  "effective_input l = (case lim_input l of None \<Rightarrow> lim_context l | Some n \<Rightarrow> n)"

definition meet :: "InferencePoolContract \<times> 32 word \<Rightarrow> InferenceModel \<Rightarrow> InferencePoolContract \<times> 32 word" where
  "meet ci model =
     (let c = fst ci; caps = ct_capabilities c; m = im_capabilities model; l = ct_limits c; k = im_limits model in
      (c\<lparr>ct_capabilities := \<lparr>cap_attachment = (cap_attachment caps \<and> cap_attachment m),
            cap_reasoning = (cap_reasoning caps \<and> cap_reasoning m),
            cap_temperature = (cap_temperature caps \<and> cap_temperature m),
            cap_toolCall = (cap_toolCall caps \<and> cap_toolCall m)\<rparr>,
         ct_modalitiesIn := modalityIntersection (ct_modalitiesIn c) (im_modalitiesIn model),
         ct_modalitiesOut := modalityIntersection (ct_modalitiesOut c) (im_modalitiesOut model),
         ct_limits := l\<lparr>lim_context := min_int32 (lim_context l) (lim_context k),
            lim_output := min_int32 (lim_output l) (lim_output k)\<rparr>\<rparr>,
       min_int32 (snd ci) (effective_input k)))"

fun contract_loop ::
  "string \<Rightarrow> nat \<Rightarrow> Issue list \<Rightarrow> InferencePoolContract \<times> 32 word \<Rightarrow> ResolvedPoolMember list \<Rightarrow>
     Issue list \<times> InferencePoolContract \<times> 32 word" where
  "contract_loop api i issues ci [] = (issues, ci)"
| "contract_loop api i issues ci (member # rest) =
     (if \<not> SupportsPoolAPI api (rm_api member)
      then contract_loop api (Suc i) (issues @ [\<lparr>is_field = ''members.'' @ int_str (int i) @ ''.model'',
             is_message = ''These models cannot be used together. Choose a different model combination.''\<rparr>]) ci rest
      else contract_loop api (Suc i) issues (meet ci (rm_model member)) rest)"

definition first_contract :: "ResolvedPoolMember \<Rightarrow> InferencePoolContract" where
  "first_contract m = \<lparr>ct_api = rm_api m, ct_capabilities = im_capabilities (rm_model m),
     ct_modalitiesIn = im_modalitiesIn (rm_model m), ct_modalitiesOut = im_modalitiesOut (rm_model m),
     ct_limits = im_limits (rm_model m)\<rparr>"

definition ResolvePool :: "('a) pool_reader_scheme \<Rightarrow> InferencePool \<Rightarrow> (get_error, PoolDefinition \<times> Issue list) result" where
  "ResolvePool r pool =
     (let zero = \<lparr>pd_contract = None, pd_protocol = [], pd_warnings = [], pd_members = []\<rparr> in
      if length (pool_members pool) < 1
      then Ok (zero, [\<lparr>is_field = ''members'', is_message = ''at least one member is required''\<rparr>])
      else if length (pool_members pool) > 8
      then Ok (zero, [\<lparr>is_field = ''members'', is_message = ''at most eight members are allowed''\<rparr>])
      else case members_loop r (pool_namespace pool) 0 empty_pool_scan (pool_members pool) of
        Inl e \<Rightarrow> Err e
      | Inr sc \<Rightarrow>
          if ps_issues sc \<noteq> [] then Ok (zero\<lparr>pd_members := ps_resolved sc\<rparr>, ps_issues sc)
          else case ps_resolved sc of
            [] \<Rightarrow> Ok (zero, [])
          | first # rest \<Rightarrow>
              (let (issues, contract, input) = contract_loop (rm_api first) 1 []
                     (first_contract first, effective_input (im_limits (rm_model first))) rest in
               if issues \<noteq> [] then Ok (zero\<lparr>pd_members := ps_resolved sc\<rparr>, issues)
               else Ok (\<lparr>pd_contract = Some (contract\<lparr>ct_limits := (ct_limits contract)\<lparr>lim_input := Some input\<rparr>\<rparr>),
                      pd_protocol = rm_protocol first,
                      pd_warnings = (if list_all (\<lambda>m. rm_protocol m = rm_protocol first) rest then [] else [''MixedProtocols'']),
                      pd_members = ps_resolved sc\<rparr>, [])))"

subsection \<open>Admission\<close>

definition pool_validate :: "('a) pool_reader_scheme \<Rightarrow> InferencePool \<Rightarrow> (get_error, field_errors) result" where
  "pool_validate r pool =
     (case ResolvePool r pool of
        Inl e \<Rightarrow> Err e
      | Inr (d, issues) \<Rightarrow> Ok (map (\<lambda>i. FInvalid [PName ''spec''] (BStr []) (is_field i @ '': '' @ is_message i)) issues))"

definition ValidateUpdate_pool ::
  "(InferencePool \<Rightarrow> InferencePool \<Rightarrow> bool) \<Rightarrow> ('a) pool_reader_scheme \<Rightarrow> InferencePool \<Rightarrow> InferencePool \<Rightarrow> (get_error, field_errors) result" where
  "ValidateUpdate_pool sem r old new = (if sem old new then Ok [] else pool_validate r new)"

text \<open>The sandboxes of the pool's namespace that list it, through the index of \<open>IndexPools\<close>.\<close>

definition sandbox_pools :: "Sandbox \<Rightarrow> string list" where
  "sandbox_pools s = compact (sort (map mr_model (filter (\<lambda>m. mr_provider m = InferencePoolProvider) (si_models (sx_inference (sb_spec s))))))"

definition ValidateDelete_pool :: "('q, 'a) sandbox_reader_scheme \<Rightarrow> string \<Rightarrow> string \<Rightarrow> (delete_error, unit) result" where
  "ValidateDelete_pool r ns name =
     (case listSandboxes r of
        Inl e \<Rightarrow> Err (ConsumersFailed (ListConsumers e))
      | Inr sandboxes \<Rightarrow>
          (case filter (\<lambda>s. sb_namespace s = ns \<and> name \<in> set (sandbox_pools s)) sandboxes of
             [] \<Rightarrow> Ok ()
           | s # _ \<Rightarrow> Err (InUse [sb_name s])))"

subsection \<open>Resolved members\<close>

definition member_ok :: "('a) pool_reader_scheme \<Rightarrow> string \<Rightarrow> nat \<Rightarrow> InferencePoolMember \<Rightarrow> ResolvedPoolMember \<Rightarrow> bool" where
  "member_ok r namespace i ref m \<longleftrightarrow>
     rm_ref m = ref \<and> rm_section m = section_name i ref
     \<and> (\<exists>ns. SelectedNamespace r namespace
             \<lparr>sel_scope = pm_scope ref, sel_kind = KindInferenceProvider, sel_name = pm_provider ref\<rparr> = Ok ns
           \<and> getInferenceProvider r ns (pm_provider ref) = Ok (rm_provider m))
     \<and> rm_model m \<in> set (ip_models (rm_provider m)) \<and> im_id (rm_model m) = pm_model ref
     \<and> ModalityText \<in> set (im_modalitiesIn (rm_model m)) \<and> ModalityText \<in> set (im_modalitiesOut (rm_model m))
     \<and> rm_api m = ProviderAPI (ip_kind (rm_provider m)) (rm_model m)"

definition cache_ok :: "('a) pool_reader_scheme \<Rightarrow> pool_scan \<Rightarrow> bool" where
  "cache_ok r sc \<longleftrightarrow> (\<forall>k p. (k, p) \<in> set (ps_providers sc) \<longrightarrow> getInferenceProvider r (fst k) (snd k) = Ok p)"

lemma load_provider_Some: "cache_ok r sc \<Longrightarrow> load_provider r (ps_providers sc) key = Ok (Some p) \<Longrightarrow>
    getInferenceProvider r (fst key) (snd key) = Ok p"
  by (auto simp: load_provider_def cache_ok_def dest: map_of_SomeD split: option.splits sum.splits get_error.splits)

lemma add_issue_simps [simp]: "ps_issues (add_issue f m sc) \<noteq> []" "ps_issues (add_issue f m sc) = [] \<longleftrightarrow> False"
  "ps_providers (add_issue f m sc) = ps_providers sc"
  by (simp_all add: add_issue_def)

lemma text_issues_Nil: "text_issues f model = [] \<longleftrightarrow>
    ModalityText \<in> set (im_modalitiesIn model) \<and> ModalityText \<in> set (im_modalitiesOut model)"
  by (auto simp: text_issues_def issue_def)

lemma member_step_issues: "member_step r namespace i sc ref = Ok sc' \<Longrightarrow> \<exists>more. ps_issues sc' = ps_issues sc @ more"
  by (auto simp: member_step_def Let_def add_issue_def split: sum.splits if_splits option.splits)

lemma member_step_silent:
  assumes "member_step r namespace i sc ref = Ok sc'" "ps_issues sc' = []" "cache_ok r sc"
  shows "cache_ok r sc' \<and> ref \<notin> set (ps_seen sc) \<and> ps_seen sc' = ref # ps_seen sc
    \<and> (\<exists>m. ps_resolved sc' = ps_resolved sc @ [m] \<and> member_ok r namespace i ref m)"
proof -
  from assms(1,2) obtain ns p model where *:
    "SelectedNamespace r namespace \<lparr>sel_scope = pm_scope ref, sel_kind = KindInferenceProvider, sel_name = pm_provider ref\<rparr> = Ok ns"
    "ref \<notin> set (ps_seen sc)" "load_provider r (ps_providers sc) (ns, pm_provider ref) = Ok (Some p)"
    "find (\<lambda>m. im_id m = pm_model ref) (ip_models p) = Some model"
    and sc': "sc' = sc\<lparr>ps_seen := ref # ps_seen sc, ps_providers := ((ns, pm_provider ref), p) # ps_providers sc,
       ps_issues := ps_issues sc @ text_issues (''members.'' @ int_str (int i)) model,
       ps_resolved := ps_resolved sc @ [\<lparr>rm_ref = ref, rm_provider = p, rm_model = model,
         rm_api = ProviderAPI (ip_kind p) model, rm_protocol = ProviderProtocol (ip_kind p) model, rm_section = section_name i ref\<rparr>]\<rparr>"
    by (auto simp: member_step_def Let_def split: sum.splits if_splits option.splits)
  have get: "getInferenceProvider r ns (pm_provider ref) = Ok p"
    using load_provider_Some [OF assms(3) *(3)] by simp
  have "model \<in> set (ip_models p)" "im_id model = pm_model ref"
    using *(4) by (auto simp: find_Some_iff)
  then show ?thesis
    using * get assms(2,3) by (auto simp: sc' cache_ok_def member_ok_def text_issues_Nil)
qed

lemma members_loop_issues: "members_loop r namespace i sc refs = Ok sc' \<Longrightarrow> \<exists>more. ps_issues sc' = ps_issues sc @ more"
  by (induction r namespace i sc refs arbitrary: sc' rule: members_loop.induct)
     (fastforce split: sum.splits dest: member_step_issues)+

lemma members_loop_silent:
  assumes "members_loop r namespace i sc refs = Ok sc'" "ps_issues sc' = []" "cache_ok r sc"
  shows "distinct refs \<and> set refs \<inter> set (ps_seen sc) = {} \<and>
    (\<exists>ms. ps_resolved sc' = ps_resolved sc @ ms \<and> length ms = length refs
       \<and> (\<forall>j<length refs. member_ok r namespace (i + j) (refs ! j) (ms ! j)))"
  using assms
proof (induction refs arbitrary: i sc)
  case (Cons ref refs)
  obtain sc1 where sc1: "member_step r namespace i sc ref = Ok sc1" "members_loop r namespace (Suc i) sc1 refs = Ok sc'"
    using Cons.prems(1) by (auto split: sum.splits)
  then have "ps_issues sc1 = []" using members_loop_issues Cons.prems(2) by fastforce
  note step = member_step_silent [OF sc1(1) this Cons.prems(3)]
  then obtain m where m: "ps_resolved sc1 = ps_resolved sc @ [m]" "member_ok r namespace i ref m" by blast
  from Cons.IH [OF sc1(2) Cons.prems(2)] step obtain ms where ms: "distinct refs" "set refs \<inter> set (ps_seen sc1) = {}"
      "ps_resolved sc' = ps_resolved sc1 @ ms" "length ms = length refs"
      "\<forall>j<length refs. member_ok r namespace (Suc i + j) (refs ! j) (ms ! j)" by blast
  have "\<forall>j<length (ref # refs). member_ok r namespace (i + j) ((ref # refs) ! j) ((m # ms) ! j)"
    using m(2) ms(5) by (auto simp: less_Suc_eq_0_disj)
  then show ?case using ms(1,2,3,4) m(1) step by (intro conjI exI [of _ "m # ms"]) auto
qed simp

lemma int_str_digit: "i < 8 \<Longrightarrow> int_str (int (Suc i)) = [digit_char (Suc i)]"
  by (simp add: int_str_def itoa_def nat_digits.simps [of 10] nat_add_distrib)

subsection \<open>The contract is conservative\<close>

definition conservative :: "InferencePoolContract \<times> 32 word \<Rightarrow> InferenceModel \<Rightarrow> bool" where
  "conservative ci m \<longleftrightarrow>
     (let c = ct_capabilities (fst ci); k = im_capabilities m; l = ct_limits (fst ci) in
      (cap_attachment c \<longrightarrow> cap_attachment k) \<and> (cap_reasoning c \<longrightarrow> cap_reasoning k)
      \<and> (cap_temperature c \<longrightarrow> cap_temperature k) \<and> (cap_toolCall c \<longrightarrow> cap_toolCall k)
      \<and> set (ct_modalitiesIn (fst ci)) \<subseteq> set (im_modalitiesIn m) \<and> set (ct_modalitiesOut (fst ci)) \<subseteq> set (im_modalitiesOut m)
      \<and> sint (lim_context l) \<le> sint (lim_context (im_limits m)) \<and> sint (lim_output l) \<le> sint (lim_output (im_limits m))
      \<and> sint (snd ci) \<le> sint (effective_input (im_limits m)))"

lemma meet_conservative: "conservative (meet ci m) m" "conservative ci k \<Longrightarrow> conservative (meet ci m) k"
  by (auto simp: conservative_def meet_def Let_def modalityIntersection_def min_int32_def)

lemma fold_meet_conservative:
  "(\<forall>k\<in>K. conservative ci k) \<Longrightarrow> k \<in> K \<union> set ms \<Longrightarrow> conservative (foldl meet ci ms) k"
proof (induction ms arbitrary: ci K)
  case (Cons m ms)
  then have "\<forall>k\<in>insert m K. conservative (meet ci m) k" by (auto simp: meet_conservative)
  from Cons.IH [OF this] Cons.prems(2) show ?case by auto
qed simp

lemma first_conservative: "conservative (first_contract m, effective_input (im_limits (rm_model m))) (rm_model m)"
  by (simp add: conservative_def first_contract_def Let_def)

lemma fold_meet_keeps:
  "ct_api (fst (foldl meet ci ms)) = ct_api (fst ci)"
  "t \<in> set (ct_modalitiesIn (fst ci)) \<Longrightarrow> \<forall>m\<in>set ms. t \<in> set (im_modalitiesIn m) \<Longrightarrow> t \<in> set (ct_modalitiesIn (fst (foldl meet ci ms)))"
  "t \<in> set (ct_modalitiesOut (fst ci)) \<Longrightarrow> \<forall>m\<in>set ms. t \<in> set (im_modalitiesOut m) \<Longrightarrow> t \<in> set (ct_modalitiesOut (fst (foldl meet ci ms)))"
  by (induction ms arbitrary: ci) (auto simp: meet_def Let_def modalityIntersection_def)

lemma contract_loop_issues: "fst (contract_loop api i issues ci ms) = [] \<longleftrightarrow>
    issues = [] \<and> list_all (\<lambda>m. SupportsPoolAPI api (rm_api m)) ms"
  by (induction api i issues ci ms rule: contract_loop.induct) auto

lemma contract_loop_meet: "list_all (\<lambda>m. SupportsPoolAPI api (rm_api m)) ms \<Longrightarrow>
    snd (contract_loop api i issues ci ms) = foldl meet ci (map rm_model ms)"
  by (induction api i issues ci ms rule: contract_loop.induct) auto

lemma section_name_inj: "i < 8 \<Longrightarrow> j < 8 \<Longrightarrow> section_name i a = section_name j b \<Longrightarrow> i = j"
  by (drule arg_cong [of _ _ "\<lambda>s. byte (s ! 1)"])
     (simp add: section_name_def int_str_digit byte_digit_char del: of_nat_Suc)

lemma members_named:
  assumes "length ms = length refs" "\<forall>j<length refs. member_ok r namespace j (refs ! j) (ms ! j)"
  shows "map rm_ref ms = refs" "length refs \<le> 8 \<Longrightarrow> distinct (map rm_section ms)"
proof -
  show "map rm_ref ms = refs"
    by (rule nth_equalityI) (use assms in \<open>simp_all add: member_ok_def\<close>)
  have "rm_section (ms ! i) = section_name i (refs ! i)" if "i < length ms" for i
    using assms that by (simp add: member_ok_def)
  then show "length refs \<le> 8 \<Longrightarrow> distinct (map rm_section ms)"
    unfolding distinct_conv_nth using assms(1) section_name_inj by (metis (no_types, lifting) length_map nth_map order_less_le_trans)
qed

text \<open>What a resolution without issues consists of.\<close>

lemma ResolvePool_silent:
  assumes "ResolvePool r pool = Ok (d, [])"
  obtains first rest contract input where "pd_members d = first # rest"
    "length (first # rest) = length (pool_members pool)" "length (pool_members pool) \<le> 8" "distinct (pool_members pool)"
    "\<forall>j<length (pool_members pool). member_ok r (pool_namespace pool) j (pool_members pool ! j) ((first # rest) ! j)"
    "list_all (\<lambda>m. SupportsPoolAPI (rm_api first) (rm_api m)) rest"
    "foldl meet (first_contract first, effective_input (im_limits (rm_model first))) (map rm_model rest) = (contract, input)"
    "pd_contract d = Some (contract\<lparr>ct_limits := (ct_limits contract)\<lparr>lim_input := Some input\<rparr>\<rparr>)"
proof -
  from assms have len: "1 \<le> length (pool_members pool)" "length (pool_members pool) \<le> 8"
    by (auto simp: ResolvePool_def Let_def Suc_le_eq split: if_splits)
  with assms obtain sc where sc: "members_loop r (pool_namespace pool) 0 empty_pool_scan (pool_members pool) = Ok sc" "ps_issues sc = []"
    by (auto simp: ResolvePool_def Let_def split: if_splits sum.splits)
  from members_loop_silent [OF sc] have ms: "distinct (pool_members pool)" "length (ps_resolved sc) = length (pool_members pool)"
      "\<forall>j<length (pool_members pool). member_ok r (pool_namespace pool) j (pool_members pool ! j) (ps_resolved sc ! j)"
    by (auto simp: empty_pool_scan_def cache_ok_def)
  obtain first rest where fr: "ps_resolved sc = first # rest"
    using len(1) ms(2) by (cases "ps_resolved sc") auto
  let ?start = "(first_contract first, effective_input (im_limits (rm_model first)))"
  obtain contract input where e: "foldl meet ?start (map rm_model rest) = (contract, input)" by fastforce
  have "list_all (\<lambda>m. SupportsPoolAPI (rm_api first) (rm_api m)) rest" "pd_members d = first # rest"
    "pd_contract d = Some (contract\<lparr>ct_limits := (ct_limits contract)\<lparr>lim_input := Some input\<rparr>\<rparr>)"
    using e assms len sc fr contract_loop_issues [of "rm_api first" 1 "[]" ?start rest] contract_loop_meet [of "rm_api first" rest 1 "[]" ?start]
    by (auto simp: ResolvePool_def Let_def split: if_splits prod.splits)
  with that e len(2) ms show ?thesis unfolding fr by blast
qed

text \<open>C11. The contract that a pool advertises holds for each of its members. When a pool resolves without
  issues, it has one to eight members, pairwise different and in the order of the specification,
  each a model that its provider enables and that the scope makes available; their section names
  differ. Whatever feature, input or output medium the contract offers is offered by every member,
  text among them; its context, input and output limits are at most those of every member; and
  each member's request format can be translated from the pool's.\<close>

theorem pool_contract_conservative:
  assumes "ResolvePool r pool = Ok (d, [])"
  shows "\<exists>contract input.
     pd_contract d = Some contract \<and> lim_input (ct_limits contract) = Some input
     \<and> 1 \<le> length (pd_members d) \<and> length (pd_members d) \<le> 8
     \<and> map rm_ref (pd_members d) = pool_members pool \<and> distinct (pool_members pool) \<and> distinct (map rm_section (pd_members d))
     \<and> (\<forall>i<length (pd_members d). member_ok r (pool_namespace pool) i (pool_members pool ! i) (pd_members d ! i))
     \<and> list_all (\<lambda>m. conservative (contract, input) (rm_model m) \<and> SupportsPoolAPI (ct_api contract) (rm_api m)) (pd_members d)
     \<and> ModalityText \<in> set (ct_modalitiesIn contract) \<and> ModalityText \<in> set (ct_modalitiesOut contract)"
proof -
  obtain first rest contract input where d: "pd_members d = first # rest"
      "pd_contract d = Some (contract\<lparr>ct_limits := (ct_limits contract)\<lparr>lim_input := Some input\<rparr>\<rparr>)"
    and ms: "length (first # rest) = length (pool_members pool)" "length (pool_members pool) \<le> 8" "distinct (pool_members pool)"
      "\<forall>j<length (pool_members pool). member_ok r (pool_namespace pool) j (pool_members pool ! j) ((first # rest) ! j)"
    and api: "list_all (\<lambda>m. SupportsPoolAPI (rm_api first) (rm_api m)) rest"
    and e: "foldl meet (first_contract first, effective_input (im_limits (rm_model first))) (map rm_model rest) = (contract, input)"
    using assms by (rule ResolvePool_silent)
  have text_in: "ModalityText \<in> set (im_modalitiesIn (rm_model m)) \<and> ModalityText \<in> set (im_modalitiesOut (rm_model m))"
    if "m \<in> set (first # rest)" for m
    using that ms(4) unfolding ms(1) [symmetric] by (metis in_set_conv_nth member_ok_def)
  have cons: "conservative (contract, input) (rm_model m)" if "m \<in> set (first # rest)" for m
    unfolding e [symmetric]
    by (rule fold_meet_conservative [of "{rm_model first}"]) (use that first_conservative in auto)
  have api_c: "ct_api contract = rm_api first" and texts: "ModalityText \<in> set (ct_modalitiesIn contract)" "ModalityText \<in> set (ct_modalitiesOut contract)"
    using fold_meet_keeps(1) [of "(first_contract first, effective_input (im_limits (rm_model first)))" "map rm_model rest"]
      fold_meet_keeps(2,3) [of ModalityText "(first_contract first, effective_input (im_limits (rm_model first)))" "map rm_model rest"] text_in
    unfolding e by (simp_all add: first_contract_def)
  let ?contract = "contract\<lparr>ct_limits := (ct_limits contract)\<lparr>lim_input := Some input\<rparr>\<rparr>"
  have sound: "list_all (\<lambda>m. conservative (?contract, input) (rm_model m) \<and> SupportsPoolAPI (ct_api ?contract) (rm_api m)) (first # rest)"
    using cons api by (simp add: list_all_iff conservative_def Let_def api_c SupportsPoolAPI_def)
  note names = members_named [OF ms(1,4)]
  show ?thesis
    using d ms sound names texts by (intro exI [of _ ?contract] exI [of _ input]) simp
qed

definition sample_provider :: InferenceProvider where
  "sample_provider = \<lparr>ip_name = ''p'', ip_kind = ''Anthropic'', ip_models = [\<lparr>im_id = ''m'',
     im_capabilities = \<lparr>cap_attachment = False, cap_reasoning = True, cap_temperature = True, cap_toolCall = True\<rparr>,
     im_modalitiesIn = [''text'', ''image''], im_modalitiesOut = [''text''],
     im_limits = \<lparr>lim_context = 200000, lim_input = None, lim_output = 8192\<rparr>, im_api = None\<rparr>]\<rparr>"

definition sample_pool :: InferencePool where
  "sample_pool = \<lparr>pool_namespace = ''w'', pool_name = ''fast'', pool_automaticFailover = True,
     pool_members = [\<lparr>pm_scope = ResourceScopeWorkspace, pm_provider = ''p'', pm_model = ''m''\<rparr>]\<rparr>"

definition sample_pools :: pool_reader where
  "sample_pools = \<lparr>getNamespace = sample_namespaces, getWorkspace = sample_workspaces,
     getInferenceProvider = (\<lambda>ns n. if ns = ''w'' \<and> n = ''p'' then Ok sample_provider else Err GNotFound)\<rparr>"

lemma sample_pool_resolves: "\<exists>d. ResolvePool sample_pools sample_pool = Ok (d, [])"
proof -
  have ns: "getNamespace sample_pools = sample_namespaces" by (simp add: sample_pools_def)
  show ?thesis
    using sample_here(2) [OF ns]
    by (simp add: ResolvePool_def sample_pool_def member_step_def empty_pool_scan_def load_provider_def
        sample_provider_def text_issues_def ModalityText_def Let_def issue_def sample_pools_def)
qed

theorem pool_contract_conservative_witness:
  "\<exists>d contract. ResolvePool sample_pools sample_pool = Ok (d, []) \<and> pd_contract d = Some contract
     \<and> ModalityText \<in> set (ct_modalitiesIn contract)"
proof -
  obtain d where d: "ResolvePool sample_pools sample_pool = Ok (d, [])" using sample_pool_resolves ..
  from pool_contract_conservative [OF d] d show ?thesis by blast
qed

subsection \<open>Pools stay alive\<close>

definition pools_cluster ::
  "('q, 'a) sandbox_reader_scheme \<Rightarrow> Sandbox list \<Rightarrow> (string \<times> string) set \<Rightarrow> ('q, 'a) sandbox_reader_scheme" where
  "pools_cluster r ss live = r\<lparr>listSandboxes := Ok ss, getPool := live_object live\<rparr>"

definition pool_refs :: "('a) scope_reader_scheme \<Rightarrow> Sandbox \<Rightarrow> (string \<times> string) set" where
  "pool_refs r s = {(ns, mr_model m) |ns m. m \<in> set (si_models (sx_inference (sb_spec s)))
     \<and> mr_provider m = InferencePoolProvider \<and> Namespace r (sb_namespace s) ResourceScopeWorkspace = Ok ns}"

definition sandbox_admitted ::
  "host_env \<Rightarrow> (sandbox_host_error \<Rightarrow> string) \<Rightarrow> ('q, 'a) sandbox_reader_scheme \<Rightarrow> Sandbox list \<Rightarrow> (string \<times> string) set \<Rightarrow> Sandbox \<Rightarrow> bool" where
  "sandbox_admitted env et r ss live s \<longleftrightarrow> validateSandbox env et (Some (pools_cluster r ss live)) s = []"

definition sandbox_updated ::
  "host_env \<Rightarrow> (sandbox_host_error \<Rightarrow> string) \<Rightarrow> ('q, 'a) sandbox_reader_scheme \<Rightarrow> Sandbox list \<Rightarrow> (string \<times> string) set \<Rightarrow>
     Sandbox \<Rightarrow> Sandbox \<Rightarrow> bool" where
  "sandbox_updated env et r ss live s t \<longleftrightarrow> sb_namespace s = sb_namespace t \<and> sb_name s = sb_name t
     \<and> ValidateUpdate_sandbox env et (=) (Some (pools_cluster r ss live)) s t = []"

definition pool_deleted ::
  "('q, 'a) sandbox_reader_scheme \<Rightarrow> Sandbox list \<Rightarrow> (string \<times> string) set \<Rightarrow> string \<times> string \<Rightarrow> bool" where
  "pool_deleted r ss live ob \<longleftrightarrow> ValidateDelete_pool (pools_cluster r ss live) (fst ob) (snd ob) = Ok ()"

lemma pools_cluster_simps [simp]:
  "Namespace (pools_cluster r ss live) = Namespace r" "listSandboxes (pools_cluster r ss live) = Ok ss"
  "getPool (pools_cluster r ss live) = live_object live"
  by (auto intro!: Namespace_cong simp: pools_cluster_def)

lemma sandbox_admitted_live:
  assumes "sandbox_admitted env et r ss live s"
  shows "pool_refs r s \<subseteq> live"
proof -
  have "validateInference (Some (pools_cluster r ss live)) s = []"
    using assms validateSandbox_Nil(5) by (auto simp: sandbox_admitted_def)
  from validateInference_Nil(5) [OF this] show ?thesis
    by (fastforce simp: list_all_iff model_available_def pool_refs_def live_object_def split: if_splits)
qed

text \<open>A Workspace scope resolves to the namespace itself, so that looking only into the pool's
  namespace finds every Sandbox that uses the pool.\<close>

lemma workspace_scope_here: "Namespace r namespace ResourceScopeWorkspace = Ok ns \<Longrightarrow> ns = namespace"
  by (erule Namespace_Ok) auto

lemma pool_deleted_unreferenced: "pool_deleted r ss live ob \<Longrightarrow> s \<in> set ss \<Longrightarrow> ob \<notin> pool_refs r s"
  by (cases ob) (auto simp: pool_deleted_def ValidateDelete_pool_def pool_refs_def sandbox_pools_def filter_empty_conv
      dest: workspace_scope_here split: list.splits)

interpretation pool_guard: guarded_references
    "sandbox_admitted env et r" "sandbox_updated env et r" "pool_deleted r" "pool_refs r" for env et r
proof
  show "sandbox_updated env et r ss live s t \<Longrightarrow> pool_refs r t \<subseteq> live \<or> pool_refs r t \<subseteq> pool_refs r s" for ss live s t
    using sandbox_admitted_live [of env et r ss live t]
    by (auto simp: sandbox_updated_def ValidateUpdate_sandbox_def sandbox_admitted_def pool_refs_def split: if_splits)
qed (fact sandbox_admitted_live, fact pool_deleted_unreferenced)

text \<open>No Sandbox ever loses an inference pool it lists: although the deletion check looks only at the
  Sandboxes of the pool's own namespace, under every sequence of admitted creations, updates and
  deletions of Sandboxes and pools each listed pool exists, if that held at the start.\<close>

lemma pool_references_live:
  assumes "(guarded_step (sandbox_admitted env et r) (sandbox_updated env et r) (pool_deleted r))\<^sup>*\<^sup>* s t"
    and "references_live (pool_refs r) s"
  shows "references_live (pool_refs r) t"
  using assms by (rule pool_guard.run_live)

end
