(* ===== verification/ProviderAdmission.thy ===== *)
theory ProviderAdmission
  imports InferencePool OAuth
begin

section \<open>Admission of inference providers\<close>

text \<open>
  The provider definition and its webhook (\<open>internal/inference/definition.go\<close>,
  \<open>internal/webhook/v1alpha1/inferenceprovider\<close>): the union of provider configurations, the
  endpoint and header rules, the shapes of write-only credentials, and the removal of models that
  are in use. Parameters of the model are the generated provider catalog, \<open>url.Parse\<close>, the Unicode
  case tables, the \<open>%q\<close> verb and the decoding of a service account document.
\<close>

record ProviderModel = InferenceModel +
  md_displayName :: string
  md_catalog :: "string option"

text \<open>The OpenAI, Anthropic and Gemini configurations have the same single field.\<close>

record NativeProviderConfig =
  nc_baseURL :: string

record VertexAIProviderConfig =
  vx_project :: string
  vx_region :: string

record BedrockProviderConfig =
  br_region :: string
  br_authMode :: string

record AzureProviderConfig =
  az_resourceType :: string
  az_resourceName :: string
  az_project :: string
  az_apiVersion :: string
  az_authMode :: string

record InferenceProviderHeader =
  hd_name :: string
  hd_value :: string

record CompatibleProviderConfig =
  cp_baseURL :: string
  cp_path :: string
  cp_pathPrefix :: string
  cp_authMode :: string
  cp_authHeader :: string
  cp_authPrefix :: string
  cp_headers :: "InferenceProviderHeader list"
  cp_allowPrivateEndpoint :: bool
  cp_skipTLSVerify :: bool

record InferenceProviderSpec =
  pv_credentialRevision :: string
  pv_catalogProvider :: string
  pv_displayName :: string
  pv_kind :: string
  pv_openAI :: "NativeProviderConfig option"
  pv_anthropic :: "NativeProviderConfig option"
  pv_gemini :: "NativeProviderConfig option"
  pv_vertexAI :: "VertexAIProviderConfig option"
  pv_bedrock :: "BedrockProviderConfig option"
  pv_azure :: "AzureProviderConfig option"
  pv_openAICompatible :: "CompatibleProviderConfig option"
  pv_anthropicCompatible :: "CompatibleProviderConfig option"
  pv_models :: "ProviderModel list"

record Provider =
  pr_namespace :: string
  pr_name :: string
  pr_spec :: InferenceProviderSpec

text \<open>What the pools read of a provider.\<close>

definition provider_view :: "Provider \<Rightarrow> InferenceProvider" where
  "provider_view p = \<lparr>ip_name = pr_name p, ip_kind = pv_kind (pr_spec p),
     ip_models = map InferenceModel.truncate (pv_models (pr_spec p))\<rparr>"

record provider_url = web_url +
  wu_rawQuery :: string
  wu_fragment :: string
  wu_escapedPath :: string

record serviceAccount =
  sv_type :: string
  sv_projectID :: string
  sv_privateKey :: string
  sv_clientEmail :: string
  sv_tokenURI :: string

record provider_env =
  pe_catalog :: "(string \<times> string) list"
  pe_lower :: "string \<Rightarrow> string"
  pe_parse :: "string \<Rightarrow> provider_url option"
  pe_quote :: "string \<Rightarrow> string"
  pe_account :: "string \<Rightarrow> serviceAccount option"

definition gatewayControlledHeaders :: "string list" where
  "gatewayControlledHeaders = [''connection'', ''content-encoding'', ''content-length'', ''content-type'', ''cookie'',
     ''forwarded'', ''host'', ''keep-alive'', ''proxy-authenticate'', ''proxy-authorization'', ''proxy-connection'',
     ''set-cookie'', ''te'', ''trailer'', ''transfer-encoding'', ''upgrade'', ''x-forwarded-for'', ''x-forwarded-host'',
     ''x-forwarded-proto'']"

definition credentialHeaders :: "string list" where
  "credentialHeaders = [''api-key'', ''authorization'', ''x-amz-security-token'', ''x-api-key'', ''x-goog-api-key'']"

text \<open>The three regular expressions.\<close>

definition header_char :: "char \<Rightarrow> bool" where
  "header_char c \<longleftrightarrow> is_lower c \<or> is_digit c \<or> c \<in> set (CHR 0x27 # ''!#$%&*+.^_|~-'')"

definition headerNamePattern :: "string \<Rightarrow> bool" where
  "headerNamePattern s \<longleftrightarrow> s \<noteq> [] \<and> list_all header_char s"

definition region_tail :: "string \<Rightarrow> bool" where
  "region_tail s \<longleftrightarrow>
     (case s of
        [] \<Rightarrow> False
      | c # cs \<Rightarrow> c = CHR ''-'' \<and> takeWhile (\<lambda>x. is_lower x) cs \<noteq> []
          \<and> (case dropWhile (\<lambda>x. is_lower x) cs of
               [] \<Rightarrow> False
             | d # ds \<Rightarrow> d = CHR ''-'' \<and> ds \<noteq> [] \<and> list_all is_digit ds))"

definition bedrockRegionPattern :: "string \<Rightarrow> bool" where
  "bedrockRegionPattern s \<longleftrightarrow> 2 \<le> length s \<and> list_all is_lower (take 2 s)
     \<and> (region_tail (drop 2 s) \<or> HasPrefix (drop 2 s) ''-gov'' \<and> region_tail (drop 6 s))"

definition providerPathPattern :: "string \<Rightarrow> bool" where
  "providerPathPattern s \<longleftrightarrow> s \<noteq> [] \<and> hd s = CHR ''/'' \<and> CHR ''?'' \<notin> set s \<and> CHR ''#'' \<notin> set s"

definition pissue :: "bool \<Rightarrow> string \<Rightarrow> string \<Rightarrow> Issue list" where
  "pissue b f m = issue b \<lparr>is_field = f, is_message = m\<rparr>"

lemma pissue_Nil [simp]: "pissue b f m = [] \<longleftrightarrow> \<not> b"
  by (simp add: pissue_def)

subsection \<open>Endpoints\<close>

definition isPrivateHost :: "(string \<Rightarrow> string) \<Rightarrow> string \<Rightarrow> bool" where
  "isPrivateHost uni host0 =
     (let host = TrimSuffix (ToLower uni host0) ''.'' in
      if host = ''localhost'' \<or> HasSuffix host ''.localhost'' \<or> HasSuffix host ''.local'' \<or> \<not> Contains host ''.'' then True
      else case ParseAddr host of
        None \<Rightarrow> False
      | Some ip \<Rightarrow> IsPrivate ip \<or> IsLoopback ip \<or> IsLinkLocalUnicast ip \<or> IsLinkLocalMulticast ip \<or> IsUnspecified ip)"

text \<open>\<open>strconv.ParseInt\<close> in base 10 for an integer of \<open>bits\<close> bits; \<open>strconv.Atoi\<close> is the case of 64 bits.\<close>

definition ParseInt :: "nat \<Rightarrow> string \<Rightarrow> int option" where
  "ParseInt bits s =
     (let neg = HasPrefix s ''-'';
          ds = (if neg \<or> HasPrefix s ''+'' then tl s else s);
          v = (if neg then - int (dec_val ds) else int (dec_val ds)) in
      if ds = [] \<or> \<not> list_all is_digit ds \<or> v < - (2 ^ (bits - 1)) \<or> 2 ^ (bits - 1) \<le> v then None else Some v)"

definition validateEndpoint_provider :: "provider_env \<Rightarrow> string \<Rightarrow> string \<Rightarrow> bool \<Rightarrow> bool \<Rightarrow> Issue list" where
  "validateEndpoint_provider env f value allowPrivateEndpoint skipTLSVerify =
     (case pe_parse env value of
        None \<Rightarrow> pissue True f ''must be an absolute endpoint url''
      | Some u \<Rightarrow>
          (let hostname = Hostname (web_url.truncate u); portText = Port (web_url.truncate u) in
           if wu_scheme u = [] \<or> hostname = [] then pissue True f ''must be an absolute endpoint url''
           else
             pissue (wu_user u) f ''embedded credentials are forbidden''
             @ pissue (portText \<noteq> [] \<and> (case ParseInt 64 portText of None \<Rightarrow> True | Some port \<Rightarrow> port < 1 \<or> port > 65535))
                 f ''port must be between 1 and 65535''
             @ pissue (wu_rawQuery u \<noteq> [] \<or> wu_fragment u \<noteq> []) f ''query and fragment are forbidden''
             @ pissue (wu_scheme u \<noteq> ''https'' \<and> wu_scheme u \<noteq> ''http'') f ''scheme must be https or explicitly allowed http''
             @ pissue (wu_scheme u = ''http'' \<and> \<not> allowPrivateEndpoint) f ''http requires private endpoint access''
             @ pissue (wu_scheme u = ''https'' \<and> isPrivateHost (pe_lower env) hostname \<and> \<not> allowPrivateEndpoint)
                 f ''private endpoints require private endpoint access''
             @ pissue (wu_scheme u = ''http'' \<and> skipTLSVerify) f ''tls verification does not apply to http''))"

subsection \<open>The configuration arms\<close>

definition provider_arms :: "InferenceProviderSpec \<Rightarrow> nat" where
  "provider_arms spec =
     of_bool (pv_openAI spec \<noteq> None) + of_bool (pv_anthropic spec \<noteq> None) + of_bool (pv_gemini spec \<noteq> None)
     + of_bool (pv_vertexAI spec \<noteq> None) + of_bool (pv_bedrock spec \<noteq> None) + of_bool (pv_azure spec \<noteq> None)
     + of_bool (pv_openAICompatible spec \<noteq> None) + of_bool (pv_anthropicCompatible spec \<noteq> None)"

text \<open>An arm that is missing, or not the only one, ends the checks of its kind.\<close>

definition with_arm :: "nat \<Rightarrow> string \<Rightarrow> 'c option \<Rightarrow> ('c \<Rightarrow> Issue list) \<Rightarrow> Issue list" where
  "with_arm arms f cfg check =
     (case cfg of
        None \<Rightarrow> pissue True f ''configuration must match kind''
      | Some c \<Rightarrow> if arms \<noteq> 1 then pissue True f ''configuration must match kind'' else check c)"

definition native_issues :: "provider_env \<Rightarrow> string \<Rightarrow> NativeProviderConfig \<Rightarrow> Issue list" where
  "native_issues env f c = (if nc_baseURL c \<noteq> [] then validateEndpoint_provider env (f @ ''.base_url'') (nc_baseURL c) False False else [])"

definition vertex_issues :: "VertexAIProviderConfig \<Rightarrow> Issue list" where
  "vertex_issues c = pissue (TrimSpace (vx_project c) = []) ''vertex_ai.project'' ''field is required''
     @ pissue (TrimSpace (vx_region c) = []) ''vertex_ai.region'' ''field is required''"

definition bedrock_issues :: "BedrockProviderConfig \<Rightarrow> Issue list" where
  "bedrock_issues c = pissue (\<not> bedrockRegionPattern (br_region c)) ''bedrock.region'' ''must be a valid AWS region''
     @ pissue (br_authMode c \<noteq> ''AccessKey'' \<and> br_authMode c \<noteq> ''BearerToken'') ''bedrock.auth_mode'' ''unsupported authentication mode''"

definition azure_issues :: "AzureProviderConfig \<Rightarrow> Issue list" where
  "azure_issues c = pissue (TrimSpace (az_resourceName c) = []) ''azure.resource_name'' ''field is required''
     @ pissue (az_resourceType c = ''Foundry'' \<and> TrimSpace (az_project c) = []) ''azure.project'' ''field is required for Foundry''
     @ pissue (az_resourceType c = ''OpenAI'' \<and> az_project c \<noteq> []) ''azure.project'' ''field is valid only for Foundry''"

text \<open>A control character other than the tab; \<open>strings.ContainsFunc\<close> sees the same on bytes, since the
  bytes of a longer rune are all at least 0x80.\<close>

definition control_char :: "char \<Rightarrow> bool" where
  "control_char c \<longleftrightarrow> byte c = 0x7f \<or> byte c < 0x20 \<and> byte c \<noteq> 9"

definition auth_issues :: "provider_env \<Rightarrow> string \<Rightarrow> CompatibleProviderConfig \<Rightarrow> Issue list" where
  "auth_issues env f c =
     pissue (cp_authMode c = ''APIKey'' \<and> cp_authHeader c = []) (f @ ''.auth_header'') ''field is required''
     @ pissue (cp_authMode c = ''None'' \<and> (cp_authHeader c \<noteq> [] \<or> cp_authPrefix c \<noteq> [])) (f @ ''.auth_mode'')
         ''authentication settings require api-key authentication''
     @ pissue (list_ex control_char (cp_authPrefix c)) (f @ ''.auth_prefix'') ''must not contain invalid header control characters''
     @ pissue (cp_authHeader c \<noteq> [] \<and> (cp_authHeader c \<noteq> ToLower (pe_lower env) (cp_authHeader c) \<or> \<not> headerNamePattern (cp_authHeader c)))
         (f @ ''.auth_header'') ''must be a valid lowercase header name''
     @ pissue (cp_authHeader c \<noteq> [] \<and> cp_authHeader c \<in> set gatewayControlledHeaders) (f @ ''.auth_header'') ''header is controlled by the gateway''"

definition provider_header_issues :: "provider_env \<Rightarrow> string \<Rightarrow> string \<Rightarrow> nat \<Rightarrow> string list \<Rightarrow> InferenceProviderHeader \<Rightarrow> Issue list" where
  "provider_header_issues env f authHeader i seen h =
     (let nameField = f @ ''.headers.'' @ int_str (int i) @ ''.name''; valueField = f @ ''.headers.'' @ int_str (int i) @ ''.value'' in
      pissue (hd_name h \<noteq> ToLower (pe_lower env) (hd_name h)) nameField ''header name must be lowercase''
      @ pissue (\<not> headerNamePattern (hd_name h)) nameField ''must be a valid header name''
      @ pissue (length (hd_value h) < 1 \<or> length (hd_value h) > 1024) valueField ''must contain between 1 and 1024 characters''
      @ pissue (list_ex control_char (hd_value h)) valueField ''must not contain invalid header control characters''
      @ pissue (hd_name h \<in> set seen) nameField ''header name must be unique''
      @ (if hd_name h = authHeader then pissue True nameField ''header conflicts with authentication''
         else pissue (hd_name h \<in> set gatewayControlledHeaders \<or> hd_name h \<in> set credentialHeaders)
                nameField ''header is controlled by the gateway''))"

fun headers_loop :: "provider_env \<Rightarrow> string \<Rightarrow> string \<Rightarrow> nat \<Rightarrow> string list \<Rightarrow> InferenceProviderHeader list \<Rightarrow> Issue list" where
  "headers_loop env f authHeader i seen [] = []"
| "headers_loop env f authHeader i seen (h # hs) =
     provider_header_issues env f authHeader i seen h @ headers_loop env f authHeader (Suc i) (hd_name h # seen) hs"

definition compatible_issues :: "provider_env \<Rightarrow> string \<Rightarrow> CompatibleProviderConfig \<Rightarrow> Issue list" where
  "compatible_issues env f c =
     validateEndpoint_provider env (f @ ''.base_url'') (cp_baseURL c) (cp_allowPrivateEndpoint c) (cp_skipTLSVerify c)
     @ pissue (cp_path c \<noteq> [] \<and> cp_pathPrefix c \<noteq> []) (f @ ''.path_prefix'') ''path and path prefix are mutually exclusive''
     @ pissue (cp_path c \<noteq> [] \<and> \<not> providerPathPattern (cp_path c)) (f @ ''.path'') ''must be an absolute path without query or fragment''
     @ pissue (cp_pathPrefix c \<noteq> [] \<and> \<not> providerPathPattern (cp_pathPrefix c)) (f @ ''.path_prefix'')
         ''must be an absolute path without query or fragment''
     @ auth_issues env f c
     @ headers_loop env f (cp_authHeader c) 0 [] (cp_headers c)"

definition kind_issues :: "provider_env \<Rightarrow> InferenceProviderSpec \<Rightarrow> Issue list" where
  "kind_issues env spec =
     (let k = pv_kind spec; arms = provider_arms spec in
      if k = ''OpenAICodex'' then pissue (pv_catalogProvider spec \<noteq> ''openai'') ''catalog_provider'' ''openai codex requires the openai catalog''
      else if k = ''OpenAI'' then with_arm arms ''openai'' (pv_openAI spec) (native_issues env ''openai'')
      else if k = ''Anthropic'' then with_arm arms ''anthropic'' (pv_anthropic spec) (native_issues env ''anthropic'')
      else if k = ''Gemini'' then with_arm arms ''gemini'' (pv_gemini spec) (native_issues env ''gemini'')
      else if k = ''VertexAI'' then with_arm arms ''vertex_ai'' (pv_vertexAI spec) vertex_issues
      else if k = ''Bedrock'' then with_arm arms ''bedrock'' (pv_bedrock spec) bedrock_issues
      else if k = ''Azure'' then with_arm arms ''azure'' (pv_azure spec) azure_issues
      else if k = ''OpenAICompatible'' then with_arm arms ''openai_compatible'' (pv_openAICompatible spec) (compatible_issues env ''openai_compatible'')
      else if k = ''AnthropicCompatible'' then
        with_arm arms ''anthropic_compatible'' (pv_anthropicCompatible spec) (compatible_issues env ''anthropic_compatible'')
      else pissue True ''kind'' ''unsupported provider kind'')"

subsection \<open>Models\<close>

definition limit_issues :: "string \<Rightarrow> InferenceModelLimits \<Rightarrow> Issue list" where
  "limit_issues f l =
     pissue (sint (lim_context l) < 1 \<or> sint (lim_output l) < 1) (f @ ''.limits'') ''context and output must be positive''
     @ pissue (sint (lim_output l) > sint (lim_context l)) (f @ ''.limits.output'') ''cannot exceed context''
     @ (case lim_input l of
          None \<Rightarrow> []
        | Some n \<Rightarrow> pissue (sint n > sint (lim_context l)) (f @ ''.limits.input'') ''cannot exceed context''
            @ pissue (sint n < 1) (f @ ''.limits.input'') ''must be positive'')"

definition provider_model_issues :: "string \<Rightarrow> bool \<Rightarrow> nat \<Rightarrow> string list \<Rightarrow> ProviderModel \<Rightarrow> Issue list" where
  "provider_model_issues catalog isSubscription i seen m =
     (let f = ''models.'' @ int_str (int i) in
      pissue (TrimSpace (im_id m) = []) (f @ ''.id'') ''field is required''
      @ pissue (im_id m \<in> set seen) (f @ ''.id'') ''model id must be unique''
      @ pissue (TrimSpace (md_displayName m) = []) (f @ ''.display_name'') ''field is required''
      @ pissue (im_modalitiesIn m = [] \<or> im_modalitiesOut m = []) (f @ ''.modalities'') ''input and output are required''
      @ limit_issues f (im_limits m)
      @ pissue (case md_catalog m of None \<Rightarrow> False | Some c \<Rightarrow> c \<noteq> catalog) (f @ ''.catalog_provider'') ''must match the provider catalog''
      @ pissue (isSubscription \<and> im_api m = None) (f @ ''.api'') ''subscription models require a discovered api''
      @ pissue (\<not> isSubscription \<and> im_api m \<noteq> None) (f @ ''.api'') ''api is managed only for subscription models'')"

fun provider_models_loop :: "string \<Rightarrow> bool \<Rightarrow> nat \<Rightarrow> string list \<Rightarrow> ProviderModel list \<Rightarrow> Issue list" where
  "provider_models_loop catalog sub i seen [] = []"
| "provider_models_loop catalog sub i seen (m # ms) =
     provider_model_issues catalog sub i seen m @ provider_models_loop catalog sub (Suc i) (im_id m # seen) ms"

definition isCompatible :: "string \<Rightarrow> bool" where
  "isCompatible k \<longleftrightarrow> k = ''OpenAICompatible'' \<or> k = ''AnthropicCompatible''"

definition catalog_issues :: "provider_env \<Rightarrow> InferenceProviderSpec \<Rightarrow> Issue list" where
  "catalog_issues env spec =
     pissue (TrimSpace (pv_catalogProvider spec) = []) ''catalog_provider'' ''field is required''
     @ pissue (\<not> (pv_catalogProvider spec = ''custom'' \<and> isCompatible (pv_kind spec)
                  \<or> (pv_catalogProvider spec, pv_kind spec) \<in> set (pe_catalog env)))
         ''catalog_provider'' ''provider and kind are not supported together''
     @ pissue (TrimSpace (pv_displayName spec) = []) ''display_name'' ''field is required''
     @ pissue (pv_models spec = []) ''models'' ''at least one model is required''"

definition ValidateProvider :: "provider_env \<Rightarrow> InferenceProviderSpec \<Rightarrow> Issue list" where
  "ValidateProvider env spec =
     (let isSubscription = (pv_kind spec = ''OpenAICodex'') in
      catalog_issues env spec
      @ pissue (provider_arms spec \<noteq> (if isSubscription then 0 else 1)) ''kind'' ''provider configuration does not match kind''
      @ kind_issues env spec
      @ provider_models_loop (pv_catalogProvider spec) isSubscription 0 [] (pv_models spec))"

subsection \<open>Removing models\<close>

record 'q provider_reader = "'q sandbox_reader" +
  listPools :: "(get_error, InferencePool list) result"

datatype removal_error = ListPoolsFailed get_error | ListSandboxesFailed get_error

text \<open>The index functions of \<open>IndexSandboxes\<close> and \<open>IndexPools\<close>: the keys under which the cache finds an object.\<close>

fun first_providers :: "string list \<Rightarrow> InferenceModelRef list \<Rightarrow> string list" where
  "first_providers seen [] = []"
| "first_providers seen (m # ms) =
     (if mr_provider m = InferencePoolProvider \<or> mr_provider m \<in> set seen then first_providers seen ms
      else mr_provider m # first_providers (mr_provider m # seen) ms)"

definition sandbox_provider_index :: "Sandbox \<Rightarrow> string list" where
  "sandbox_provider_index s = first_providers [] (si_models (sx_inference (sb_spec s)))"

definition sandbox_model_index :: "Sandbox \<Rightarrow> string list" where
  "sandbox_model_index s =
     map (\<lambda>m. mr_provider m @ [CHR 0x00] @ mr_model m)
       (filter (\<lambda>m. mr_provider m \<noteq> InferencePoolProvider) (si_models (sx_inference (sb_spec s))))"

definition pool_provider_index :: "InferencePool \<Rightarrow> string list" where
  "pool_provider_index p = compact (sort (map pm_provider (pool_members p)))"

text \<open>The verb \<open>%v\<close> on a list of strings.\<close>

definition show_names :: "string list \<Rightarrow> string" where
  "show_names xs = ''['' @ (case xs of [] \<Rightarrow> [] | y # ys \<Rightarrow> y @ concat (map (\<lambda>z. CHR '' '' # z) ys)) @ '']''"

definition removal_step :: "provider_env \<Rightarrow> ('q, 'a) provider_reader_scheme \<Rightarrow> string \<Rightarrow> string \<Rightarrow> string \<Rightarrow> (removal_error, Issue list) result" where
  "removal_step env r ns name model =
     (case listPools r of
        Inl e \<Rightarrow> Err (ListPoolsFailed e)
      | Inr pools \<Rightarrow>
          (let poolNames = map pool_name (filter (\<lambda>p. pool_namespace p = ns \<and> name \<in> set (pool_provider_index p)
                 \<and> list_ex (\<lambda>m. pm_provider m = name \<and> pm_model m = model) (pool_members p)) pools) in
           if poolNames \<noteq> []
           then Ok (pissue True ''models'' (''model '' @ pe_quote env model @ '' is referenced by pools '' @ show_names (sort poolNames)))
           else case listSandboxes r of
             Inl e \<Rightarrow> Err (ListSandboxesFailed e)
           | Inr sandboxes \<Rightarrow>
               (let names = map sb_name (filter (\<lambda>s. sb_namespace s = ns
                      \<and> name @ [CHR 0x00] @ model \<in> set (sandbox_model_index s)) sandboxes) in
                Ok (pissue (names \<noteq> []) ''models''
                  (''model '' @ pe_quote env model @ '' is referenced by sandboxes '' @ show_names (sort names))))))"

fun removal_loop ::
  "provider_env \<Rightarrow> ('q, 'a) provider_reader_scheme \<Rightarrow> string \<Rightarrow> string \<Rightarrow> string list \<Rightarrow> ProviderModel list \<Rightarrow> (removal_error, Issue list) result" where
  "removal_loop env r ns name desired [] = Ok []"
| "removal_loop env r ns name desired (m # ms) =
     (if im_id m \<in> set desired then removal_loop env r ns name desired ms
      else case removal_step env r ns name (im_id m) of
        Inl e \<Rightarrow> Err e
      | Inr issues \<Rightarrow>
          (case removal_loop env r ns name desired ms of
             Inl e \<Rightarrow> Err e
           | Inr later \<Rightarrow> Ok (issues @ later)))"

definition ValidateModelRemoval ::
  "provider_env \<Rightarrow> ('q, 'a) provider_reader_scheme \<Rightarrow> Provider \<Rightarrow> Provider \<Rightarrow> (removal_error, Issue list) result" where
  "ValidateModelRemoval env r current desired =
     removal_loop env r (pr_namespace desired) (pr_name desired) (map im_id (pv_models (pr_spec desired))) (pv_models (pr_spec current))"

subsection \<open>The webhook\<close>

definition issuesToFields :: "Issue list \<Rightarrow> field_errors" where
  "issuesToFields issues = map (\<lambda>i. FInvalid [PName ''spec''] (BStr []) (is_field i @ '': '' @ is_message i)) issues"

definition reserved_name :: "string \<Rightarrow> field_errors" where
  "reserved_name name = issue (name = InferencePoolProvider)
     (FForbidden [PName ''metadata'', PName ''name''] ''name is reserved for inference pools'')"

definition ValidateCreate_provider :: "provider_env \<Rightarrow> Provider \<Rightarrow> field_errors" where
  "ValidateCreate_provider env p = issuesToFields (ValidateProvider env (pr_spec p)) @ reserved_name (pr_name p)"

definition ValidateUpdate_provider ::
  "provider_env \<Rightarrow> (InferenceProviderSpec \<Rightarrow> InferenceProviderSpec \<Rightarrow> bool) \<Rightarrow> ('q, 'a) provider_reader_scheme \<Rightarrow> Provider \<Rightarrow> Provider \<Rightarrow>
     (removal_error, field_errors) result" where
  "ValidateUpdate_provider env sem r old new =
     (if sem (pr_spec old) (pr_spec new) then Ok []
      else
        (let fields = issuesToFields (ValidateProvider env (pr_spec new))
               @ issue (pv_kind (pr_spec old) \<noteq> pv_kind (pr_spec new))
                   (FInvalid [PName ''spec'', PName ''kind''] (BStr (pv_kind (pr_spec new))) ''field is immutable'')
               @ reserved_name (pr_name new) in
         case ValidateModelRemoval env r old new of
           Inl e \<Rightarrow> Err e
         | Inr issues \<Rightarrow> Ok (fields @ issuesToFields issues)))"

subsection \<open>Credentials\<close>

record CredentialValues =
  cv_apiKey :: string
  cv_bearerToken :: string
  cv_serviceAccountJSON :: string
  cv_accessKey :: string
  cv_secretKey :: string
  cv_sessionToken :: string
  cv_clientID :: string
  cv_tenantID :: string
  cv_clientSecret :: string

record InputError =
  ie_field :: string
  ie_message :: string

definition InputError_Error :: "InputError \<Rightarrow> string" where
  "InputError_Error e = ie_field e @ '': '' @ ie_message e"

type_synonym credential_record = "string \<rightharpoonup> string"

text \<open>The result of \<open>CredentialsForUpdate\<close>: \<open>None\<close> for a nil record that changes nothing, or the replacement.\<close>

type_synonym credential_result = "(InputError, credential_record option) result"

definition given :: "string \<Rightarrow> bool" where
  "given s \<longleftrightarrow> TrimSpace s \<noteq> []"

definition hasAWS :: "CredentialValues \<Rightarrow> bool" where
  "hasAWS v \<longleftrightarrow> given (cv_accessKey v) \<or> given (cv_secretKey v) \<or> given (cv_sessionToken v)"

definition hasAzure :: "CredentialValues \<Rightarrow> bool" where
  "hasAzure v \<longleftrightarrow> given (cv_clientID v) \<or> given (cv_tenantID v) \<or> given (cv_clientSecret v)"

definition input_error :: "string \<Rightarrow> string \<Rightarrow> credential_result" where
  "input_error f m = Err \<lparr>ie_field = f, ie_message = m\<rparr>"

definition api_key_record :: "CredentialValues \<Rightarrow> credential_result" where
  "api_key_record v = (if given (cv_apiKey v) then Ok (Some [''apiKey'' \<mapsto> cv_apiKey v]) else Ok None)"

definition vertex_credentials :: "provider_env \<Rightarrow> CredentialValues \<Rightarrow> credential_result" where
  "vertex_credentials env v =
     (if given (cv_apiKey v) \<or> given (cv_bearerToken v) \<or> hasAWS v \<or> hasAzure v
      then input_error ''credentials'' ''credential shape does not match provider kind''
      else if \<not> given (cv_serviceAccountJSON v) then Ok None
      else case pe_account env (cv_serviceAccountJSON v) of
        None \<Rightarrow> input_error ''credentials.service_account_json'' ''must be valid json''
      | Some a \<Rightarrow>
          if sv_type a = ''service_account'' \<and> sv_projectID a \<noteq> [] \<and> sv_privateKey a \<noteq> [] \<and> sv_clientEmail a \<noteq> [] \<and> sv_tokenURI a \<noteq> []
          then Ok (Some [''serviceAccountJSON'' \<mapsto> cv_serviceAccountJSON v])
          else input_error ''credentials.service_account_json'' ''must be a complete service-account document'')"

definition bedrock_credentials :: "InferenceProviderSpec \<Rightarrow> CredentialValues \<Rightarrow> credential_result" where
  "bedrock_credentials spec v =
     (if given (cv_apiKey v) \<or> given (cv_serviceAccountJSON v) \<or> hasAzure v
      then input_error ''credentials'' ''credential shape does not match provider kind''
      else case pv_bedrock spec of
        None \<Rightarrow> input_error ''bedrock'' ''configuration must match provider kind''
      | Some c \<Rightarrow>
          if br_authMode c = ''BearerToken'' then
            (if hasAWS v then input_error ''credentials'' ''credential shape does not match authentication mode''
             else if \<not> given (cv_bearerToken v) then Ok None
             else Ok (Some [''bearerToken'' \<mapsto> cv_bearerToken v]))
          else if given (cv_bearerToken v) then input_error ''credentials'' ''credential shape does not match authentication mode''
          else if \<not> hasAWS v then Ok None
          else if \<not> given (cv_accessKey v) \<or> \<not> given (cv_secretKey v)
          then input_error ''credentials'' ''access key and secret key are required together''
          else
            (let rc = [''accessKey'' \<mapsto> cv_accessKey v, ''secretKey'' \<mapsto> cv_secretKey v] in
             Ok (Some (if cv_sessionToken v \<noteq> [] then rc(''sessionToken'' \<mapsto> cv_sessionToken v) else rc))))"

definition azure_credentials :: "InferenceProviderSpec \<Rightarrow> CredentialValues \<Rightarrow> credential_result" where
  "azure_credentials spec v =
     (case pv_azure spec of
        None \<Rightarrow> input_error ''azure'' ''configuration must match provider kind''
      | Some c \<Rightarrow>
          if az_authMode c = ''APIKey'' then
            (if given (cv_bearerToken v) \<or> given (cv_serviceAccountJSON v) \<or> hasAWS v \<or> hasAzure v
             then input_error ''credentials'' ''credential shape does not match authentication mode''
             else api_key_record v)
          else if given (cv_apiKey v) \<or> given (cv_bearerToken v) \<or> given (cv_serviceAccountJSON v) \<or> hasAWS v
          then input_error ''credentials'' ''credential shape does not match authentication mode''
          else if \<not> hasAzure v then Ok None
          else if \<not> (given (cv_clientID v) \<and> given (cv_tenantID v) \<and> given (cv_clientSecret v))
          then input_error ''credentials'' ''client id, tenant id, and client secret are required together''
          else Ok (Some [''clientID'' \<mapsto> cv_clientID v, ''tenantID'' \<mapsto> cv_tenantID v, ''clientSecret'' \<mapsto> cv_clientSecret v]))"

definition compatible_credentials :: "string \<Rightarrow> CompatibleProviderConfig option \<Rightarrow> CredentialValues \<Rightarrow> credential_result" where
  "compatible_credentials f cfg v =
     (case cfg of
        None \<Rightarrow> input_error f ''configuration must match provider kind''
      | Some c \<Rightarrow>
          if given (cv_bearerToken v) \<or> given (cv_serviceAccountJSON v) \<or> hasAWS v \<or> hasAzure v
          then input_error ''credentials'' ''credential shape does not match provider kind''
          else if cp_authMode c = ''None'' then
            (if given (cv_apiKey v) then input_error ''credentials'' ''credentials are forbidden for no-auth providers'' else Ok None)
          else api_key_record v)"

definition CredentialsForUpdate :: "provider_env \<Rightarrow> InferenceProviderSpec \<Rightarrow> CredentialValues \<Rightarrow> credential_result" where
  "CredentialsForUpdate env spec v =
     (let k = pv_kind spec in
      if k = ''OpenAICodex'' then
        (if given (cv_apiKey v) \<or> given (cv_bearerToken v) \<or> given (cv_serviceAccountJSON v) \<or> hasAWS v \<or> hasAzure v
         then input_error ''credentials'' ''subscription credentials require an oauth ticket'' else Ok None)
      else if k = ''OpenAI'' \<or> k = ''Anthropic'' \<or> k = ''Gemini'' then
        (if given (cv_bearerToken v) \<or> given (cv_serviceAccountJSON v) \<or> hasAWS v \<or> hasAzure v
         then input_error ''credentials'' ''credential shape does not match provider kind'' else api_key_record v)
      else if k = ''VertexAI'' then vertex_credentials env v
      else if k = ''Bedrock'' then bedrock_credentials spec v
      else if k = ''Azure'' then azure_credentials spec v
      else if k = ''OpenAICompatible'' then compatible_credentials ''openai_compatible'' (pv_openAICompatible spec) v
      else if k = ''AnthropicCompatible'' then compatible_credentials ''anthropic_compatible'' (pv_anthropicCompatible spec) v
      else input_error ''kind'' ''unsupported provider kind'')"

definition CredentialsForCreate :: "provider_env \<Rightarrow> InferenceProviderSpec \<Rightarrow> CredentialValues \<Rightarrow> credential_result" where
  "CredentialsForCreate env spec v =
     (case CredentialsForUpdate env spec v of
        Inl e \<Rightarrow> Err e
      | Inr rc \<Rightarrow>
          if Option.is_none rc \<and> \<not> isCompatible (pv_kind spec) then input_error ''credentials'' ''complete credentials are required''
          else
            (let cfg = (if pv_anthropicCompatible spec \<noteq> None then pv_anthropicCompatible spec else pv_openAICompatible spec) in
             if Option.is_none rc \<and> (case cfg of None \<Rightarrow> False | Some c \<Rightarrow> cp_authMode c = ''APIKey'')
             then input_error ''credentials.api_key'' ''field is required''
             else Ok rc))"

subsection \<open>What an accepted definition is\<close>

lemma Port_digits: "list_all is_digit (Port u)"
  by (auto simp: Port_def url_splitHostPort_def validOptionalPort_def split: option.splits list.splits prod.splits)

lemma ParseInt_digits:
  assumes "list_all is_digit s" "s \<noteq> []"
  shows "ParseInt bits s = (if int (dec_val s) < 2 ^ (bits - 1) then Some (int (dec_val s)) else None)"
proof -
  have "\<not> HasPrefix s ''-''" "\<not> HasPrefix s ''+''"
    using assms by (auto simp: HasPrefix_iff in_range_def)
  then show ?thesis using assms by (simp add: ParseInt_def Let_def) (smt (verit) zero_less_power of_nat_0_le_iff)
qed

definition endpoint_ok :: "provider_env \<Rightarrow> string \<Rightarrow> bool \<Rightarrow> bool \<Rightarrow> bool" where
  "endpoint_ok env value allow skip \<longleftrightarrow>
     (case pe_parse env value of
        None \<Rightarrow> False
      | Some u \<Rightarrow> (let h = Hostname (web_url.truncate u); p = Port (web_url.truncate u) in
          h \<noteq> [] \<and> \<not> wu_user u \<and> wu_rawQuery u = [] \<and> wu_fragment u = []
          \<and> (p = [] \<or> 1 \<le> dec_val p \<and> dec_val p \<le> 65535)
          \<and> (wu_scheme u = ''https'' \<and> (allow \<or> \<not> isPrivateHost (pe_lower env) h) \<or> wu_scheme u = ''http'' \<and> allow \<and> \<not> skip)))"

lemma port_range:
  assumes "list_all is_digit p" "p \<noteq> []"
  shows "(case ParseInt 64 p of None \<Rightarrow> True | Some port \<Rightarrow> port < 1 \<or> port > 65535) \<longleftrightarrow> \<not> (1 \<le> dec_val p \<and> dec_val p \<le> 65535)"
  by (auto simp: ParseInt_digits [OF assms])

lemma validateEndpoint_provider_Nil: "validateEndpoint_provider env f value allow skip = [] \<longleftrightarrow> endpoint_ok env value allow skip"
proof (cases "pe_parse env value")
  case (Some u)
  let ?p = "Port (web_url.truncate u)"
  have "(?p \<noteq> [] \<and> (case ParseInt 64 ?p of None \<Rightarrow> True | Some port \<Rightarrow> port < 1 \<or> port > 65535))
      \<longleftrightarrow> \<not> (?p = [] \<or> 1 \<le> dec_val ?p \<and> dec_val ?p \<le> 65535)"
    using port_range [OF Port_digits] by (cases "?p = []") auto
  with Some show ?thesis
    unfolding validateEndpoint_provider_def endpoint_ok_def Let_def by (auto simp del: not_Cons_self2)
qed (simp add: validateEndpoint_provider_def endpoint_ok_def)

lemma header_pattern_lower: "headerNamePattern s \<Longrightarrow> ToLower uni s = s"
proof -
  assume "headerNamePattern s"
  then have "\<forall>c\<in>set s. is_ascii c \<and> \<not> is_upper c"
    by (auto simp: headerNamePattern_def header_char_def list_all_iff in_range_def)
  then show ?thesis by (simp add: ToLower_def list_all_iff map_idI ascii_lower_id)
qed

definition header_ok :: "string \<Rightarrow> InferenceProviderHeader \<Rightarrow> bool" where
  "header_ok authHeader h \<longleftrightarrow> headerNamePattern (hd_name h) \<and> hd_name h \<noteq> authHeader
     \<and> hd_name h \<notin> set gatewayControlledHeaders \<union> set credentialHeaders
     \<and> 1 \<le> length (hd_value h) \<and> length (hd_value h) \<le> 1024 \<and> \<not> list_ex control_char (hd_value h)"

interpretation provider_headers: seen_loop "headers_loop env f a" "provider_header_issues env f a" hd_name "header_ok a" for env f a
  by unfold_locales (auto simp: provider_header_issues_def header_ok_def Let_def header_pattern_lower Suc_le_eq)

definition limits_ok :: "InferenceModelLimits \<Rightarrow> bool" where
  "limits_ok l \<longleftrightarrow> 1 \<le> sint (lim_output l) \<and> sint (lim_output l) \<le> sint (lim_context l)
     \<and> (case lim_input l of None \<Rightarrow> True | Some n \<Rightarrow> 1 \<le> sint n \<and> sint n \<le> sint (lim_context l))"

definition provider_model_ok :: "string \<Rightarrow> bool \<Rightarrow> ProviderModel \<Rightarrow> bool" where
  "provider_model_ok catalog sub m \<longleftrightarrow> TrimSpace (im_id m) \<noteq> [] \<and> TrimSpace (md_displayName m) \<noteq> []
     \<and> im_modalitiesIn m \<noteq> [] \<and> im_modalitiesOut m \<noteq> [] \<and> limits_ok (im_limits m)
     \<and> (md_catalog m = None \<or> md_catalog m = Some catalog) \<and> (im_api m \<noteq> None \<longleftrightarrow> sub)"

lemma limit_issues_Nil: "limit_issues f l = [] \<longleftrightarrow> limits_ok l"
  by (cases "lim_input l") (auto simp: limit_issues_def limits_ok_def)

interpretation provider_models: seen_loop "provider_models_loop c sub" "provider_model_issues c sub" im_id "provider_model_ok c sub" for c sub
  by unfold_locales (auto simp: provider_model_issues_def provider_model_ok_def Let_def limit_issues_Nil split: option.splits)

definition auth_ok :: "CompatibleProviderConfig \<Rightarrow> bool" where
  "auth_ok c \<longleftrightarrow> (cp_authMode c = ''APIKey'' \<longrightarrow> cp_authHeader c \<noteq> [])
     \<and> (cp_authMode c = ''None'' \<longrightarrow> cp_authHeader c = [] \<and> cp_authPrefix c = [])
     \<and> \<not> list_ex control_char (cp_authPrefix c)
     \<and> (cp_authHeader c = [] \<or> headerNamePattern (cp_authHeader c) \<and> cp_authHeader c \<notin> set gatewayControlledHeaders)"

definition path_ok :: "CompatibleProviderConfig \<Rightarrow> bool" where
  "path_ok c \<longleftrightarrow> (cp_path c = [] \<or> cp_pathPrefix c = []) \<and> list_all (\<lambda>p. p = [] \<or> providerPathPattern p) [cp_path c, cp_pathPrefix c]"

definition compatible_ok :: "provider_env \<Rightarrow> CompatibleProviderConfig \<Rightarrow> bool" where
  "compatible_ok env c \<longleftrightarrow> endpoint_ok env (cp_baseURL c) (cp_allowPrivateEndpoint c) (cp_skipTLSVerify c)
     \<and> path_ok c \<and> auth_ok c \<and> list_all (header_ok (cp_authHeader c)) (cp_headers c) \<and> distinct (map hd_name (cp_headers c))"

lemma auth_issues_Nil: "auth_issues env f c = [] \<longleftrightarrow> auth_ok c"
  by (auto simp: auth_issues_def auth_ok_def header_pattern_lower)

lemma compatible_issues_Nil: "compatible_issues env f c = [] \<longleftrightarrow> compatible_ok env c"
  by (auto simp: compatible_issues_def compatible_ok_def path_ok_def validateEndpoint_provider_Nil auth_issues_Nil provider_headers.loop_silent_start)

definition native_ok :: "provider_env \<Rightarrow> NativeProviderConfig \<Rightarrow> bool" where
  "native_ok env c \<longleftrightarrow> nc_baseURL c = [] \<or> endpoint_ok env (nc_baseURL c) False False"

definition vertex_ok :: "VertexAIProviderConfig \<Rightarrow> bool" where
  "vertex_ok c \<longleftrightarrow> TrimSpace (vx_project c) \<noteq> [] \<and> TrimSpace (vx_region c) \<noteq> []"

definition bedrock_ok :: "BedrockProviderConfig \<Rightarrow> bool" where
  "bedrock_ok c \<longleftrightarrow> bedrockRegionPattern (br_region c) \<and> br_authMode c \<in> {''AccessKey'', ''BearerToken''}"

definition azure_ok :: "AzureProviderConfig \<Rightarrow> bool" where
  "azure_ok c \<longleftrightarrow> TrimSpace (az_resourceName c) \<noteq> []
     \<and> (az_resourceType c = ''Foundry'' \<longrightarrow> TrimSpace (az_project c) \<noteq> []) \<and> (az_resourceType c = ''OpenAI'' \<longrightarrow> az_project c = [])"

lemma arm_issues_Nil:
  "native_issues env f n = [] \<longleftrightarrow> native_ok env n" "vertex_issues v = [] \<longleftrightarrow> vertex_ok v"
  "bedrock_issues b = [] \<longleftrightarrow> bedrock_ok b" "azure_issues a = [] \<longleftrightarrow> azure_ok a"
  by (auto simp: native_issues_def native_ok_def validateEndpoint_provider_Nil vertex_issues_def vertex_ok_def bedrock_issues_def
      bedrock_ok_def azure_issues_def azure_ok_def)

text \<open>The union as a tagged value: the configuration that the kind names, with every other arm empty.\<close>

datatype provider_config =
    Subscription
  | Native string NativeProviderConfig
  | Vertex VertexAIProviderConfig
  | Bedrock BedrockProviderConfig
  | Azure AzureProviderConfig
  | Compatible string CompatibleProviderConfig

definition arm :: "('c \<Rightarrow> provider_config) \<Rightarrow> 'c option \<Rightarrow> provider_config list" where
  "arm f cfg = (case cfg of None \<Rightarrow> [] | Some c \<Rightarrow> [f c])"

definition config_list :: "InferenceProviderSpec \<Rightarrow> provider_config list" where
  "config_list spec = arm (Native ''OpenAI'') (pv_openAI spec) @ arm (Native ''Anthropic'') (pv_anthropic spec)
     @ arm (Native ''Gemini'') (pv_gemini spec) @ arm Vertex (pv_vertexAI spec) @ arm Bedrock (pv_bedrock spec)
     @ arm Azure (pv_azure spec) @ arm (Compatible ''OpenAICompatible'') (pv_openAICompatible spec)
     @ arm (Compatible ''AnthropicCompatible'') (pv_anthropicCompatible spec)"

fun config_kind :: "provider_config \<Rightarrow> string" where
  "config_kind Subscription = ''OpenAICodex''"
| "config_kind (Native k c) = k"
| "config_kind (Vertex c) = ''VertexAI''"
| "config_kind (Bedrock c) = ''Bedrock''"
| "config_kind (Azure c) = ''Azure''"
| "config_kind (Compatible k c) = k"

fun config_ok :: "provider_env \<Rightarrow> provider_config \<Rightarrow> bool" where
  "config_ok env Subscription = True"
| "config_ok env (Native k c) = native_ok env c"
| "config_ok env (Vertex c) = vertex_ok c"
| "config_ok env (Bedrock c) = bedrock_ok c"
| "config_ok env (Azure c) = azure_ok c"
| "config_ok env (Compatible k c) = compatible_ok env c"

definition provider_config :: "InferenceProviderSpec \<Rightarrow> provider_config option" where
  "provider_config spec =
     (case config_list spec of
        [] \<Rightarrow> if pv_kind spec = ''OpenAICodex'' then Some Subscription else None
      | [c] \<Rightarrow> if config_kind c = pv_kind spec then Some c else None
      | _ \<Rightarrow> None)"

definition provider_ok :: "provider_env \<Rightarrow> InferenceProviderSpec \<Rightarrow> bool" where
  "provider_ok env spec \<longleftrightarrow>
     (case provider_config spec of
        None \<Rightarrow> False
      | Some c \<Rightarrow> config_ok env c \<and> (c = Subscription \<longrightarrow> pv_catalogProvider spec = ''openai'')
          \<and> list_all (provider_model_ok (pv_catalogProvider spec) (c = Subscription)) (pv_models spec))
     \<and> pv_models spec \<noteq> [] \<and> distinct (map im_id (pv_models spec))
     \<and> TrimSpace (pv_displayName spec) \<noteq> [] \<and> TrimSpace (pv_catalogProvider spec) \<noteq> []
     \<and> (pv_catalogProvider spec = ''custom'' \<and> isCompatible (pv_kind spec) \<or> (pv_catalogProvider spec, pv_kind spec) \<in> set (pe_catalog env))"

lemma arms_config_list: "provider_arms spec = length (config_list spec)"
  by (simp add: provider_arms_def config_list_def arm_def split: option.splits)

lemma arm_simps [simp]: "arm f None = []" "arm f (Some c) = [f c]"
  by (simp_all add: arm_def)

lemma arm_conv: "arm f cfg = [] \<longleftrightarrow> cfg = None" "arm f cfg = [c] \<longleftrightarrow> (\<exists>a. cfg = Some a \<and> c = f a)" "length (arm f cfg) \<le> 1"
  by (cases cfg; auto)+

text \<open>The arm of a kind is the only configuration.\<close>

lemma single_arm:
  assumes "length (config_list spec) = 1"
  shows "pv_openAI spec = Some n \<Longrightarrow> config_list spec = [Native ''OpenAI'' n]"
    "pv_anthropic spec = Some n \<Longrightarrow> config_list spec = [Native ''Anthropic'' n]"
    "pv_gemini spec = Some n \<Longrightarrow> config_list spec = [Native ''Gemini'' n]"
    "pv_vertexAI spec = Some v \<Longrightarrow> config_list spec = [Vertex v]"
    "pv_bedrock spec = Some b \<Longrightarrow> config_list spec = [Bedrock b]"
    "pv_azure spec = Some a \<Longrightarrow> config_list spec = [Azure a]"
    "pv_openAICompatible spec = Some c \<Longrightarrow> config_list spec = [Compatible ''OpenAICompatible'' c]"
    "pv_anthropicCompatible spec = Some c \<Longrightarrow> config_list spec = [Compatible ''AnthropicCompatible'' c]"
  using assms by (simp_all add: config_list_def arm_def split: option.splits)

lemma config_list_single: "config_list spec = [c] \<longleftrightarrow> length (config_list spec) = 1 \<and>
    ((\<exists>n. pv_openAI spec = Some n \<and> c = Native ''OpenAI'' n) \<or> (\<exists>n. pv_anthropic spec = Some n \<and> c = Native ''Anthropic'' n)
     \<or> (\<exists>n. pv_gemini spec = Some n \<and> c = Native ''Gemini'' n) \<or> (\<exists>v. pv_vertexAI spec = Some v \<and> c = Vertex v)
     \<or> (\<exists>b. pv_bedrock spec = Some b \<and> c = Bedrock b) \<or> (\<exists>a. pv_azure spec = Some a \<and> c = Azure a)
     \<or> (\<exists>k. pv_openAICompatible spec = Some k \<and> c = Compatible ''OpenAICompatible'' k)
     \<or> (\<exists>k. pv_anthropicCompatible spec = Some k \<and> c = Compatible ''AnthropicCompatible'' k))"
  by (auto simp: config_list_def arm_def split: option.splits)

lemma with_arm_Nil: "with_arm arms f cfg check = [] \<longleftrightarrow> (\<exists>c. cfg = Some c \<and> arms = 1 \<and> check c = [])"
  by (auto simp: with_arm_def split: option.splits)

lemma kind_issues_Nil:
  assumes "provider_arms spec = (if pv_kind spec = ''OpenAICodex'' then 0 else 1)"
  shows "kind_issues env spec = [] \<longleftrightarrow>
    (\<exists>c. provider_config spec = Some c \<and> config_ok env c \<and> (c = Subscription \<longrightarrow> pv_catalogProvider spec = ''openai''))"
proof (cases "pv_kind spec = ''OpenAICodex''")
  case True
  then have "config_list spec = []" using assms by (simp add: arms_config_list)
  with True show ?thesis by (simp add: kind_issues_def provider_config_def Let_def)
next
  case False
  then have one: "length (config_list spec) = 1" "provider_arms spec = 1" using assms by (simp_all add: arms_config_list)
  then obtain c where c: "config_list spec = [c]" by (auto simp: length_Suc_conv)
  note arms = single_arm [OF one(1)]
  have "kind_issues env spec = [] \<longleftrightarrow> config_kind c = pv_kind spec \<and> config_ok env c"
    using c [unfolded config_list_single] c False one(2) arms
    by (elim conjE disjE exE) (auto simp: kind_issues_def Let_def with_arm_Nil arm_issues_Nil compatible_issues_Nil)
  moreover have "c \<noteq> Subscription" using c [unfolded config_list_single] by auto
  ultimately show ?thesis by (simp add: provider_config_def c)
qed

lemma config_not_subscription: "config_list spec = [c] \<Longrightarrow> c \<noteq> Subscription \<and> config_kind c \<noteq> ''OpenAICodex''"
  by (simp only: config_list_single) auto

lemma provider_config_Some: "provider_config spec = Some c \<longleftrightarrow>
    config_kind c = pv_kind spec \<and> (config_list spec = [] \<and> c = Subscription \<or> config_list spec = [c])"
  using config_not_subscription [of spec c] by (auto simp: provider_config_def split: list.splits if_splits)

lemma provider_config_arms:
  assumes "provider_config spec = Some c"
  shows "provider_arms spec = (if pv_kind spec = ''OpenAICodex'' then 0 else 1)"
    "c = Subscription \<longleftrightarrow> pv_kind spec = ''OpenAICodex''" "config_kind c = pv_kind spec"
  using assms config_not_subscription [of spec c] unfolding provider_config_Some by (auto simp: arms_config_list)

lemma ValidateProvider_Nil: "ValidateProvider env spec = [] \<longleftrightarrow> provider_ok env spec"
proof (cases "provider_arms spec = (if pv_kind spec = ''OpenAICodex'' then 0 else 1)")
  case True
  from kind_issues_Nil [OF this, of env] True show ?thesis
    by (auto simp: ValidateProvider_def provider_ok_def catalog_issues_def Let_def provider_models.loop_silent_start
        dest: provider_config_arms(2) split: option.splits)
next
  case False
  then have "provider_config spec = None" using provider_config_arms(1) by (metis option.exhaust)
  with False show ?thesis by (simp add: ValidateProvider_def provider_ok_def Let_def)
qed

lemma issuesToFields_Nil [simp]: "issuesToFields is = [] \<longleftrightarrow> is = []"
  by (simp add: issuesToFields_def)

text \<open>C26. Admission of a provider is exact: a new provider is accepted precisely when it is a well-formed
  value of the tagged union. Its kind names the one configuration that is present (none for a
  subscription), that configuration is valid, provider and kind are in the catalog or a custom
  endpoint, and it enables at least one model, each with its own identifier, positive limits with
  input and output within the context, and an API exactly for subscriptions; the name is not the
  one reserved for pools.\<close>

theorem provider_admission_exact:
  "ValidateCreate_provider env p = [] \<longleftrightarrow> provider_ok env (pr_spec p) \<and> pr_name p \<noteq> InferencePoolProvider"
  by (auto simp: ValidateCreate_provider_def ValidateProvider_Nil reserved_name_def)

subsection \<open>Models in use\<close>

definition used_models :: "InferencePool list \<Rightarrow> Sandbox list \<Rightarrow> string \<Rightarrow> string \<Rightarrow> string set" where
  "used_models pools sandboxes ns name =
     {pm_model m |m p. p \<in> set pools \<and> pool_namespace p = ns \<and> m \<in> set (pool_members p) \<and> pm_provider m = name}
     \<union> {mr_model m |m s. s \<in> set sandboxes \<and> sb_namespace s = ns \<and> m \<in> set (si_models (sx_inference (sb_spec s))) \<and> mr_provider m = name}"

lemma removal_step_silent:
  assumes "removal_step env r ns name model = Ok []" "listPools r = Ok pools" "listSandboxes r = Ok sandboxes"
    and "name \<noteq> InferencePoolProvider"
  shows "model \<notin> used_models pools sandboxes ns name"
proof -
  have "\<not> (\<exists>p\<in>set pools. pool_namespace p = ns \<and> list_ex (\<lambda>m. pm_provider m = name \<and> pm_model m = model) (pool_members p))"
    using assms(1,2) by (fastforce simp: removal_step_def Let_def filter_empty_conv list_ex_iff pool_provider_index_def split: if_splits)
  moreover have "\<forall>s\<in>set sandboxes. sb_namespace s = ns \<longrightarrow> name @ [CHR 0x00] @ model \<notin> set (sandbox_model_index s)"
    using assms(1,2,3) by (auto simp: removal_step_def Let_def filter_empty_conv split: if_splits)
  ultimately show ?thesis
    using assms(4) by (auto simp: used_models_def sandbox_model_index_def list_ex_iff)
qed

lemma removal_loop_silent: "removal_loop env r ns name desired ms = Ok [] \<Longrightarrow> m \<in> set ms \<Longrightarrow>
    im_id m \<in> set desired \<or> removal_step env r ns name (im_id m) = Ok []"
  by (induction ms) (auto split: if_splits sum.splits)

text \<open>C19. A model in use is not withdrawn. If an update of a provider is admitted, its kind is the old one
  (unless nothing changed at all the new definition is well formed), and every model that the old
  definition enabled and that a Sandbox or pool of the provider's namespace refers to is still
  enabled.\<close>

theorem model_removal_guarded:
  assumes "ValidateUpdate_provider env (=) r old new = Ok []"
    and "listPools r = Ok pools" "listSandboxes r = Ok sandboxes"
    and "pr_namespace old = pr_namespace new" "pr_name old = pr_name new"
  shows "pv_kind (pr_spec new) = pv_kind (pr_spec old)
    \<and> (pr_spec new = pr_spec old \<or> provider_ok env (pr_spec new))
    \<and> im_id ` set (pv_models (pr_spec old)) \<inter> used_models pools sandboxes (pr_namespace new) (pr_name new)
        \<subseteq> im_id ` set (pv_models (pr_spec new))"
proof (cases "pr_spec old = pr_spec new")
  case False
  with assms(1) have ok: "ValidateProvider env (pr_spec new) = []" "pv_kind (pr_spec old) = pv_kind (pr_spec new)"
      "pr_name new \<noteq> InferencePoolProvider" "ValidateModelRemoval env r old new = Ok []"
    by (auto simp: ValidateUpdate_provider_def Let_def reserved_name_def split: sum.splits)
  have "im_id m \<in> im_id ` set (pv_models (pr_spec new))"
    if "m \<in> set (pv_models (pr_spec old))" "im_id m \<in> used_models pools sandboxes (pr_namespace new) (pr_name new)" for m
    using removal_loop_silent [OF ok(4) [unfolded ValidateModelRemoval_def] that(1)] removal_step_silent [OF _ assms(2,3) ok(3)] that(2)
    by auto
  with ok show ?thesis by (auto simp: ValidateProvider_Nil)
qed simp

subsection \<open>Limits of pools\<close>

definition contract_limits_ok :: "InferencePoolContract \<times> 32 word \<Rightarrow> bool" where
  "contract_limits_ok ci \<longleftrightarrow> limits_ok ((ct_limits (fst ci))\<lparr>lim_input := Some (snd ci)\<rparr>)"

lemma sint_min_int32 [simp]: "sint (min_int32 a b) = min (sint a) (sint b)"
  by (simp add: min_int32_def)

lemma limits_ok_effective: "limits_ok l \<Longrightarrow> limits_ok (l\<lparr>lim_input := Some (effective_input l)\<rparr>)"
  by (auto simp: limits_ok_def effective_input_def split: option.splits)

lemma meet_limits_ok: "contract_limits_ok ci \<Longrightarrow> limits_ok (im_limits m) \<Longrightarrow> contract_limits_ok (meet ci m)"
  using limits_ok_effective [of "im_limits m"]
  by (auto simp: contract_limits_ok_def limits_ok_def meet_def Let_def min_def)

lemma fold_meet_limits_ok: "contract_limits_ok ci \<Longrightarrow> \<forall>m\<in>set ms. limits_ok (im_limits m) \<Longrightarrow> contract_limits_ok (foldl meet ci ms)"
  by (induction ms arbitrary: ci) (auto simp: meet_limits_ok)

definition providers_admitted :: "provider_env \<Rightarrow> ('a) pool_reader_scheme \<Rightarrow> bool" where
  "providers_admitted env r \<longleftrightarrow>
     (\<forall>ns n p. getInferenceProvider r ns n = Ok p \<longrightarrow> (\<exists>q. p = provider_view q \<and> ValidateCreate_provider env q = []))"

lemma admitted_limits: "ValidateCreate_provider env q = [] \<Longrightarrow> m \<in> set (ip_models (provider_view q)) \<Longrightarrow> limits_ok (im_limits m)"
  by (auto simp: ValidateCreate_provider_def ValidateProvider_Nil provider_ok_def provider_view_def provider_model_ok_def
      list_all_iff InferenceModel.defs split: option.splits)

text \<open>C27. The limits a pool advertises are themselves valid model limits. When the providers of a cluster were
  admitted and a pool resolves without issues, the output and the input limit of its contract are
  positive and within its context limit, as signed 32-bit integers.\<close>

theorem pool_limits_valid:
  assumes "ResolvePool r pool = Ok (d, [])" "providers_admitted env r"
  shows "\<exists>contract. pd_contract d = Some contract \<and> lim_input (ct_limits contract) \<noteq> None \<and> limits_ok (ct_limits contract)"
proof -
  obtain first rest contract input where
    ms: "length (first # rest) = length (pool_members pool)"
      "\<forall>j<length (pool_members pool). member_ok r (pool_namespace pool) j (pool_members pool ! j) ((first # rest) ! j)"
    and e: "foldl meet (first_contract first, effective_input (im_limits (rm_model first))) (map rm_model rest) = (contract, input)"
    and d: "pd_contract d = Some (contract\<lparr>ct_limits := (ct_limits contract)\<lparr>lim_input := Some input\<rparr>\<rparr>)"
    using assms(1) by (rule ResolvePool_silent)
  have each: "limits_ok (im_limits (rm_model m))" if "m \<in> set (first # rest)" for m
  proof -
    obtain j where "j < length (pool_members pool)" "m = (first # rest) ! j" using \<open>m \<in> _\<close> ms(1) by (metis in_set_conv_nth)
    with ms(2) obtain ns n where "getInferenceProvider r ns n = Ok (rm_provider m)" "rm_model m \<in> set (ip_models (rm_provider m))"
      by (auto simp: member_ok_def)
    with assms(2) admitted_limits show ?thesis unfolding providers_admitted_def by metis
  qed
  then have "contract_limits_ok (first_contract first, effective_input (im_limits (rm_model first)))"
    using limits_ok_effective by (simp add: contract_limits_ok_def first_contract_def)
  from fold_meet_limits_ok [OF this, of "map rm_model rest"] each have "contract_limits_ok (contract, input)"
    unfolding e by simp
  with d show ?thesis by (simp add: contract_limits_ok_def)
qed

subsection \<open>Examples\<close>

text \<open>The provider that the sample pool refers to, with a second model.\<close>

definition sample_claude :: "string \<Rightarrow> ProviderModel list \<Rightarrow> Provider" where
  "sample_claude ns more_models = \<lparr>pr_namespace = ns, pr_name = ''p'', pr_spec = \<lparr>pv_credentialRevision = [],
     pv_catalogProvider = ''anthropic'', pv_displayName = ''Claude'', pv_kind = ''Anthropic'', pv_openAI = None,
     pv_anthropic = Some \<lparr>nc_baseURL = []\<rparr>, pv_gemini = None, pv_vertexAI = None, pv_bedrock = None, pv_azure = None,
     pv_openAICompatible = None, pv_anthropicCompatible = None,
     pv_models = InferenceModel.extend (hd (ip_models sample_provider)) (ProviderModel.fields ''M'' None) # more_models\<rparr>\<rparr>"

definition sample_extra :: ProviderModel where
  "sample_extra = InferenceModel.extend ((hd (ip_models sample_provider))\<lparr>im_id := ''n''\<rparr>) (ProviderModel.fields ''N'' None)"

definition sample_provider_env :: provider_env where
  "sample_provider_env = \<lparr>pe_catalog = [(''anthropic'', ''Anthropic'')], pe_lower = (\<lambda>s. s), pe_parse = (\<lambda>_. None), pe_quote = (\<lambda>s. s),
     pe_account = (\<lambda>_. None)\<rparr>"

definition sample_usage :: "Workspace \<Rightarrow> Sandbox list \<Rightarrow> int provider_reader" where
  "sample_usage w ss = sandbox_reader.extend (sample_sandboxes\<lparr>getWorkspace := (\<lambda>_. Ok w), listSandboxes := Ok ss\<rparr>)
     (provider_reader.fields (Ok [sample_pool]))"

lemma sample_claude_ok: "(''anthropic'', ''Anthropic'') \<in> set (pe_catalog env) \<Longrightarrow> ms = [] \<or> ms = [sample_extra] \<Longrightarrow>
    ValidateCreate_provider env (sample_claude ns ms) = []"
proof -
  assume cat: "(''anthropic'', ''Anthropic'') \<in> set (pe_catalog env)" and ms: "ms = [] \<or> ms = [sample_extra]"
  have t: "TrimSpace ''m'' = ''m''" "TrimSpace ''n'' = ''n''" "TrimSpace ''M'' = ''M''" "TrimSpace ''N'' = ''N''" "TrimSpace ''Claude'' = ''Claude''"
      "TrimSpace ''anthropic'' = ''anthropic''"
    by (simp_all add: TrimSpace_visible visible_def)
  have l: "limits_ok \<lparr>lim_context = 200000, lim_input = None, lim_output = 8192\<rparr>" by (simp add: limits_ok_def)
  have c: "provider_config (pr_spec (sample_claude ns ms)) = Some (Native ''Anthropic'' \<lparr>nc_baseURL = []\<rparr>)"
    by (simp add: provider_config_def config_list_def sample_claude_def)
  have "provider_ok env (pr_spec (sample_claude ns ms))"
    unfolding provider_ok_def c
    using ms cat by (elim disjE) (simp_all add: sample_claude_def sample_extra_def sample_provider_def provider_model_ok_def
        native_ok_def InferenceModel.defs ProviderModel.defs t l)
  then show ?thesis
    by (simp add: ValidateCreate_provider_def ValidateProvider_Nil reserved_name_def sample_claude_def InferencePoolProvider_def)
qed

lemma sample_catalog [simp]: "(''anthropic'', ''Anthropic'') \<in> set (pe_catalog sample_provider_env)"
  by (simp add: sample_provider_env_def)

lemma sample_usage_simps [simp]: "listPools (sample_usage w ss) = Ok [sample_pool]" "listSandboxes (sample_usage w ss) = Ok ss"
  "getNamespace (sample_usage w ss) = sample_namespaces" "getWorkspace (sample_usage w ss) = (\<lambda>_. Ok w)"
  by (simp_all add: sample_usage_def sample_sandboxes_def sandbox_reader.defs provider_reader.defs)

text \<open>Withdrawing the extra model from the sample provider while nothing of its namespace refers to it.\<close>

lemma sample_withdrawal:
  assumes "\<forall>s\<in>set ss. sb_namespace s = ns \<longrightarrow> ''p'' @ [CHR 0x00] @ ''n'' \<notin> set (sandbox_model_index s)"
  shows "ValidateUpdate_provider sample_provider_env (=) (sample_usage w ss) (sample_claude ns [sample_extra]) (sample_claude ns []) = Ok []"
proof -
  have "ValidateProvider sample_provider_env (pr_spec (sample_claude ns [])) = []"
    using sample_claude_ok [of sample_provider_env "[]" ns] by (simp add: ValidateCreate_provider_def)
  moreover have "ValidateModelRemoval sample_provider_env (sample_usage w ss) (sample_claude ns [sample_extra]) (sample_claude ns []) = Ok []"
    using assms by (auto simp: ValidateModelRemoval_def removal_step_def Let_def sample_claude_def sample_extra_def sample_provider_def
        sample_pool_def InferenceModel.defs ProviderModel.defs filter_empty_conv)
  ultimately show ?thesis
    by (simp add: ValidateUpdate_provider_def Let_def reserved_name_def sample_claude_def InferencePoolProvider_def)
qed

theorem model_removal_guarded_witness:
  "''m'' \<in> im_id ` set (pv_models (pr_spec (sample_claude ''w'' [])))"
proof -
  have "sandbox_model_index sample_sandbox = [''p'' @ [CHR 0x00] @ ''m'']"
    by (simp add: sandbox_model_index_def sample_sandbox_def sample_model_def InferencePoolProvider_def)
  then have "ValidateUpdate_provider sample_provider_env (=) (sample_usage sample_workspace [sample_sandbox])
      (sample_claude ''w'' [sample_extra]) (sample_claude ''w'' []) = Ok []"
    by (intro sample_withdrawal) simp
  from model_removal_guarded [OF this, of "[sample_pool]" "[sample_sandbox]"]
  have "im_id ` set (pv_models (pr_spec (sample_claude ''w'' [sample_extra]))) \<inter> used_models [sample_pool] [sample_sandbox] ''w'' ''p''
      \<subseteq> im_id ` set (pv_models (pr_spec (sample_claude ''w'' [])))"
    by (simp add: sample_claude_def)
  moreover have "''m'' \<in> used_models [sample_pool] [sample_sandbox] ''w'' ''p''"
    by (simp add: used_models_def sample_pool_def)
  moreover have "''m'' \<in> im_id ` set (pv_models (pr_spec (sample_claude ''w'' [sample_extra])))"
    by (simp add: sample_claude_def sample_provider_def InferenceModel.defs)
  ultimately show ?thesis by blast
qed

theorem pool_limits_valid_witness:
  "\<exists>d contract. ResolvePool sample_pools sample_pool = Ok (d, []) \<and> pd_contract d = Some contract \<and> limits_ok (ct_limits contract)"
proof -
  have "provider_view (sample_claude ''w'' []) = sample_provider"
    by (simp add: provider_view_def sample_claude_def sample_provider_def InferenceModel.defs)
  then have "providers_admitted sample_provider_env sample_pools"
    using sample_claude_ok [of sample_provider_env "[]" "''w''"] by (auto simp: providers_admitted_def sample_pools_def split: if_splits intro: sym)
  moreover obtain d where d: "ResolvePool sample_pools sample_pool = Ok (d, [])" using sample_pool_resolves ..
  ultimately show ?thesis using pool_limits_valid [OF d] by blast
qed

text \<open>The guard looks only into the provider's own namespace. A Sandbox of a Workspace that selects a
  provider of its Organisation loses a model it lists: the update is admitted although the reference
  resolves to this provider. (The finalizer of the controller, unlike the guard, resolves references
  from every namespace.)\<close>

definition selecting_workspace :: Workspace where
  "selecting_workspace = sample_workspace\<lparr>ws_selected := no_selection\<lparr>InferenceProviders := [''p'']\<rparr>\<rparr>"

definition organisation_sandbox :: Sandbox where
  "organisation_sandbox = sample_sandbox\<lparr>sb_spec := (sb_spec sample_sandbox)\<lparr>sx_inference := (sx_inference (sb_spec sample_sandbox))\<lparr>si_models :=
     [\<lparr>mr_scope = ResourceScopeOrganisation, mr_provider = ''p'', mr_model = ''n''\<rparr>]\<rparr>\<rparr>\<rparr>"

lemma organisation_model_withdrawn:
  "let r = sample_usage selecting_workspace [organisation_sandbox] in
     SelectedNamespace r (sb_namespace organisation_sandbox)
       \<lparr>sel_scope = ResourceScopeOrganisation, sel_kind = KindInferenceProvider, sel_name = ''p''\<rparr> = Ok sample_org
     \<and> ValidateUpdate_provider sample_provider_env (=) r (sample_claude sample_org [sample_extra]) (sample_claude sample_org []) = Ok []
     \<and> ''n'' \<notin> im_id ` set (pv_models (pr_spec (sample_claude sample_org [])))"
proof -
  have "SelectedNamespace (sample_usage selecting_workspace [organisation_sandbox]) ''w''
       \<lparr>sel_scope = ResourceScopeOrganisation, sel_kind = KindInferenceProvider, sel_name = ''p''\<rparr> = Ok sample_org"
    using sample_org sample_org_name
    by (simp add: SelectedNamespace_def Namespace_def sample_namespaces_def selecting_workspace_def sample_workspace_def label_def
        Names_def no_selection_def)
  moreover have "ValidateUpdate_provider sample_provider_env (=) (sample_usage selecting_workspace [organisation_sandbox])
      (sample_claude sample_org [sample_extra]) (sample_claude sample_org []) = Ok []"
    using sample_org_name by (intro sample_withdrawal) (auto simp: organisation_sandbox_def sample_sandbox_def)
  ultimately show ?thesis
    by (simp add: Let_def organisation_sandbox_def sample_sandbox_def sample_claude_def sample_provider_def InferenceModel.defs)
qed

end
