(* ===== verification/ProviderRuntime.thy ===== *)
theory ProviderRuntime
  imports ProviderAdmission
begin

section \<open>Runtime resources of inference providers\<close>

text \<open>
  What an admitted provider becomes (\<open>internal/inference/runtime.go\<close>): the target that AgentGateway
  dials, with TLS, credentials and headers, the ExternalSecret that materialises the stored
  credential, the authorization policy of subscriptions, and the refresh of subscription tokens.
  Objects of AgentGateway and of the External Secrets operator are kept as records of the fields
  the code sets. Dereferencing a missing configuration is the error \<open>RenderPanic\<close>. A Go map that
  the code only reads by key or sorts is an association list.
\<close>

definition CredentialPath :: "string \<Rightarrow> string \<Rightarrow> string \<Rightarrow> string \<Rightarrow> string" where
  "CredentialPath namespace name kd revision =
     namespace @ ''/'' @ (if kd = ''OpenAICodex'' then ''inference-subscriptions'' else ''inference-providers'') @ ''/'' @ name
     @ (if revision \<noteq> [] then CHR ''/'' # revision else [])"

subsection \<open>Subscriptions\<close>

record SubscriptionRecord =
  sr_kind :: string
  sr_accountID :: string
  sr_clientID :: string
  sr_token :: "oauth2_token option"
  sr_scopes :: "string list"
  sr_updatedAt :: time

datatype subscription_error = AccessTokenUnavailable | RefreshFailed oauth_error

definition OpenAICodexTokenEndpoint :: string where
  "OpenAICodexTokenEndpoint = ''https://auth.openai.com/oauth/token''"

text \<open>The clock is read once here and once more inside \<open>oauth.Refresh\<close>.\<close>

definition RefreshSubscription ::
  "oauth_env \<Rightarrow> time \<Rightarrow> time \<Rightarrow> SubscriptionRecord \<Rightarrow> (subscription_error, SubscriptionRecord \<times> bool) result" where
  "RefreshSubscription env now later rc =
     (if TokenUsable (sr_token rc) now then Ok (rc, False)
      else if sr_kind rc \<noteq> ''OpenAICodex'' then Err AccessTokenUnavailable
      else case Refresh env later
             \<lparr>TokenEndpoint = OpenAICodexTokenEndpoint, TokenEndpointAuthMethod = ''none'', Resource = [], CfgScopes = []\<rparr>
             \<lparr>ClientID = sr_clientID rc, ClientSecret = [], Token = sr_token rc, Scopes = sr_scopes rc,
              Registration = Map.empty, UpdatedAt = sr_updatedAt rc\<rparr> of
        Inl e \<Rightarrow> Err (RefreshFailed e)
      | Inr (token, scopes) \<Rightarrow>
          Ok (rc\<lparr>sr_token := Some token, sr_scopes := (if scopes \<noteq> [] then scopes else sr_scopes rc), sr_updatedAt := now\<rparr>, True))"

subsection \<open>Targets\<close>

record AuthorizationLocation =
  al_name :: string
  al_prefix :: "string option"

text \<open>The fields hold the name of the Secret.\<close>

record BackendAuth =
  ba_secretRef :: "string option"
  ba_location :: "AuthorizationLocation option"
  ba_gcp :: "string option"
  ba_aws :: "string option"
  ba_azure :: "string option"

datatype llm_arm =
    LLMNone
  | LLMCustom "(string \<times> string) list" "string option"
  | LLMOpenAI "string option"
  | LLMAnthropic "string option"
  | LLMGemini "string option"
  | LLMVertexAI string string "string option"
  | LLMBedrock string "string option"
  | LLMAzure string string "string option" "string option" "string option"

record LLMProvider =
  llm_arm :: llm_arm
  llm_host :: string
  llm_port :: int
  llm_path :: string
  llm_pathPrefix :: string

record BackendTLS =
  tls_insecureSkipVerify :: bool

record Transformation =
  tf_set :: "(string \<times> string) list"
  tf_body :: "string option"

record ProviderTarget =
  pt_llm :: LLMProvider
  pt_tls :: "BackendTLS option"
  pt_auth :: "BackendAuth option"
  pt_transformation :: "Transformation option"
  pt_aliases :: "(string \<times> string) list"
  pt_routes :: "(string \<times> string) list"
  pt_additionalHosts :: "string list"
  pt_secretKeys :: "(string \<times> string) list"
  pt_extract :: bool

record render_env = provider_env +
  re_chatTextContent :: string

datatype render_error = RenderPanic | EndpointParse | EndpointPort | UnsupportedKind string

definition headerLocation :: "string \<Rightarrow> string \<Rightarrow> AuthorizationLocation" where
  "headerLocation name prf = \<lparr>al_name = name, al_prefix = (if prf \<noteq> [] then Some prf else None)\<rparr>"

definition vertexModelName :: "InferenceProviderSpec \<Rightarrow> string \<Rightarrow> string" where
  "vertexModelName spec model =
     (if pv_catalogProvider spec \<noteq> ''google-vertex'' \<or> Contains model ''/'' \<or> HasPrefix model ''claude-'' then model
      else ''google/'' @ model)"

text \<open>The endpoint of a URL: host, port and paths of the target and its TLS policy.\<close>

definition applyEndpoint ::
  "('a) provider_env_scheme \<Rightarrow> string \<Rightarrow> string \<Rightarrow> string \<Rightarrow> bool \<Rightarrow> ProviderTarget \<Rightarrow> (render_error, ProviderTarget) result" where
  "applyEndpoint env rawURL path pathPrefix skipTLSVerify t =
     (case pe_parse env rawURL of
        None \<Rightarrow> Err EndpointParse
      | Some u \<Rightarrow>
          (let portText = Port (web_url.truncate u) in
           case (if portText \<noteq> [] then ParseInt 32 portText else Some (if wu_scheme u = ''http'' then 80 else 443)) of
             None \<Rightarrow> Err EndpointPort
           | Some port \<Rightarrow>
               Ok (t\<lparr>pt_llm := (pt_llm t)\<lparr>llm_host := Hostname (web_url.truncate u), llm_port := port, llm_path := path,
                       llm_pathPrefix := (if path = [] \<and> pathPrefix = [] then wu_escapedPath u else pathPrefix)\<rparr>,
                     pt_tls := (if wu_scheme u = ''http'' then None else Some \<lparr>tls_insecureSkipVerify = skipTLSVerify\<rparr>)\<rparr>)))"

definition inference_routes :: "(string \<times> string) list" where
  "inference_routes = [(''/chat/completions'', ''Completions''), (''/embeddings'', ''Embeddings''), (''/messages'', ''Messages''),
     (''/messages/count_tokens'', ''AnthropicTokenCount''), (''/models'', ''Models''), (''/realtime'', ''Realtime''),
     (''/responses'', ''Responses'')]"

definition no_auth :: BackendAuth where
  "no_auth = \<lparr>ba_secretRef = None, ba_location = None, ba_gcp = None, ba_aws = None, ba_azure = None\<rparr>"

definition empty_target :: ProviderTarget where
  "empty_target = \<lparr>pt_llm = \<lparr>llm_arm = LLMNone, llm_host = [], llm_port = 0, llm_path = [], llm_pathPrefix = []\<rparr>,
     pt_tls = None, pt_auth = None, pt_transformation = None, pt_aliases = [], pt_routes = [], pt_additionalHosts = [],
     pt_secretKeys = [], pt_extract = False\<rparr>"

definition tls_target :: "llm_arm \<Rightarrow> string \<Rightarrow> string \<Rightarrow> (string \<times> string) list \<Rightarrow> BackendAuth \<Rightarrow> ProviderTarget" where
  "tls_target a host pathPrefix keys auth = empty_target
     \<lparr>pt_llm := \<lparr>llm_arm = a, llm_host = host, llm_port = 443, llm_path = [], llm_pathPrefix = pathPrefix\<rparr>,
      pt_tls := Some \<lparr>tls_insecureSkipVerify = False\<rparr>, pt_secretKeys := keys, pt_auth := Some auth\<rparr>"

text \<open>OpenAI, Anthropic and Gemini: the fixed host unless the base URL overrides it, and a default path prefix.\<close>

definition render_native ::
  "('a) provider_env_scheme \<Rightarrow> string \<Rightarrow> NativeProviderConfig option \<Rightarrow> llm_arm \<Rightarrow> string \<Rightarrow> string \<Rightarrow> AuthorizationLocation option \<Rightarrow>
     (render_error, ProviderTarget) result" where
  "render_native env name cfg a host defaultPrefix location =
     (case cfg of
        None \<Rightarrow> Err RenderPanic
      | Some c \<Rightarrow>
          (let base = tls_target a host [] [(''Authorization'', ''apiKey'')] (no_auth\<lparr>ba_secretRef := Some name, ba_location := location\<rparr>) in
           case (if nc_baseURL c \<noteq> [] then applyEndpoint env (nc_baseURL c) [] [] False base else Ok base) of
             Inl e \<Rightarrow> Err e
           | Inr t \<Rightarrow> Ok (if llm_pathPrefix (pt_llm t) = [] then t\<lparr>pt_llm := (pt_llm t)\<lparr>llm_pathPrefix := defaultPrefix\<rparr>\<rparr> else t)))"

definition vertex_host :: "string \<Rightarrow> string" where
  "vertex_host region =
     (if region = [] \<or> region = ''global'' then ''aiplatform.googleapis.com''
      else if region = ''us'' \<or> region = ''eu'' then ''aiplatform.'' @ region @ ''.rep.googleapis.com''
      else region @ ''-aiplatform.googleapis.com'')"

definition render_vertex :: "string \<Rightarrow> InferenceProviderSpec \<Rightarrow> string option \<Rightarrow> (render_error, ProviderTarget) result" where
  "render_vertex name spec modelRef =
     (case pv_vertexAI spec of
        None \<Rightarrow> Err RenderPanic
      | Some c \<Rightarrow>
          Ok ((tls_target (LLMVertexAI (vx_project c) (vx_region c) (map_option (vertexModelName spec) modelRef)) (vertex_host (vx_region c)) ''/''
                 [(''credentials.json'', ''serviceAccountJSON'')] (no_auth\<lparr>ba_gcp := Some name\<rparr>))
              \<lparr>pt_additionalHosts := [''discoveryengine.googleapis.com''],
               pt_aliases := map (\<lambda>m. (im_id m, vertexModelName spec (im_id m)))
                 (filter (\<lambda>m. vertexModelName spec (im_id m) \<noteq> im_id m) (pv_models spec))\<rparr>))"

definition render_bedrock :: "string \<Rightarrow> BedrockProviderConfig option \<Rightarrow> string option \<Rightarrow> (render_error, ProviderTarget) result" where
  "render_bedrock name cfg modelRef =
     (case cfg of
        None \<Rightarrow> Err RenderPanic
      | Some c \<Rightarrow>
          (let bearer = (br_authMode c = ''BearerToken'');
               keys = (if bearer then [(''Authorization'', ''bearerToken'')] else [(''accessKey'', ''accessKey''), (''secretKey'', ''secretKey'')]);
               auth = (if bearer then no_auth\<lparr>ba_secretRef := Some name\<rparr> else no_auth\<lparr>ba_aws := Some name\<rparr>) in
           Ok ((tls_target (LLMBedrock (br_region c) modelRef) (''bedrock-runtime.'' @ br_region c @ ''.amazonaws.com'') ''/'' keys auth)
               \<lparr>pt_additionalHosts := [''bedrock-agent-runtime.'' @ br_region c @ ''.amazonaws.com''], pt_extract := \<not> bearer\<rparr>)))"

definition render_azure :: "string \<Rightarrow> AzureProviderConfig option \<Rightarrow> string option \<Rightarrow> (render_error, ProviderTarget) result" where
  "render_azure name cfg modelRef =
     (case cfg of
        None \<Rightarrow> Err RenderPanic
      | Some c \<Rightarrow>
          (let host = az_resourceName c @ (if az_resourceType c = ''Foundry'' then ''.services.ai.azure.com'' else ''.openai.azure.com'');
               a = LLMAzure (az_resourceName c) (az_resourceType c) modelRef (if az_project c \<noteq> [] then Some (az_project c) else None)
                     (if az_apiVersion c \<noteq> [] then Some (az_apiVersion c) else None) in
           if az_authMode c = ''APIKey''
           then Ok (tls_target a host ''/'' [(''Authorization'', ''apiKey'')]
                  (no_auth\<lparr>ba_secretRef := Some name, ba_location := Some (headerLocation ''api-key'' [])\<rparr>))
           else Ok ((tls_target a host ''/'' [(''clientID'', ''clientID''), (''tenantID'', ''tenantID''), (''clientSecret'', ''clientSecret'')]
                  (no_auth\<lparr>ba_azure := Some name\<rparr>))\<lparr>pt_additionalHosts := [''login.microsoftonline.com'']\<rparr>)))"

definition header_transformation :: "render_env \<Rightarrow> InferenceProviderSpec \<Rightarrow> CompatibleProviderConfig \<Rightarrow> Transformation option" where
  "header_transformation env spec c =
     (let tset = map (\<lambda>h. (hd_name h, pe_quote env (hd_value h))) (cp_headers c);
          sarvam = (pv_kind spec = ''OpenAICompatible'' \<and> pv_catalogProvider spec = ''sarvam'') in
      if cp_headers c = [] \<and> \<not> sarvam then None
      else Some \<lparr>tf_set = tset, tf_body = (if sarvam then Some (re_chatTextContent env) else None)\<rparr>)"

definition render_compatible ::
  "render_env \<Rightarrow> string \<Rightarrow> InferenceProviderSpec \<Rightarrow> CompatibleProviderConfig option \<Rightarrow> (string \<times> string) list \<Rightarrow> string option \<Rightarrow>
     (render_error, ProviderTarget) result" where
  "render_compatible env name spec cfg formats modelRef =
     (case cfg of
        None \<Rightarrow> Err RenderPanic
      | Some c \<Rightarrow>
          (case applyEndpoint env (cp_baseURL c) (cp_path c) (cp_pathPrefix c) (cp_skipTLSVerify c)
                  (empty_target\<lparr>pt_llm := (pt_llm empty_target)\<lparr>llm_arm := LLMCustom formats modelRef\<rparr>\<rparr>) of
             Inl e \<Rightarrow> Err e
           | Inr t \<Rightarrow>
               (let key = (cp_authMode c = ''APIKey'') in
                Ok (t\<lparr>pt_secretKeys := (if key then [(''Authorization'', ''apiKey'')] else []),
                      pt_auth := (if key then Some (no_auth\<lparr>ba_secretRef := Some name,
                         ba_location := Some (headerLocation (cp_authHeader c) (cp_authPrefix c))\<rparr>) else None),
                      pt_transformation := header_transformation env spec c\<rparr>))))"

definition RenderProviderTarget :: "render_env \<Rightarrow> Provider \<Rightarrow> string \<Rightarrow> (render_error, ProviderTarget) result" where
  "RenderProviderTarget env provider model =
     (let spec = pr_spec provider; name = pr_name provider; k = pv_kind spec;
          modelRef = (if model \<noteq> [] then Some model else None);
          target =
            (if k = ''OpenAICodex'' then
               applyEndpoint env ''https://chatgpt.com'' [] [] False
                 (empty_target\<lparr>pt_llm := (pt_llm empty_target)\<lparr>llm_arm := LLMCustom [(''Responses'', ''/backend-api/codex/responses'')] modelRef\<rparr>\<rparr>)
             else if k = ''OpenAI'' then render_native env name (pv_openAI spec) (LLMOpenAI modelRef) ''api.openai.com'' ''/v1'' None
             else if k = ''Anthropic'' then
               render_native env name (pv_anthropic spec) (LLMAnthropic modelRef) ''api.anthropic.com'' ''/v1'' (Some (headerLocation ''x-api-key'' []))
             else if k = ''Gemini'' then
               render_native env name (pv_gemini spec) (LLMGemini modelRef) ''generativelanguage.googleapis.com'' ''/''
                 (Some (headerLocation ''x-goog-api-key'' []))
             else if k = ''VertexAI'' then render_vertex name spec modelRef
             else if k = ''Bedrock'' then render_bedrock name (pv_bedrock spec) modelRef
             else if k = ''Azure'' then render_azure name (pv_azure spec) modelRef
             else if k = ''OpenAICompatible'' then render_compatible env name spec (pv_openAICompatible spec) [(''Completions'', [])] modelRef
             else if k = ''AnthropicCompatible'' then
               render_compatible env name spec (pv_anthropicCompatible spec) [(''Messages'', []), (''AnthropicTokenCount'', [])] modelRef
             else Err (UnsupportedKind k))
      in case target of Inl e \<Rightarrow> Err e | Inr t \<Rightarrow> Ok (t\<lparr>pt_routes := inference_routes\<rparr>))"

subsection \<open>Runtime resources\<close>

record AgentgatewayBackend =
  bk_namespace :: string
  bk_name :: string
  bk_labels :: "(string \<times> string) list"
  bk_llm :: LLMProvider
  bk_tls :: "BackendTLS option"
  bk_auth :: "BackendAuth option"
  bk_transformation :: "Transformation option"
  bk_aliases :: "(string \<times> string) list"
  bk_routes :: "(string \<times> string) list"

record ExternalSecretData =
  ed_secretKey :: string
  ed_remoteKey :: string
  ed_property :: string

record ExternalSecret =
  xs_namespace :: string
  xs_name :: string
  xs_labels :: "(string \<times> string) list"
  xs_store :: string
  xs_target :: string
  xs_refresh :: int
  xs_data :: "ExternalSecretData list"
  xs_dataFrom :: "string option"

record AuthPolicy =
  ap_namespace :: string
  ap_name :: string
  ap_backend :: string
  ap_section :: "string option"
  ap_service :: string
  ap_port :: int
  ap_context :: "(string \<times> string) list"

record Runtime =
  rn_externalSecret :: "ExternalSecret option"
  rn_backend :: AgentgatewayBackend
  rn_authPolicy :: "AuthPolicy option"
  rn_secretKeys :: "string list"

definition provider_labels :: "Provider \<Rightarrow> (string \<times> string) list" where
  "provider_labels p = [(''agentz.accuknox.com/inference-provider'', pr_name p),
     (''agentz.accuknox.com/inference-provider-kind'', pv_kind (pr_spec p))]"

definition RenderInferenceAuthPolicy :: "string \<Rightarrow> string \<Rightarrow> string option \<Rightarrow> string \<Rightarrow> string \<Rightarrow> AuthPolicy" where
  "RenderInferenceAuthPolicy namespace backend sect provider pool =
     (let identity = backend @ [CHR 0x00] @ provider @ (case sect of None \<Rightarrow> [] | Some s \<Rightarrow> CHR 0x00 # s) in
      \<lparr>ap_namespace = namespace, ap_name = ''inference-auth-'' @ hex_encode (take 8 (Sum256 identity)), ap_backend = backend,
       ap_section = sect, ap_service = ''extauth'', ap_port = 18081,
       ap_context = [(''agentz.namespace'', namespace), (''agentz.inference_provider'', provider)]
         @ (if pool \<noteq> [] then [(''agentz.inference_pool'', pool)] else [])\<rparr>)"

text \<open>Without a TLS, credential or transformation policy only the AI policy of a target is kept; the
  backend of the model has no further policies, so that both branches give the same record.\<close>

definition render_backend :: "Provider \<Rightarrow> ProviderTarget \<Rightarrow> AgentgatewayBackend" where
  "render_backend p t = \<lparr>bk_namespace = pr_namespace p, bk_name = pr_name p, bk_labels = provider_labels p, bk_llm = pt_llm t,
     bk_tls = pt_tls t, bk_auth = pt_auth t, bk_transformation = pt_transformation t, bk_aliases = pt_aliases t, bk_routes = pt_routes t\<rparr>"

definition render_external_secret :: "Provider \<Rightarrow> ProviderTarget \<Rightarrow> string \<Rightarrow> int \<Rightarrow> ExternalSecret" where
  "render_external_secret p t storeName refresh =
     (let path = CredentialPath (pr_namespace p) (pr_name p) (pv_kind (pr_spec p)) (pv_credentialRevision (pr_spec p)) in
      \<lparr>xs_namespace = pr_namespace p, xs_name = pr_name p, xs_labels = provider_labels p, xs_store = storeName,
       xs_target = pr_name p, xs_refresh = refresh,
       xs_data = (if pt_extract t then []
         else sort_key ed_secretKey (map (\<lambda>kv. \<lparr>ed_secretKey = fst kv, ed_remoteKey = path, ed_property = snd kv\<rparr>) (pt_secretKeys t))),
       xs_dataFrom = (if pt_extract t then Some path else None)\<rparr>)"

definition RenderRuntime :: "render_env \<Rightarrow> Provider \<Rightarrow> string \<Rightarrow> int \<Rightarrow> (render_error, Runtime) result" where
  "RenderRuntime env p storeName refresh =
     (case RenderProviderTarget env p [] of
        Inl e \<Rightarrow> Err e
      | Inr t \<Rightarrow>
          if pt_secretKeys t = []
          then Ok \<lparr>rn_externalSecret = None, rn_backend = render_backend p t,
                rn_authPolicy = (if pv_kind (pr_spec p) = ''OpenAICodex''
                  then Some (RenderInferenceAuthPolicy (pr_namespace p) (pr_name p) None (pr_name p) []) else None),
                rn_secretKeys = []\<rparr>
          else Ok \<lparr>rn_externalSecret = Some (render_external_secret p t storeName refresh), rn_backend = render_backend p t,
                rn_authPolicy = None, rn_secretKeys = sort (map fst (pt_secretKeys t))\<rparr>)"

subsection \<open>Admitted providers render\<close>

text \<open>What is needed of \<open>url.Parse\<close> for the fixed address of subscriptions.\<close>

definition codex_parses :: "('a) provider_env_scheme \<Rightarrow> bool" where
  "codex_parses env \<longleftrightarrow> (\<exists>u. pe_parse env ''https://chatgpt.com'' = Some u \<and> wu_scheme u = ''https'' \<and> wu_host u = ''chatgpt.com'')"

text \<open>Whether a configuration permits private or plain-text endpoints, and unverified certificates.\<close>

fun config_allow :: "provider_config \<Rightarrow> bool" where
  "config_allow (Compatible k c) = cp_allowPrivateEndpoint c"
| "config_allow _ = False"

fun config_skip :: "provider_config \<Rightarrow> bool" where
  "config_skip (Compatible k c) = cp_skipTLSVerify c"
| "config_skip _ = False"

definition target_safe :: "bool \<Rightarrow> bool \<Rightarrow> ProviderTarget \<Rightarrow> bool" where
  "target_safe allow skip t \<longleftrightarrow>
     llm_host (pt_llm t) \<noteq> [] \<and> 1 \<le> llm_port (pt_llm t) \<and> llm_port (pt_llm t) \<le> 65535
     \<and> (case pt_tls t of None \<Rightarrow> allow | Some tls \<Rightarrow> tls_insecureSkipVerify tls \<longrightarrow> skip)"

abbreviation base_env :: "render_env \<Rightarrow> provider_env" where
  "base_env env \<equiv> provider_env.truncate env"

lemma base_env_simps [simp]: "pe_parse (provider_env.truncate env) = pe_parse env" "pe_lower (provider_env.truncate env) = pe_lower env"
  by (simp_all add: provider_env.defs)

lemma applyEndpoint_safe:
  assumes "endpoint_ok (base_env env) url allow skip"
  shows "\<exists>t'. applyEndpoint env url path pfx skip t = Ok t' \<and> target_safe allow skip t'
    \<and> pt_secretKeys t' = pt_secretKeys t \<and> pt_auth t' = pt_auth t \<and> pt_transformation t' = pt_transformation t
    \<and> pt_extract t' = pt_extract t \<and> pt_additionalHosts t' = pt_additionalHosts t"
proof -
  obtain u where u: "pe_parse env url = Some u" "Hostname (web_url.truncate u) \<noteq> []"
      "Port (web_url.truncate u) = [] \<or> 1 \<le> dec_val (Port (web_url.truncate u)) \<and> dec_val (Port (web_url.truncate u)) \<le> 65535"
      "wu_scheme u = ''http'' \<longrightarrow> allow"
    using assms by (auto simp: endpoint_ok_def Let_def split: option.splits)
  have "ParseInt 32 (Port (web_url.truncate u)) = Some (int (dec_val (Port (web_url.truncate u))))" if "Port (web_url.truncate u) \<noteq> []"
    using ParseInt_digits [OF Port_digits that] u(3) that by auto
  with u show ?thesis by (cases "Port (web_url.truncate u) = []") (auto simp: applyEndpoint_def target_safe_def)
qed

text \<open>The credential keys that the target of a configuration reads: the key of the Secret and the property of
  the stored record.\<close>

fun config_keys :: "provider_config \<Rightarrow> (string \<times> string) list" where
  "config_keys Subscription = []"
| "config_keys (Native k c) = [(''Authorization'', ''apiKey'')]"
| "config_keys (Vertex c) = [(''credentials.json'', ''serviceAccountJSON'')]"
| "config_keys (Bedrock c) = (if br_authMode c = ''BearerToken'' then [(''Authorization'', ''bearerToken'')]
     else [(''accessKey'', ''accessKey''), (''secretKey'', ''secretKey'')])"
| "config_keys (Azure c) = (if az_authMode c = ''APIKey'' then [(''Authorization'', ''apiKey'')]
     else [(''clientID'', ''clientID''), (''tenantID'', ''tenantID''), (''clientSecret'', ''clientSecret'')])"
| "config_keys (Compatible k c) = (if cp_authMode c = ''APIKey'' then [(''Authorization'', ''apiKey'')] else [])"

definition auth_headers :: "ProviderTarget \<Rightarrow> string list" where
  "auth_headers t = (case pt_auth t of None \<Rightarrow> [] | Some a \<Rightarrow> (case ba_location a of None \<Rightarrow> [] | Some l \<Rightarrow> [al_name l]))"

definition custom_headers :: "ProviderTarget \<Rightarrow> string list" where
  "custom_headers t = (case pt_transformation t of None \<Rightarrow> [] | Some f \<Rightarrow> map fst (tf_set f))"

definition headers_safe :: "ProviderTarget \<Rightarrow> bool" where
  "headers_safe t \<longleftrightarrow> distinct (auth_headers t @ custom_headers t) \<and> list_all headerNamePattern (auth_headers t @ custom_headers t)
     \<and> set (auth_headers t @ custom_headers t) \<inter> set gatewayControlledHeaders = {}
     \<and> set (custom_headers t) \<inter> set credentialHeaders = {}"

definition rendered :: "provider_config \<Rightarrow> (render_error, ProviderTarget) result \<Rightarrow> bool" where
  "rendered c res \<longleftrightarrow> (case res of Inl _ \<Rightarrow> False
     | Inr t \<Rightarrow> target_safe (config_allow c) (config_skip c) t \<and> headers_safe t \<and> pt_secretKeys t = config_keys c
         \<and> (pt_secretKeys t = [] \<longleftrightarrow> pt_auth t = None) \<and> (pt_extract t \<longrightarrow> list_all (\<lambda>kv. fst kv = snd kv) (pt_secretKeys t)))"

lemma no_auth_simps [simp]: "ba_location no_auth = None" by (simp add: no_auth_def)

lemma standard_headers [simp]:
  "headerNamePattern ''x-api-key''" "headerNamePattern ''x-goog-api-key''" "headerNamePattern ''api-key''"
  "''x-api-key'' \<notin> set gatewayControlledHeaders" "''x-goog-api-key'' \<notin> set gatewayControlledHeaders" "''api-key'' \<notin> set gatewayControlledHeaders"
  by (simp_all add: headerNamePattern_def header_char_def gatewayControlledHeaders_def in_range_def)

lemma tls_target_simps [simp]:
  "target_safe allow skip (tls_target a host pfx keys auth) \<longleftrightarrow> host \<noteq> []"
  "pt_secretKeys (tls_target a host pfx keys auth) = keys" "pt_auth (tls_target a host pfx keys auth) = Some auth"
  "pt_transformation (tls_target a host pfx keys auth) = None" "llm_pathPrefix (pt_llm (tls_target a host pfx keys auth)) = pfx"
  "\<not> pt_extract (tls_target a host pfx keys auth)"
  by (simp_all add: tls_target_def target_safe_def empty_target_def)

lemma target_updates [simp]:
  "target_safe allow skip (t\<lparr>pt_llm := (pt_llm t)\<lparr>llm_pathPrefix := pfx\<rparr>\<rparr>) = target_safe allow skip t"
  "target_safe allow skip (t\<lparr>pt_routes := r\<rparr>) = target_safe allow skip t"
  "target_safe allow skip (t\<lparr>pt_additionalHosts := h\<rparr>) = target_safe allow skip t"
  "target_safe allow skip (t\<lparr>pt_aliases := a\<rparr>) = target_safe allow skip t"
  "target_safe allow skip (t\<lparr>pt_extract := x\<rparr>) = target_safe allow skip t"
  "target_safe allow skip (t\<lparr>pt_secretKeys := k\<rparr>) = target_safe allow skip t"
  "target_safe allow skip (t\<lparr>pt_auth := au\<rparr>) = target_safe allow skip t"
  "target_safe allow skip (t\<lparr>pt_transformation := tr\<rparr>) = target_safe allow skip t"
  by (simp_all add: target_safe_def)

lemmas header_defs = headers_safe_def auth_headers_def custom_headers_def headerLocation_def

lemma render_native_ok:
  assumes "native_ok (base_env env) c" "host \<noteq> []"
    and "case loc of None \<Rightarrow> True | Some l \<Rightarrow> headerNamePattern (al_name l) \<and> al_name l \<notin> set gatewayControlledHeaders"
  shows "rendered (Native k c) (render_native env name (Some c) a host pfx loc)"
proof (cases "nc_baseURL c = []")
  case True
  then show ?thesis using assms(2,3)
    by (auto simp: rendered_def render_native_def Let_def header_defs split: option.splits)
next
  case False
  let ?b = "tls_target a host [] [(''Authorization'', ''apiKey'')] (no_auth\<lparr>ba_secretRef := Some name, ba_location := loc\<rparr>)"
  obtain t where t: "applyEndpoint env (nc_baseURL c) [] [] False ?b = Ok t" "target_safe False False t"
      "pt_secretKeys t = pt_secretKeys ?b" "pt_auth t = pt_auth ?b" "pt_transformation t = pt_transformation ?b"
      "pt_extract t = pt_extract ?b"
    using applyEndpoint_safe assms(1) False unfolding native_ok_def by meson
  then show ?thesis using False assms(3)
    by (auto simp: rendered_def render_native_def Let_def header_defs split: option.splits)
qed

lemma render_vertex_ok: "pv_vertexAI spec = Some c \<Longrightarrow> rendered (Vertex c) (render_vertex name spec m)"
  by (simp add: rendered_def render_vertex_def vertex_host_def header_defs)

lemma render_bedrock_ok: "rendered (Bedrock c) (render_bedrock name (Some c) m)"
  by (simp add: rendered_def render_bedrock_def Let_def header_defs)

lemma render_azure_ok: "rendered (Azure c) (render_azure name (Some c) m)"
  by (simp add: rendered_def render_azure_def Let_def header_defs)

lemma render_compatible_ok:
  assumes "compatible_ok (base_env env) c"
  shows "rendered (Compatible k c) (render_compatible env name spec (Some c) fs m)"
proof -
  let ?b = "empty_target\<lparr>pt_llm := (pt_llm empty_target)\<lparr>llm_arm := LLMCustom fs m\<rparr>\<rparr>"
  obtain t where t: "applyEndpoint env (cp_baseURL c) (cp_path c) (cp_pathPrefix c) (cp_skipTLSVerify c) ?b = Ok t"
      "target_safe (cp_allowPrivateEndpoint c) (cp_skipTLSVerify c) t" "pt_extract t = pt_extract ?b"
    using applyEndpoint_safe assms unfolding compatible_ok_def by meson
  have hs: "distinct (map hd_name (cp_headers c))" "list_all (header_ok (cp_authHeader c)) (cp_headers c)" "auth_ok c"
    using assms by (simp_all add: compatible_ok_def)
  let ?t = "t\<lparr>pt_secretKeys := (if cp_authMode c = ''APIKey'' then [(''Authorization'', ''apiKey'')] else []),
       pt_auth := (if cp_authMode c = ''APIKey'' then Some (no_auth\<lparr>ba_secretRef := Some name,
         ba_location := Some (headerLocation (cp_authHeader c) (cp_authPrefix c))\<rparr>) else None),
       pt_transformation := header_transformation env spec c\<rparr>"
  have "custom_headers ?t = map hd_name (cp_headers c)"
    by (auto simp: custom_headers_def header_transformation_def Let_def)
  moreover have "auth_headers ?t = (if cp_authMode c = ''APIKey'' then [cp_authHeader c] else [])"
    by (simp add: auth_headers_def headerLocation_def)
  ultimately have "headers_safe ?t"
    using hs by (auto simp: headers_safe_def auth_ok_def header_ok_def list_all_iff)
  moreover have "\<not> pt_extract ?b" by (simp add: empty_target_def)
  ultimately show ?thesis using t by (simp add: rendered_def render_compatible_def Let_def)
qed

lemma render_codex_ok:
  assumes "codex_parses env"
  shows "rendered Subscription (applyEndpoint env ''https://chatgpt.com'' [] [] False (empty_target\<lparr>pt_llm := l\<rparr>))"
proof -
  obtain u where u: "pe_parse env ''https://chatgpt.com'' = Some u" "wu_scheme u = ''https''" "wu_host u = ''chatgpt.com''"
    using assms by (auto simp: codex_parses_def)
  have "url_splitHostPort ''chatgpt.com'' = (''chatgpt.com'', [])" by code_simp
  then have "Hostname (web_url.truncate u) = ''chatgpt.com''" "Port (web_url.truncate u) = []"
    using u(3) by (simp_all add: Hostname_def Port_def web_url.defs)
  with u show ?thesis
    by (simp add: rendered_def applyEndpoint_def target_safe_def header_defs empty_target_def)
qed

lemma config_arm:
  assumes "provider_config spec = Some c"
  shows "case c of Subscription \<Rightarrow> pv_kind spec = ''OpenAICodex''
    | Native k n \<Rightarrow> pv_kind spec = k \<and> (k = ''OpenAI'' \<and> pv_openAI spec = Some n \<or> k = ''Anthropic'' \<and> pv_anthropic spec = Some n
        \<or> k = ''Gemini'' \<and> pv_gemini spec = Some n)
    | Vertex v \<Rightarrow> pv_kind spec = ''VertexAI'' \<and> pv_vertexAI spec = Some v
    | Bedrock b \<Rightarrow> pv_kind spec = ''Bedrock'' \<and> pv_bedrock spec = Some b
    | Azure a \<Rightarrow> pv_kind spec = ''Azure'' \<and> pv_azure spec = Some a
    | Compatible k d \<Rightarrow> pv_kind spec = k \<and> (k = ''OpenAICompatible'' \<and> pv_openAICompatible spec = Some d \<and> pv_anthropicCompatible spec = None
        \<or> k = ''AnthropicCompatible'' \<and> pv_anthropicCompatible spec = Some d)"
proof -
  have none: "pv_anthropicCompatible spec = None" if "length (config_list spec) = 1" "pv_openAICompatible spec = Some d" for d
    using that by (simp add: config_list_def arm_def split: option.splits)
  consider "config_list spec = []" "c = Subscription" | "config_list spec = [c]" and "config_kind c = pv_kind spec"
    using assms unfolding provider_config_Some by blast
  then show ?thesis
  proof cases
    case 1
    with assms show ?thesis by (simp add: provider_config_Some)
  next
    case 2
    from 2(1) [unfolded config_list_single] 2(2) none show ?thesis by (elim conjE disjE exE) auto
  qed
qed

lemma rendered_routes: "rendered c res \<Longrightarrow> rendered c (case res of Inl e \<Rightarrow> Err e | Inr t \<Rightarrow> Ok (t\<lparr>pt_routes := r\<rparr>))"
  by (auto simp: rendered_def header_defs split: sum.splits)

lemma RenderProviderTarget_rendered:
  assumes "provider_config (pr_spec p) = Some c" "config_ok (base_env env) c" "codex_parses env"
  shows "rendered c (RenderProviderTarget env p m)"
  unfolding RenderProviderTarget_def Let_def
  by (rule rendered_routes)
    (use config_arm [OF assms(1)] assms(2,3) in \<open>auto split: provider_config.splits simp: headerLocation_def
      intro!: render_codex_ok render_native_ok render_vertex_ok render_bedrock_ok render_azure_ok render_compatible_ok\<close>)

text \<open>C13. An admitted provider can always be rendered, and its target is safe. Rendering an admitted provider,
  for itself or as a pool member, never fails and never meets a missing configuration. The target
  has a host and a port between 1 and 65535; it is dialled without TLS only when the configuration
  permits private endpoints, and without certificate verification only when the configuration skips
  it. Every header that is set is a valid lower-case name, none is set twice, none is controlled by
  the gateway, and a custom header is neither the header of the credential nor a credential header.\<close>

theorem accepted_provider_renders:
  assumes "ValidateCreate_provider (base_env env) p = []" "codex_parses env"
  shows "\<exists>c t. provider_config (pr_spec p) = Some c \<and> RenderProviderTarget env p model = Ok t
    \<and> target_safe (config_allow c) (config_skip c) t \<and> headers_safe t"
proof -
  from assms(1) obtain c where "provider_config (pr_spec p) = Some c" "config_ok (base_env env) c"
    by (auto simp: ValidateCreate_provider_def ValidateProvider_Nil provider_ok_def split: option.splits)
  with RenderProviderTarget_rendered [OF this assms(2), of model] show ?thesis
    by (auto simp: rendered_def split: sum.splits)
qed

subsection \<open>Stored credentials\<close>

text \<open>A record that creation accepts has every property that the target reads.\<close>

definition record_has :: "credential_record option \<Rightarrow> string \<Rightarrow> bool" where
  "record_has rc prop \<longleftrightarrow> (case rc of None \<Rightarrow> False | Some r \<Rightarrow> (case r prop of None \<Rightarrow> False | Some v \<Rightarrow> given v))"

lemma api_key_record_has: "api_key_record v = Ok (Some r) \<Longrightarrow> record_has (Some r) ''apiKey''"
  by (auto simp: api_key_record_def record_has_def split: if_splits)

lemma CredentialsForUpdate_has:
  assumes "provider_config spec = Some c" "CredentialsForUpdate env spec v = Ok (Some r)" "(k, prop) \<in> set (config_keys c)"
  shows "record_has (Some r) prop"
  using config_arm [OF assms(1)] assms(2,3) api_key_record_has [of v r]
  by (cases c)
    (auto simp: CredentialsForUpdate_def Let_def vertex_credentials_def bedrock_credentials_def azure_credentials_def compatible_credentials_def
      input_error_def record_has_def given_def split: if_splits option.splits)

lemma CredentialsForCreate_complete:
  assumes "provider_config spec = Some c" "CredentialsForCreate env spec v = Ok rc" "(k, prop) \<in> set (config_keys c)"
  shows "record_has rc prop"
proof (cases rc)
  case None
  then have "isCompatible (pv_kind spec)" and
    "\<not> (case (if pv_anthropicCompatible spec \<noteq> None then pv_anthropicCompatible spec else pv_openAICompatible spec) of
        None \<Rightarrow> False | Some c \<Rightarrow> cp_authMode c = ''APIKey'')"
    using assms(2) by (auto simp: CredentialsForCreate_def Let_def input_error_def split: sum.splits if_splits option.splits)
  then have False
    using config_arm [OF assms(1)] assms(3) by (cases c) (auto simp: isCompatible_def split: if_splits)
  then show ?thesis ..
next
  case (Some r)
  then have "CredentialsForUpdate env spec v = Ok (Some r)"
    using assms(2) by (auto simp: CredentialsForCreate_def Let_def input_error_def split: sum.splits if_splits)
  from CredentialsForUpdate_has [OF assms(1) this assms(3)] Some show ?thesis by simp
qed

definition secret_source :: "Provider \<Rightarrow> credential_record option \<Rightarrow> ExternalSecret \<Rightarrow> string \<Rightarrow> bool" where
  "secret_source p rc x key \<longleftrightarrow>
     (let path = CredentialPath (pr_namespace p) (pr_name p) (pv_kind (pr_spec p)) (pv_credentialRevision (pr_spec p)) in
      case xs_dataFrom x of
        Some from \<Rightarrow> from = path \<and> record_has rc key
      | None \<Rightarrow> list_ex (\<lambda>d. ed_secretKey d = key \<and> ed_remoteKey d = path \<and> record_has rc (ed_property d)) (xs_data x))"

text \<open>C12. The credentials stored when a provider is created are those its runtime reads. If the provider is
  admitted and its credential input accepted, its runtime resources can be rendered; either the
  backend is given no credential at all, or the ExternalSecret provides every expected key of the
  Secret from the provider's own path, and the accepted record has a non-blank value for it.\<close>

theorem created_credentials_complete:
  assumes "ValidateCreate_provider (base_env env) p = []" "codex_parses env"
    and "CredentialsForCreate (base_env env) (pr_spec p) v = Ok rc"
  shows "\<exists>rt. RenderRuntime env p storeName refresh = Ok rt \<and>
    (case rn_externalSecret rt of
       None \<Rightarrow> bk_auth (rn_backend rt) = None \<and> rn_secretKeys rt = []
     | Some x \<Rightarrow> rn_secretKeys rt \<noteq> [] \<and> list_all (secret_source p rc x) (rn_secretKeys rt))"
proof -
  from assms(1) obtain c where c: "provider_config (pr_spec p) = Some c" "config_ok (base_env env) c"
    by (auto simp: ValidateCreate_provider_def ValidateProvider_Nil provider_ok_def split: option.splits)
  with RenderProviderTarget_rendered [OF this assms(2), of "[]"] obtain t where
    t: "RenderProviderTarget env p [] = Ok t" "pt_secretKeys t = config_keys c" "pt_secretKeys t = [] \<longleftrightarrow> pt_auth t = None"
      "pt_extract t \<longrightarrow> list_all (\<lambda>kv. fst kv = snd kv) (pt_secretKeys t)"
    by (auto simp: rendered_def split: sum.splits)
  have has: "record_has rc q" if "(k, q) \<in> set (pt_secretKeys t)" for k q
    using CredentialsForCreate_complete [OF c(1) assms(3)] that by (simp add: t(2))
  show ?thesis
  proof (cases "pt_secretKeys t = []")
    case True
    then show ?thesis using t by (simp add: RenderRuntime_def render_backend_def)
  next
    case False
    have "list_all (secret_source p rc (render_external_secret p t storeName refresh)) (map fst (pt_secretKeys t))"
      using has t(4) by (auto simp: list_all_iff secret_source_def render_external_secret_def Let_def list_ex_iff image_iff)
    with False t(1) show ?thesis by (simp add: RenderRuntime_def list_all_iff)
  qed
qed

subsection \<open>Credential paths\<close>

lemma before_slash: "CHR ''/'' \<notin> set a \<Longrightarrow> takeWhile (\<lambda>c. c \<noteq> CHR ''/'') (a @ CHR ''/'' # x) = a"
  "CHR ''/'' \<notin> set a \<Longrightarrow> takeWhile (\<lambda>c. c \<noteq> CHR ''/'') a = a"
  by (simp_all add: takeWhile_tail) (auto intro: takeWhile_eq_all_conv [THEN iffD2])

lemma slash_split:
  assumes "CHR ''/'' \<notin> set a" "CHR ''/'' \<notin> set b"
  shows "a @ CHR ''/'' # x = b @ CHR ''/'' # y \<longleftrightarrow> a = b \<and> x = y"
  using before_slash(1) [OF assms(1), of x] before_slash(1) [OF assms(2), of y] by auto

text \<open>Credential records of different providers never share a path. For names without a slash, as
  Kubernetes names are, two providers are given the same path in the credential store only if they
  have the same namespace, name and revision and are both subscriptions or both not, so that the
  policy of the external authorizer on subscription records reaches no API key.\<close>

lemma credential_paths_isolated:
  assumes "CHR ''/'' \<notin> set ns \<union> set name \<union> set ns' \<union> set name'"
  shows "CredentialPath ns name k r = CredentialPath ns' name' k' r' \<longleftrightarrow>
    ns = ns' \<and> name = name' \<and> r = r' \<and> (k = ''OpenAICodex'' \<longleftrightarrow> k' = ''OpenAICodex'')"
proof
  define tail where "tail = (\<lambda>r :: string. if r \<noteq> [] then CHR ''/'' # r else [])"
  define dir where "dir = (\<lambda>k. if k = ''OpenAICodex'' then ''inference-subscriptions'' else ''inference-providers'')"
  have p: "CredentialPath ns name k r = ns @ CHR ''/'' # dir k @ CHR ''/'' # name @ tail r" for ns name k r
    by (simp add: CredentialPath_def tail_def dir_def)
  have d: "CHR ''/'' \<notin> set (dir k)" "dir k = dir k' \<longleftrightarrow> (k = ''OpenAICodex'' \<longleftrightarrow> k' = ''OpenAICodex'')" for k k'
    by (simp_all add: dir_def)
  assume "CredentialPath ns name k r = CredentialPath ns' name' k' r'"
  then have e: "ns = ns'" "dir k = dir k'" "name @ tail r = name' @ tail r'"
    using assms d(1) by (auto simp: p slash_split)
  have "takeWhile (\<lambda>c. c \<noteq> CHR ''/'') (n @ tail r) = n" if "CHR ''/'' \<notin> set n" for n r
    using before_slash [OF that] by (simp add: tail_def)
  then have "name = name'" using e(3) assms by (metis UnCI)
  with e d(2) show "ns = ns' \<and> name = name' \<and> r = r' \<and> (k = ''OpenAICodex'' \<longleftrightarrow> k' = ''OpenAICodex'')"
    by (auto simp: tail_def split: if_splits)
qed (auto simp: CredentialPath_def)

subsection \<open>Examples\<close>

definition sample_urls_parsed :: "string \<Rightarrow> provider_url option" where
  "sample_urls_parsed s =
     (if s = ''https://chatgpt.com'' then Some \<lparr>wu_scheme = ''https'', wu_user = False, wu_host = ''chatgpt.com'', wu_rest = [],
        wu_rawQuery = [], wu_fragment = [], wu_escapedPath = []\<rparr>
      else if s = ''http://llm.local:8080/v1'' then Some \<lparr>wu_scheme = ''http'', wu_user = False, wu_host = ''llm.local:8080'', wu_rest = ''/v1'',
        wu_rawQuery = [], wu_fragment = [], wu_escapedPath = ''/v1''\<rparr>
      else None)"

definition sample_render_env :: render_env where
  "sample_render_env = \<lparr>pe_catalog = [(''anthropic'', ''Anthropic'')], pe_lower = (\<lambda>s. s), pe_parse = sample_urls_parsed, pe_quote = (\<lambda>s. s),
     pe_account = (\<lambda>_. None), re_chatTextContent = []\<rparr>"

text \<open>A custom endpoint on a private host that is reached without TLS.\<close>

definition sample_local :: Provider where
  "sample_local = (sample_claude ''w'' [])\<lparr>pr_spec := (pr_spec (sample_claude ''w'' []))\<lparr>pv_catalogProvider := ''custom'',
     pv_kind := ''OpenAICompatible'', pv_anthropic := None, pv_openAICompatible := Some \<lparr>cp_baseURL = ''http://llm.local:8080/v1'', cp_path = [],
       cp_pathPrefix = [], cp_authMode = ''APIKey'', cp_authHeader = ''authorization'', cp_authPrefix = ''Bearer '',
       cp_headers = [\<lparr>hd_name = ''x-team'', hd_value = ''a''\<rparr>], cp_allowPrivateEndpoint = True, cp_skipTLSVerify = False\<rparr>\<rparr>\<rparr>"

lemma sample_render_env_simps: "codex_parses sample_render_env" "(''anthropic'', ''Anthropic'') \<in> set (pe_catalog (base_env sample_render_env))"
  by (simp_all add: codex_parses_def sample_render_env_def sample_urls_parsed_def provider_env.defs)

lemma sample_endpoint: "endpoint_ok (base_env sample_render_env) ''http://llm.local:8080/v1'' True False"
proof -
  have "url_splitHostPort ''llm.local:8080'' = (''llm.local'', ''8080'')" "dec_val ''8080'' = 8080" by code_simp+
  then show ?thesis
    by (simp add: endpoint_ok_def sample_render_env_def sample_urls_parsed_def Hostname_def Port_def web_url.defs provider_env.defs)
qed

lemma sample_local_ok: "ValidateCreate_provider (base_env sample_render_env) sample_local = []"
proof -
  let ?spec = "pr_spec sample_local" and ?cfg = "the (pv_openAICompatible (pr_spec sample_local))"
  have t: "TrimSpace ''m'' = ''m''" "TrimSpace ''M'' = ''M''" "TrimSpace ''Claude'' = ''Claude''" "TrimSpace ''custom'' = ''custom''"
    by (simp_all add: TrimSpace_visible visible_def)
  have l: "limits_ok \<lparr>lim_context = 200000, lim_input = None, lim_output = 8192\<rparr>" by (simp add: limits_ok_def)
  have c: "provider_config ?spec = Some (Compatible ''OpenAICompatible'' ?cfg)"
    by (simp add: provider_config_def config_list_def sample_local_def sample_claude_def)
  have h: "headerNamePattern ''authorization''" "headerNamePattern ''x-team''" "\<not> list_ex control_char ''Bearer ''" "\<not> list_ex control_char ''a''"
    "''authorization'' \<notin> set gatewayControlledHeaders" "''x-team'' \<notin> set gatewayControlledHeaders" "''x-team'' \<notin> set credentialHeaders"
    by (simp_all add: headerNamePattern_def header_char_def in_range_def control_char_def gatewayControlledHeaders_def credentialHeaders_def)
  have "compatible_ok (base_env sample_render_env) ?cfg"
    using sample_endpoint h by (simp add: compatible_ok_def path_ok_def auth_ok_def header_ok_def sample_local_def)
  then have "provider_ok (base_env sample_render_env) ?spec"
    unfolding provider_ok_def c
    by (simp add: sample_local_def sample_claude_def sample_provider_def provider_model_ok_def isCompatible_def
        InferenceModel.defs ProviderModel.defs t l)
  then show ?thesis
    by (simp add: ValidateCreate_provider_def ValidateProvider_Nil reserved_name_def sample_local_def sample_claude_def InferencePoolProvider_def)
qed

theorem accepted_provider_renders_witness:
  "\<exists>t. RenderProviderTarget sample_render_env sample_local ''m'' = Ok t \<and> headers_safe t"
  using accepted_provider_renders [OF sample_local_ok sample_render_env_simps(1)] by blast

definition sample_key :: CredentialValues where
  "sample_key = \<lparr>cv_apiKey = ''k'', cv_bearerToken = [], cv_serviceAccountJSON = [], cv_accessKey = [], cv_secretKey = [], cv_sessionToken = [],
     cv_clientID = [], cv_tenantID = [], cv_clientSecret = []\<rparr>"

theorem created_credentials_complete_witness:
  "\<exists>rt x. RenderRuntime sample_render_env (sample_claude ''w'' []) ''store'' 60 = Ok rt \<and> rn_externalSecret rt = Some x
     \<and> list_all (secret_source (sample_claude ''w'' []) (Some [''apiKey'' \<mapsto> ''k'']) x) (rn_secretKeys rt)"
proof -
  have "TrimSpace ''k'' = ''k''" "TrimSpace [] = []" by (simp_all add: TrimSpace_visible visible_def)
  then have cr: "CredentialsForCreate (base_env sample_render_env) (pr_spec (sample_claude ''w'' [])) sample_key = Ok (Some [''apiKey'' \<mapsto> ''k''])"
    by (simp add: CredentialsForCreate_def CredentialsForUpdate_def api_key_record_def given_def hasAWS_def hasAzure_def sample_key_def
        sample_claude_def Let_def)
  obtain rt where rt: "RenderRuntime sample_render_env (sample_claude ''w'' []) ''store'' 60 = Ok rt"
      "case rn_externalSecret rt of None \<Rightarrow> bk_auth (rn_backend rt) = None \<and> rn_secretKeys rt = []
       | Some x \<Rightarrow> rn_secretKeys rt \<noteq> [] \<and> list_all (secret_source (sample_claude ''w'' []) (Some [''apiKey'' \<mapsto> ''k'']) x) (rn_secretKeys rt)"
    using created_credentials_complete [OF sample_claude_ok sample_render_env_simps(1) cr] sample_render_env_simps(2) by blast
  moreover have "rn_externalSecret rt \<noteq> None"
    using rt(1) by (auto simp: RenderRuntime_def RenderProviderTarget_def render_native_def sample_claude_def Let_def)
  ultimately show ?thesis by auto
qed

subsection \<open>Refreshing a subscription\<close>

text \<open>A usable token is returned as it is; otherwise only a Codex subscription is refreshed. The answer
  always carries an access token, and refreshing keeps the account, the client and known scopes.\<close>

lemma RefreshSubscription_result:
  assumes "RefreshSubscription env now later rc = Ok (rc', changed)"
  shows "changed \<longleftrightarrow> \<not> TokenUsable (sr_token rc) now" "\<not> changed \<Longrightarrow> rc' = rc"
    "changed \<Longrightarrow> sr_kind rc = ''OpenAICodex'' \<and> sr_updatedAt rc' = now"
    "\<exists>tok. sr_token rc' = Some tok \<and> TrimSpace (AccessToken tok) \<noteq> []"
    "sr_kind rc' = sr_kind rc \<and> sr_accountID rc' = sr_accountID rc \<and> sr_clientID rc' = sr_clientID rc"
    "sr_scopes rc \<noteq> [] \<Longrightarrow> sr_scopes rc' \<noteq> []"
proof -
  from assms consider
      (kept) "TokenUsable (sr_token rc) now" "\<not> changed" "rc' = rc"
    | (fresh) tok scopes cfg rec where "\<not> TokenUsable (sr_token rc) now" "changed" "sr_kind rc = ''OpenAICodex''"
        "Refresh env later cfg rec = Ok (tok, scopes)"
        "rc' = rc\<lparr>sr_token := Some tok, sr_scopes := (if scopes \<noteq> [] then scopes else sr_scopes rc), sr_updatedAt := now\<rparr>"
    by (auto simp: RefreshSubscription_def split: if_split_asm sum.split_asm)
  note result = this
  have usable: "\<exists>tok. t = Some tok \<and> TrimSpace (AccessToken tok) \<noteq> []" if "TokenUsable t now" for t
    using that by (auto simp: TokenUsable_def split: option.split_asm if_split_asm)
  show "changed \<longleftrightarrow> \<not> TokenUsable (sr_token rc) now" "\<not> changed \<Longrightarrow> rc' = rc"
    "changed \<Longrightarrow> sr_kind rc = ''OpenAICodex'' \<and> sr_updatedAt rc' = now"
    "sr_kind rc' = sr_kind rc \<and> sr_accountID rc' = sr_accountID rc \<and> sr_clientID rc' = sr_clientID rc"
    "sr_scopes rc \<noteq> [] \<Longrightarrow> sr_scopes rc' \<noteq> []"
    using result by (cases; simp)+
  show "\<exists>tok. sr_token rc' = Some tok \<and> TrimSpace (AccessToken tok) \<noteq> []"
    using result
  proof cases
    case fresh
    with Refresh_success [OF fresh(4)] show ?thesis by auto
  qed (simp add: usable)
qed

end
