(* ===== verification/SandboxRoutes.thy ===== *)
theory SandboxRoutes
  imports ProviderRuntime
begin

section \<open>Inference routes of Sandboxes\<close>

text \<open>
  The routes through which agents reach the models of their Sandbox: the targets that the Sandbox
  controller derives from the model list (\<open>internal/controller/sandbox/inference.go\<close>) and the
  HTTPRoute and authorization policy of each target (\<open>internal/inference/sandbox.go\<close>). The matching
  of paths is done by the gateway and is a parameter. The controller's remaining steps (guardrail
  bundles, grants, writing the objects, gateway deployment) are not modelled.
\<close>

record SandboxTarget =
  tg_name :: string
  tg_backend :: string
  tg_backendNamespace :: string
  tg_path :: string
  tg_models :: "string list"
  tg_labels :: "(string \<times> string) list"
  tg_extAuth :: bool
  tg_retries :: int

record HTTPRouteRule =
  rr_matches :: "string list"
  rr_backend :: string
  rr_backendNamespace :: "string option"
  rr_setHeaders :: "(string \<times> string) list"

record HTTPRoute =
  hr_namespace :: string
  hr_name :: string
  hr_labels :: label_map
  hr_rules :: "HTTPRouteRule list"

record RoutePolicy =
  rp_namespace :: string
  rp_name :: string
  rp_labels :: label_map
  rp_route :: string
  rp_expression :: string
  rp_retry :: "(int \<times> string \<times> string) option"

definition SandboxProviderRuntimeName :: "string \<Rightarrow> string \<Rightarrow> string" where
  "SandboxProviderRuntimeName sandboxName providerName =
     (let name = sandboxName @ ''-'' @ providerName in
      if length name \<le> 63 then name else take 52 name @ ''-'' @ take 10 (hex_encode (Sum256 name)))"

definition SandboxProviderPath :: "string \<Rightarrow> string \<Rightarrow> string" where
  "SandboxProviderPath sandboxName providerName = ''/sandboxes/'' @ sandboxName @ ''/providers/'' @ providerName"

definition SandboxPoolPath :: "string \<Rightarrow> string \<Rightarrow> string" where
  "SandboxPoolPath sandboxName poolName = ''/sandboxes/'' @ sandboxName @ ''/pools/'' @ poolName"

definition AgentRoutePath :: "string \<Rightarrow> string \<Rightarrow> string \<Rightarrow> string" where
  "AgentRoutePath namespace name path = ''/agents/'' @ namespace @ ''/'' @ name @ path"

text \<open>The loop over the agents: a rule is complete with 64 matches.\<close>

fun rules_loop :: "HTTPRouteRule \<Rightarrow> string \<Rightarrow> string list \<Rightarrow> 'q Agent list \<Rightarrow> HTTPRouteRule list" where
  "rules_loop rule path matches [] = (if length matches > 0 then [rule\<lparr>rr_matches := matches\<rparr>] else [])"
| "rules_loop rule path matches (agt # agents) =
     (let matches' = matches @ [AgentRoutePath (agt_namespace agt) (agt_name agt) path] in
      if length matches' = 64 then rule\<lparr>rr_matches := matches'\<rparr> # rules_loop rule path [] agents
      else rules_loop rule path matches' agents)"

definition retryableResponse :: string where
  "retryableResponse = Join [CHR 0x0A]
     [''response.code == 401 ||'', ''response.code == 403 ||'', ''response.code == 429 ||'', ''response.code >= 500'', []]"

definition model_expression :: "(string \<Rightarrow> string) \<Rightarrow> string list \<Rightarrow> string" where
  "model_expression quote models =
     ''default(json(request.body).model, '' @ [CHR 0x22, CHR 0x22] @ '') in ['' @ Join '', '' (map quote models) @ '']''"

definition RenderSandboxTarget ::
  "(string \<Rightarrow> string) \<Rightarrow> string \<Rightarrow> string \<Rightarrow> SandboxTarget \<Rightarrow> 'q Agent list \<Rightarrow> HTTPRoute \<times> RoutePolicy" where
  "RenderSandboxTarget quote namespace sandboxName target agents =
     (let name = SandboxProviderRuntimeName sandboxName (tg_name target);
          labels = [''agentz.accuknox.com/inference-sandbox'' \<mapsto> sandboxName] ++ map_of (rev (tg_labels target));
          rule = \<lparr>rr_matches = [], rr_backend = tg_backend target,
            rr_backendNamespace = (if tg_backendNamespace target \<noteq> [] \<and> tg_backendNamespace target \<noteq> namespace
              then Some (tg_backendNamespace target) else None),
            rr_setHeaders = (if tg_extAuth target then [(''x-agentz-inference-sandbox'', sandboxName),
              (''x-agentz-inference-sandbox-namespace'', namespace)] else [])\<rparr>
      in (\<lparr>hr_namespace = namespace, hr_name = name, hr_labels = labels, hr_rules = rules_loop rule (tg_path target) [] agents\<rparr>,
          \<lparr>rp_namespace = namespace, rp_name = name, rp_labels = labels, rp_route = name,
           rp_expression = model_expression quote (tg_models target),
           rp_retry = (if tg_retries target > 0 then Some (tg_retries target, ''50ms'', retryableResponse) else None)\<rparr>))"

subsection \<open>The targets of a Sandbox\<close>

text \<open>Pools and providers with the parts of their metadata and status that are read.\<close>

record observed_pool =
  op_pool :: InferencePool
  op_deleting :: bool
  op_state :: string

record observed_provider =
  ob_provider :: Provider
  ob_deleting :: bool
  ob_state :: string

record target_reader = scope_reader +
  readPool :: "string \<Rightarrow> string \<Rightarrow> (get_error, observed_pool) result"
  readProvider :: "string \<Rightarrow> string \<Rightarrow> (get_error, observed_provider) result"

datatype inference_target_error =
    ReferenceScope scope_error | GetPool get_error | PoolTerminating string | ProviderScope scope_error
  | GetProvider get_error | ProviderTerminating string | ModelNotEnabled string string

record target_scan =
  ts_ready :: bool
  ts_targets :: "SandboxTarget list"
  ts_providers :: "(string \<times> Provider) list"
  ts_models :: "(string \<times> string list) list"

definition pool_target :: "string \<Rightarrow> InferencePool \<Rightarrow> SandboxTarget" where
  "pool_target sandboxName pool = \<lparr>tg_name = ''pool-'' @ pool_name pool, tg_backend = pool_name pool, tg_backendNamespace = pool_namespace pool,
     tg_path = SandboxPoolPath sandboxName (pool_name pool), tg_models = [pool_name pool],
     tg_labels = [(''agentz.accuknox.com/inference-pool'', pool_name pool)], tg_extAuth = True,
     tg_retries = (if pool_automaticFailover pool then int (length (pool_members pool)) - 1 else 0)\<rparr>"

definition provider_target :: "string \<Rightarrow> Provider \<Rightarrow> string list \<Rightarrow> SandboxTarget" where
  "provider_target sandboxName p models = \<lparr>tg_name = pr_name p, tg_backend = pr_name p, tg_backendNamespace = pr_namespace p,
     tg_path = SandboxProviderPath sandboxName (pr_name p), tg_models = models,
     tg_labels = [(''agentz.accuknox.com/inference-provider'', pr_name p)], tg_extAuth = (pv_kind (pr_spec p) = ''OpenAICodex''), tg_retries = 0\<rparr>"

fun append_to :: "string \<Rightarrow> string \<Rightarrow> (string \<times> string list) list \<Rightarrow> (string \<times> string list) list" where
  "append_to k m [] = [(k, [m])]"
| "append_to k m ((j, ms) # rest) = (if j = k then (j, ms @ [m]) # rest else (j, ms) # append_to k m rest)"

definition scan_pool :: "target_reader \<Rightarrow> string \<Rightarrow> string \<Rightarrow> string \<Rightarrow> target_scan \<Rightarrow> (inference_target_error, target_scan) result" where
  "scan_pool r sandboxName ns name sc =
     (case readPool r ns name of
        Inl e \<Rightarrow> Err (GetPool e)
      | Inr p \<Rightarrow>
          if op_deleting p then Err (PoolTerminating name)
          else Ok (sc\<lparr>ts_ready := (ts_ready sc \<and> op_state p \<in> {''Ready'', ''PartiallyDegraded''}),
                      ts_targets := ts_targets sc @ [pool_target sandboxName (op_pool p)]\<rparr>))"

text \<open>The provider under the key of a reference, read once, and the scan with it.\<close>

definition scan_provider :: "target_reader \<Rightarrow> string \<Rightarrow> string \<Rightarrow> target_scan \<Rightarrow> (inference_target_error, Provider \<times> target_scan) result" where
  "scan_provider r ns name sc =
     (let key = ns @ ''/'' @ name in
      case map_of (ts_providers sc) key of
        Some p \<Rightarrow> Ok (p, sc)
      | None \<Rightarrow>
          (case readProvider r ns name of
             Inl e \<Rightarrow> Err (GetProvider e)
           | Inr p \<Rightarrow>
               if ob_deleting p then Err (ProviderTerminating name)
               else Ok (ob_provider p, sc\<lparr>ts_providers := ts_providers sc @ [(key, ob_provider p)],
                          ts_ready := (ts_ready sc \<and> ob_state p = ''Ready'')\<rparr>)))"

definition scan_ref :: "target_reader \<Rightarrow> Sandbox \<Rightarrow> target_scan \<Rightarrow> InferenceModelRef \<Rightarrow> (inference_target_error, target_scan) result" where
  "scan_ref r sandbox sc ref =
     (case Namespace r (sb_namespace sandbox) (mr_scope ref) of
        Inl e \<Rightarrow> Err (ReferenceScope e)
      | Inr ns \<Rightarrow>
          if mr_provider ref = InferencePoolProvider then scan_pool r (sb_name sandbox) ns (mr_model ref) sc
          else
            (case SelectedNamespace r (sb_namespace sandbox)
                    \<lparr>sel_scope = mr_scope ref, sel_kind = KindInferenceProvider, sel_name = mr_provider ref\<rparr> of
               Inl e \<Rightarrow> Err (ProviderScope e)
             | Inr ns' \<Rightarrow>
                 (case scan_provider r ns' (mr_provider ref) sc of
                    Inl e \<Rightarrow> Err e
                  | Inr (p, sc') \<Rightarrow>
                      if mr_model ref \<notin> im_id ` set (pv_models (pr_spec p)) then Err (ModelNotEnabled (mr_provider ref) (mr_model ref))
                      else Ok (sc'\<lparr>ts_models := append_to (ns' @ ''/'' @ mr_provider ref) (mr_model ref) (ts_models sc')\<rparr>))))"

fun scan_refs :: "target_reader \<Rightarrow> Sandbox \<Rightarrow> target_scan \<Rightarrow> InferenceModelRef list \<Rightarrow> (inference_target_error, target_scan) result" where
  "scan_refs r sandbox sc [] = Ok sc"
| "scan_refs r sandbox sc (ref # refs) =
     (case scan_ref r sandbox sc ref of
        Inl e \<Rightarrow> Err e
      | Inr sc' \<Rightarrow> scan_refs r sandbox sc' refs)"

definition models_of :: "(string \<times> string list) list \<Rightarrow> string \<Rightarrow> string list" where
  "models_of ms k = (case map_of ms k of None \<Rightarrow> [] | Some xs \<Rightarrow> xs)"

text \<open>The targets, sorted by name, and whether every pool and provider is ready. The code ranges over the
  map of providers; here they come in the order of first use.\<close>

definition inference_targets :: "target_reader \<Rightarrow> Sandbox \<Rightarrow> (inference_target_error, SandboxTarget list \<times> bool) result" where
  "inference_targets r sandbox =
     (let refs = si_models (sx_inference (sb_spec sandbox)) in
      case scan_refs r sandbox \<lparr>ts_ready = (refs \<noteq> []), ts_targets = [], ts_providers = [], ts_models = []\<rparr> refs of
        Inl e \<Rightarrow> Err e
      | Inr sc \<Rightarrow>
          Ok (sort_key tg_name (ts_targets sc
                @ map (\<lambda>kp. provider_target (sb_name sandbox) (snd kp) (models_of (ts_models sc) (fst kp))) (ts_providers sc)),
              ts_ready sc))"

subsection \<open>Requests of agents\<close>

lemma SandboxProviderRuntimeName_bounded: "length (SandboxProviderRuntimeName s p) \<le> 63"
  by (auto simp: SandboxProviderRuntimeName_def Let_def min_def)

text \<open>The documented meaning of a path prefix in the Gateway API: it matches element by element.\<close>

definition prefix_semantics :: "(string \<Rightarrow> string \<Rightarrow> bool) \<Rightarrow> bool" where
  "prefix_semantics m \<longleftrightarrow> (\<forall>p q. p \<noteq> [] \<and> last p \<noteq> CHR ''/'' \<longrightarrow> (m p q \<longleftrightarrow> q = p \<or> (\<exists>r. q = p @ CHR ''/'' # r)))"

lemma rules_loop_matches:
  "concat (map rr_matches (rules_loop rule path matches agents)) = matches @ map (\<lambda>a. AgentRoutePath (agt_namespace a) (agt_name a) path) agents"
  by (induction agents arbitrary: matches) (auto simp: Let_def)

lemma rules_loop_rules: "length matches < 64 \<Longrightarrow>
    list_all (\<lambda>x. 1 \<le> length (rr_matches x) \<and> length (rr_matches x) \<le> 64 \<and> rr_backend x = rr_backend rule \<and> rr_setHeaders x = rr_setHeaders rule)
      (rules_loop rule path matches agents)"
proof (induction agents arbitrary: matches)
  case Nil
  then show ?case by (cases matches) auto
next
  case (Cons a agents)
  from Cons.prems Cons.IH [of "[]"] Cons.IH [of "matches @ [AgentRoutePath (agt_namespace a) (agt_name a) path]"]
  show ?case by (cases "length matches = 63") (simp_all add: Let_def)
qed

lemma agent_path_prefix:
  assumes "CHR ''/'' \<notin> set ns \<union> set n \<union> set ns' \<union> set n'" "hd path = CHR ''/''" "path \<noteq> []" "x = [] \<or> hd x = CHR ''/''"
  shows "AgentRoutePath ns n x = AgentRoutePath ns' n' path @ rest \<longleftrightarrow> ns = ns' \<and> n = n' \<and> x = path @ rest"
proof -
  obtain p where p: "path = CHR ''/'' # p" using assms(2,3) by (cases path) auto
  have "n @ x = n' @ CHR ''/'' # p @ rest \<longleftrightarrow> n = n' \<and> x = CHR ''/'' # p @ rest"
  proof (cases x)
    case Nil
    then show ?thesis using assms(1) by (metis UnCI append_Nil2 in_set_conv_decomp list.distinct(1))
  next
    case (Cons c cs)
    then show ?thesis using assms(1,4) by (auto simp: slash_split)
  qed
  then show ?thesis using assms(1) by (simp add: AgentRoutePath_def p slash_split)
qed

text \<open>C18. A target's route serves exactly the listed agents, each under its own prefix. Whatever agent a
  request path belongs to, some rule of the route matches it precisely when that agent is one of the
  Sandbox's agents and the rest of the path lies under the target's path; every rule has between 1
  and 64 matches, the limit of the Gateway API, and all of them lead to the same backend with the
  same identity headers.\<close>

theorem route_serves_agents:
  assumes "prefix_semantics m"
    and "\<forall>a\<in>set agents. CHR ''/'' \<notin> set (agt_namespace a) \<union> set (agt_name a)" "CHR ''/'' \<notin> set ns \<union> set n"
    and "tg_path target \<noteq> []" "hd (tg_path target) = CHR ''/''" "last (tg_path target) \<noteq> CHR ''/''"
    and "x = [] \<or> hd x = CHR ''/''"
  shows "let rules = hr_rules (fst (RenderSandboxTarget quote namespace sandboxName target agents)) in
      ((\<exists>rule\<in>set rules. \<exists>p\<in>set (rr_matches rule). m p (AgentRoutePath ns n x))
        \<longleftrightarrow> (\<exists>a\<in>set agents. agt_namespace a = ns \<and> agt_name a = n) \<and> (x = tg_path target \<or> (\<exists>r. x = tg_path target @ CHR ''/'' # r)))
      \<and> (\<forall>rule\<in>set rules. 1 \<le> length (rr_matches rule) \<and> length (rr_matches rule) \<le> 64 \<and> rr_backend rule = tg_backend target
           \<and> rr_setHeaders rule = (if tg_extAuth target then [(''x-agentz-inference-sandbox'', sandboxName),
                (''x-agentz-inference-sandbox-namespace'', namespace)] else []))"
proof -
  let ?rules = "hr_rules (fst (RenderSandboxTarget quote namespace sandboxName target agents))"
  obtain rule where rules: "?rules = rules_loop rule (tg_path target) [] agents" and rule: "rr_backend rule = tg_backend target"
      "rr_setHeaders rule = (if tg_extAuth target then [(''x-agentz-inference-sandbox'', sandboxName),
         (''x-agentz-inference-sandbox-namespace'', namespace)] else [])"
    by (simp add: RenderSandboxTarget_def Let_def)
  have one: "m (AgentRoutePath (agt_namespace a) (agt_name a) (tg_path target)) (AgentRoutePath ns n x)
      \<longleftrightarrow> agt_namespace a = ns \<and> agt_name a = n \<and> (x = tg_path target \<or> (\<exists>r. x = tg_path target @ CHR ''/'' # r))"
    if "a \<in> set agents" for a
  proof -
    let ?p = "AgentRoutePath (agt_namespace a) (agt_name a) (tg_path target)"
    have "?p \<noteq> []" "last ?p \<noteq> CHR ''/''" using assms(4,6) by (simp_all add: AgentRoutePath_def)
    moreover have "CHR ''/'' \<notin> set ns \<union> set n \<union> set (agt_namespace a) \<union> set (agt_name a)" using assms(2,3) that by auto
    note agent_path_prefix [OF this assms(5,4,7), of "[]", simplified] agent_path_prefix [OF this assms(5,4,7)]
    ultimately show ?thesis using assms(1) unfolding prefix_semantics_def by auto
  qed
  have "(\<exists>rule\<in>set ?rules. \<exists>p\<in>set (rr_matches rule). m p (AgentRoutePath ns n x))
      \<longleftrightarrow> (\<exists>p\<in>set (concat (map rr_matches ?rules)). m p (AgentRoutePath ns n x))" by auto
  also have "\<dots> \<longleftrightarrow> (\<exists>a\<in>set agents. agt_namespace a = ns \<and> agt_name a = n) \<and> (x = tg_path target \<or> (\<exists>r. x = tg_path target @ CHR ''/'' # r))"
    unfolding rules rules_loop_matches using one by auto
  finally show ?thesis
    using rules_loop_rules [of "[]" rule "tg_path target" agents] rule unfolding rules Let_def by (simp add: list_all_iff)
qed

subsection \<open>Targets and the model list\<close>

text \<open>What the reader is relied upon for: an object that is read has the namespace and name it was read
  under, and namespaces contain no slash.\<close>

definition objects_named :: "target_reader \<Rightarrow> bool" where
  "objects_named r \<longleftrightarrow>
     (\<forall>ns n p. readPool r ns n = Ok p \<longrightarrow> pool_namespace (op_pool p) = ns \<and> pool_name (op_pool p) = n)
     \<and> (\<forall>ns n p. readProvider r ns n = Ok p \<longrightarrow> pr_namespace (ob_provider p) = ns \<and> pr_name (ob_provider p) = n)
     \<and> (\<forall>current sel ns. SelectedNamespace r current sel = Ok ns \<longrightarrow> CHR ''/'' \<notin> set ns)"

definition listed_pools :: "target_reader \<Rightarrow> Sandbox \<Rightarrow> InferenceModelRef list \<Rightarrow> (string \<times> string) set" where
  "listed_pools r sb refs = {(ns, mr_model ref) |ns ref. ref \<in> set refs \<and> mr_provider ref = InferencePoolProvider
     \<and> Namespace r (sb_namespace sb) (mr_scope ref) = Ok ns}"

definition listed_models :: "target_reader \<Rightarrow> Sandbox \<Rightarrow> InferenceModelRef list \<Rightarrow> (string \<times> string \<times> string) set" where
  "listed_models r sb refs = {(ns, mr_provider ref, mr_model ref) |ns ref. ref \<in> set refs \<and> mr_provider ref \<noteq> InferencePoolProvider
     \<and> SelectedNamespace r (sb_namespace sb) \<lparr>sel_scope = mr_scope ref, sel_kind = KindInferenceProvider, sel_name = mr_provider ref\<rparr> = Ok ns}"

text \<open>Path, backend and model of each request that a list of targets lets through, and of each listed reference.\<close>

definition served :: "SandboxTarget list \<Rightarrow> (string \<times> string \<times> string \<times> string) set" where
  "served ts = {(tg_path t, tg_backendNamespace t, tg_backend t, m) |t m. t \<in> set ts \<and> m \<in> set (tg_models t)}"

definition listed :: "target_reader \<Rightarrow> Sandbox \<Rightarrow> (string \<times> string \<times> string \<times> string) set" where
  "listed r sb =
     (let refs = si_models (sx_inference (sb_spec sb)) in
      (\<lambda>(ns, n). (SandboxPoolPath (sb_name sb) n, ns, n, n)) ` listed_pools r sb refs
      \<union> (\<lambda>(ns, n, m). (SandboxProviderPath (sb_name sb) n, ns, n, m)) ` listed_models r sb refs)"

abbreviation provider_key :: "string \<Rightarrow> string \<Rightarrow> string" where
  "provider_key ns n \<equiv> ns @ CHR ''/'' # n"

definition scan_inv :: "Sandbox \<Rightarrow> target_scan \<Rightarrow> (string \<times> string) set \<Rightarrow> (string \<times> string \<times> string) set \<Rightarrow> bool" where
  "scan_inv sb sc P Q \<longleftrightarrow>
     served (ts_targets sc) = (\<lambda>(ns, n). (SandboxPoolPath (sb_name sb) n, ns, n, n)) ` P
     \<and> (\<forall>(k, p)\<in>set (ts_providers sc). k = provider_key (pr_namespace p) (pr_name p) \<and> CHR ''/'' \<notin> set (pr_namespace p))
     \<and> fst ` set (ts_providers sc) = (\<lambda>(ns, n, m). provider_key ns n) ` Q
     \<and> (\<forall>k m. m \<in> set (models_of (ts_models sc) k) \<longleftrightarrow> (\<exists>ns n. (ns, n, m) \<in> Q \<and> k = provider_key ns n))
     \<and> (\<forall>(ns, n, m)\<in>Q. CHR ''/'' \<notin> set ns)"

lemma models_of_append: "models_of (append_to k m ms) j = models_of ms j @ (if j = k then [m] else [])"
  by (induction ms) (auto simp: models_of_def)

lemma served_iff: "x \<in> served ts \<longleftrightarrow> (\<exists>t\<in>set ts. \<exists>m\<in>set (tg_models t). x = (tg_path t, tg_backendNamespace t, tg_backend t, m))"
  by (auto simp: served_def)

lemma served_append: "served (ts @ us) = served ts \<union> served us"
  by (auto simp: served_def)

lemma scan_pool_inv:
  assumes "objects_named r" "scan_inv sb sc P Q" "scan_pool r (sb_name sb) ns n sc = Ok sc'"
  shows "scan_inv sb sc' (insert (ns, n) P) Q"
proof -
  from assms(3) obtain p where p: "readPool r ns n = Ok p"
      "ts_targets sc' = ts_targets sc @ [pool_target (sb_name sb) (op_pool p)]" "ts_providers sc' = ts_providers sc" "ts_models sc' = ts_models sc"
    by (auto simp: scan_pool_def split: sum.splits if_splits)
  moreover from p(1) assms(1) have "pool_namespace (op_pool p) = ns" "pool_name (op_pool p) = n" by (auto simp: objects_named_def)
  then have "served [pool_target (sb_name sb) (op_pool p)] = {(SandboxPoolPath (sb_name sb) n, ns, n, n)}"
    by (simp add: served_def pool_target_def)
  ultimately show ?thesis using assms(2) by (auto simp: scan_inv_def served_append)
qed

lemma scan_provider_inv:
  assumes "objects_named r" "scan_inv sb sc P Q" "scan_provider r ns n sc = Ok (p, sc')" "CHR ''/'' \<notin> set ns"
  shows "scan_inv sb (sc'\<lparr>ts_models := append_to (provider_key ns n) m (ts_models sc')\<rparr>) P (insert (ns, n, m) Q)"
proof -
  have m: "ts_models sc' = ts_models sc" "ts_targets sc' = ts_targets sc"
    using assms(3) by (auto simp: scan_provider_def Let_def split: option.splits sum.splits if_splits)
  have keys: "fst ` set (ts_providers sc') = insert (provider_key ns n) (fst ` set (ts_providers sc))"
    using assms(3) map_of_eq_None_iff [of "ts_providers sc" "provider_key ns n"]
    by (auto simp: scan_provider_def Let_def split: option.splits sum.splits if_splits)
  have "\<forall>(k, p)\<in>set (ts_providers sc'). k = provider_key (pr_namespace p) (pr_name p) \<and> CHR ''/'' \<notin> set (pr_namespace p)"
    using assms by (auto simp: scan_provider_def scan_inv_def objects_named_def Let_def split: option.splits sum.splits if_splits)
  with assms(2,4) m keys show ?thesis by (auto simp: scan_inv_def models_of_append)
qed

lemma scan_ref_inv:
  assumes "objects_named r" "scan_inv sb sc P Q" "scan_ref r sb sc ref = Ok sc'"
  shows "scan_inv sb sc' (P \<union> listed_pools r sb [ref]) (Q \<union> listed_models r sb [ref])"
proof (cases "mr_provider ref = InferencePoolProvider")
  case True
  then obtain ns where "Namespace r (sb_namespace sb) (mr_scope ref) = Ok ns" "scan_pool r (sb_name sb) ns (mr_model ref) sc = Ok sc'"
    using assms(3) by (auto simp: scan_ref_def split: sum.splits)
  moreover from this True have "listed_pools r sb [ref] = {(ns, mr_model ref)}" "listed_models r sb [ref] = {}"
    by (auto simp: listed_pools_def listed_models_def)
  ultimately show ?thesis using scan_pool_inv [OF assms(1,2)] by simp
next
  case False
  then obtain ns p sc1 where ns: "SelectedNamespace r (sb_namespace sb)
        \<lparr>sel_scope = mr_scope ref, sel_kind = KindInferenceProvider, sel_name = mr_provider ref\<rparr> = Ok ns"
      and sc: "scan_provider r ns (mr_provider ref) sc = Ok (p, sc1)"
        "sc' = sc1\<lparr>ts_models := append_to (provider_key ns (mr_provider ref)) (mr_model ref) (ts_models sc1)\<rparr>"
    using assms(3) by (auto simp: scan_ref_def split: sum.splits if_splits)
  from False ns have "listed_pools r sb [ref] = {}" "listed_models r sb [ref] = {(ns, mr_provider ref, mr_model ref)}"
    by (auto simp: listed_pools_def listed_models_def)
  moreover have "CHR ''/'' \<notin> set ns" using assms(1) ns by (auto simp: objects_named_def)
  ultimately show ?thesis using scan_provider_inv [OF assms(1,2) sc(1)] sc(2) by simp
qed

lemma listed_Cons: "listed_pools r sb (ref # refs) = listed_pools r sb [ref] \<union> listed_pools r sb refs"
  "listed_models r sb (ref # refs) = listed_models r sb [ref] \<union> listed_models r sb refs"
  by (auto simp: listed_pools_def listed_models_def)

lemma scan_refs_inv:
  "objects_named r \<Longrightarrow> scan_inv sb sc P Q \<Longrightarrow> scan_refs r sb sc refs = Ok sc' \<Longrightarrow>
    scan_inv sb sc' (P \<union> listed_pools r sb refs) (Q \<union> listed_models r sb refs)"
proof (induction refs arbitrary: sc P Q)
  case Nil
  then show ?case by (simp add: listed_pools_def listed_models_def)
next
  case (Cons ref refs)
  from Cons.prems(3) obtain sc1 where "scan_ref r sb sc ref = Ok sc1" "scan_refs r sb sc1 refs = Ok sc'"
    by (auto split: sum.splits)
  from Cons.IH [OF Cons.prems(1) scan_ref_inv [OF Cons.prems(1,2) this(1)] this(2)] show ?case
    by (simp add: listed_Cons(1) [of r sb ref refs] listed_Cons(2) [of r sb ref refs] Un_assoc)
qed

lemma served_provider_targets:
  "x \<in> served (map (\<lambda>kp. provider_target s (snd kp) (models_of ms (fst kp))) ps) \<longleftrightarrow>
    (\<exists>k p m. (k, p) \<in> set ps \<and> m \<in> set (models_of ms k) \<and> x = (SandboxProviderPath s (pr_name p), pr_namespace p, pr_name p, m))"
proof -
  have "x \<in> served (map (\<lambda>kp. provider_target s (snd kp) (models_of ms (fst kp))) ps) \<longleftrightarrow>
      (\<exists>kp\<in>set ps. \<exists>m\<in>set (models_of ms (fst kp)). x = (SandboxProviderPath s (pr_name (snd kp)), pr_namespace (snd kp), pr_name (snd kp), m))"
    unfolding served_iff by (simp add: provider_target_def)
  then show ?thesis by (auto simp: Bex_def)
qed

text \<open>The providers of a finished scan, each with the models collected under its key.\<close>

lemma served_providers:
  assumes "scan_inv sb sc P Q"
  shows "served (map (\<lambda>kp. provider_target (sb_name sb) (snd kp) (models_of (ts_models sc) (fst kp))) (ts_providers sc))
    = (\<lambda>(ns, n, m). (SandboxProviderPath (sb_name sb) n, ns, n, m)) ` Q" (is "?L = ?R")
proof
  show "?L \<subseteq> ?R"
  proof
    fix x assume "x \<in> ?L"
    then obtain k p m where kp: "(k, p) \<in> set (ts_providers sc)" "m \<in> set (models_of (ts_models sc) k)"
        and x: "x = (SandboxProviderPath (sb_name sb) (pr_name p), pr_namespace p, pr_name p, m)"
      unfolding served_provider_targets by blast
    with assms obtain ns n where q: "(ns, n, m) \<in> Q" "k = provider_key ns n" "CHR ''/'' \<notin> set ns" by (fastforce simp: scan_inv_def)
    moreover have "k = provider_key (pr_namespace p) (pr_name p)" "CHR ''/'' \<notin> set (pr_namespace p)"
      using assms kp(1) by (auto simp: scan_inv_def)
    ultimately have "ns = pr_namespace p" "n = pr_name p" by (auto simp: slash_split)
    with q(1) show "x \<in> ?R" unfolding x by (auto intro: rev_image_eqI)
  qed
  show "?R \<subseteq> ?L"
  proof
    fix x assume "x \<in> ?R"
    then obtain ns n m where q: "(ns, n, m) \<in> Q" and x: "x = (SandboxProviderPath (sb_name sb) n, ns, n, m)" by auto
    from q assms have "provider_key ns n \<in> fst ` set (ts_providers sc)" "CHR ''/'' \<notin> set ns" unfolding scan_inv_def by (auto intro: rev_image_eqI)
    then obtain p where p: "(provider_key ns n, p) \<in> set (ts_providers sc)" by auto
    with assms \<open>CHR ''/'' \<notin> set ns\<close> have "pr_namespace p = ns" "pr_name p = n" by (fastforce simp: scan_inv_def slash_split)+
    moreover have "m \<in> set (models_of (ts_models sc) (provider_key ns n))" using assms q by (auto simp: scan_inv_def)
    ultimately show "x \<in> ?L" unfolding served_provider_targets x using p by blast
  qed
qed

text \<open>C17. The targets of a Sandbox are fail-closed and complete: together they let through exactly the listed
  models. A target serves a model on a path from a backend precisely when the Sandbox lists that
  model and the reference resolves, in its scope and through the Workspace's selection, to that
  backend.\<close>

theorem sandbox_targets_exact:
  assumes "inference_targets r sandbox = Ok (targets, ready)" "objects_named r"
  shows "served targets = listed r sandbox"
proof -
  let ?start = "\<lparr>ts_ready = (si_models (sx_inference (sb_spec sandbox)) \<noteq> []), ts_targets = [], ts_providers = [], ts_models = []\<rparr>"
  obtain sc where sc: "scan_refs r sandbox ?start (si_models (sx_inference (sb_spec sandbox))) = Ok sc"
      "targets = sort_key tg_name (ts_targets sc
         @ map (\<lambda>kp. provider_target (sb_name sandbox) (snd kp) (models_of (ts_models sc) (fst kp))) (ts_providers sc))"
    using assms(1) by (auto simp: inference_targets_def Let_def split: sum.splits)
  have "scan_inv sandbox ?start {} {}" by (simp add: scan_inv_def served_def models_of_def)
  from scan_refs_inv [OF assms(2) this sc(1)] have inv: "scan_inv sandbox sc (listed_pools r sandbox (si_models (sx_inference (sb_spec sandbox))))
      (listed_models r sandbox (si_models (sx_inference (sb_spec sandbox))))" by simp
  have "served targets = served (ts_targets sc
      @ map (\<lambda>kp. provider_target (sb_name sandbox) (snd kp) (models_of (ts_models sc) (fst kp))) (ts_providers sc))"
    by (simp add: served_def sc(2))
  with inv show ?thesis by (simp add: served_append served_providers [OF inv] listed_def Let_def scan_inv_def)
qed

subsection \<open>Examples\<close>

definition sample_targets :: target_reader where
  "sample_targets = \<lparr>getNamespace = (\<lambda>n. if n = ''w'' then Ok [WorkspaceNameLabel \<mapsto> ''w''] else Err GNotFound), getWorkspace = (\<lambda>_. Err GNotFound),
     readPool = (\<lambda>_ _. Err GNotFound),
     readProvider = (\<lambda>ns n. if n = ''p'' then Ok \<lparr>ob_provider = sample_claude ns [], ob_deleting = False, ob_state = ''Ready''\<rparr> else Err GNotFound)\<rparr>"

lemma sample_targets_named: "objects_named sample_targets"
  by (auto simp: objects_named_def sample_targets_def sample_claude_def SelectedNamespace_def Namespace_def Let_def
      split: if_splits sum.splits)

lemma sample_targets_here: "Namespace sample_targets ''w'' ResourceScopeWorkspace = Ok ''w''"
    "SelectedNamespace sample_targets ''w'' \<lparr>sel_scope = ResourceScopeWorkspace, sel_kind = k, sel_name = n\<rparr> = Ok ''w''"
  by (simp_all add: SelectedNamespace_def Namespace_def sample_targets_def label_def Let_def)

theorem sandbox_targets_exact_witness:
  "\<exists>targets ready. inference_targets sample_targets sample_sandbox = Ok (targets, ready)
     \<and> (''/sandboxes/s/providers/p'', ''w'', ''p'', ''m'') \<in> served targets"
proof -
  obtain targets ready where t: "inference_targets sample_targets sample_sandbox = Ok (targets, ready)"
    using sample_targets_here
    by (simp add: inference_targets_def scan_ref_def scan_provider_def sample_sandbox_def sample_model_def InferencePoolProvider_def Let_def)
      (simp add: sample_targets_def sample_claude_def sample_provider_def InferenceModel.defs)
  have "(''/sandboxes/s/providers/p'', ''w'', ''p'', ''m'') \<in> listed sample_targets sample_sandbox"
    using sample_targets_here(2)
    by (simp add: listed_def listed_models_def sample_sandbox_def sample_model_def SandboxProviderPath_def InferencePoolProvider_def Let_def)
  with sandbox_targets_exact [OF t sample_targets_named] t show ?thesis by simp
qed

theorem route_serves_agents_witness:
  "\<exists>rule\<in>set (hr_rules (fst (RenderSandboxTarget (\<lambda>s. s) ''w'' ''s'' (provider_target ''s'' (sample_claude ''w'' []) [''m'']) [sample_agent]))).
     ''/agents/w/a/sandboxes/s/providers/p'' \<in> set (rr_matches rule) \<and> rr_backend rule = ''p''"
proof -
  let ?m = "\<lambda>p q. q = p \<or> (\<exists>r. q = p @ CHR ''/'' # r)" and ?t = "provider_target ''s'' (sample_claude ''w'' []) [''m'']"
  have "prefix_semantics ?m" by (simp add: prefix_semantics_def)
  moreover have "\<forall>a\<in>set [sample_agent]. CHR ''/'' \<notin> set (agt_namespace a) \<union> set (agt_name a)" by (simp add: sample_agent_def)
  moreover have p: "tg_path ?t = ''/sandboxes/s/providers/p''"
    by (simp add: provider_target_def SandboxProviderPath_def sample_claude_def)
  ultimately have "(\<exists>rule\<in>set (hr_rules (fst (RenderSandboxTarget (\<lambda>s. s) ''w'' ''s'' ?t [sample_agent]))).
       \<exists>p\<in>set (rr_matches rule). ?m p (AgentRoutePath ''w'' ''a'' (tg_path ?t)))
     \<and> (\<forall>rule\<in>set (hr_rules (fst (RenderSandboxTarget (\<lambda>s. s) ''w'' ''s'' ?t [sample_agent]))). rr_backend rule = tg_backend ?t)"
    using route_serves_agents [of ?m "[sample_agent]" "''w''" "''a''" ?t "tg_path ?t" "\<lambda>s. s" "''w''" "''s''"]
    by (simp add: Let_def sample_agent_def)
  then show ?thesis
    by (auto simp: RenderSandboxTarget_def Let_def sample_agent_def AgentRoutePath_def p provider_target_def sample_claude_def
        SandboxProviderPath_def)
qed

text \<open>Two listed providers of one name, one of the Workspace and one of its Organisation, become two targets
  with different backends whose route and policy have the same name, so that the one written last
  replaces the other.\<close>

definition homonymous_targets :: target_reader where
  "homonymous_targets = sample_targets\<lparr>getNamespace := sample_namespaces, getWorkspace := (\<lambda>_. Ok selecting_workspace)\<rparr>"

definition homonymous_sandbox :: Sandbox where
  "homonymous_sandbox = sample_sandbox\<lparr>sb_spec := (sb_spec sample_sandbox)\<lparr>sx_inference := (sx_inference (sb_spec sample_sandbox))\<lparr>si_models :=
     [sample_model, sample_model\<lparr>mr_scope := ResourceScopeOrganisation\<rparr>]\<rparr>\<rparr>\<rparr>"

lemma homonymous_providers_collide:
  "\<exists>t u. inference_targets homonymous_targets homonymous_sandbox = Ok ([t, u], True)
     \<and> tg_backendNamespace t \<noteq> tg_backendNamespace u
     \<and> hr_name (fst (RenderSandboxTarget quote ''w'' ''s'' t agents)) = hr_name (fst (RenderSandboxTarget quote ''w'' ''s'' u agents))"
proof -
  have ns: "Namespace homonymous_targets ''w'' ResourceScopeWorkspace = Ok ''w''"
      "Namespace homonymous_targets ''w'' ResourceScopeOrganisation = Ok sample_org"
      "SelectedNamespace homonymous_targets ''w'' \<lparr>sel_scope = ResourceScopeWorkspace, sel_kind = KindInferenceProvider, sel_name = ''p''\<rparr> = Ok ''w''"
      "SelectedNamespace homonymous_targets ''w'' \<lparr>sel_scope = ResourceScopeOrganisation, sel_kind = KindInferenceProvider, sel_name = ''p''\<rparr> = Ok sample_org"
    using sample_org sample_org_name
    by (simp_all add: SelectedNamespace_def Namespace_def homonymous_targets_def sample_targets_def sample_namespaces_def selecting_workspace_def
        sample_workspace_def label_def Names_def no_selection_def Let_def)
  have r: "readProvider homonymous_targets ns ''p'' = Ok \<lparr>ob_provider = sample_claude ns [], ob_deleting = False, ob_state = ''Ready''\<rparr>" for ns
    by (simp add: homonymous_targets_def sample_targets_def)
  have m: "im_id ` set (pv_models (pr_spec (sample_claude ns []))) = {''m''}" for ns
    by (simp add: sample_claude_def sample_provider_def InferenceModel.defs)
  have "inference_targets homonymous_targets homonymous_sandbox =
      Ok ([provider_target ''s'' (sample_claude ''w'' []) [''m''], provider_target ''s'' (sample_claude sample_org []) [''m'']], True)"
    using sample_org_name
    by (simp add: inference_targets_def scan_ref_def scan_provider_def homonymous_sandbox_def sample_sandbox_def sample_model_def
        InferencePoolProvider_def ns r m Let_def models_of_def provider_target_def sample_claude_def sample_provider_def InferenceModel.defs)
  moreover have "tg_backendNamespace (provider_target ''s'' (sample_claude ns []) [''m'']) = ns"
      "hr_name (fst (RenderSandboxTarget quote ''w'' ''s'' (provider_target ''s'' (sample_claude ns []) [''m'']) agents))
        = SandboxProviderRuntimeName ''s'' ''p''" for ns
    by (simp_all add: provider_target_def sample_claude_def RenderSandboxTarget_def Let_def)
  ultimately show ?thesis using sample_org_name(1) by metis
qed

end
