(* ===== verification/Delegation.thy ===== *)
theory Delegation
  imports Prelude
begin

section \<open>Delegated inference requests\<close>

text \<open>
  A model grant lets another party send inference requests through the owner's provider account
  (\<open>internal/inference/delegation.go\<close>). Requests must be self-contained: they may not refer to
  responses, prompts, files, containers or tools kept in that account. Strict decoding of JSON
  (\<open>sigs.k8s.io/json\<close>) is an argument of the model; its functions answer \<open>None\<close> for a decoding
  error or a duplicate field. A \<open>json.RawMessage\<close> is its text, empty when the field is absent.
\<close>

datatype inferenceTool = Tool (tl_type: string) (tl_execution: string) (tl_tools: "inferenceTool list")

record inferenceInputItem =
  it_id :: string
  it_type :: string
  it_content :: string
  it_output :: string
  it_audio :: string
  it_execution :: string
  it_tools :: "inferenceTool list"

text \<open>The file of a part is \<open>None\<close> for a nil pointer.\<close>

record inferenceContentPart =
  ip_fileID :: string
  ip_file :: "string option"

record DelegatedRequest =
  dr_endpoint :: string
  dr_nativeTools :: bool
  dr_model :: string
  dr_stream :: bool
  dr_store :: "bool option"
  dr_background :: bool
  dr_previousResponseID :: string
  dr_conversation :: string
  dr_prompt :: string
  dr_webSearchOptions :: string
  dr_tools :: "inferenceTool list"
  dr_input :: string
  dr_messages :: "inferenceInputItem list"

record anthropicSource =
  as_type :: string
  as_fileID :: string
  as_content :: string

record anthropicContent =
  ac_type :: string
  ac_fileID :: string
  ac_source :: "anthropicSource option"
  ac_content :: string

record anthropicRequest =
  ar_model :: string
  ar_stream :: bool
  ar_container :: string
  ar_mcpServers :: string
  ar_tools :: "inferenceTool list"
  ar_messages :: "inferenceInputItem list"
  ar_system :: string

record json_env =
  js_request :: "string \<Rightarrow> DelegatedRequest option"
  js_items :: "string \<Rightarrow> inferenceInputItem list option"
  js_parts :: "string \<Rightarrow> inferenceContentPart list option"
  js_part :: "string \<Rightarrow> inferenceContentPart option"
  js_anthropic :: "string \<Rightarrow> anthropicRequest option"
  js_contents :: "string \<Rightarrow> anthropicContent list option"

text \<open>A raw field that carries a value, and one that carries an array.\<close>

definition raw_given :: "string \<Rightarrow> bool" where
  "raw_given raw \<longleftrightarrow> length raw \<noteq> 0 \<and> raw \<noteq> ''null''"

definition is_array :: "string \<Rightarrow> bool" where
  "is_array raw \<longleftrightarrow> length raw \<noteq> 0 \<and> raw ! 0 = CHR ''[''"

subsection \<open>Providers\<close>

definition DelegatedProviderEndpoints :: "string \<Rightarrow> string list" where
  "DelegatedProviderEndpoints kd =
     (if kd = ''OpenAICodex'' then [''/responses'']
      else if kd = ''Anthropic'' \<or> kd = ''AnthropicCompatible'' then [''/chat/completions'', ''/messages'', ''/messages/count_tokens'']
      else if kd = ''Gemini'' \<or> kd = ''VertexAI'' then [''/chat/completions'']
      else if kd = ''OpenAI'' \<or> kd = ''OpenAICompatible'' \<or> kd = ''Azure'' \<or> kd = ''Bedrock''
      then [''/chat/completions'', ''/responses'', ''/messages'', ''/messages/count_tokens'']
      else [])"

definition ValidateProvider_delegated :: "DelegatedRequest \<Rightarrow> string \<Rightarrow> (string, unit) result" where
  "ValidateProvider_delegated input kd =
     (let endpoints = DelegatedProviderEndpoints kd in
      if endpoints = [] then Err ''this model has no supported inference endpoint''
      else if dr_endpoint input \<notin> set endpoints then Err (''this model supports '' @ Join '', '' endpoints @ ''; choose a supported endpoint'')
      else if dr_nativeTools input \<and> kd \<notin> {''OpenAI'', ''Azure'', ''OpenAICodex''}
      then Err ''custom, namespaced and search tools require a native Responses provider''
      else if kd \<noteq> ''OpenAICodex'' then Ok ()
      else if \<not> dr_stream input then Err ''this Codex model requires stream:true''
      else Ok ())"

subsection \<open>OpenAI requests\<close>

definition part_stored :: "inferenceContentPart \<Rightarrow> bool" where
  "part_stored p \<longleftrightarrow> ip_fileID p \<noteq> [] \<or> (case ip_file p of None \<Rightarrow> False | Some f \<Rightarrow> f \<noteq> [])"

text \<open>The further content, and for a tool search the further tools, that an item of a Responses input adds.\<close>

definition item_output :: "json_env \<Rightarrow> inferenceInputItem \<Rightarrow> (string, inferenceContentPart list \<times> inferenceTool list \<times> bool) result" where
  "item_output env item =
     (if it_type item = ''function_call_output'' \<or> it_type item = ''custom_tool_call_output'' then
        (if is_array (it_output item)
         then (case js_parts env (it_output item) of None \<Rightarrow> Err ''invalid function output'' | Some ps \<Rightarrow> Ok (ps, [], False))
         else Ok ([], [], False))
      else if it_type item = ''tool_search_output'' then
        (if it_execution item \<noteq> ''client'' then Err ''use client-side tool discovery; provider account tools are unavailable''
         else Ok ([], it_tools item, True))
      else if it_type item = ''computer_call_output'' then
        (case js_part env (it_output item) of None \<Rightarrow> Err ''invalid computer output'' | Some p \<Rightarrow> Ok ([p], [], False))
      else Ok ([], [], False))"

definition item_step ::
  "json_env \<Rightarrow> bool \<Rightarrow> inferenceTool list \<times> bool \<Rightarrow> inferenceInputItem \<Rightarrow> (string, inferenceTool list \<times> bool) result" where
  "item_step env responses st item =
     (if \<not> responses \<and> raw_given (it_audio item) then Err ''stored audio is unavailable; provide inline audio input''
      else if it_type item = ''item_reference'' \<or> responses \<and> it_type item = [] \<and> it_id item \<noteq> []
      then Err ''stored input items are unavailable; provide explicit input''
      else case (if is_array (it_content item) then js_parts env (it_content item) else Some []) of
        None \<Rightarrow> Err ''invalid message content''
      | Some content \<Rightarrow>
          (case (if responses then item_output env item else Ok ([], [], False)) of
             Inl e \<Rightarrow> Err e
           | Inr (added, tools, native) \<Rightarrow>
               if list_ex part_stored (content @ added)
               then Err ''stored provider files are unavailable; provide inline content or a URL''
               else Ok (fst st @ tools, snd st \<or> native)))"

fun items_loop ::
  "json_env \<Rightarrow> bool \<Rightarrow> inferenceTool list \<times> bool \<Rightarrow> inferenceInputItem list \<Rightarrow> (string, inferenceTool list \<times> bool) result" where
  "items_loop env responses st [] = Ok st"
| "items_loop env responses st (item # items) =
     (case item_step env responses st item of
        Inl e \<Rightarrow> Err e
      | Inr st' \<Rightarrow> items_loop env responses st' items)"

text \<open>The stack of tools. The last one is taken off; the tools inside a custom or namespace tool are put on.\<close>

fun tool_weight :: "inferenceTool \<Rightarrow> nat" where
  "tool_weight (Tool ty ex ts) = Suc (sum_list (map tool_weight ts))"

lemma tool_weight_unfold: "tool_weight t = Suc (sum_list (map tool_weight (tl_tools t)))"
  by (cases t) simp

lemma stack_split: "ts \<noteq> [] \<Longrightarrow> sum_list (map f ts) = sum_list (map f (butlast ts)) + (f (last ts) :: nat)"
  by (induction ts rule: rev_induct) auto

function client_tools_loop :: "bool \<Rightarrow> bool \<Rightarrow> inferenceTool list \<Rightarrow> (string, bool) result" where
  "client_tools_loop responses native tools =
     (if length tools > 0 then
        (let tool = last tools; rest = butlast tools in
         if tl_type tool = ''function'' then client_tools_loop responses native rest
         else if tl_type tool = ''tool_search'' \<and> responses \<and> tl_execution tool = ''client'' then client_tools_loop responses True rest
         else if (tl_type tool = ''custom'' \<or> tl_type tool = ''namespace'') \<and> responses
         then client_tools_loop responses True (rest @ tl_tools tool)
         else Err ''use client-side tools; provider account resources are unavailable'')
      else Ok native)"
  by pat_completeness auto
termination
  by (relation "measure (\<lambda>(responses, native, tools). sum_list (map tool_weight tools))")
    (auto simp: stack_split tool_weight_unfold)

declare client_tools_loop.simps [simp del]

definition response_items :: "json_env \<Rightarrow> bool \<Rightarrow> DelegatedRequest \<Rightarrow> (string, inferenceInputItem list) result" where
  "response_items env responses input =
     (if \<not> responses then Ok (dr_messages input)
      else if is_array (dr_input input)
      then (case js_items env (dr_input input) of None \<Rightarrow> Err ''invalid response input'' | Some items \<Rightarrow> Ok items)
      else Ok [])"

definition stored_state :: "bool \<Rightarrow> DelegatedRequest \<Rightarrow> bool" where
  "stored_state responses input \<longleftrightarrow>
     (case dr_store input of None \<Rightarrow> False | Some b \<Rightarrow> b)
     \<or> responses \<and> (dr_store input = None \<or> dr_background input \<or> dr_previousResponseID input \<noteq> [])
     \<or> responses \<and> raw_given (dr_conversation input)"

definition ValidateDelegatedRequest :: "json_env \<Rightarrow> string \<Rightarrow> bool \<Rightarrow> (string, DelegatedRequest) result" where
  "ValidateDelegatedRequest env body responses =
     (case js_request env body of
        None \<Rightarrow> Err ''provide a valid inference request with a model and no duplicate fields''
      | Some decoded \<Rightarrow>
          (let input = decoded\<lparr>dr_endpoint := (if responses then ''/responses'' else ''/chat/completions''), dr_nativeTools := False\<rparr> in
           if dr_model input = [] then Err ''provide a valid inference request with a model and no duplicate fields''
           else if stored_state responses input
           then Err ''use store:false and explicit conversation input; stored and background responses are unavailable''
           else if raw_given (dr_prompt input) \<or> \<not> responses \<and> raw_given (dr_webSearchOptions input)
           then Err ''use inline prompts and client-side function tools; provider account resources are unavailable''
           else case response_items env responses input of
             Inl e \<Rightarrow> Err e
           | Inr items \<Rightarrow>
               (case items_loop env responses (dr_tools input, False) items of
                  Inl e \<Rightarrow> Err e
                | Inr (tools, native) \<Rightarrow>
                    (case client_tools_loop responses native tools of
                       Inl e \<Rightarrow> Err e
                     | Inr native' \<Rightarrow> Ok (input\<lparr>dr_nativeTools := native'\<rparr>)))))"

subsection \<open>Anthropic requests\<close>

definition tool_local :: "inferenceTool \<Rightarrow> bool" where
  "tool_local t \<longleftrightarrow> tl_type t = [] \<or> tl_type t = ''custom'' \<or> HasPrefix (tl_type t) ''computer_''
     \<or> HasPrefix (tl_type t) ''bash_'' \<or> HasPrefix (tl_type t) ''text_editor_''"

definition content_stored :: "anthropicContent \<Rightarrow> bool" where
  "content_stored p \<longleftrightarrow> ac_type p = ''file'' \<or> ac_type p = ''container_upload'' \<or> ac_fileID p \<noteq> []
     \<or> (case ac_source p of None \<Rightarrow> False | Some s \<Rightarrow> as_type s = ''file'' \<or> as_fileID s \<noteq> [])"

definition nested_contents :: "anthropicContent \<Rightarrow> string list" where
  "nested_contents p = ac_content p # (case ac_source p of None \<Rightarrow> [] | Some s \<Rightarrow> [as_content s])"

text \<open>The stack of contents. Whether the loop ends depends on the decoder, so a loop that would never end
  is the value \<open>None\<close>.\<close>

partial_function (option) contents_loop :: "json_env \<Rightarrow> string list \<Rightarrow> (string, unit) result option" where
  "contents_loop env contents =
     (if contents = [] then Some (Ok ())
      else let content = last contents; rest = butlast contents in
        if \<not> is_array content then contents_loop env rest
        else case js_contents env content of
          None \<Rightarrow> Some (Err ''invalid Messages content'')
        | Some parts \<Rightarrow>
            if list_ex content_stored parts then Some (Err ''provider files are unavailable; provide inline content or a URL'')
            else contents_loop env (rest @ concat (map nested_contents parts)))"

definition delegated_messages :: "anthropicRequest \<Rightarrow> bool \<Rightarrow> DelegatedRequest" where
  "delegated_messages input countTokens = \<lparr>dr_endpoint = ''/messages'' @ (if countTokens then ''/count_tokens'' else []), dr_nativeTools = False,
     dr_model = ar_model input, dr_stream = ar_stream input, dr_store = None, dr_background = False, dr_previousResponseID = [],
     dr_conversation = [], dr_prompt = [], dr_webSearchOptions = [], dr_tools = [], dr_input = [], dr_messages = []\<rparr>"

definition ValidateDelegatedMessages :: "json_env \<Rightarrow> string \<Rightarrow> bool \<Rightarrow> (string, DelegatedRequest) result option" where
  "ValidateDelegatedMessages env body countTokens =
     (case js_anthropic env body of
        None \<Rightarrow> Some (Err ''provide a valid Messages request with a model and no duplicate fields'')
      | Some input \<Rightarrow>
          if ar_model input = [] then Some (Err ''provide a valid Messages request with a model and no duplicate fields'')
          else if raw_given (ar_container input) \<or> raw_given (ar_mcpServers input)
          then Some (Err ''provider containers and hosted MCP servers are unavailable'')
          else if \<not> list_all tool_local (ar_tools input) then Some (Err ''use client-side tools; provider hosted tools are unavailable'')
          else case contents_loop env (ar_system input # map it_content (ar_messages input)) of
            None \<Rightarrow> None
          | Some (Inl e) \<Rightarrow> Some (Err e)
          | Some (Inr _) \<Rightarrow> Some (Ok (delegated_messages input countTokens)))"

subsection \<open>Tools\<close>

text \<open>What a tool must be, by structure: a function, or in a Responses request a tool search that the client
  executes, or a custom or namespace tool all of whose inner tools are such tools.\<close>

fun tool_client :: "bool \<Rightarrow> inferenceTool \<Rightarrow> bool" where
  "tool_client responses (Tool ty ex ts) \<longleftrightarrow> ty = ''function''
     \<or> responses \<and> (ty = ''tool_search'' \<and> ex = ''client'' \<or> ty \<in> {''custom'', ''namespace''} \<and> list_all (tool_client responses) ts)"

lemma tool_client_unfold: "tool_client r t \<longleftrightarrow> tl_type t = ''function''
    \<or> r \<and> (tl_type t = ''tool_search'' \<and> tl_execution t = ''client''
        \<or> tl_type t \<in> {''custom'', ''namespace''} \<and> list_all (tool_client r) (tl_tools t))"
  by (cases t) simp

lemma stack_all: "ts \<noteq> [] \<Longrightarrow> list_all P ts \<longleftrightarrow> list_all P (butlast ts) \<and> P (last ts)"
    "ts \<noteq> [] \<Longrightarrow> list_ex P ts \<longleftrightarrow> list_ex P (butlast ts) \<or> P (last ts)"
  by (induction ts rule: rev_induct) auto

definition needs_native :: "inferenceTool \<Rightarrow> bool" where
  "needs_native t \<longleftrightarrow> tl_type t \<noteq> ''function''"

text \<open>The loop over the stack decides exactly this predicate, whatever the nesting of the tools.\<close>

lemma client_tools_exact: "client_tools_loop responses native tools =
    (if list_all (tool_client responses) tools then Ok (native \<or> list_ex needs_native tools)
     else Err ''use client-side tools; provider account resources are unavailable'')"
proof (induction responses native tools rule: client_tools_loop.induct)
  case (1 responses native tools)
  show ?case
  proof (cases "tools = []")
    case True
    then show ?thesis by (simp add: client_tools_loop.simps)
  next
    case False
    let ?t = "last tools" and ?rest = "butlast tools"
    have n: "needs_native ?t \<longleftrightarrow> tl_type ?t \<noteq> ''function''" by (simp add: needs_native_def)
    note unf = client_tools_loop.simps [of responses native tools] stack_all [OF False] tool_client_unfold [of responses ?t] n
    consider (fn) "tl_type ?t = ''function''" | (search) "tl_type ?t = ''tool_search''" "responses" "tl_execution ?t = ''client''"
      | (nested) "tl_type ?t \<in> {''custom'', ''namespace''}" responses
      | (bad) "\<not> tool_client responses ?t" "tl_type ?t \<noteq> ''function''" "\<not> (tl_type ?t = ''tool_search'' \<and> responses \<and> tl_execution ?t = ''client'')"
          "\<not> ((tl_type ?t = ''custom'' \<or> tl_type ?t = ''namespace'') \<and> responses)"
      by (auto simp: tool_client_unfold [of responses ?t])
    then show ?thesis
    proof cases
      case fn
      with False 1(1) [OF _ refl refl fn] show ?thesis by (simp add: unf Let_def)
    next
      case search
      with False 1(2) [OF _ refl refl] show ?thesis
        by (simp add: unf client_tools_loop.simps [of True native tools] tool_client_unfold [of True ?t] Let_def)
    next
      case nested
      with False 1(3) [OF _ refl refl] show ?thesis
        by (auto simp: unf client_tools_loop.simps [of True native tools] tool_client_unfold [of True ?t] Let_def)
    next
      case bad
      with False show ?thesis by (auto simp: client_tools_loop.simps [of responses native tools] stack_all [OF False] Let_def)
    qed
  qed
qed

subsection \<open>Self-contained requests\<close>

definition item_parts :: "json_env \<Rightarrow> bool \<Rightarrow> inferenceInputItem \<Rightarrow> inferenceContentPart list option" where
  "item_parts env responses item =
     (case (if is_array (it_content item) then js_parts env (it_content item) else Some []) of
        None \<Rightarrow> None
      | Some ps \<Rightarrow>
          if responses \<and> it_type item \<in> {''function_call_output'', ''custom_tool_call_output''} \<and> is_array (it_output item)
          then map_option ((@) ps) (js_parts env (it_output item))
          else if responses \<and> it_type item = ''computer_call_output'' then map_option (\<lambda>p. ps @ [p]) (js_part env (it_output item))
          else Some ps)"

definition item_tools :: "bool \<Rightarrow> inferenceInputItem \<Rightarrow> inferenceTool list" where
  "item_tools responses item = (if responses \<and> it_type item = ''tool_search_output'' then it_tools item else [])"

text \<open>An item that carries all of its content: no audio kept by the provider, no reference to a stored item,
  no stored file among its parts, and tools found by the client only.\<close>

definition item_inline :: "json_env \<Rightarrow> bool \<Rightarrow> inferenceInputItem \<Rightarrow> bool" where
  "item_inline env responses item \<longleftrightarrow>
     (responses \<or> \<not> raw_given (it_audio item)) \<and> it_type item \<noteq> ''item_reference''
     \<and> (responses \<longrightarrow> it_type item \<noteq> [] \<or> it_id item = [])
     \<and> (responses \<and> it_type item = ''tool_search_output'' \<longrightarrow> it_execution item = ''client'')
     \<and> (case item_parts env responses item of None \<Rightarrow> False | Some ps \<Rightarrow> list_all (\<lambda>p. \<not> part_stored p) ps)"

lemma item_step_Ok: "item_step env responses st item = Ok st' \<longleftrightarrow> item_inline env responses item
    \<and> st' = (fst st @ item_tools responses item, snd st \<or> responses \<and> it_type item = ''tool_search_output'')"
proof (cases "if is_array (it_content item) then js_parts env (it_content item) else Some []")
  case None
  then show ?thesis by (simp add: item_step_def item_inline_def item_parts_def)
next
  case (Some ps)
  have ex: "list_ex part_stored xs \<longleftrightarrow> \<not> list_all (\<lambda>p. \<not> part_stored p) xs" for xs by (induction xs) auto
  note d = item_step_def item_inline_def item_parts_def item_tools_def item_output_def Some ex
  consider (chat) "\<not> responses" | (out) responses "it_type item = ''function_call_output'' \<or> it_type item = ''custom_tool_call_output''"
    | (search) responses "it_type item = ''tool_search_output''" | (computer) responses "it_type item = ''computer_call_output''"
    | (other) responses "it_type item \<notin> {''function_call_output'', ''custom_tool_call_output'', ''tool_search_output'', ''computer_call_output''}"
    by blast
  then show ?thesis
  proof cases
    case chat
    then show ?thesis by (auto simp: d)
  next
    case out
    then show ?thesis by (cases "js_parts env (it_output item)"; elim disjE) (auto simp: d)
  next
    case search
    then show ?thesis by (auto simp: d)
  next
    case computer
    then show ?thesis by (cases "js_part env (it_output item)") (auto simp: d)
  next
    case other
    then show ?thesis by (auto simp: d)
  qed
qed

lemma items_loop_Ok: "items_loop env responses st items = Ok st' \<longleftrightarrow> list_all (item_inline env responses) items
    \<and> st' = (fst st @ concat (map (item_tools responses) items),
        snd st \<or> list_ex (\<lambda>item. responses \<and> it_type item = ''tool_search_output'') items)"
proof (induction items arbitrary: st)
  case (Cons item items)
  have "items_loop env responses st (item # items) = Ok st' \<longleftrightarrow>
      (\<exists>st1. item_step env responses st item = Ok st1 \<and> items_loop env responses st1 items = Ok st')"
    by (auto split: sum.splits)
  then show ?case by (auto simp: item_step_Ok Cons.IH simp del: items_loop.simps)
qed auto

definition self_contained :: "json_env \<Rightarrow> bool \<Rightarrow> DelegatedRequest \<Rightarrow> bool" where
  "self_contained env responses input \<longleftrightarrow> dr_model input \<noteq> []
     \<and> (if responses then dr_store input = Some False \<and> \<not> dr_background input \<and> dr_previousResponseID input = []
            \<and> \<not> raw_given (dr_conversation input)
        else dr_store input \<noteq> Some True \<and> \<not> raw_given (dr_webSearchOptions input))
     \<and> \<not> raw_given (dr_prompt input)
     \<and> (case response_items env responses input of
          Inl _ \<Rightarrow> False
        | Inr items \<Rightarrow> list_all (item_inline env responses) items
            \<and> list_all (tool_client responses) (dr_tools input @ concat (map (item_tools responses) items)))"

definition native_items :: "json_env \<Rightarrow> bool \<Rightarrow> DelegatedRequest \<Rightarrow> inferenceInputItem list" where
  "native_items env responses input = (case response_items env responses input of Inl _ \<Rightarrow> [] | Inr items \<Rightarrow> items)"

text \<open>Whether a request uses tools that only a native Responses provider understands.\<close>

definition uses_native :: "json_env \<Rightarrow> bool \<Rightarrow> DelegatedRequest \<Rightarrow> bool" where
  "uses_native env responses input \<longleftrightarrow>
     list_ex (\<lambda>item. responses \<and> it_type item = ''tool_search_output'') (native_items env responses input)
     \<or> list_ex needs_native (dr_tools input @ concat (map (item_tools responses) (native_items env responses input)))"

definition delegated_endpoint :: "bool \<Rightarrow> string" where
  "delegated_endpoint responses = (if responses then ''/responses'' else ''/chat/completions'')"

lemma response_items_endpoint [simp]: "response_items env responses (input\<lparr>dr_endpoint := e, dr_nativeTools := b\<rparr>) = response_items env responses input"
  by (simp add: response_items_def)

lemma stored_state_conv: "\<not> stored_state responses input \<longleftrightarrow>
    (if responses then dr_store input = Some False \<and> \<not> dr_background input \<and> dr_previousResponseID input = [] \<and> \<not> raw_given (dr_conversation input)
     else dr_store input \<noteq> Some True)"
  by (cases "dr_store input") (auto simp: stored_state_def)

text \<open>The two loops together: the items must be inline, and the tools they leave run by the client.\<close>

lemma loops_checked: "(case items_loop env responses (tools, False) items of Inl e \<Rightarrow> Err e | Inr (ts, native) \<Rightarrow>
      (case client_tools_loop responses native ts of Inl e \<Rightarrow> Err e | Inr native' \<Rightarrow> Ok (f native'))) = Ok out
    \<longleftrightarrow> list_all (item_inline env responses) items \<and> list_all (tool_client responses) (tools @ concat (map (item_tools responses) items))
      \<and> out = f (list_ex (\<lambda>item. responses \<and> it_type item = ''tool_search_output'') items
          \<or> list_ex needs_native (tools @ concat (map (item_tools responses) items)))"
proof (cases "items_loop env responses (tools, False) items")
  case (Inl e)
  then have "\<not> list_all (item_inline env responses) items"
    using items_loop_Ok [of env responses "(tools, False)" items] by (metis Inl_Inr_False)
  with Inl show ?thesis by simp
next
  case (Inr st)
  with items_loop_Ok [of env responses "(tools, False)" items st]
  have "list_all (item_inline env responses) items"
    and "st = (tools @ concat (map (item_tools responses) items), list_ex (\<lambda>item. responses \<and> it_type item = ''tool_search_output'') items)"
    by auto
  with Inr show ?thesis by (auto simp: client_tools_exact simp del: list_all_append)
qed

lemma delegated_request_Ok:
  "ValidateDelegatedRequest env body responses = Ok out \<longleftrightarrow>
    (\<exists>input. js_request env body = Some input \<and> self_contained env responses input
       \<and> out = input\<lparr>dr_endpoint := delegated_endpoint responses, dr_nativeTools := uses_native env responses input\<rparr>)"
proof (cases "js_request env body")
  case None
  then show ?thesis by (simp add: ValidateDelegatedRequest_def)
next
  case (Some input)
  let ?in = "input\<lparr>dr_endpoint := delegated_endpoint responses, dr_nativeTools := False\<rparr>"
  have stored: "stored_state responses ?in = stored_state responses input" by (simp add: stored_state_def)
  show ?thesis
  proof (cases "response_items env responses input")
    case (Inl e)
    with Some show ?thesis by (simp add: ValidateDelegatedRequest_def self_contained_def Let_def)
  next
    case (Inr items)
    let ?tools = "dr_tools input @ concat (map (item_tools responses) items)"
      and ?search = "list_ex (\<lambda>item. responses \<and> it_type item = ''tool_search_output'') items"
    have "ValidateDelegatedRequest env body responses = Ok out \<longleftrightarrow> dr_model input \<noteq> [] \<and> \<not> stored_state responses input
        \<and> \<not> raw_given (dr_prompt input) \<and> (responses \<or> \<not> raw_given (dr_webSearchOptions input))
        \<and> list_all (item_inline env responses) items \<and> list_all (tool_client responses) ?tools
        \<and> out = ?in\<lparr>dr_nativeTools := ?search \<or> list_ex needs_native ?tools\<rparr>"
      unfolding ValidateDelegatedRequest_def Some option.case Let_def delegated_endpoint_def [symmetric]
        loops_checked [where f = "\<lambda>n. ?in\<lparr>dr_nativeTools := n\<rparr>", symmetric]
      by (simp add: stored Inr)
    then show ?thesis
      using stored_state_conv [of responses input]
      by (auto simp: Some Inr self_contained_def uses_native_def native_items_def)
  qed
qed

text \<open>C20. Delegated OpenAI requests are admitted exactly if they are self-contained. A request passes precisely
  when it decodes and names a model, keeps nothing at the provider (for Responses: an explicit
  \<open>store:false\<close>, no background run, earlier response or conversation), uses no stored prompt or hosted
  search, all of its items carry their content with no reference to a stored item, audio or file, and
  every tool, however deeply nested, is run by the client. The result records the endpoint, and whether
  a native Responses provider is needed.\<close>

theorem delegated_request_exact:
  "ValidateDelegatedRequest env body responses = Ok out \<longleftrightarrow>
    (\<exists>input. js_request env body = Some input \<and> self_contained env responses input
       \<and> out = input\<lparr>dr_endpoint := delegated_endpoint responses, dr_nativeTools := uses_native env responses input\<rparr>)"
  by (rule delegated_request_Ok)

subsection \<open>Contents of Messages requests\<close>

text \<open>
  What the check must find out, by the structure of a request. A content is a text or an array of
  blocks; a block may hold further content, its own or that of its source. Each way for a block to refer
  to something kept in the provider's account is a rule, and so is each kind of tool that the client runs.
\<close>

inductive block_in :: "json_env \<Rightarrow> string \<Rightarrow> anthropicContent \<Rightarrow> bool" for env :: json_env where
  element: "\<lbrakk> c = CHR ''['' # tail; js_contents env c = Some ps; p \<in> set ps \<rbrakk> \<Longrightarrow> block_in env c p"
| of_block: "\<lbrakk> block_in env c q; block_in env (ac_content q) p \<rbrakk> \<Longrightarrow> block_in env c p"
| of_source: "\<lbrakk> block_in env c q; ac_source q = Some src; block_in env (as_content src) p \<rbrakk> \<Longrightarrow> block_in env c p"

inductive undecodable :: "json_env \<Rightarrow> string \<Rightarrow> bool" for env :: json_env where
  array: "\<lbrakk> c = CHR ''['' # tail; js_contents env c = None \<rbrakk> \<Longrightarrow> undecodable env c"
| of_block: "\<lbrakk> block_in env c q; undecodable env (ac_content q) \<rbrakk> \<Longrightarrow> undecodable env c"
| of_source: "\<lbrakk> block_in env c q; ac_source q = Some src; undecodable env (as_content src) \<rbrakk> \<Longrightarrow> undecodable env c"

inductive provider_kept :: "anthropicContent \<Rightarrow> bool" where
  file_block: "ac_type p = ''file'' \<Longrightarrow> provider_kept p"
| upload: "ac_type p = ''container_upload'' \<Longrightarrow> provider_kept p"
| file_id: "ac_fileID p \<noteq> [] \<Longrightarrow> provider_kept p"
| file_source: "\<lbrakk> ac_source p = Some src; as_type src = ''file'' \<rbrakk> \<Longrightarrow> provider_kept p"
| source_id: "\<lbrakk> ac_source p = Some src; as_fileID src \<noteq> [] \<rbrakk> \<Longrightarrow> provider_kept p"

inductive client_tool :: "string \<Rightarrow> bool" where
  untyped: "client_tool []"
| custom: "client_tool ''custom''"
| computer: "client_tool (''computer_'' @ version)"
| bash: "client_tool (''bash_'' @ version)"
| editor: "client_tool (''text_editor_'' @ version)"

text \<open>The contents found in a content, itself included, at any depth.\<close>

inductive content_in :: "json_env \<Rightarrow> string \<Rightarrow> string \<Rightarrow> bool" for env :: json_env where
  itself: "content_in env c c"
| nested: "\<lbrakk> is_array c; js_contents env c = Some ps; p \<in> set ps; d \<in> set (nested_contents p); content_in env d x \<rbrakk>
    \<Longrightarrow> content_in env c x"

inductive_cases content_inE: "content_in env c x"

text \<open>A content that decodes, and none of whose parts refers to a file or container of the provider.\<close>

definition content_inline :: "json_env \<Rightarrow> string \<Rightarrow> bool" where
  "content_inline env c \<longleftrightarrow>
     \<not> is_array c \<or> (case js_contents env c of None \<Rightarrow> False | Some ps \<Rightarrow> list_all (\<lambda>p. \<not> content_stored p) ps)"

definition all_inline :: "json_env \<Rightarrow> string list \<Rightarrow> bool" where
  "all_inline env cs \<longleftrightarrow> (\<forall>c\<in>set cs. \<forall>x. content_in env c x \<longrightarrow> content_inline env x)"

lemma all_inline_simps [simp]:
  "all_inline env []" "all_inline env (cs @ ds) \<longleftrightarrow> all_inline env cs \<and> all_inline env ds"
  by (auto simp: all_inline_def)

lemma inline_leaf: "\<not> is_array c \<Longrightarrow> all_inline env [c]"
  by (auto simp: all_inline_def content_inline_def elim: content_inE)

lemma content_in_array: "\<lbrakk> is_array c; js_contents env c = Some ps \<rbrakk> \<Longrightarrow>
    content_in env c x \<longleftrightarrow> x = c \<or> (\<exists>d\<in>set (concat (map nested_contents ps)). content_in env d x)"
  by (auto elim: content_inE intro: content_in.itself content_in.nested)

lemma inline_array: "\<lbrakk> is_array c; js_contents env c = Some ps \<rbrakk> \<Longrightarrow>
    all_inline env [c] \<longleftrightarrow> \<not> list_ex content_stored ps \<and> all_inline env (concat (map nested_contents ps))"
proof -
  assume c: "is_array c" "js_contents env c = Some ps"
  have "all_inline env [c] \<longleftrightarrow> content_inline env c \<and> all_inline env (concat (map nested_contents ps))"
    unfolding all_inline_def using content_in_array [OF c] by simp blast
  moreover have "content_inline env c \<longleftrightarrow> \<not> list_ex content_stored ps"
    using c by (auto simp: content_inline_def list_all_iff list_ex_iff)
  ultimately show ?thesis by simp
qed

lemma inline_broken: "\<lbrakk> is_array c; js_contents env c = None \<rbrakk> \<Longrightarrow> \<not> all_inline env [c]"
  by (auto simp: all_inline_def content_inline_def intro: content_in.itself)

lemma array_iff: "is_array c \<longleftrightarrow> (\<exists>tail. c = CHR ''['' # tail)"
  by (cases c) (auto simp: is_array_def)

lemma content_in_trans: "content_in env c x \<Longrightarrow> content_in env x y \<Longrightarrow> content_in env c y"
  by (induction rule: content_in.induct) (auto intro: content_in.nested)

lemma nested_iff: "d \<in> set (nested_contents p) \<longleftrightarrow> d = ac_content p \<or> (\<exists>src. ac_source p = Some src \<and> d = as_content src)"
  by (cases "ac_source p") (auto simp: nested_contents_def)

definition array_of :: "json_env \<Rightarrow> string \<Rightarrow> string \<Rightarrow> anthropicContent list \<Rightarrow> bool" where
  "array_of env c x ps \<longleftrightarrow> content_in env c x \<and> is_array x \<and> js_contents env x = Some ps"

lemma array_nested: "\<lbrakk> array_of env c x ps; p \<in> set ps; d \<in> set (nested_contents p); content_in env d y \<rbrakk> \<Longrightarrow> content_in env c y"
  unfolding array_of_def using content_in.nested content_in_trans by blast

lemma block_array: "block_in env c p \<Longrightarrow> \<exists>x ps. array_of env c x ps \<and> p \<in> set ps"
proof (induction rule: block_in.induct)
  case (element c tail ps p)
  then have "array_of env c c ps" by (auto simp: array_of_def array_iff intro: content_in.itself)
  with element show ?case by blast
qed (metis array_nested array_of_def nested_iff)+

lemma array_block: "content_in env c x \<Longrightarrow> is_array x \<Longrightarrow> js_contents env x = Some ps \<Longrightarrow> p \<in> set ps \<Longrightarrow> block_in env c p"
proof (induction rule: content_in.induct)
  case (nested c qs q d x)
  then have "block_in env c q" "block_in env d p" by (auto simp: array_iff intro: block_in.element)
  with nested.hyps show ?case unfolding nested_iff by (auto intro: block_in.of_block block_in.of_source)
qed (auto simp: array_iff intro: block_in.element)

lemma undecodable_array: "undecodable env c \<Longrightarrow> \<exists>x. content_in env c x \<and> is_array x \<and> js_contents env x = None"
proof (induction rule: undecodable.induct)
  case (array c tail)
  then show ?case by (auto simp: array_iff intro: content_in.itself)
qed (metis array_nested block_array nested_iff)+

lemma array_undecodable: "content_in env c x \<Longrightarrow> is_array x \<Longrightarrow> js_contents env x = None \<Longrightarrow> undecodable env c"
proof (induction rule: content_in.induct)
  case (nested c qs q d x)
  then have "block_in env c q" "undecodable env d" by (auto simp: array_iff intro: block_in.element)
  with nested.hyps show ?case unfolding nested_iff by (auto intro: undecodable.of_block undecodable.of_source)
qed (auto simp: array_iff intro: undecodable.array)

lemma stored_kept: "content_stored p \<longleftrightarrow> provider_kept p"
  by (cases "ac_source p") (auto simp: content_stored_def provider_kept.simps)

lemma local_client: "tool_local t \<longleftrightarrow> client_tool (tl_type t)"
proof -
  have "HasPrefix s p \<longleftrightarrow> (\<exists>v. s = p @ v)" for s p :: string
    by (auto simp: HasPrefix_def) (metis append_take_drop_id)
  then show ?thesis by (simp add: tool_local_def client_tool.simps)
qed

lemma all_inline_blocks: "all_inline env cs \<longleftrightarrow> (\<forall>c\<in>set cs. \<not> undecodable env c \<and> (\<forall>p. block_in env c p \<longrightarrow> \<not> provider_kept p))"
proof -
  have "(\<forall>x. content_in env c x \<longrightarrow> content_inline env x) \<longleftrightarrow> \<not> undecodable env c \<and> (\<forall>p. block_in env c p \<longrightarrow> \<not> provider_kept p)" for c
  proof (intro iffI conjI allI impI notI)
    assume inl: "\<forall>x. content_in env c x \<longrightarrow> content_inline env x" and "undecodable env c"
    then show False using undecodable_array [of env c] by (auto simp: content_inline_def)
  next
    fix p assume inl: "\<forall>x. content_in env c x \<longrightarrow> content_inline env x" and p: "block_in env c p" "provider_kept p"
    then obtain x ps where "array_of env c x ps" "p \<in> set ps" using block_array by blast
    with inl p show False by (auto simp: array_of_def content_inline_def list_all_iff stored_kept)
  next
    fix x assume blocks: "\<not> undecodable env c \<and> (\<forall>p. block_in env c p \<longrightarrow> \<not> provider_kept p)" and x: "content_in env c x"
    then show "content_inline env x"
      using array_block [OF x] array_undecodable [OF x]
      by (auto simp: content_inline_def list_all_iff stored_kept split: option.splits)
  qed
  then show ?thesis by (simp add: all_inline_def)
qed

text \<open>The decoder's raw fields are disjoint parts of the text it decodes, which has at least its own brackets beside them.\<close>

definition contents_shrink :: "json_env \<Rightarrow> bool" where
  "contents_shrink env \<longleftrightarrow>
     (\<forall>s ps. js_contents env s = Some ps \<longrightarrow>
       (\<Sum>p\<leftarrow>ps. length (ac_content p) + (case ac_source p of None \<Rightarrow> 0 | Some src \<Rightarrow> length (as_content src))) < length s)"

lemma shrink_nested: "(\<Sum>p\<leftarrow>ps. length (ac_content p) + (case ac_source p of None \<Rightarrow> 0 | Some src \<Rightarrow> length (as_content src)))
    = sum_list (map length (concat (map nested_contents ps)))"
  by (induction ps) (auto simp: nested_contents_def split: option.splits)

lemma contents_loop_decides:
  assumes "contents_shrink env"
  shows "\<exists>r. contents_loop env cs = Some r \<and> (r = Ok () \<longleftrightarrow> all_inline env cs)"
proof (induction cs rule: wf_induct_rule [OF wf_measures [of "[\<lambda>cs. sum_list (map length cs), length]"]])
  case (1 cs)
  show ?case
  proof (cases "cs = []")
    case False
    let ?c = "last cs" and ?rest = "butlast cs"
    have split: "all_inline env cs \<longleftrightarrow> all_inline env ?rest \<and> all_inline env [?c]"
      using all_inline_simps(2) [of env ?rest "[?c]"] False by simp
    have len: "sum_list (map length cs) = sum_list (map length ?rest) + length ?c" using False by (rule stack_split)
    note unf = contents_loop.simps [of env cs] False split
    show ?thesis
    proof (cases "is_array ?c")
      case leaf: False
      have "length ?rest < length cs" using False by simp
      with 1 [of ?rest] leaf len show ?thesis by (auto simp: unf Let_def inline_leaf)
    next
      case array: True
      show ?thesis
      proof (cases "js_contents env ?c")
        case None
        with array show ?thesis by (simp add: unf Let_def inline_broken)
      next
        case (Some ps)
        with assms have "sum_list (map length (concat (map nested_contents ps))) < length ?c"
          by (auto simp: contents_shrink_def shrink_nested [symmetric])
        with 1 [of "?rest @ concat (map nested_contents ps)"] array Some len show ?thesis
          by (auto simp: unf Let_def inline_array)
      qed
    qed
  qed (simp add: contents_loop.simps)
qed

lemma messages_decoded:
  assumes "contents_shrink env" "js_anthropic env body = Some input"
  shows "\<exists>r. ValidateDelegatedMessages env body countTokens = Some r \<and> (\<forall>out. r = Ok out \<longleftrightarrow>
    ar_model input \<noteq> [] \<and> \<not> raw_given (ar_container input) \<and> \<not> raw_given (ar_mcpServers input) \<and> list_all tool_local (ar_tools input)
    \<and> all_inline env (ar_system input # map it_content (ar_messages input)) \<and> out = delegated_messages input countTokens)"
proof -
  obtain r where "contents_loop env (ar_system input # map it_content (ar_messages input)) = Some r"
    and "r = Ok () \<longleftrightarrow> all_inline env (ar_system input # map it_content (ar_messages input))"
    using contents_loop_decides [OF assms(1)] by blast
  then show ?thesis using assms(2) by (cases r) (auto simp: ValidateDelegatedMessages_def)
qed

text \<open>C22. The check of a Messages request ends. The loop over contents puts the contents of every part back
  on its stack, with no bound on their number or depth; since the raw fields of a decoded array are disjoint parts
  of its text, the text that is left shrinks, or stays as it is while the stack gets shorter. So every
  request body gets an answer, a delegated request or an error.\<close>

theorem messages_check_ends:
  assumes "contents_shrink env"
  shows "\<exists>r. ValidateDelegatedMessages env body countTokens = Some r"
proof (cases "js_anthropic env body")
  case (Some input)
  then show ?thesis using messages_decoded [OF assms Some] by blast
qed (simp add: ValidateDelegatedMessages_def)

text \<open>C21. Delegated Messages requests are admitted exactly if they are inline: the request decodes and names a
  model, uses no container or hosted server, each of its tools is of a kind that the client runs, and no array of
  blocks, at whatever depth below the system prompt and the messages, in a block or in its source, fails to
  decode or has a block that is a file or container upload, or names a file, itself or in its source. A content that
  is no array is a text and holds no block. What is passed on is the model, the stream flag and the endpoint
  alone.\<close>

theorem delegated_messages_exact:
  assumes "contents_shrink env"
  shows "ValidateDelegatedMessages env body countTokens = Some (Ok out) \<longleftrightarrow>
    (\<exists>input. js_anthropic env body = Some input \<and> ar_model input \<noteq> []
       \<and> ar_container input \<in> {[], ''null''} \<and> ar_mcpServers input \<in> {[], ''null''}
       \<and> (\<forall>t\<in>set (ar_tools input). client_tool (tl_type t))
       \<and> (\<forall>c\<in>{ar_system input} \<union> it_content ` set (ar_messages input).
            \<not> undecodable env c \<and> (\<forall>p. block_in env c p \<longrightarrow> \<not> provider_kept p))
       \<and> out = \<lparr>dr_endpoint = (if countTokens then ''/messages/count_tokens'' else ''/messages''), dr_nativeTools = False,
           dr_model = ar_model input, dr_stream = ar_stream input, dr_store = None, dr_background = False, dr_previousResponseID = [],
           dr_conversation = [], dr_prompt = [], dr_webSearchOptions = [], dr_tools = [], dr_input = [], dr_messages = []\<rparr>)"
proof (cases "js_anthropic env body")
  case (Some input)
  let ?cs = "ar_system input # map it_content (ar_messages input)"
  have "ValidateDelegatedMessages env body countTokens = Some (Ok out) \<longleftrightarrow>
      ar_model input \<noteq> [] \<and> \<not> raw_given (ar_container input) \<and> \<not> raw_given (ar_mcpServers input) \<and> list_all tool_local (ar_tools input)
      \<and> all_inline env ?cs \<and> out = delegated_messages input countTokens"
    using messages_decoded [OF assms Some, of countTokens] by auto
  moreover have "\<not> raw_given s \<longleftrightarrow> s \<in> {[], ''null''}" for s by (auto simp: raw_given_def)
  moreover have "set ?cs = {ar_system input} \<union> it_content ` set (ar_messages input)" by simp
  moreover have "''/messages'' @ (if countTokens then ''/count_tokens'' else []) = (if countTokens then ''/messages/count_tokens'' else ''/messages'')"
    by simp
  ultimately show ?thesis
    unfolding all_inline_blocks list_all_iff local_client delegated_messages_def Some option.inject by simp
qed (simp add: ValidateDelegatedMessages_def)

text \<open>A decoder of one request, whose system prompt nests a text in an array and whose message is a file.\<close>

definition sample_part :: "string \<Rightarrow> string \<Rightarrow> anthropicContent" where
  "sample_part fileID content = \<lparr>ac_type = ''text'', ac_fileID = fileID, ac_source = None, ac_content = content\<rparr>"

definition sample_message :: "string \<Rightarrow> inferenceInputItem" where
  "sample_message content = \<lparr>it_id = [], it_type = [], it_content = content, it_output = [], it_audio = [], it_execution = [], it_tools = []\<rparr>"

definition sample_anthropic :: "string \<Rightarrow> anthropicRequest" where
  "sample_anthropic content = \<lparr>ar_model = ''m'', ar_stream = True, ar_container = [], ar_mcpServers = ''null'',
     ar_tools = [Tool ''bash_1'' [] []], ar_messages = [sample_message content], ar_system = ''[[x]]''\<rparr>"

definition sample_json :: json_env where
  "sample_json = \<lparr>js_request = Map.empty, js_items = Map.empty, js_parts = Map.empty, js_part = Map.empty,
     js_anthropic = (\<lambda>s. if s = ''inline'' then Some (sample_anthropic ''hi'')
       else if s = ''stored'' then Some (sample_anthropic ''[f]'') else None),
     js_contents = (\<lambda>s. if s = ''[[x]]'' then Some [sample_part [] ''[x]''] else if s = ''[x]'' then Some [sample_part [] ''x'']
       else if s = ''[f]'' then Some [sample_part ''f'' []] else None)\<rparr>"

lemma sample_shrinks: "contents_shrink sample_json"
  by (auto simp: contents_shrink_def sample_json_def sample_part_def nested_contents_def split: if_splits)

theorem messages_check_ends_witness:
  "contents_shrink sample_json \<and> (\<exists>r. ValidateDelegatedMessages sample_json ''inline'' True = Some r)"
  using messages_check_ends [OF sample_shrinks, of "''inline''" True] sample_shrinks by blast

lemma sample_js:
  "js_anthropic sample_json s = (if s = ''inline'' then Some (sample_anthropic ''hi'')
      else if s = ''stored'' then Some (sample_anthropic ''[f]'') else None)"
  "js_contents sample_json s = (if s = ''[[x]]'' then Some [sample_part [] ''[x]''] else if s = ''[x]'' then Some [sample_part [] ''x'']
      else if s = ''[f]'' then Some [sample_part ''f'' []] else None)"
  by (simp_all add: sample_json_def)

lemmas sample_loop = contents_loop.simps [of sample_json] sample_js sample_anthropic_def sample_message_def sample_part_def
  is_array_def raw_given_def tool_local_def content_stored_def nested_contents_def delegated_messages_def HasPrefix_def

lemma sample_accepted: "ValidateDelegatedMessages sample_json ''inline'' True = Some (Ok (delegated_messages (sample_anthropic ''hi'') True))"
  by (simp add: ValidateDelegatedMessages_def sample_loop)

lemma sample_refused: "ValidateDelegatedMessages sample_json ''stored'' True
    = Some (Err ''provider files are unavailable; provide inline content or a URL'')"
  by (simp add: ValidateDelegatedMessages_def sample_loop)

lemma sample_nested: "block_in sample_json ''[[x]]'' (sample_part [] ''x'')"
proof (rule block_in.of_block)
  show "block_in sample_json ''[[x]]'' (sample_part [] ''[x]'')" by (rule block_in.element) (auto simp: sample_js)
  show "block_in sample_json (ac_content (sample_part [] ''[x]'')) (sample_part [] ''x'')"
    by (rule block_in.element) (auto simp: sample_js sample_part_def)
qed

lemma sample_kept: "block_in sample_json ''[f]'' (sample_part ''f'' [])" "provider_kept (sample_part ''f'' [])"
  by (auto simp: sample_js sample_part_def intro: block_in.element provider_kept.file_id)

theorem delegated_messages_exact_witness:
  "contents_shrink sample_json \<and> block_in sample_json ''[[x]]'' (sample_part [] ''x'') \<and> \<not> provider_kept (sample_part [] ''x'')
   \<and> \<not> undecodable sample_json ''[[x]]'' \<and> client_tool ''bash_1'' \<and> \<not> (\<exists>out. ValidateDelegatedMessages sample_json ''stored'' True = Some (Ok out))"
proof -
  have "\<not> provider_kept (sample_part [] ''x'') \<and> \<not> undecodable sample_json ''[[x]]'' \<and> client_tool ''bash_1''"
    using sample_accepted sample_nested
      delegated_messages_exact [OF sample_shrinks, of "''inline''" True "delegated_messages (sample_anthropic ''hi'') True"]
    by (auto simp: sample_json_def sample_anthropic_def)
  moreover have "ValidateDelegatedMessages sample_json ''stored'' True \<noteq> Some (Ok out)" for out
    using sample_kept delegated_messages_exact [OF sample_shrinks, of "''stored''" True out]
    by (auto simp: sample_js sample_anthropic_def sample_message_def)
  ultimately show ?thesis using sample_shrinks sample_nested by blast
qed

subsection \<open>From the request to the provider\<close>

text \<open>An admitted request with tools of a native Responses provider reaches no other kind of provider,
  and a Messages request reaches only a provider that takes Messages.\<close>

lemma provider_Ok: "ValidateProvider_delegated input kd = Ok () \<longleftrightarrow> dr_endpoint input \<in> set (DelegatedProviderEndpoints kd)
    \<and> (dr_nativeTools input \<longrightarrow> kd \<in> {''OpenAI'', ''Azure'', ''OpenAICodex''}) \<and> (kd = ''OpenAICodex'' \<longrightarrow> dr_stream input)"
  unfolding ValidateProvider_delegated_def Let_def
  by (cases "DelegatedProviderEndpoints kd = []"; cases "kd = ''OpenAICodex''") (simp_all del: insert_iff)

lemma native_request_provider:
  assumes "ValidateDelegatedRequest env body responses = Ok out" "ValidateProvider_delegated out kd = Ok ()"
    and "js_request env body = Some input" "uses_native env responses input"
  shows "kd \<in> {''OpenAI'', ''Azure'', ''OpenAICodex''}"
proof -
  have "dr_nativeTools out" using assms(1,3,4) delegated_request_Ok [of env body responses out] by auto
  with assms(2) show ?thesis unfolding provider_Ok by blast
qed

lemma messages_endpoint: "ValidateDelegatedMessages env body countTokens = Some (Ok out) \<Longrightarrow>
    dr_endpoint out = ''/messages'' @ (if countTokens then ''/count_tokens'' else [])"
  by (auto simp: ValidateDelegatedMessages_def delegated_messages_def simp del: append.simps split: option.splits sum.splits if_split_asm)

lemma messages_kinds: "''/messages'' @ (if countTokens then ''/count_tokens'' else []) \<in> set (DelegatedProviderEndpoints kd)
    \<Longrightarrow> kd \<in> {''Anthropic'', ''AnthropicCompatible'', ''OpenAI'', ''OpenAICompatible'', ''Azure'', ''Bedrock''}"
  by (cases countTokens; simp add: DelegatedProviderEndpoints_def split: if_split_asm; elim disjE; simp)

lemma messages_provider:
  "\<lbrakk> ValidateDelegatedMessages env body countTokens = Some (Ok out); ValidateProvider_delegated out kd = Ok () \<rbrakk>
    \<Longrightarrow> kd \<in> {''Anthropic'', ''AnthropicCompatible'', ''OpenAI'', ''OpenAICompatible'', ''Azure'', ''Bedrock''}"
  using messages_kinds messages_endpoint unfolding provider_Ok by metis

end
