(* ===== verification/Bytes.thy ===== *)
theory Bytes
  imports Text
begin

section \<open>Replacement and relative paths\<close>

text \<open>
  What the components of workflows and skills use beyond \<open>Prelude\<close> and \<open>Text\<close>:
  \<open>strings.ReplaceAll\<close> for a pattern that is not empty, and \<open>io/fs.ValidPath\<close>.
\<close>

function ReplaceAll :: "string \<Rightarrow> string \<Rightarrow> string \<Rightarrow> string" where
  "ReplaceAll old new s =
     (if s = [] \<or> old = [] then s
      else if HasPrefix s old then new @ ReplaceAll old new (drop (length old) s)
      else hd s # ReplaceAll old new (tl s))"
  by pat_completeness auto
termination
  by (relation "measure (\<lambda>(old, new, s). length s)") auto

declare ReplaceAll.simps [simp del]

lemma ReplaceAll_Nil [simp]: "ReplaceAll old new [] = []"
  by (simp add: ReplaceAll.simps)

lemma ReplaceAll_step: "old \<noteq> [] \<Longrightarrow> \<not> HasPrefix (c # s) old \<Longrightarrow> ReplaceAll old new (c # s) = c # ReplaceAll old new s"
  by (simp add: ReplaceAll.simps)

lemma ReplaceAll_hit: "old \<noteq> [] \<Longrightarrow> ReplaceAll old new (old @ s) = new @ ReplaceAll old new s"
  by (subst ReplaceAll.simps) simp

lemma HasPrefix_Cons [simp]: "HasPrefix (c # s) (d # p) \<longleftrightarrow> c = d \<and> HasPrefix s p"
  by (auto simp: HasPrefix_def)

lemma HasPrefix_Nil [simp]: "HasPrefix s []" "HasPrefix [] p \<longleftrightarrow> p = []"
  by (auto simp: HasPrefix_def)

text \<open>Replacing what does not occur changes nothing.\<close>

lemma ReplaceAll_absent: "c \<in> set old \<Longrightarrow> c \<notin> set s \<Longrightarrow> ReplaceAll old new s = s"
proof (induction s)
  case (Cons d s)
  have "\<not> HasPrefix (d # s) old"
  proof
    assume "HasPrefix (d # s) old"
    then obtain t where "d # s = old @ t" by (auto simp: HasPrefix_iff simp del: HasPrefix_Cons)
    with Cons(2,3) show False by (metis UnI1 set_append)
  qed
  moreover have "old \<noteq> []" using Cons(2) by auto
  ultimately show ?case using Cons by (auto simp: ReplaceAll_step)
qed simp

definition ValidPath :: "string \<Rightarrow> bool" where
  "ValidPath name \<longleftrightarrow> ValidString name
     \<and> (name = ''.'' \<or> list_all (\<lambda>e. e \<noteq> [] \<and> e \<noteq> ''.'' \<and> e \<noteq> ''..'') (Split slash name))"

lemma Split_append_slash: "Split sep (s @ sep # t) = Split sep s @ Split sep t"
proof (induction s)
  case (Cons c s)
  then show ?case by (cases "Split sep s") auto
qed simp

end
