(* ===== verification/WorkflowInputs.thy ===== *)
theory WorkflowInputs
  imports Bytes Complex_Main
begin

section \<open>Inputs of workflows\<close>

text \<open>
  The input contract of a workflow (\<open>internal/workflow/inputs.go\<close>): the check of a definition when a
  workflow is created, and of values when it is run. The JSON schema library
  (\<open>santhosh-tekuri/jsonschema\<close>) is an argument: decoding of a text, adding and compiling a schema
  document, and validating a value, which answers with the output units of its basic output format.
  A JSON object is the list of its entries, and a Go map of inputs the list of its entries by sorted
  name, which is the order in which both loops visit them. Finite floating-point numbers are
  rationals. A decoded schema always encodes again, so \<open>schemaDocument\<close> has no error here.
\<close>

datatype json =
    JNull
  | JBool bool
  | JNumber rat
  | JString string
  | JArray "json list"
  | JObject "(string \<times> json) list"

record WorkflowInputSchema =
  wi_default :: "json option"
  wi_description :: "string option"
  wi_enum :: "json list option"
  wi_exclusiveMaximum :: "rat option"
  wi_exclusiveMinimum :: "rat option"
  wi_format :: "string option"
  wi_maxLength :: "int option"
  wi_maximum :: "rat option"
  wi_minLength :: "int option"
  wi_minimum :: "rat option"
  wi_multipleOf :: "rat option"
  wi_pattern :: "string option"
  wi_required :: bool
  wi_type :: string

type_synonym WorkflowInputs = "(string \<times> WorkflowInputSchema) list"

record WorkflowArbitraryJSON =
  aj_default_payload :: "json option"
  aj_description :: "string option"

type_synonym input_issue = "string \<times> string"

record output_unit =
  ou_error :: "string option"
  ou_location :: string

text \<open>What \<open>Schema.Validate\<close> returns: nothing, an error of another type, or a validation error with the
  error, the location and the units of its output.\<close>

datatype validation =
    Valid
  | OtherError string
  | ValidationError "string option" string "output_unit list"

record 'sch schema_env =
  sl_decode :: "string \<Rightarrow> json option"
  sl_encode :: "json \<Rightarrow> (string, string) result"
  sl_embedded :: "(string, json) result"
  sl_add :: "string \<Rightarrow> json \<Rightarrow> string option"
  sl_compile :: "string \<Rightarrow> json \<Rightarrow> (string, 'sch) result"
  sl_validate :: "'sch \<Rightarrow> json \<Rightarrow> validation"

definition draft202012SchemaURL :: string where
  "draft202012SchemaURL = ''https://json-schema.org/draft/2020-12/schema''"

subsection \<open>Schema documents\<close>

definition field_of :: "string \<Rightarrow> ('a \<Rightarrow> json) \<Rightarrow> 'a option \<Rightarrow> (string \<times> json) list" where
  "field_of name f v = (case v of None \<Rightarrow> [] | Some x \<Rightarrow> [(name, f x)])"

definition schemaDocument :: "WorkflowInputSchema \<Rightarrow> (string \<times> json) list" where
  "schemaDocument s =
     field_of ''default'' id (wi_default s) @ field_of ''description'' JString (wi_description s)
     @ field_of ''enum'' JArray (wi_enum s)
     @ field_of ''exclusiveMaximum'' JNumber (wi_exclusiveMaximum s) @ field_of ''exclusiveMinimum'' JNumber (wi_exclusiveMinimum s)
     @ field_of ''format'' JString (wi_format s) @ field_of ''maxLength'' (JNumber \<circ> of_int) (wi_maxLength s)
     @ field_of ''maximum'' JNumber (wi_maximum s) @ field_of ''minLength'' (JNumber \<circ> of_int) (wi_minLength s)
     @ field_of ''minimum'' JNumber (wi_minimum s) @ field_of ''multipleOf'' JNumber (wi_multipleOf s)
     @ field_of ''pattern'' JString (wi_pattern s)
     @ [(''required'', JBool (wi_required s)), (''type'', JString (wi_type s))]"

definition valueSchemaDocument :: "(string \<times> json) list \<Rightarrow> json" where
  "valueSchemaDocument doc =
     JObject ((''$schema'', JString draft202012SchemaURL) # filter (\<lambda>(k, _). k \<noteq> ''$schema'' \<and> k \<noteq> ''required'') doc)"

definition objectSchemaDocument :: "WorkflowInputs \<Rightarrow> json" where
  "objectSchemaDocument inputs =
     (let required = map fst (filter (wi_required \<circ> snd) inputs) in
      JObject ([(''$schema'', JString draft202012SchemaURL), (''type'', JString ''object''), (''additionalProperties'', JBool False),
          (''properties'', JObject (map (\<lambda>(name, s). (name, valueSchemaDocument (schemaDocument s))) inputs))]
        @ (if length required > 0 then [(''required'', JArray (map JString required))] else [])))"

definition compileSchema :: "('sch, 'a) schema_env_scheme \<Rightarrow> string \<Rightarrow> json \<Rightarrow> (string, 'sch) result" where
  "compileSchema env name doc =
     (case sl_add env name doc of
        Some e \<Rightarrow> Err (''load schema: '' @ e)
      | None \<Rightarrow> (case sl_compile env name doc of Inl e \<Rightarrow> Err (''compile schema: '' @ e) | Inr s \<Rightarrow> Ok s))"

definition loadDefinitionSchema :: "('sch, 'a) schema_env_scheme \<Rightarrow> (string, 'sch) result" where
  "loadDefinitionSchema env =
     (case sl_embedded env of
        Inl e \<Rightarrow> Err (''decode workflow input definition schema: '' @ e)
      | Inr doc \<Rightarrow>
          (case compileSchema env ''workflow-input-definition.json'' doc of
             Inl e \<Rightarrow> Err (''compile workflow input definition schema: '' @ e)
           | Inr s \<Rightarrow> Ok s))"

subsection \<open>Issues\<close>

definition joinField :: "string \<Rightarrow> string \<Rightarrow> string" where
  "joinField fieldPrefix instanceLocation =
     (if instanceLocation = [] \<or> instanceLocation = ''/'' then fieldPrefix
      else foldl (\<lambda>built part. built @ (if length built > 0 then ''.'' else [])
             @ ReplaceAll ''~0'' ''~'' (ReplaceAll ''~1'' ''/'' part))
           fieldPrefix (Split slash (TrimPrefix instanceLocation ''/'')))"

definition aggregate_messages :: "string list" where
  "aggregate_messages = map (\<lambda>w. CHR 0x27 # w @ CHR 0x27 # '' failed'') [''allOf'', ''anyOf'', ''oneOf'', ''not'']"

definition unit_issues :: "string list \<Rightarrow> string \<Rightarrow> output_unit list \<Rightarrow> input_issue list" where
  "unit_issues skipped fieldPrefix units =
     concat (map (\<lambda>u. case ou_error u of
         None \<Rightarrow> []
       | Some m \<Rightarrow> if m \<in> set skipped then [] else [(joinField fieldPrefix (ou_location u), m)]) units)"

definition validateValue :: "('sch, 'a) schema_env_scheme \<Rightarrow> 'sch \<Rightarrow> json \<Rightarrow> string \<Rightarrow> input_issue list" where
  "validateValue env schema value fieldPrefix =
     (case sl_validate env schema value of
        Valid \<Rightarrow> []
      | OtherError e \<Rightarrow> [(fieldPrefix, e)]
      | ValidationError err location errors \<Rightarrow>
          (case (errors, err) of
             ([], Some m) \<Rightarrow> [(joinField fieldPrefix location, m)]
           | _ \<Rightarrow>
               (let issues = unit_issues aggregate_messages fieldPrefix errors in
                if length issues > 0 then issues else unit_issues [] fieldPrefix errors)))"

definition above :: "('a \<Rightarrow> 'a \<Rightarrow> bool) \<Rightarrow> 'a option \<Rightarrow> 'a option \<Rightarrow> bool" where
  "above r lo hi \<longleftrightarrow> (case (lo, hi) of (Some a, Some b) \<Rightarrow> r b a | _ \<Rightarrow> False)"

definition validateSchemaRelationships :: "WorkflowInputSchema \<Rightarrow> string \<Rightarrow> input_issue list" where
  "validateSchemaRelationships s fieldPrefix =
     issue (above (<) (wi_minLength s) (wi_maxLength s)) (fieldPrefix, ''minLength must be less than or equal to maxLength'')
     @ issue (above (<) (wi_minimum s) (wi_maximum s)) (fieldPrefix, ''minimum must be less than or equal to maximum'')
     @ issue (above (\<le>) (wi_exclusiveMinimum s) (wi_exclusiveMaximum s))
         (fieldPrefix, ''exclusiveMinimum must be less than exclusiveMaximum'')"

definition jsonValueIssues :: "('sch, 'a) schema_env_scheme \<Rightarrow> string \<Rightarrow> string \<Rightarrow> input_issue list" where
  "jsonValueIssues env raw0 fieldPrefix =
     (if length raw0 = 0 then []
      else case sl_decode env raw0 of Some _ \<Rightarrow> [] | None \<Rightarrow> [(fieldPrefix, ''must be valid json'')])"

subsection \<open>Definitions\<close>

definition validateArbitraryJSON :: "('sch, 'a) schema_env_scheme \<Rightarrow> WorkflowArbitraryJSON \<Rightarrow> (string, input_issue list) result" where
  "validateArbitraryJSON env a =
     (if (case aj_description a of None \<Rightarrow> False | Some d \<Rightarrow> TrimSpace d = [])
      then Ok [(''arbitrary_json.description'', ''must not be empty'')]
      else case aj_default_payload a of
        None \<Rightarrow> Ok []
      | Some payload \<Rightarrow>
          (case sl_encode env payload of
             Inl e \<Rightarrow> Err (''marshal arbitrary json default payload: '' @ e)
           | Inr raw0 \<Rightarrow> Ok (jsonValueIssues env raw0 ''arbitrary_json.default_payload'')))"

definition input_schema_name :: "string \<Rightarrow> string" where
  "input_schema_name name = ''workflow-input-'' @ name @ ''.json''"

definition value_issues :: "('sch, 'a) schema_env_scheme \<Rightarrow> string \<Rightarrow> (string \<times> json) list \<Rightarrow> string \<Rightarrow> input_issue list" where
  "value_issues env name doc inputField =
     (case compileSchema env (input_schema_name name) (valueSchemaDocument doc) of
        Inl e \<Rightarrow> [(inputField, e)]
      | Inr valueSchema \<Rightarrow>
          (case map_of doc ''default'' of None \<Rightarrow> [] | Some v \<Rightarrow> validateValue env valueSchema v (inputField @ ''.default''))
          @ (case map_of doc ''enum'' of
               Some (JArray vs) \<Rightarrow> concat_index 0 (\<lambda>i v. validateValue env valueSchema v (inputField @ ''.enum.'' @ itoa i)) vs
             | _ \<Rightarrow> []))"

definition definition_issues ::
  "('sch, 'a) schema_env_scheme \<Rightarrow> 'sch \<Rightarrow> string \<times> WorkflowInputSchema \<Rightarrow> input_issue list" where
  "definition_issues env definitionSchema entry =
     (let name = fst entry; schema = snd entry; inputField = ''inputs.'' @ name; doc = schemaDocument schema in
      if TrimSpace name = [] then [(inputField, ''input name must not be empty'')]
      else let inputIssues = validateValue env definitionSchema (JObject doc) inputField @ validateSchemaRelationships schema inputField in
        inputIssues @ (if length inputIssues > 0 then [] else value_issues env name doc inputField))"

definition ValidateDefinition ::
  "('sch, 'a) schema_env_scheme \<Rightarrow> WorkflowInputs option \<Rightarrow> WorkflowArbitraryJSON option \<Rightarrow> (string, input_issue list) result" where
  "ValidateDefinition env inputs arbitraryJSON =
     (case arbitraryJSON of
        Some a \<Rightarrow>
          if inputs \<noteq> None then Ok [(''arbitrary_json'', ''cannot be used with inputs'')]
          else validateArbitraryJSON env a
      | None \<Rightarrow>
          (case inputs of
             None \<Rightarrow> Ok []
           | Some entries \<Rightarrow>
               (case loadDefinitionSchema env of
                  Inl e \<Rightarrow> Err e
                | Inr definitionSchema \<Rightarrow> Ok (concat (map (definition_issues env definitionSchema) entries)))))"

subsection \<open>Values\<close>

definition workflowInputObject :: "('sch, 'a) schema_env_scheme \<Rightarrow> string \<Rightarrow> string \<Rightarrow> (input_issue, (string \<times> json) list) result" where
  "workflowInputObject env raw0 fieldPrefix =
     (if length raw0 = 0 \<or> TrimSpace raw0 = ''null'' then Ok []
      else case sl_decode env raw0 of
        None \<Rightarrow> Err (fieldPrefix, ''must be valid json'')
      | Some JNull \<Rightarrow> Ok []
      | Some (JObject entries) \<Rightarrow> Ok entries
      | Some _ \<Rightarrow> Err (fieldPrefix, ''must be a json object''))"

definition ValidateValues ::
  "('sch, 'a) schema_env_scheme \<Rightarrow> string \<Rightarrow> WorkflowInputs option \<Rightarrow> WorkflowArbitraryJSON option \<Rightarrow> string
    \<Rightarrow> (string, input_issue list) result" where
  "ValidateValues env raw0 inputs arbitraryJSON fieldPrefix =
     (if arbitraryJSON \<noteq> None then Ok (jsonValueIssues env raw0 fieldPrefix)
      else case workflowInputObject env raw0 fieldPrefix of
        Inl i \<Rightarrow> Ok [i]
      | Inr value \<Rightarrow>
          (case inputs of
             Some (entry # entries) \<Rightarrow>
               (case compileSchema env ''workflow-inputs.json'' (objectSchemaDocument (entry # entries)) of
                  Inl e \<Rightarrow> Err (''compile workflow input contract: '' @ e)
                | Inr schema \<Rightarrow> Ok (validateValue env schema (JObject value) fieldPrefix))
           | _ \<Rightarrow>
               if length value = 0 then Ok []
               else Ok [(fieldPrefix, ''must be empty because the workflow declares no inputs'')]))"

subsection \<open>Field paths\<close>

text \<open>The token of a JSON pointer (RFC 6901).\<close>

definition pointer_escape :: "string \<Rightarrow> string" where
  "pointer_escape t = concat (map (\<lambda>c. if c = CHR ''~'' then ''~0'' else if c = CHR ''/'' then ''~1'' else [c]) t)"

lemma pointer_unescape: "ReplaceAll ''~0'' ''~'' (ReplaceAll ''~1'' ''/'' (pointer_escape t)) = t"
proof -
  have slashes: "ReplaceAll ''~1'' ''/'' (pointer_escape t) = concat (map (\<lambda>c. if c = CHR ''~'' then ''~0'' else [c]) t)"
  proof (induction t)
    case (Cons c t)
    have hit: "ReplaceAll ''~1'' ''/'' (CHR ''~'' # CHR ''1'' # s) = CHR ''/'' # ReplaceAll ''~1'' ''/'' s" for s
      using ReplaceAll_hit [of "''~1''"] by simp
    from Cons show ?case by (auto simp: pointer_escape_def ReplaceAll_step hit)
  qed (simp add: pointer_escape_def)
  have hit: "ReplaceAll ''~0'' ''~'' (CHR ''~'' # CHR ''0'' # s) = CHR ''~'' # ReplaceAll ''~0'' ''~'' s" for s
    using ReplaceAll_hit [of "''~0''"] by simp
  have "ReplaceAll ''~0'' ''~'' (concat (map (\<lambda>c. if c = CHR ''~'' then ''~0'' else [c]) t)) = t"
    by (induction t) (auto simp: ReplaceAll_step hit)
  with slashes show ?thesis by simp
qed

lemma pointer_no_slash: "slash \<notin> set (pointer_escape t)"
  by (auto simp: pointer_escape_def slash_def split: if_splits)

lemma Split_Join_escaped: "ts \<noteq> [] \<Longrightarrow> Split slash (Join [slash] (map pointer_escape ts)) = map pointer_escape ts"
proof (induction ts rule: induct_list012)
  case (2 t)
  have "slash \<notin> set s \<Longrightarrow> Split slash s = [s]" for s by (induction s) auto
  then show ?case by (simp add: pointer_no_slash)
next
  case (3 t u ts)
  have "slash \<notin> set s \<Longrightarrow> Split slash s = [s]" for s by (induction s) auto
  with 3 show ?case by (simp add: Split_append_slash pointer_no_slash)
qed simp

text \<open>The field of an issue names the value that failed: the JSON pointer of a value, with its tokens
  escaped, is turned into the tokens themselves, joined by dots behind the field of the whole value.\<close>

lemma joinField_pointer:
  assumes "fieldPrefix \<noteq> []" "tokens \<noteq> []" "tokens \<noteq> [[]]"
  shows "joinField fieldPrefix (slash # Join [slash] (map pointer_escape tokens)) = Join ''.'' (fieldPrefix # tokens)"
proof -
  have built: "p \<noteq> [] \<Longrightarrow> foldl (\<lambda>built part. built @ (if length built > 0 then ''.'' else [])
        @ ReplaceAll ''~0'' ''~'' (ReplaceAll ''~1'' ''/'' part)) p (map pointer_escape ts) = Join ''.'' (p # ts)" for p ts
  proof (induction ts arbitrary: p)
    case (Cons t ts)
    from Cons.IH [of "p @ ''.'' @ t"] Cons.prems show ?case by (cases ts) (simp_all add: pointer_unescape)
  qed simp
  obtain t ts where ts: "tokens = t # ts" using assms(2) by (cases tokens) auto
  have "pointer_escape t \<noteq> []" if "t \<noteq> []" using that by (cases t) (auto simp: pointer_escape_def)
  with assms(3) ts have "Join [slash] (map pointer_escape tokens) \<noteq> []" by (cases ts) auto
  then show ?thesis
    using built [OF assms(1), of tokens] Split_Join_escaped [OF assms(2)]
    by (simp add: joinField_def TrimPrefix_def slash_def)
qed

subsection \<open>Defaults\<close>

text \<open>A validation error has an error to report, in its units or of its own.\<close>

definition outputs_documented :: "('sch, 'a) schema_env_scheme \<Rightarrow> bool" where
  "outputs_documented env \<longleftrightarrow> (\<forall>s v err location errors. sl_validate env s v = ValidationError err location errors
     \<longrightarrow> (if errors = [] then err \<noteq> None else \<exists>u\<in>set errors. ou_error u \<noteq> None))"

lemma unit_issues_Nil: "unit_issues [] p errors = [] \<longleftrightarrow> (\<forall>u\<in>set errors. ou_error u = None)"
  by (auto simp: unit_issues_def split: option.splits)

lemma validateValue_Nil:
  assumes "outputs_documented env"
  shows "validateValue env s v p = [] \<longleftrightarrow> sl_validate env s v = Valid"
proof (cases "sl_validate env s v")
  case (ValidationError err location errors)
  with assms have "if errors = [] then err \<noteq> None else \<exists>u\<in>set errors. ou_error u \<noteq> None"
    unfolding outputs_documented_def by blast
  with ValidationError show ?thesis
    by (auto simp: validateValue_def unit_issues_Nil Let_def split: list.splits option.splits)
qed (auto simp: validateValue_def)

definition compile_input :: "('sch, 'a) schema_env_scheme \<Rightarrow> string \<Rightarrow> WorkflowInputSchema \<Rightarrow> (string, 'sch) result" where
  "compile_input env name s = compileSchema env (input_schema_name name) (valueSchemaDocument (schemaDocument s))"

text \<open>
  What Draft 2020-12 says of a schema with the keywords \<open>type: object\<close>, \<open>properties\<close>,
  \<open>additionalProperties: false\<close> and, if given, \<open>required\<close>, and nothing else, in whatever order: it
  compiles, as the resource \<open>workflow-inputs.json\<close>, if the schemas of its properties compile on their own, and accepts exactly the
  objects that have the required entries and no entry that is not a property or that the property's own
  schema does not accept. A property's schema must be built from the keywords of a value, as the meaning of a schema
  with references also depends on where it stands.
\<close>

definition value_keywords :: "string list" where
  "value_keywords = [''$schema'', ''type'', ''enum'', ''default'', ''description'', ''format'', ''pattern'', ''minLength'', ''maxLength'',
     ''minimum'', ''maximum'', ''exclusiveMinimum'', ''exclusiveMaximum'', ''multipleOf'']"

definition value_schema :: "json \<Rightarrow> bool" where
  "value_schema doc \<longleftrightarrow> (\<exists>fields. doc = JObject fields \<and> distinct (map fst fields) \<and> fst ` set fields \<subseteq> set value_keywords
     \<and> map_of fields ''$schema'' = Some (JString ''https://json-schema.org/draft/2020-12/schema''))"

definition object_schema :: "(string \<times> json) list \<Rightarrow> string list \<Rightarrow> json \<Rightarrow> bool" where
  "object_schema props required doc \<longleftrightarrow> (\<exists>fields. doc = JObject fields \<and> distinct (map fst fields)
     \<and> fst ` set fields \<subseteq> {''$schema'', ''type'', ''additionalProperties'', ''properties'', ''required''}
     \<and> map_of fields ''$schema'' = Some (JString ''https://json-schema.org/draft/2020-12/schema'')
     \<and> map_of fields ''type'' = Some (JString ''object'') \<and> map_of fields ''additionalProperties'' = Some (JBool False)
     \<and> map_of fields ''properties'' = Some (JObject props)
     \<and> map_of fields ''required'' = (if required = [] then None else Some (JArray (map JString required))))"

definition compiles :: "('sch, 'a) schema_env_scheme \<Rightarrow> json \<Rightarrow> 'sch \<Rightarrow> bool" where
  "compiles env doc sch \<longleftrightarrow> (\<exists>name. compileSchema env name doc = Ok sch)"

definition object_schemas_documented :: "('sch, 'a) schema_env_scheme \<Rightarrow> bool" where
  "object_schemas_documented env \<longleftrightarrow> (\<forall>props required doc. object_schema props required doc
     \<longrightarrow> distinct (map fst props) \<longrightarrow> distinct required \<longrightarrow> (\<forall>(k, d)\<in>set props. value_schema d \<and> (\<exists>sch. compiles env d sch))
     \<longrightarrow> (\<exists>object. compileSchema env ''workflow-inputs.json'' doc = Ok object
       \<and> (\<forall>entries. distinct (map fst entries) \<longrightarrow> (sl_validate env object (JObject entries) = Valid \<longleftrightarrow>
            (\<forall>r\<in>set required. r \<in> fst ` set entries)
            \<and> (\<forall>(k, v)\<in>set entries. \<exists>d sch. map_of props k = Some d \<and> compiles env d sch \<and> sl_validate env sch v = Valid)))))"

lemma map_of_field: "map_of (field_of n f v @ rest) k
    = (if k = n then case v of None \<Rightarrow> map_of rest k | Some x \<Rightarrow> Some (f x) else map_of rest k)"
  by (auto simp: field_of_def split: option.splits)

lemma document_fields:
  "map_of (schemaDocument s) ''default'' = wi_default s"
  "map_of (schemaDocument s) ''enum'' = map_option JArray (wi_enum s)"
proof -
  note fields = schemaDocument_def map_of_field
  show "map_of (schemaDocument s) ''default'' = wi_default s"
    unfolding fields by (cases "wi_default s") simp_all
  show "map_of (schemaDocument s) ''enum'' = map_option JArray (wi_enum s)"
    unfolding fields by (cases "wi_enum s") simp_all
qed

text \<open>The documents that the code builds are such schemas: the schema of an input without its \<open>required\<close>
  flag, and the object of all inputs with the names of the required ones.\<close>

lemma field_keys:
  "k \<in> fst ` set (field_of n f v @ rest) \<longleftrightarrow> v \<noteq> None \<and> k = n \<or> k \<in> fst ` set rest"
  "fst ` set (field_of n f v @ rest) \<subseteq> K \<longleftrightarrow> (v \<noteq> None \<longrightarrow> n \<in> K) \<and> fst ` set rest \<subseteq> K"
  "distinct (map fst (field_of n f v @ rest)) \<longleftrightarrow> distinct (map fst rest) \<and> (v \<noteq> None \<longrightarrow> n \<notin> fst ` set rest)"
  by (auto simp: field_of_def image_iff split: option.splits)

lemma document_keys:
  "distinct (map fst (schemaDocument s))" "''$schema'' \<notin> fst ` set (schemaDocument s)"
  "fst ` set (schemaDocument s) \<subseteq> insert ''required'' (set value_keywords)"
proof -
  show "distinct (map fst (schemaDocument s))" unfolding schemaDocument_def field_keys by simp
  show "''$schema'' \<notin> fst ` set (schemaDocument s)" unfolding schemaDocument_def field_keys by simp
  show "fst ` set (schemaDocument s) \<subseteq> insert ''required'' (set value_keywords)"
    unfolding schemaDocument_def field_keys by (simp add: value_keywords_def)
qed

lemma drop_keys: "A \<subseteq> B - {x, y} \<Longrightarrow> B \<subseteq> insert y V \<Longrightarrow> A \<subseteq> V" "A \<subseteq> B - {x, y} \<Longrightarrow> B \<subseteq> insert y V \<Longrightarrow> x \<notin> A"
  by blast+

lemma input_value_schema: "value_schema (valueSchemaDocument (schemaDocument s))"
proof -
  let ?fs = "filter (\<lambda>(k, _). k \<noteq> ''$schema'' \<and> k \<noteq> ''required'') (schemaDocument s)"
  have rest: "fst ` set ?fs \<subseteq> fst ` set (schemaDocument s) - {''$schema'', ''required''}" by force
  note drop_keys [OF rest document_keys(3)]
  moreover have "distinct (map fst ?fs)" using document_keys(1) by (rule distinct_map_filter)
  moreover have "''$schema'' \<in> set value_keywords" by (simp add: value_keywords_def)
  moreover have "valueSchemaDocument (schemaDocument s) = JObject ((''$schema'', JString draft202012SchemaURL) # ?fs)"
    by (simp only: valueSchemaDocument_def)
  ultimately show ?thesis
    unfolding value_schema_def draft202012SchemaURL_def
    by (intro exI [of _ "(''$schema'', JString ''https://json-schema.org/draft/2020-12/schema'') # ?fs"]) (simp only: list.map distinct.simps fst_conv set_map list.set
        image_insert insert_subset map_of.simps fun_upd_same snd_conv simp_thms)
qed

lemma inputs_object_schema: "object_schema (map (\<lambda>(name, s). (name, valueSchemaDocument (schemaDocument s))) inputs)
    (map fst (filter (wi_required \<circ> snd) inputs)) (objectSchemaDocument inputs)"
  by (simp add: object_schema_def objectSchemaDocument_def draft202012SchemaURL_def Let_def del: map_is_Nil_conv)

definition offered :: "WorkflowInputSchema \<Rightarrow> json \<Rightarrow> bool" where
  "offered s v \<longleftrightarrow> wi_default s = Some v \<or> (\<exists>vs. wi_enum s = Some vs \<and> v \<in> set vs)"

lemma definition_offers:
  assumes "outputs_documented env" "definition_issues env ds (name, s) = []"
  shows "\<exists>vs. compile_input env name s = Ok vs \<and> (\<forall>v. offered s v \<longrightarrow> sl_validate env vs v = Valid)"
proof -
  have v: "value_issues env name (schemaDocument s) (''inputs.'' @ name) = []"
    using assms(2) by (auto simp: definition_issues_def Let_def split: if_splits)
  then obtain vs where vs: "compile_input env name s = Ok vs"
    by (auto simp: value_issues_def compile_input_def split: sum.splits)
  have "sl_validate env vs x = Valid" if "offered s x" for x
    using v vs that unfolding offered_def
    by (auto simp: value_issues_def compile_input_def document_fields validateValue_Nil [OF assms(1)] concat_index_Nil in_set_conv_nth
        split: option.splits)
  with vs show ?thesis by blast
qed

lemma map_of_documents: "map_of (map (\<lambda>(name, s). (name, valueSchemaDocument (schemaDocument s))) inputs) name
    = map_option (\<lambda>s. valueSchemaDocument (schemaDocument s)) (map_of inputs name)"
  by (induction inputs) auto

lemma inputs_compile:
  assumes "object_schemas_documented env" "distinct (map fst inputs)"
    and "\<forall>(name, s)\<in>set inputs. \<exists>sch. compile_input env name s = Ok sch"
  shows "\<exists>object. compileSchema env ''workflow-inputs.json'' (objectSchemaDocument inputs) = Ok object
    \<and> (\<forall>entries. distinct (map fst entries) \<longrightarrow> (sl_validate env object (JObject entries) = Valid \<longleftrightarrow>
        (\<forall>(name, s)\<in>set inputs. wi_required s \<longrightarrow> name \<in> fst ` set entries)
        \<and> (\<forall>(name, v)\<in>set entries. \<exists>s sch. map_of inputs name = Some s
             \<and> compiles env (valueSchemaDocument (schemaDocument s)) sch \<and> sl_validate env sch v = Valid)))"
proof -
  let ?props = "map (\<lambda>(name, s). (name, valueSchemaDocument (schemaDocument s))) inputs"
    and ?required = "map fst (filter (wi_required \<circ> snd) inputs)"
  have "map fst ?props = map fst inputs" by (induction inputs) auto
  then have props: "distinct (map fst ?props)" using assms(2) by (simp only:)
  have required: "distinct ?required" using assms(2) by (rule distinct_map_filter)
  have "\<forall>(k, d)\<in>set ?props. value_schema d \<and> (\<exists>sch. compiles env d sch)"
    using assms(3) input_value_schema by (fastforce simp: compiles_def compile_input_def)
  then obtain object where object: "compileSchema env ''workflow-inputs.json'' (objectSchemaDocument inputs) = Ok object"
    and accepts: "\<forall>entries. distinct (map fst entries) \<longrightarrow> (sl_validate env object (JObject entries) = Valid \<longleftrightarrow>
        (\<forall>r\<in>set ?required. r \<in> fst ` set entries)
        \<and> (\<forall>(k, v)\<in>set entries. \<exists>d sch. map_of ?props k = Some d \<and> compiles env d sch \<and> sl_validate env sch v = Valid))"
    using assms(1) [unfolded object_schemas_documented_def, THEN spec, THEN spec, THEN spec, THEN mp, THEN mp, THEN mp, THEN mp,
        OF inputs_object_schema props required] by blast
  have needed: "(\<forall>r\<in>set ?required. P r) \<longleftrightarrow> (\<forall>(name, s)\<in>set inputs. wi_required s \<longrightarrow> P name)" for P by auto
  have own: "(\<exists>d sch. map_of ?props k = Some d \<and> compiles env d sch \<and> sl_validate env sch v = Valid) \<longleftrightarrow>
      (\<exists>s sch. map_of inputs k = Some s \<and> compiles env (valueSchemaDocument (schemaDocument s)) sch \<and> sl_validate env sch v = Valid)" for k v
    unfolding map_of_documents by auto
  have "sl_validate env object (JObject entries) = Valid \<longleftrightarrow> (\<forall>(name, s)\<in>set inputs. wi_required s \<longrightarrow> name \<in> fst ` set entries)
        \<and> (\<forall>(name, v)\<in>set entries. \<exists>s sch. map_of inputs name = Some s
             \<and> compiles env (valueSchemaDocument (schemaDocument s)) sch \<and> sl_validate env sch v = Valid)"
    if "distinct (map fst entries)" for entries
    unfolding accepts [THEN spec, THEN mp, OF that] needed own by (rule refl)
  with object show ?thesis by blast
qed

text \<open>C24. The values that an accepted definition offers are accepted when the workflow runs. If a workflow's
  input definition passes, then every object built from the defaults and enumerated values of its inputs,
  with all required inputs given, passes the check of the values of a run, although that check compiles
  another schema for all inputs at once: the document that the code builds for them has every input as a
  property with the schema that its values were checked against, and requires exactly the required ones. Of the
  library it is assumed what Draft 2020-12 says of any object schema and that a validation error reports one.\<close>

theorem offered_values_run:
  assumes "outputs_documented env" "object_schemas_documented env" "distinct (map fst inputs)"
    and "ValidateDefinition env (Some inputs) None = Ok []"
    and "workflowInputObject env text p = Ok entries" "distinct (map fst entries)"
    and "\<forall>(name, s)\<in>set inputs. wi_required s \<longrightarrow> name \<in> fst ` set entries"
    and "\<forall>(name, v)\<in>set entries. \<exists>s. (name, s) \<in> set inputs \<and> offered s v"
  shows "ValidateValues env text (Some inputs) None p = Ok []"
proof -
  obtain ds where "\<forall>e\<in>set inputs. definition_issues env ds e = []"
    using assms(4) by (auto simp: ValidateDefinition_def split: sum.splits)
  then have each: "\<exists>vs. compile_input env name s = Ok vs \<and> (\<forall>v. offered s v \<longrightarrow> sl_validate env vs v = Valid)"
    if "(name, s) \<in> set inputs" for name s
    using definition_offers [OF assms(1)] that by blast
  then have "\<forall>(name, s)\<in>set inputs. \<exists>vs. compile_input env name s = Ok vs" by blast
  from inputs_compile [OF assms(2,3) this] obtain object
    where object: "compileSchema env ''workflow-inputs.json'' (objectSchemaDocument inputs) = Ok object"
      and accepts: "\<forall>entries. distinct (map fst entries) \<longrightarrow> (sl_validate env object (JObject entries) = Valid \<longleftrightarrow>
        (\<forall>(name, s)\<in>set inputs. wi_required s \<longrightarrow> name \<in> fst ` set entries)
        \<and> (\<forall>(name, v)\<in>set entries. \<exists>s sch. map_of inputs name = Some s
             \<and> compiles env (valueSchemaDocument (schemaDocument s)) sch \<and> sl_validate env sch v = Valid))"
    by blast
  have "\<exists>s sch. map_of inputs name = Some s \<and> compiles env (valueSchemaDocument (schemaDocument s)) sch \<and> sl_validate env sch v = Valid"
    if "(name, v) \<in> set entries" for name v
    using that assms(3,8) each unfolding compiles_def compile_input_def by (fastforce simp: map_of_eq_Some_iff)
  with assms(6,7) accepts have "sl_validate env object (JObject entries) = Valid" by blast
  moreover have "inputs = [] \<Longrightarrow> entries = []" using assms(8) by (cases entries) auto
  ultimately show ?thesis
    using assms(5) object validateValue_Nil [OF assms(1)] by (cases inputs) (auto simp: ValidateValues_def)
qed

text \<open>A schema library for documents of strings: enough of the object schemas to run the two checks.\<close>

definition leaf_valid :: "(string \<times> json) list \<Rightarrow> json \<Rightarrow> bool" where
  "leaf_valid doc v \<longleftrightarrow> map_of doc ''type'' \<noteq> Some (JString ''string'') \<or> (case v of JString _ \<Rightarrow> True | _ \<Rightarrow> False)"

definition sample_object_valid :: "(string \<times> json) list \<Rightarrow> (string \<times> json) list \<Rightarrow> (string \<times> json) list \<Rightarrow> bool" where
  "sample_object_valid doc props entries \<longleftrightarrow>
     (case map_of doc ''required'' of Some (JArray rs) \<Rightarrow> list_all (\<lambda>r. r \<in> JString ` fst ` set entries) rs | _ \<Rightarrow> True)
     \<and> list_all (\<lambda>(name, v). case map_of props name of Some (JObject d) \<Rightarrow> leaf_valid d v | _ \<Rightarrow> False) entries"

definition sample_validate :: "json \<Rightarrow> json \<Rightarrow> validation" where
  "sample_validate schema v =
     (case schema of
        JObject doc \<Rightarrow>
          if (case (map_of doc ''properties'', v) of
                (Some (JObject props), JObject entries) \<Rightarrow> sample_object_valid doc props entries
              | _ \<Rightarrow> leaf_valid doc v)
          then Valid else OtherError ''invalid''
      | _ \<Rightarrow> Valid)"

definition sample_schemas :: "json schema_env" where
  "sample_schemas = \<lparr>sl_decode = (\<lambda>s. if s = ''{n}'' then Some (JObject [(''n'', JString ''x'')]) else None), sl_encode = (\<lambda>_. Err []),
     sl_embedded = Ok (JObject []), sl_add = (\<lambda>_ _. None), sl_compile = (\<lambda>_ doc. Ok doc), sl_validate = sample_validate\<rparr>"

lemma sample_schemas_simps:
  "compileSchema sample_schemas name doc = Ok doc" "sl_validate sample_schemas = sample_validate"
  by (simp_all add: compileSchema_def sample_schemas_def)

lemma sample_outputs: "outputs_documented sample_schemas"
  by (simp add: outputs_documented_def sample_schemas_simps sample_validate_def split: json.split)

lemma sample_compiles: "compiles sample_schemas d sch \<longleftrightarrow> sch = d"
  by (auto simp: compiles_def sample_schemas_simps)

lemma sample_leaf: "value_schema d \<Longrightarrow> sample_validate d v = Valid \<longleftrightarrow> (case d of JObject fs \<Rightarrow> leaf_valid fs v | _ \<Rightarrow> False)"
proof (unfold value_schema_def, elim exE conjE)
  fix fields
  assume d: "d = JObject fields" "fst ` set fields \<subseteq> set value_keywords"
  then have "map_of fields ''properties'' = None" by (auto simp: value_keywords_def map_of_eq_None_iff)
  with d show "sample_validate d v = Valid \<longleftrightarrow> (case d of JObject fs \<Rightarrow> leaf_valid fs v | _ \<Rightarrow> False)"
    by (simp add: sample_validate_def)
qed

lemma sample_objects: "object_schemas_documented sample_schemas"
proof -
  have "sample_validate doc (JObject entries) = Valid \<longleftrightarrow> (\<forall>r\<in>set required. r \<in> fst ` set entries)
      \<and> (\<forall>(k, v)\<in>set entries. \<exists>d. map_of props k = Some d \<and> sample_validate d v = Valid)"
    if doc: "object_schema props required doc" and props: "\<forall>(k, d)\<in>set props. value_schema d" for doc props required entries
  proof -
    obtain fields where fields: "doc = JObject fields" "map_of fields ''properties'' = Some (JObject props)"
      "map_of fields ''required'' = (if required = [] then None else Some (JArray (map JString required)))"
      using doc unfolding object_schema_def by blast
    have "(case map_of props k of Some (JObject d) \<Rightarrow> leaf_valid d v | _ \<Rightarrow> False) \<longleftrightarrow> (\<exists>d. map_of props k = Some d \<and> sample_validate d v = Valid)" for k v
    proof (cases "map_of props k")
      case (Some d)
      with props have "value_schema d" by (auto dest: map_of_SomeD)
      with Some show ?thesis by (auto simp: sample_leaf split: json.splits)
    qed simp
    then show ?thesis
      by (auto simp: fields sample_validate_def sample_object_valid_def list_all_iff)
  qed
  then show ?thesis
    unfolding object_schemas_documented_def sample_compiles sample_schemas_simps by (fastforce simp: split_def)
qed

definition sample_input :: WorkflowInputSchema where
  "sample_input = \<lparr>wi_default = Some (JString ''x''), wi_description = None, wi_enum = Some [JString ''x'', JString ''y''],
     wi_exclusiveMaximum = None, wi_exclusiveMinimum = None, wi_format = None, wi_maxLength = Some 8, wi_maximum = None,
     wi_minLength = Some 1, wi_minimum = None, wi_multipleOf = None, wi_pattern = None, wi_required = True, wi_type = ''string''\<rparr>"

lemma sample_definition: "ValidateDefinition sample_schemas (Some [(''n'', sample_input)]) None = Ok []"
  by (simp add: ValidateDefinition_def loadDefinitionSchema_def sample_schemas_def compileSchema_def definition_issues_def Let_def
      validateSchemaRelationships_def above_def sample_input_def validateValue_def sample_validate_def value_issues_def
      schemaDocument_def field_of_def valueSchemaDocument_def leaf_valid_def TrimSpace_visible visible_def)

theorem offered_values_run_witness:
  "ValidateValues sample_schemas ''{n}'' (Some [(''n'', sample_input)]) None ''inputs'' = Ok []"
  by (rule offered_values_run [OF sample_outputs sample_objects _ sample_definition])
    (auto simp: workflowInputObject_def sample_schemas_def TrimSpace_visible visible_def offered_def sample_input_def)

end
