(* ===== verification/SkillFile.thy ===== *)
theory SkillFile
  imports Bytes
begin

section \<open>Skill names and SKILL.md\<close>

text \<open>
  The naming contract of skills and the parsing of a \<open>SKILL.md\<close> file (\<open>internal/skill/create.go\<close>, and
  \<open>parseSkillFile\<close>, \<open>splitSkillFile\<close> and \<open>rewriteName\<close> of \<open>archive.go\<close>). YAML
  (\<open>go.yaml.in/yaml/v3\<close>) is an argument: decoding front matter into its fields or into a document of
  nodes, and encoding a mapping node. A node has the fields that the code reads or writes; mapping nodes
  hold their keys and values in turn, as the decoder builds them.
\<close>

datatype ImportIssueKind =
    UnsupportedFileType
  | InvalidArchive
  | InvalidTree
  | MalformedFrontmatter
  | InvalidName
  | InvalidDescription
  | InvalidUTF8
  | LimitExceeded

text \<open>An import fails with an issue, or with an error of its input or output.\<close>

datatype import_error =
    ImportIssue (ii_kind: ImportIssueKind) (ii_path: string) (ii_message: string)
  | Failure string

definition import_error_text :: "import_error \<Rightarrow> string" where
  "import_error_text e =
     (case e of
        ImportIssue kind path message \<Rightarrow> if path = [] then message else path @ '': '' @ message
      | Failure message \<Rightarrow> message)"

record skillFrontmatter =
  fm_name :: string
  fm_description :: string
  fm_license :: string
  fm_compatibility :: string
  fm_metadata :: "(string \<times> string) list"

datatype yaml_node = Node (yn_kind: string) (yn_tag: string) (yn_value: string) (yn_content: "yaml_node list")

record yaml_env =
  ye_frontmatter :: "string \<Rightarrow> skillFrontmatter option"
  ye_document :: "string \<Rightarrow> (string, yaml_node list) result"
  ye_encode :: "yaml_node \<Rightarrow> (string, string) result"

definition skillFileName :: string where
  "skillFileName = ''SKILL.md''"

definition maxSkillBytes :: nat where
  "maxSkillBytes = 64 * 1024"

definition KubernetesDNSLabelMax :: nat where
  "KubernetesDNSLabelMax = 63"

text \<open>The pattern \<open>^[a-z0-9]+(?:-[a-z0-9]+)*$\<close>: parts of lower case letters and digits between hyphens.\<close>

definition skill_name_pattern :: "string \<Rightarrow> bool" where
  "skill_name_pattern s \<longleftrightarrow> list_all (\<lambda>part. part \<noteq> [] \<and> list_all dns_alnum part) (Split (CHR ''-'') s)"

definition ValidateName :: "string \<Rightarrow> (string, unit) result" where
  "ValidateName name =
     (if length name = 0 then Err ''skill name is required''
      else if length name > KubernetesDNSLabelMax
      then Err ''skill names are limited to 63 characters because immutable skills are Kubernetes resources''
      else if \<not> skill_name_pattern name
      then Err ''skill names may contain lowercase ASCII letters, digits, and single hyphens, and cannot start or end with a hyphen''
      else Ok ())"

text \<open>The byte order mark, and the two bytes that end lines.\<close>

definition byte_order_mark :: string where
  "byte_order_mark = [CHR 0xEF, CHR 0xBB, CHR 0xBF]"

definition LF :: char where
  "LF = CHR 0x0A"

definition CR :: char where
  "CR = CHR 0x0D"

definition canonical_lines :: "string \<Rightarrow> string" where
  "canonical_lines content = ReplaceAll [CR] [LF] (ReplaceAll [CR, LF] [LF] (TrimPrefix content byte_order_mark))"

definition fence :: string where
  "fence = ''---'' @ [LF]"

definition splitSkillFile :: "string \<Rightarrow> (string, string \<times> string) result" where
  "splitSkillFile content =
     (if \<not> HasPrefix content fence then Err ''skill frontmatter is required''
      else case str_index (LF # fence) (drop 4 content) of
        None \<Rightarrow> Err ''skill frontmatter is not closed''
      | Some i \<Rightarrow> let end = i + 4 in Ok (drop 4 (take end content), drop (end + 5) content))"

definition parseSkillFile :: "('a) yaml_env_scheme \<Rightarrow> string \<Rightarrow> string \<Rightarrow> (import_error, skillFrontmatter \<times> string) result" where
  "parseSkillFile env name content0 =
     (if length content0 > maxSkillBytes then Err (ImportIssue LimitExceeded name ''SKILL.md exceeds the 64 KiB limit.'')
      else if \<not> ValidString content0 then Err (ImportIssue InvalidUTF8 name ''SKILL.md must be valid UTF-8.'')
      else let content = canonical_lines content0 in
        case splitSkillFile content of
          Inl e \<Rightarrow> Err (ImportIssue MalformedFrontmatter name e)
        | Inr (front, _) \<Rightarrow>
            (case ye_frontmatter env front of
               None \<Rightarrow> Err (ImportIssue MalformedFrontmatter name ''Frontmatter must be valid YAML.'')
             | Some metadata \<Rightarrow>
                 (case ValidateName (fm_name metadata) of
                    Inl e \<Rightarrow> Err (ImportIssue InvalidName name e)
                  | Inr _ \<Rightarrow>
                      let description = TrimSpace (fm_description metadata) in
                      if description = [] \<or> length description > 1024
                      then Err (ImportIssue InvalidDescription name ''Skill description must be 1-1,024 characters.'')
                      else Ok (metadata\<lparr>fm_description := description\<rparr>, content))))"

subsection \<open>Renaming\<close>

fun rename_node :: "string \<Rightarrow> yaml_node list \<Rightarrow> yaml_node list" where
  "rename_node name (k # v # rest) =
     (if yn_value k = ''name'' then k # Node ''scalar'' ''!!str'' name (yn_content v) # rest
      else k # v # rename_node name rest)"
| "rename_node name rest = rest"

definition rewriteName :: "('a) yaml_env_scheme \<Rightarrow> string \<Rightarrow> string \<Rightarrow> (import_error, string) result" where
  "rewriteName env content name =
     (case parseSkillFile env skillFileName content of
        Inl e \<Rightarrow> Err e
      | Inr (_, canonical) \<Rightarrow>
          (case splitSkillFile canonical of
             Inl e \<Rightarrow> Err (Failure e)
           | Inr (front, body) \<Rightarrow>
               (case ye_document env front of
                  Inl e \<Rightarrow> Err (Failure (''decode skill frontmatter: '' @ e))
                | Inr contents \<Rightarrow>
                    if length contents \<noteq> 1 \<or> yn_kind (hd contents) \<noteq> ''mapping'' then Err (Failure ''skill frontmatter must be a mapping'')
                    else let mapping = hd contents in
                      (case ye_encode env (Node (yn_kind mapping) (yn_tag mapping) (yn_value mapping) (rename_node name (yn_content mapping))) of
                         Inl e \<Rightarrow> Err (Failure (''encode skill frontmatter: '' @ e))
                       | Inr text \<Rightarrow>
                           let out = fence @ text @ fence @ body in
                           if length out > maxSkillBytes then Err (Failure ''renamed SKILL.md exceeds the 64 KiB limit'')
                           else map_sum id snd (parseSkillFile env skillFileName out)))))"

subsection \<open>Valid UTF-8\<close>

lemma ValidString_Nil [simp]: "ValidString []"
  by (simp add: ValidString_def runes.simps)

lemma ValidString_rune: "s \<noteq> [] \<Longrightarrow> ValidString s \<longleftrightarrow> (\<exists>n. rune_width s = Some n \<and> ValidString (drop n s))"
  unfolding ValidString_def by (subst runes.simps) (auto split: option.splits)

lemma ValidString_ascii: "is_ascii c \<Longrightarrow> ValidString (c # s) \<longleftrightarrow> ValidString s"
  by (simp add: ValidString_rune rune_width_def)

lemma ValidString_ascii_prefix: "list_all is_ascii p \<Longrightarrow> ValidString (p @ s) \<longleftrightarrow> ValidString s"
  by (induction p) (auto simp: ValidString_ascii)

text \<open>A rune that is not ASCII: its bytes are not, and what follows it does not matter.\<close>

lemma wide_rune:
  assumes "rune_width (c # s) = Some n" "\<not> is_ascii c"
  shows "list_all (\<lambda>d. \<not> is_ascii d) (take n (c # s)) \<and> 1 < n \<and> (\<forall>t. rune_width (take n (c # s) @ t) = Some n)"
proof -
  note d = rune_width_def in_bytes_def in_range_def Let_def
  consider (two) "n = 2" | (three) "n = 3" | (four) "n = 4"
    using assms by (auto simp: d split: if_splits)
  then show ?thesis
  proof cases
    case two
    with assms obtain c1 s1 where "s = c1 # s1" by (cases s) (auto simp: d split: if_splits)
    with two assms show ?thesis by (auto simp: d split: if_splits)
  next
    case three
    with assms have "2 \<le> length s" by (auto simp: d split: if_splits)
    then obtain c1 c2 s1 where "s = c1 # c2 # s1" by (metis Suc_le_length_iff numeral_2_eq_2)
    with three assms show ?thesis by (auto simp: d numeral_3_eq_3 split: if_splits)
  next
    case four
    with assms have "3 \<le> length s" by (auto simp: d split: if_splits)
    then obtain c1 c2 c3 s1 where "s = c1 # c2 # c3 # s1" by (metis Suc_le_length_iff numeral_3_eq_3)
    with four assms show ?thesis by (auto simp: d split: if_splits)
  qed
qed

lemma ReplaceAll_skip: "old \<noteq> [] \<Longrightarrow> hd old \<notin> set p \<Longrightarrow> ReplaceAll old new (p @ s) = p @ ReplaceAll old new s"
proof (induction p)
  case (Cons c p)
  then have "\<not> HasPrefix (c # p @ s) old" by (cases old) auto
  with Cons show ?case by (simp add: ReplaceAll_step)
qed simp

lemma ValidString_ReplaceAll:
  assumes "old \<noteq> []" "list_all is_ascii old" "list_all is_ascii new"
  shows "ValidString s \<Longrightarrow> ValidString (ReplaceAll old new s)"
proof (induction s rule: length_induct)
  case (1 s)
  show ?case
  proof (cases s)
    case (Cons c cs)
    consider (hit) t where "s = old @ t" | (ascii) "\<not> HasPrefix s old" "is_ascii c" | (wide) "\<not> is_ascii c"
      by (auto simp: HasPrefix_iff)
    then show ?thesis
    proof cases
      case hit
      with 1 assms show ?thesis by (simp add: ReplaceAll_hit ValidString_ascii_prefix)
    next
      case ascii
      with 1 Cons show ?thesis by (simp add: ReplaceAll_step assms(1) ValidString_ascii)
    next
      case wide
      obtain n where n: "rune_width s = Some n" "ValidString (drop n s)"
        using 1(2) Cons by (auto simp: ValidString_rune)
      with wide Cons have w: "list_all (\<lambda>d. \<not> is_ascii d) (take n s)" "1 < n" "\<And>t. rune_width (take n s @ t) = Some n"
        using wide_rune [of c cs n] by auto
      have "hd old \<notin> set (take n s)" using w(1) assms(1,2) by (cases old) (auto simp: list_all_iff)
      then have "ReplaceAll old new s = take n s @ ReplaceAll old new (drop n s)"
        using ReplaceAll_skip [OF assms(1), of "take n s" new "drop n s"] by simp
      moreover have "n \<le> length s" using rune_width_bounds [OF n(1)] by simp
      moreover have "ValidString (ReplaceAll old new (drop n s))" using 1(1) n(2) w(2) Cons by simp
      ultimately show ?thesis using w(3) Cons w(2) by (simp add: ValidString_rune)
    qed
  qed simp
qed

lemma length_ReplaceAll: "length new \<le> length old \<Longrightarrow> length (ReplaceAll old new s) \<le> length s"
proof (induction old new s rule: ReplaceAll.induct)
  case (1 old new s)
  show ?case
  proof (cases "s = [] \<or> old = []")
    case False
    then show ?thesis
    proof (cases "HasPrefix s old")
      case True
      then obtain t where t: "s = old @ t" by (auto simp: HasPrefix_iff)
      have "length (ReplaceAll old new (drop (length old) s)) \<le> length (drop (length old) s)"
        using False True 1(1,3) by blast
      with False t 1(3) show ?thesis by (simp add: ReplaceAll_hit)
    next
      case no: False
      have "length (ReplaceAll old new (tl s)) \<le> length (tl s)" using False no 1(2,3) by blast
      with False no show ?thesis by (cases s) (simp_all add: ReplaceAll_step)
    qed
  qed (simp add: ReplaceAll.simps)
qed

lemma ReplaceAll_byte: "ReplaceAll [c] [d] s = map (\<lambda>x. if x = c then d else x) s"
  by (induction s) (auto simp: ReplaceAll_step ReplaceAll_hit [of "[c]", simplified])

lemma line_ends [simp]: "is_ascii CR" "is_ascii LF" "CR \<noteq> LF"
  by (simp_all add: CR_def LF_def)

lemma canonical_no_CR: "CR \<notin> set (canonical_lines s)"
  by (auto simp: canonical_lines_def ReplaceAll_byte split: if_splits)

lemma canonical_valid: "ValidString s \<Longrightarrow> ValidString (canonical_lines s)"
proof -
  assume v: "ValidString s"
  have "ValidString (TrimPrefix s byte_order_mark)"
  proof (cases "HasPrefix s byte_order_mark")
    case True
    then obtain t where t: "s = byte_order_mark @ t" by (auto simp: HasPrefix_iff)
    have "rune_width s = Some 3" by (simp add: t byte_order_mark_def rune_width_def in_bytes_def in_range_def Let_def)
    with v t show ?thesis by (auto simp: ValidString_rune byte_order_mark_def TrimPrefix_def)
  qed (use v in \<open>simp add: TrimPrefix_def\<close>)
  then show ?thesis unfolding canonical_lines_def by (intro ValidString_ReplaceAll) auto
qed

lemma length_canonical: "length (canonical_lines s) \<le> length s"
proof -
  have "length (canonical_lines s) \<le> length (ReplaceAll [CR, LF] [LF] (TrimPrefix s byte_order_mark))"
    unfolding canonical_lines_def by (rule length_ReplaceAll) simp
  also have "\<dots> \<le> length (TrimPrefix s byte_order_mark)" by (rule length_ReplaceAll) simp
  finally show ?thesis by (simp add: TrimPrefix_def split: if_splits)
qed

lemma canonical_fixed: "CR \<notin> set c \<Longrightarrow> HasPrefix c fence \<Longrightarrow> canonical_lines c = c"
proof -
  assume c: "CR \<notin> set c" "HasPrefix c fence"
  then have "\<not> HasPrefix c byte_order_mark" by (cases c) (auto simp: fence_def byte_order_mark_def)
  with c(1) show ?thesis
    unfolding canonical_lines_def
    by (simp add: TrimPrefix_def ReplaceAll_absent [of CR "[CR, LF]"] ReplaceAll_absent [of CR "[CR]"])
qed

lemma split_fence: "splitSkillFile c = Ok x \<Longrightarrow> HasPrefix c fence"
  by (auto simp: splitSkillFile_def split: if_splits)

lemma parseSkillFile_Ok: "parseSkillFile env name content = Ok (m, c) \<longleftrightarrow>
    length content \<le> maxSkillBytes \<and> ValidString content \<and> c = canonical_lines content
    \<and> (\<exists>front body raw_m. splitSkillFile c = Ok (front, body) \<and> ye_frontmatter env front = Some raw_m
      \<and> ValidateName (fm_name raw_m) = Ok () \<and> m = raw_m\<lparr>fm_description := TrimSpace (fm_description raw_m)\<rparr>
      \<and> fm_description m \<noteq> [] \<and> length (fm_description m) \<le> 1024)"
  by (cases "splitSkillFile (canonical_lines content)")
    (auto simp: parseSkillFile_def Let_def split: option.splits sum.splits if_splits)

text \<open>A stored skill file is a fixed point of the parser. What an import keeps of a \<open>SKILL.md\<close> file is read
  again when the archive is checked a second time and when the skill is deployed to an Agent; each time
  it gives the same metadata and the same bytes, which are valid UTF-8 without carriage returns and within
  the size limit.\<close>

lemma stored_skill_file_fixed:
  assumes "parseSkillFile env name content = Ok (m, c)"
  shows "parseSkillFile env name' c = Ok (m, c) \<and> ValidString c \<and> CR \<notin> set c \<and> length c \<le> maxSkillBytes"
proof -
  from assms have c: "length content \<le> maxSkillBytes" "ValidString content" "c = canonical_lines content"
    and s: "\<exists>x. splitSkillFile c = Ok x" by (auto simp: parseSkillFile_Ok)
  have "canonical_lines c = c" using s split_fence canonical_no_CR c(3) by (metis canonical_fixed)
  moreover have "length c \<le> maxSkillBytes" using length_canonical [of content] c by simp
  ultimately show ?thesis
    using assms canonical_valid [OF c(2)] canonical_no_CR [of content] c(3) by (auto simp: parseSkillFile_Ok)
qed

lemma skill_name_chars: "ValidateName name = Ok () \<Longrightarrow> name \<noteq> [] \<and> length name \<le> 63 \<and> list_all (\<lambda>c. dns_alnum c \<or> c = CHR ''-'') name"
proof -
  assume v: "ValidateName name = Ok ()"
  then have n: "name \<noteq> []" "length name \<le> 63" "skill_name_pattern name"
    by (auto simp: ValidateName_def KubernetesDNSLabelMax_def split: if_splits)
  have "list_all (list_all dns_alnum) (Split h s) \<Longrightarrow> list_all (\<lambda>c. dns_alnum c \<or> c = h) s" for h s
  proof (induction s)
    case (Cons d s)
    obtain p ps where "Split h s = p # ps" by (cases "Split h s") auto
    with Cons show ?case by (cases "d = h") auto
  qed simp
  moreover have "list_all (list_all dns_alnum) (Split (CHR ''-'') name)"
    using n(3) by (auto simp: skill_name_pattern_def list_all_iff)
  ultimately show ?thesis using n by blast
qed

end
