(* ===== verification/WorkflowGraph.thy ===== *)
theory WorkflowGraph
  imports WorkflowInputs SkillFile
begin

section \<open>Workflow graphs\<close>

text \<open>
  The check of a workflow that a client uploads (\<open>internal/gateway/workflow/validate.go\<close>): names, texts
  and input contract, the nodes and edges, and that the graph is acyclic, connected and labelled where it
  branches. The check of DNS labels (\<open>validation.IsDNS1123Label\<close> of Kubernetes), the JSON schema
  library and the order in which Go visits the keys of a map are arguments.

  A Go map of the graph is a total function whose value outside the map is the zero value, as reading it
  gives; the keys that all five maps share are the names. Degrees and counters are \<open>int\<close> and \<open>nat\<close>: they are
  bounded by the number of edges in the request. The two loops over a queue are partial functions, and
  are proved to end.
\<close>

type_synonym api_field = "string \<times> string"

record WorkflowNode =
  nd_doneCriteria :: string
  nd_goal :: string
  nd_instructions :: string
  nd_name :: string
  nd_preferredSkills :: "string list option"
  nd_preferredTools :: "string list option"

record WorkflowEdge =
  ed_branchLabel :: string
  ed_conditionSummary :: string
  ed_source :: string
  ed_target :: string

record CreateWorkflowRequest =
  rq_arbitraryJson :: "WorkflowArbitraryJSON option"
  rq_edges :: "WorkflowEdge list"
  rq_inputs :: "WorkflowInputs option"
  rq_nodes :: "WorkflowNode list"
  rq_replace :: "bool option"
  rq_summary :: string
  rq_title :: string
  rq_workflowName :: string

record 'sch graph_env = "'sch schema_env" +
  ge_dns_label :: "string \<Rightarrow> string list"
  ge_order :: "string list \<Rightarrow> string list"

record workflow_graph =
  wg_names :: "string list"
  wg_inDegree :: "string \<Rightarrow> int"
  wg_outDegree :: "string \<Rightarrow> int"
  wg_undirected :: "string \<Rightarrow> string list"
  wg_adjacency :: "string \<Rightarrow> string list"

subsection \<open>Names\<close>

definition isDNSLabel :: "(string \<Rightarrow> string list) \<Rightarrow> string \<Rightarrow> nat \<Rightarrow> bool" where
  "isDNSLabel dns_label value0 maxLen =
     (let value = TrimSpace value0 in value \<noteq> [] \<and> length value \<le> maxLen \<and> length (dns_label value) = 0)"

definition ValidateLookupRequest :: "(string \<Rightarrow> string list) \<Rightarrow> string \<Rightarrow> string \<Rightarrow> api_field list" where
  "ValidateLookupRequest dns_label agtName wfName =
     issue (\<not> isDNSLabel dns_label agtName 32) (''agentName'', ''must be a valid DNS label'')
     @ issue (\<not> isDNSLabel dns_label wfName 32) (''workflowName'', ''must be a valid DNS label'')"

definition ValidateNodeName :: "(string \<Rightarrow> string list) \<Rightarrow> string \<Rightarrow> api_field list" where
  "ValidateNodeName dns_label name = (if isDNSLabel dns_label name 64 then [] else [(''nodeName'', ''must be a valid DNS label'')])"

definition ValidateListRequest :: "(string \<Rightarrow> string list) \<Rightarrow> string \<Rightarrow> api_field list" where
  "ValidateListRequest dns_label agtName = (if isDNSLabel dns_label agtName 32 then [] else [(''agentName'', ''must be a valid DNS label'')])"

definition ValidateDeleteRequest :: "(string \<Rightarrow> string list) \<Rightarrow> string \<Rightarrow> string list \<Rightarrow> api_field list" where
  "ValidateDeleteRequest dns_label agtName wfNames =
     issue (\<not> isDNSLabel dns_label agtName 32) (''agentName'', ''must be a valid DNS label'')
     @ (if length wfNames = 0 then [(''workflow_names'', ''must include at least one workflow name'')]
        else concat_index 0 (\<lambda>i name. issue (\<not> isDNSLabel dns_label name 32)
               (''workflow_names.'' @ itoa i, ''must be a valid DNS label'')) wfNames)"

subsection \<open>Nodes and edges\<close>

fun preferred_tools_loop :: "string \<Rightarrow> nat \<Rightarrow> string list \<Rightarrow> string list \<Rightarrow> api_field list" where
  "preferred_tools_loop fieldPrefix i seen [] = []"
| "preferred_tools_loop fieldPrefix i seen (toolName # rest) =
     (let field = fieldPrefix @ ''.preferred_tools.'' @ itoa i in
      if toolName = [] then (field, ''must not be empty'') # preferred_tools_loop fieldPrefix (Suc i) seen rest
      else if toolName \<in> set seen then (field, ''must be unique within the node'') # preferred_tools_loop fieldPrefix (Suc i) seen rest
      else preferred_tools_loop fieldPrefix (Suc i) (toolName # seen) rest)"

fun preferred_skills_loop :: "string \<Rightarrow> nat \<Rightarrow> string list \<Rightarrow> string list \<Rightarrow> api_field list" where
  "preferred_skills_loop fieldPrefix i seen [] = []"
| "preferred_skills_loop fieldPrefix i seen (skillName # rest) =
     (let field = fieldPrefix @ ''.preferred_skills.'' @ itoa i in
      if skillName = [] then (field, ''must not be empty'') # preferred_skills_loop fieldPrefix (Suc i) seen rest
      else if ValidateName skillName \<noteq> Ok () then (field, ''must be a valid skill name'') # preferred_skills_loop fieldPrefix (Suc i) seen rest
      else if skillName \<in> set seen then (field, ''must be unique within the node'') # preferred_skills_loop fieldPrefix (Suc i) seen rest
      else preferred_skills_loop fieldPrefix (Suc i) (skillName # seen) rest)"

definition node_issues :: "string \<Rightarrow> WorkflowNode \<Rightarrow> api_field list" where
  "node_issues fieldPrefix node =
     issue (TrimSpace (nd_instructions node) = []) (fieldPrefix @ ''.instructions'', ''required'')
     @ issue (TrimSpace (nd_goal node) = []) (fieldPrefix @ ''.goal'', ''required'')
     @ issue (TrimSpace (nd_doneCriteria node) = []) (fieldPrefix @ ''.done_criteria'', ''required'')
     @ (case nd_preferredTools node of None \<Rightarrow> [] | Some tools \<Rightarrow> preferred_tools_loop fieldPrefix 0 [] tools)
     @ (case nd_preferredSkills node of None \<Rightarrow> [] | Some skills \<Rightarrow> preferred_skills_loop fieldPrefix 0 [] skills)"

text \<open>The loop over nodes reports issues and collects the names that key the maps of the graph.\<close>

fun workflow_nodes_loop :: "(string \<Rightarrow> string list) \<Rightarrow> nat \<Rightarrow> string list \<Rightarrow> WorkflowNode list \<Rightarrow> api_field list \<times> string list" where
  "workflow_nodes_loop dns_label i names [] = ([], names)"
| "workflow_nodes_loop dns_label i names (node # rest) =
     (let name = nd_name node; fieldPrefix = ''nodes.'' @ itoa i in
      if \<not> isDNSLabel dns_label name 64
      then apfst (Cons (fieldPrefix @ ''.name'', ''must be a valid DNS label'')) (workflow_nodes_loop dns_label (Suc i) names rest)
      else if name \<in> set names
      then apfst (Cons (fieldPrefix @ ''.name'', ''must be unique'')) (workflow_nodes_loop dns_label (Suc i) names rest)
      else apfst (append (node_issues fieldPrefix node)) (workflow_nodes_loop dns_label (Suc i) (names @ [name]) rest))"

definition empty_graph :: "string list \<Rightarrow> workflow_graph" where
  "empty_graph names = \<lparr>wg_names = names, wg_inDegree = (\<lambda>_. 0), wg_outDegree = (\<lambda>_. 0),
     wg_undirected = (\<lambda>_. []), wg_adjacency = (\<lambda>_. [])\<rparr>"

definition append_value :: "'k \<Rightarrow> 'v \<Rightarrow> ('k \<Rightarrow> 'v list) \<Rightarrow> 'k \<Rightarrow> 'v list" where
  "append_value k v m = m(k := m k @ [v])"

definition increment :: "'k \<Rightarrow> ('k \<Rightarrow> int) \<Rightarrow> 'k \<Rightarrow> int" where
  "increment k m = m(k := m k + 1)"

definition edge_issues :: "string list \<Rightarrow> nat \<Rightarrow> WorkflowEdge \<Rightarrow> api_field list" where
  "edge_issues names i edge =
     (let fieldPrefix = ''edges.'' @ itoa i; source = ed_source edge; target = ed_target edge in
      issue (source \<notin> set names) (fieldPrefix @ ''.source'', ''must reference an existing node'')
      @ issue (target \<notin> set names) (fieldPrefix @ ''.target'', ''must reference an existing node'')
      @ issue (source = target \<and> source \<noteq> []) (fieldPrefix @ ''.target'', ''must not create a self-loop''))"

definition add_edge :: "WorkflowEdge \<Rightarrow> workflow_graph \<Rightarrow> workflow_graph" where
  "add_edge edge g =
     (let source = ed_source edge; target = ed_target edge;
          g1 = (if source \<in> set (wg_names g)
                then g\<lparr>wg_adjacency := append_value source target (wg_adjacency g), wg_outDegree := increment source (wg_outDegree g)\<rparr>
                else g);
          g2 = (if target \<in> set (wg_names g) then g1\<lparr>wg_inDegree := increment target (wg_inDegree g1)\<rparr> else g1)
      in if source \<in> set (wg_names g) \<and> target \<in> set (wg_names g)
         then g2\<lparr>wg_undirected := append_value target source (append_value source target (wg_undirected g2))\<rparr>
         else g2)"

fun edges_loop :: "nat \<Rightarrow> workflow_graph \<Rightarrow> WorkflowEdge list \<Rightarrow> api_field list \<times> workflow_graph" where
  "edges_loop i g [] = ([], g)"
| "edges_loop i g (edge # rest) = apfst (append (edge_issues (wg_names g) i edge)) (edges_loop (Suc i) (add_edge edge g) rest)"

subsection \<open>Cycles and connectedness\<close>

fun relax :: "(string \<Rightarrow> int) \<Rightarrow> string list \<Rightarrow> string list \<Rightarrow> (string \<Rightarrow> int) \<times> string list" where
  "relax remaining queue [] = (remaining, queue)"
| "relax remaining queue (nextNode # rest) =
     (let remaining' = remaining(nextNode := remaining nextNode - 1) in
      relax remaining' (if remaining' nextNode = 0 then queue @ [nextNode] else queue) rest)"

partial_function (option) kahn_loop ::
  "(string \<Rightarrow> string list) \<Rightarrow> (string \<Rightarrow> int) \<Rightarrow> string list \<Rightarrow> nat \<Rightarrow> nat option" where
  "kahn_loop adjacency remaining queue visited =
     (case queue of
        [] \<Rightarrow> Some visited
      | nodeName # rest \<Rightarrow>
          (case relax remaining rest (adjacency nodeName) of
             (remaining', queue') \<Rightarrow> kahn_loop adjacency remaining' queue' (visited + 1)))"

text \<open>The keys of the map \<open>inDegree\<close> are visited in the given order.\<close>

definition hasCycle :: "(string \<Rightarrow> string list) \<Rightarrow> (string \<Rightarrow> int) \<Rightarrow> string list \<Rightarrow> bool option" where
  "hasCycle adjacency inDegree order =
     map_option (\<lambda>visited. visited \<noteq> length order)
       (kahn_loop adjacency inDegree (filter (\<lambda>nodeName. inDegree nodeName = 0) order) 0)"

fun visit :: "string list \<Rightarrow> string list \<Rightarrow> string list \<Rightarrow> string list \<times> string list" where
  "visit visited queue [] = (visited, queue)"
| "visit visited queue (nextNode # rest) =
     (if nextNode \<in> set visited then visit visited queue rest
      else visit (visited @ [nextNode]) (queue @ [nextNode]) rest)"

partial_function (option) connected_loop :: "(string \<Rightarrow> string list) \<Rightarrow> string list \<Rightarrow> string list \<Rightarrow> nat option" where
  "connected_loop undirected visited queue =
     (case queue of
        [] \<Rightarrow> Some (length visited)
      | nodeName # rest \<Rightarrow>
          (case visit visited rest (undirected nodeName) of
             (visited', queue') \<Rightarrow> connected_loop undirected visited' queue'))"

definition isWeaklyConnected :: "(string \<Rightarrow> string list) \<Rightarrow> nat \<Rightarrow> string \<Rightarrow> bool option" where
  "isWeaklyConnected undirected nodeCount start =
     (if start = [] then Some False
      else map_option (\<lambda>visited. visited = nodeCount) (connected_loop undirected [start] [start]))"

definition countTerminalNodes :: "(string \<Rightarrow> int) \<Rightarrow> string list \<Rightarrow> nat" where
  "countTerminalNodes degrees order = length (filter (\<lambda>n. degrees n = 0) order)"

definition validateBranchConditions :: "WorkflowEdge list \<Rightarrow> (string \<Rightarrow> int) \<Rightarrow> api_field list" where
  "validateBranchConditions edges outDegree =
     concat_index 0 (\<lambda>i edge. issue (outDegree (ed_source edge) > 1 \<and> TrimSpace (ed_conditionSummary edge) = [])
       (''edges.'' @ itoa i @ ''.condition_summary'', ''required when the source node has multiple outgoing edges'')) edges"

subsection \<open>The request\<close>

definition request_issues :: "('sch, 'a) graph_env_scheme \<Rightarrow> string \<Rightarrow> CreateWorkflowRequest \<Rightarrow> api_field list" where
  "request_issues env agtName req =
     issue (\<not> isDNSLabel (ge_dns_label env) agtName 32) (''agentName'', ''must be a valid DNS label'')
     @ issue (\<not> isDNSLabel (ge_dns_label env) (rq_workflowName req) 32) (''workflow_name'', ''must be a valid DNS label'')
     @ issue (TrimSpace (rq_title req) = []) (''title'', ''required'')
     @ issue (TrimSpace (rq_summary req) = []) (''summary'', ''required'')"

definition graph_issues :: "('sch, 'a) graph_env_scheme \<Rightarrow> CreateWorkflowRequest \<Rightarrow> workflow_graph \<Rightarrow> api_field list option" where
  "graph_issues env req g =
     (let order = ge_order env (wg_names g) in
      case hasCycle (wg_adjacency g) (wg_inDegree g) order of
        None \<Rightarrow> None
      | Some cycle \<Rightarrow>
          (case isWeaklyConnected (wg_undirected g) (length (wg_names g)) (nd_name (hd (rq_nodes req))) of
             None \<Rightarrow> None
           | Some whole \<Rightarrow>
               Some (issue cycle (''edges'', ''must form an acyclic graph'')
                 @ issue (\<not> whole) (''nodes'', ''must form one connected graph'')
                 @ issue (countTerminalNodes (wg_inDegree g) order = 0) (''nodes'', ''must include at least one start node'')
                 @ issue (countTerminalNodes (wg_outDegree g) order = 0) (''nodes'', ''must include at least one terminal node'')
                 @ validateBranchConditions (rq_edges req) (wg_outDegree g))))"

definition ValidateCreateRequest ::
  "('sch, 'a) graph_env_scheme \<Rightarrow> string \<Rightarrow> CreateWorkflowRequest \<Rightarrow> (string, api_field list) result option" where
  "ValidateCreateRequest env agtName req =
     (case ValidateDefinition env (rq_inputs req) (rq_arbitraryJson req) of
        Inl e \<Rightarrow> Some (Err e)
      | Inr inputIssues \<Rightarrow>
          (let fields = request_issues env agtName req @ inputIssues in
           if length (rq_nodes req) = 0 then Some (Ok (fields @ [(''nodes'', ''must include at least one node'')]))
           else case workflow_nodes_loop (ge_dns_label env) 0 [] (rq_nodes req) of (nodeIssues, names) \<Rightarrow>
             (case edges_loop 0 (empty_graph names) (rq_edges req) of (edgeIssues, g) \<Rightarrow>
                (let fields1 = fields @ nodeIssues @ edgeIssues in
                 if length fields1 > 0 then Some (Ok fields1)
                 else map_option Ok (graph_issues env req g)))))"

subsection \<open>Topological order\<close>

text \<open>The nodes of a list in which every edge into a node comes from an earlier one.\<close>

fun topo :: "('a \<times> 'a) set \<Rightarrow> 'a set \<Rightarrow> 'a list \<Rightarrow> bool" where
  "topo E before [] \<longleftrightarrow> True"
| "topo E before (b # rest) \<longleftrightarrow> (\<forall>a. (a, b) \<in> E \<longrightarrow> a \<in> before) \<and> topo E (insert b before) rest"

lemma topo_append: "topo E before (xs @ ys) \<longleftrightarrow> topo E before xs \<and> topo E (before \<union> set xs) ys"
  by (induction xs arbitrary: before) auto

lemma topo_batch: "\<forall>b\<in>set xs. \<forall>a. (a, b) \<in> E \<longrightarrow> a \<in> before \<Longrightarrow> topo E before xs"
  by (induction xs arbitrary: before) auto

lemma takeWhile_short: "a \<in> set ys \<Longrightarrow> length (takeWhile (\<lambda>y. y \<noteq> a) (ys @ zs)) < length ys"
  by (induction ys) auto

lemma topo_acyclic:
  assumes "topo E {} xs" "distinct xs" "\<forall>(a, b)\<in>E. b \<in> set xs"
  shows "acyclic E"
proof -
  define rank where "rank x = length (takeWhile (\<lambda>y. y \<noteq> x) xs)" for x
  have "rank a < rank b" if "(a, b) \<in> E" for a b
  proof -
    have "b \<in> set xs" using assms(3) that by blast
    then obtain ys zs where split: "xs = ys @ b # zs" by (meson split_list)
    with assms(1) that have "a \<in> set ys" by (auto simp: topo_append)
    moreover have "b \<notin> set ys" using assms(2) split by auto
    then have "takeWhile (\<lambda>y. y \<noteq> b) (ys @ b # zs) = ys" by (induction ys) auto
    then have "rank b = length ys" by (simp add: rank_def split)
    ultimately show ?thesis using takeWhile_short [of a ys "b # zs"] by (simp add: rank_def split)
  qed
  then have "E \<subseteq> measure rank" by auto
  then show ?thesis using wf_acyclic [OF wf_measure] acyclic_subset by blast
qed

lemma acyclic_source:
  assumes "acyclic E" "finite E" "U \<noteq> {}"
  shows "\<exists>z\<in>U. \<forall>y. (y, z) \<in> E \<longrightarrow> y \<notin> U"
  using wfE_min' [OF finite_acyclic_wf [OF assms(2,1)] assms(3)] by blast

lemma acyclic_sink:
  assumes "acyclic E" "finite E" "U \<noteq> {}"
  shows "\<exists>z\<in>U. \<forall>y. (z, y) \<in> E \<longrightarrow> y \<notin> U"
proof -
  obtain z where "z \<in> U" "\<And>y. (y, z) \<in> E\<inverse> \<Longrightarrow> y \<notin> U"
    using wfE_min' [OF finite_acyclic_wf_converse [OF assms(2,1)] assms(3)] by blast
  then show ?thesis by auto
qed

subsection \<open>Cycle detection\<close>

text \<open>The edges as pairs, and the edges into a node from nodes that are not done.\<close>

definition targets :: "('a \<times> 'a) list \<Rightarrow> 'a \<Rightarrow> 'a list" where
  "targets es n = map snd (filter (\<lambda>e. fst e = n) es)"

definition unmet :: "('a \<times> 'a) list \<Rightarrow> 'a set \<Rightarrow> 'a \<Rightarrow> nat" where
  "unmet es ready m = length (filter (\<lambda>e. snd e = m \<and> fst e \<notin> ready) es)"

lemma unmet_insert: "n \<notin> ready \<Longrightarrow> unmet es ready m = unmet es (insert n ready) m + count_list (targets es n) m"
  by (induction es) (auto simp: unmet_def targets_def)

lemma unmet_zero: "unmet es ready m = 0 \<longleftrightarrow> (\<forall>a. (a, m) \<in> set es \<longrightarrow> a \<in> ready)"
  by (force simp: unmet_def filter_empty_conv)

lemma set_targets: "m \<in> set (targets es n) \<longleftrightarrow> (n, m) \<in> set es"
  by (force simp: targets_def)

lemma relax_spec: "(\<And>m. int (count_list ns m) \<le> remaining m) \<Longrightarrow> \<exists>new. relax remaining queue ns = (\<lambda>m. remaining m - int (count_list ns m), queue @ new)
    \<and> distinct new \<and> set new = {m \<in> set ns. remaining m = int (count_list ns m)}"
proof (induction ns arbitrary: remaining queue)
  case (Cons n ns)
  let ?rem = "remaining(n := remaining n - 1)"
  have le: "int (count_list ns m) \<le> ?rem m" for m using Cons.prems [of m] by (auto split: if_splits)
  show ?case
  proof (cases "?rem n = 0")
    case True
    with le [of n] have n: "n \<notin> set ns" by (auto simp: count_list_0_iff)
    obtain new where new: "relax ?rem (queue @ [n]) ns = (\<lambda>m. ?rem m - int (count_list ns m), (queue @ [n]) @ new)"
      "distinct new" "set new = {m \<in> set ns. ?rem m = int (count_list ns m)}"
      using Cons.IH [of ?rem "queue @ [n]", OF le] by blast
    with True n show ?thesis by (intro exI [of _ "n # new"]) (auto simp: count_list_0_iff fun_eq_iff)
  next
    case False
    obtain new where new: "relax ?rem queue ns = (\<lambda>m. ?rem m - int (count_list ns m), queue @ new)"
      "distinct new" "set new = {m \<in> set ns. ?rem m = int (count_list ns m)}"
      using Cons.IH [of ?rem queue, OF le] by blast
    with False show ?thesis by (intro exI [of _ new]) (auto simp: fun_eq_iff count_list_0_iff)
  qed
qed simp

definition kahn_inv :: "string list \<Rightarrow> (string \<times> string) list \<Rightarrow> (string \<Rightarrow> int) \<Rightarrow> string list \<Rightarrow> string list \<Rightarrow> bool" where
  "kahn_inv names es remaining queue ready \<longleftrightarrow> distinct (ready @ queue) \<and> set (ready @ queue) \<subseteq> set names
     \<and> (\<forall>m. remaining m = int (unmet es (set ready) m)) \<and> (\<forall>m\<in>set names. remaining m = 0 \<longleftrightarrow> m \<in> set (ready @ queue))
     \<and> topo (set es) {} (ready @ queue)"

lemma kahn_step:
  assumes inv: "kahn_inv names es remaining (n # rest) ready" and ends: "set es \<subseteq> set names \<times> set names"
  shows "\<exists>remaining' queue'. relax remaining rest (targets es n) = (remaining', queue') \<and> kahn_inv names es remaining' queue' (ready @ [n])"
proof -
  have n: "n \<notin> set ready" and rem: "\<And>m. remaining m = int (unmet es (set ready) m)"
    using inv by (auto simp: kahn_inv_def)
  have left: "remaining m = int (unmet es (insert n (set ready)) m) + int (count_list (targets es n) m)" for m
    using rem unmet_insert [OF n, of es m] by simp
  then obtain new where new: "relax remaining rest (targets es n) = (\<lambda>m. remaining m - int (count_list (targets es n) m), rest @ new)"
    "distinct new" "set new = {m \<in> set (targets es n). remaining m = int (count_list (targets es n) m)}"
    using relax_spec [of "targets es n" remaining rest] by auto
  have met: "m \<in> set new \<longleftrightarrow> (n, m) \<in> set es \<and> (\<forall>a. (a, m) \<in> set es \<longrightarrow> a \<in> insert n (set ready))" for m
    using new(3) left [of m] unmet_zero [of es "insert n (set ready)" m] by (auto simp: set_targets)
  have fresh: "m \<notin> set (ready @ n # rest) \<and> m \<in> set names" if "m \<in> set new" for m
  proof -
    have "(n, m) \<in> set es" using met that by blast
    then have "m \<in> set names" "\<not> (\<forall>a. (a, m) \<in> set es \<longrightarrow> a \<in> set ready)" using ends n by auto
    then have "remaining m \<noteq> 0" using rem unmet_zero by (metis of_nat_eq_0_iff)
    with \<open>m \<in> set names\<close> inv show ?thesis by (auto simp: kahn_inv_def)
  qed
  have "kahn_inv names es (\<lambda>m. remaining m - int (count_list (targets es n) m)) (rest @ new) (ready @ [n])"
    unfolding kahn_inv_def
  proof (intro conjI allI ballI)
    show "distinct ((ready @ [n]) @ rest @ new)" using inv new(2) fresh by (auto simp: kahn_inv_def)
    show "set ((ready @ [n]) @ rest @ new) \<subseteq> set names" using inv fresh by (auto simp: kahn_inv_def)
    show "remaining m - int (count_list (targets es n) m) = int (unmet es (set (ready @ [n])) m)" for m using left [of m] by simp
    have "topo (set es) (set (ready @ n # rest)) new" using met by (intro topo_batch) auto
    then show "topo (set es) {} ((ready @ [n]) @ rest @ new)"
      using inv topo_append [of "set es" "{}" "ready @ n # rest" new] by (simp add: kahn_inv_def)
  next
    fix m assume m: "m \<in> set names"
    have z: "remaining m - int (count_list (targets es n) m) = 0 \<longleftrightarrow> (\<forall>a. (a, m) \<in> set es \<longrightarrow> a \<in> insert n (set ready))"
      using left [of m] unmet_zero [of es "insert n (set ready)" m] by auto
    have old: "m \<in> set (ready @ n # rest) \<longleftrightarrow> (\<forall>a. (a, m) \<in> set es \<longrightarrow> a \<in> set ready)"
      using inv m rem [of m] unmet_zero [of es "set ready" m] by (auto simp: kahn_inv_def)
    show "remaining m - int (count_list (targets es n) m) = 0 \<longleftrightarrow> m \<in> set ((ready @ [n]) @ rest @ new)"
      unfolding z using old met [of m] by auto
  qed
  with new(1) show ?thesis by blast
qed

lemma kahn_loop_decides:
  assumes "kahn_inv names es remaining queue ready" "set es \<subseteq> set names \<times> set names" "distinct names"
  shows "\<exists>visited. kahn_loop (targets es) remaining queue (length ready) = Some visited \<and> (visited = length names \<longleftrightarrow> acyclic (set es))"
  using assms(1)
proof (induction "length names - length ready" arbitrary: remaining queue ready rule: less_induct)
  case less
  note inv = less.prems
  have sub: "set ready \<subseteq> set names" "distinct ready" using inv by (auto simp: kahn_inv_def)
  then have card: "length ready = length names \<longleftrightarrow> set names \<subseteq> set ready"
    using assms(3) by (metis card_subset_eq distinct_card finite_set subset_antisym)
  show ?case
  proof (cases queue)
    case Nil
    have "length ready = length names \<longleftrightarrow> acyclic (set es)"
    proof
      assume "length ready = length names"
      with card have "\<forall>(a, b)\<in>set es. b \<in> set ready" using assms(2) by auto
      then show "acyclic (set es)" using topo_acyclic [of "set es" ready] inv Nil sub(2) by (auto simp: kahn_inv_def)
    next
      assume a: "acyclic (set es)"
      have "\<exists>y. (y, z) \<in> set es \<and> y \<in> set names - set ready" if "z \<in> set names - set ready" for z
      proof -
        have "remaining z \<noteq> 0" using that inv Nil by (auto simp: kahn_inv_def)
        moreover have "remaining z = int (unmet es (set ready) z)" using inv by (simp add: kahn_inv_def)
        ultimately have "\<not> (\<forall>a. (a, z) \<in> set es \<longrightarrow> a \<in> set ready)" using unmet_zero [of es "set ready" z] by simp
        with assms(2) show ?thesis by blast
      qed
      then have "set names - set ready = {}" using acyclic_source [OF a finite_set, of "set names - set ready"] by meson
      then show "length ready = length names" using card by blast
    qed
    with Nil show ?thesis by (simp add: kahn_loop.simps [of _ _ "[]"])
  next
    case (Cons n rest)
    with kahn_step [of names es remaining n rest ready] inv assms(2) obtain remaining' queue'
      where step: "relax remaining rest (targets es n) = (remaining', queue')" "kahn_inv names es remaining' queue' (ready @ [n])"
      by auto
    have "length (ready @ [n]) \<le> length names"
      using step(2) assms(3) by (metis card_mono distinct_append distinct_card finite_set kahn_inv_def le_sup_iff set_append)
    then have "length names - length (ready @ [n]) < length names - length ready" by simp
    with less.hyps [OF _ step(2)] step(1) Cons show ?thesis by (simp add: kahn_loop.simps [of _ _ "n # rest"])
  qed
qed

lemma hasCycle_decides:
  assumes "set es \<subseteq> set names \<times> set names" "distinct names" "distinct order" "set order = set names"
    and "\<And>m. inDegree m = int (length (filter (\<lambda>e. snd e = m) es))"
  shows "hasCycle (targets es) inDegree order = Some (\<not> acyclic (set es))"
proof -
  have o: "length order = length names" using assms(2-4) by (metis distinct_card)
  let ?queue = "filter (\<lambda>n. inDegree n = 0) order"
  have "topo (set es) {} ?queue"
    by (intro topo_batch) (force simp: assms(5) filter_empty_conv)
  then have "kahn_inv names es inDegree ?queue []"
    using assms(3,4) by (auto simp: kahn_inv_def unmet_def assms(5))
  then show ?thesis
    using kahn_loop_decides [of names es inDegree ?queue "[]"] assms(1,2) o by (auto simp: hasCycle_def)
qed

subsection \<open>Connectedness\<close>

lemma visit_spec: "\<exists>new. visit visited queue ns = (visited @ new, queue @ new) \<and> (distinct visited \<longrightarrow> distinct (visited @ new))
    \<and> set new = set ns - set visited"
proof (induction ns arbitrary: visited queue)
  case (Cons n ns)
  show ?case
  proof (cases "n \<in> set visited")
    case True
    with Cons [of visited queue] show ?thesis by (auto simp: insert_Diff_if)
  next
    case False
    obtain new where "visit (visited @ [n]) (queue @ [n]) ns = ((visited @ [n]) @ new, (queue @ [n]) @ new)"
      "distinct (visited @ [n]) \<longrightarrow> distinct ((visited @ [n]) @ new)" "set new = set ns - set (visited @ [n])"
      using Cons by blast
    with False show ?thesis by (intro exI [of _ "n # new"]) auto
  qed
qed simp

definition connected_inv ::
  "string list \<Rightarrow> (string \<Rightarrow> string list) \<Rightarrow> string \<Rightarrow> string list \<Rightarrow> string list \<Rightarrow> string list \<Rightarrow> bool" where
  "connected_inv names undirected start visited queue ready \<longleftrightarrow> visited = ready @ queue \<and> distinct visited \<and> set visited \<subseteq> set names
     \<and> start \<in> set visited \<and> (\<forall>x\<in>set ready. set (undirected x) \<subseteq> set visited)
     \<and> (\<forall>x\<in>set visited. (start, x) \<in> {(x, y). y \<in> set (undirected x)}\<^sup>*)"

lemma connected_loop_decides:
  assumes "connected_inv names undirected start visited queue ready" "distinct names"
    and ends: "\<And>x. x \<in> set names \<Longrightarrow> set (undirected x) \<subseteq> set names"
  shows "\<exists>k. connected_loop undirected visited queue = Some k
    \<and> (k = length names \<longleftrightarrow> (\<forall>x\<in>set names. (start, x) \<in> {(x, y). y \<in> set (undirected x)}\<^sup>*))"
  using assms(1)
proof (induction "length names - length ready" arbitrary: visited queue ready rule: less_induct)
  case less
  let ?R = "{(x, y). y \<in> set (undirected x)}"
  note inv = less.prems [unfolded connected_inv_def]
  show ?case
  proof (cases queue)
    case Nil
    have closed: "x \<in> set visited" if "(start, x) \<in> ?R\<^sup>*" for x
      using that by (induction rule: rtrancl_induct) (use inv Nil in auto)
    have "length visited = length names \<longleftrightarrow> set names \<subseteq> set visited"
      using inv assms(2) by (metis card_subset_eq distinct_card finite_set subset_antisym)
    with closed inv have "length visited = length names \<longleftrightarrow> (\<forall>x\<in>set names. (start, x) \<in> ?R\<^sup>*)" by blast
    with Nil show ?thesis by (simp add: connected_loop.simps [of _ _ "[]"])
  next
    case (Cons n rest)
    obtain new where new: "visit visited rest (undirected n) = (visited @ new, rest @ new)" "distinct (visited @ new)"
      "set new = set (undirected n) - set visited"
      using visit_spec [of visited rest "undirected n"] inv by blast
    have n: "n \<in> set names" "(start, n) \<in> ?R\<^sup>*" using inv Cons by auto
    have "(start, x) \<in> ?R\<^sup>*" if "x \<in> set new" for x
      using that new(3) n(2) by (auto intro: rtrancl_into_rtrancl)
    then have reached: "\<forall>x\<in>set (visited @ new). (start, x) \<in> ?R\<^sup>*" using inv by auto
    have "\<forall>x\<in>set ready. set (undirected x) \<subseteq> set visited" using inv by blast
    then have closed: "\<forall>x\<in>set (ready @ [n]). set (undirected x) \<subseteq> set (visited @ new)" using new(3) by auto
    have "set (visited @ new) \<subseteq> set names" using inv new(3) ends [OF n(1)] by auto
    moreover have "visited @ new = (ready @ [n]) @ rest @ new" "start \<in> set (visited @ new)" using inv Cons by auto
    ultimately have step: "connected_inv names undirected start (visited @ new) (rest @ new) (ready @ [n])"
      unfolding connected_inv_def using reached closed new(2) by blast
    have "length (ready @ [n]) \<le> length names"
      using inv Cons assms(2) by (metis append.assoc append_Cons append_Nil card_mono distinct_append distinct_card finite_set le_sup_iff set_append)
    then have "length names - length (ready @ [n]) < length names - length ready" by simp
    with less.hyps [OF _ step] new(1) Cons show ?thesis by (simp add: connected_loop.simps [of _ _ "n # rest"])
  qed
qed

subsection \<open>Reading the request\<close>

definition edge_pairs :: "WorkflowEdge list \<Rightarrow> (string \<times> string) list" where
  "edge_pairs edges = map (\<lambda>e. (ed_source e, ed_target e)) edges"

lemma preferred_tools_Nil: "preferred_tools_loop p i seen tools = [] \<longleftrightarrow> [] \<notin> set tools \<and> distinct tools \<and> set tools \<inter> set seen = {}"
  by (induction p i seen tools rule: preferred_tools_loop.induct) (auto simp: Let_def)

lemma preferred_skills_Nil: "preferred_skills_loop p i seen skills = [] \<longleftrightarrow>
    list_all (\<lambda>s. ValidateName s = Ok ()) skills \<and> distinct skills \<and> set skills \<inter> set seen = {}"
proof -
  have "ValidateName [] \<noteq> Ok ()" by (simp add: ValidateName_def)
  then show ?thesis by (induction p i seen skills rule: preferred_skills_loop.induct) (auto simp: Let_def)
qed

definition node_valid :: "(string \<Rightarrow> string list) \<Rightarrow> WorkflowNode \<Rightarrow> bool" where
  "node_valid dns_label node \<longleftrightarrow> isDNSLabel dns_label (nd_name node) 64 \<and> TrimSpace (nd_instructions node) \<noteq> []
     \<and> TrimSpace (nd_goal node) \<noteq> [] \<and> TrimSpace (nd_doneCriteria node) \<noteq> []
     \<and> (case nd_preferredTools node of None \<Rightarrow> True | Some tools \<Rightarrow> [] \<notin> set tools \<and> distinct tools)
     \<and> (case nd_preferredSkills node of None \<Rightarrow> True | Some skills \<Rightarrow> list_all (\<lambda>s. ValidateName s = Ok ()) skills \<and> distinct skills)"

lemma node_issues_Nil: "isDNSLabel dns_label (nd_name node) 64 \<Longrightarrow> node_issues p node = [] \<longleftrightarrow> node_valid dns_label node"
  by (auto simp: node_issues_def node_valid_def preferred_tools_Nil preferred_skills_Nil split: option.splits)

lemma nodes_loop_silent: "fst (workflow_nodes_loop dns_label i names nodes) = [] \<longleftrightarrow>
    list_all (node_valid dns_label) nodes \<and> distinct (map nd_name nodes) \<and> set (map nd_name nodes) \<inter> set names = {}"
proof (induction nodes arbitrary: i names)
  case (Cons node nodes)
  show ?case
  proof (cases "isDNSLabel dns_label (nd_name node) 64")
    case True
    then show ?thesis by (auto simp: Let_def Cons.IH node_issues_Nil [OF True])
  qed (auto simp: Let_def node_valid_def)
qed simp

lemma nodes_loop_names: "fst (workflow_nodes_loop dns_label i names nodes) = [] \<Longrightarrow>
    snd (workflow_nodes_loop dns_label i names nodes) = names @ map nd_name nodes"
proof (induction nodes arbitrary: i names)
  case (Cons node nodes)
  then show ?case by (auto simp: Let_def split: if_splits)
qed simp

lemma add_edge_names [simp]: "wg_names (add_edge e g) = wg_names g"
  by (simp add: add_edge_def Let_def)

lemma empty_graph_names [simp]: "wg_names (empty_graph names) = names"
  by (simp add: empty_graph_def)

lemma edges_loop_names [simp]: "wg_names (snd (edges_loop i g edges)) = wg_names g"
  by (induction i g edges rule: edges_loop.induct) auto

lemma edges_loop_silent: "[] \<notin> set (wg_names g) \<Longrightarrow> fst (edges_loop i g edges) = [] \<longleftrightarrow>
    (\<forall>(a, b)\<in>set (edge_pairs edges). a \<in> set (wg_names g) \<and> b \<in> set (wg_names g) \<and> a \<noteq> b)"
  by (induction i g edges rule: edges_loop.induct) (auto simp: edge_pairs_def edge_issues_def Let_def)

lemma edges_loop_graph:
  "set (edge_pairs edges) \<subseteq> set (wg_names g) \<times> set (wg_names g) \<Longrightarrow>
    wg_adjacency (snd (edges_loop i g edges)) = (\<lambda>n. wg_adjacency g n @ targets (edge_pairs edges) n)
    \<and> wg_inDegree (snd (edges_loop i g edges)) = (\<lambda>m. wg_inDegree g m + int (length (filter (\<lambda>e. snd e = m) (edge_pairs edges))))
    \<and> wg_outDegree (snd (edges_loop i g edges)) = (\<lambda>m. wg_outDegree g m + int (length (filter (\<lambda>e. fst e = m) (edge_pairs edges))))
    \<and> (\<forall>n. set (wg_undirected (snd (edges_loop i g edges)) n) = set (wg_undirected g n)
        \<union> {m. (n, m) \<in> set (edge_pairs edges) \<or> (m, n) \<in> set (edge_pairs edges)})"
proof (induction i g edges rule: edges_loop.induct)
  case (1 i g)
  then show ?case by (simp add: edge_pairs_def targets_def)
next
  case (2 i g edge rest)
  then have ends: "ed_source edge \<in> set (wg_names g)" "ed_target edge \<in> set (wg_names g)"
    and rest: "set (edge_pairs rest) \<subseteq> set (wg_names (add_edge edge g)) \<times> set (wg_names (add_edge edge g))"
    by (auto simp: edge_pairs_def)
  have step: "wg_adjacency (add_edge edge g) = append_value (ed_source edge) (ed_target edge) (wg_adjacency g)"
    "wg_inDegree (add_edge edge g) = increment (ed_target edge) (wg_inDegree g)"
    "wg_outDegree (add_edge edge g) = increment (ed_source edge) (wg_outDegree g)"
    "wg_undirected (add_edge edge g) = append_value (ed_target edge) (ed_source edge) (append_value (ed_source edge) (ed_target edge) (wg_undirected g))"
    using ends by (simp_all add: add_edge_def Let_def)
  note pairs = edge_pairs_def [of "edge # rest", simplified, folded edge_pairs_def]
  from "2.IH" [OF rest] show ?case
    by (auto simp: step pairs append_value_def increment_def targets_def fun_eq_iff)
qed

definition order_documented :: "(string list \<Rightarrow> string list) \<Rightarrow> bool" where
  "order_documented f \<longleftrightarrow> (\<forall>xs. distinct xs \<longrightarrow> distinct (f xs) \<and> set (f xs) = set xs)"

text \<open>What a graph must be: every edge joins two nodes, no cycle, every node is connected to every other by
  edges in either direction, and where several edges leave a node each says when it is taken.\<close>

definition graph_valid :: "CreateWorkflowRequest \<Rightarrow> bool" where
  "graph_valid req \<longleftrightarrow>
     (let E = set (edge_pairs (rq_edges req)); N = nd_name ` set (rq_nodes req) in
      E \<subseteq> N \<times> N \<and> acyclic E \<and> (\<forall>a\<in>N. \<forall>b\<in>N. (a, b) \<in> (E \<union> E\<inverse>)\<^sup>*)
      \<and> (\<forall>e\<in>set (rq_edges req). TrimSpace (ed_conditionSummary e) = []
           \<longrightarrow> length (filter (\<lambda>e'. ed_source e' = ed_source e) (rq_edges req)) \<le> 1))"

lemma reached_all:
  assumes "sym R" "s \<in> N"
  shows "(\<forall>x\<in>N. (s, x) \<in> R\<^sup>*) \<longleftrightarrow> (\<forall>a\<in>N. \<forall>b\<in>N. (a, b) \<in> R\<^sup>*)"
  using assms sym_rtrancl [OF assms(1)] by (meson rtrancl_trans symD)

lemma branch_conditions_Nil: "validateBranchConditions edges outDegree = [] \<longleftrightarrow>
    (\<forall>e\<in>set edges. TrimSpace (ed_conditionSummary e) = [] \<longrightarrow> outDegree (ed_source e) \<le> 1)"
  by (auto simp: validateBranchConditions_def concat_index_Nil all_set_conv_all_nth)

lemma graph_issues_decide:
  fixes env :: "('sch, 'a) graph_env_scheme"
  defines "es req \<equiv> edge_pairs (rq_edges req)" and "ns req \<equiv> map nd_name (rq_nodes req)"
  assumes order: "order_documented (ge_order env)" and names: "distinct (ns req)" "[] \<notin> set (ns req)" "rq_nodes req \<noteq> []"
    and ends: "set (es req) \<subseteq> set (ns req) \<times> set (ns req)"
  shows "\<exists>fields. graph_issues env req (snd (edges_loop 0 (empty_graph (ns req)) (rq_edges req))) = Some fields \<and> (fields = [] \<longleftrightarrow> graph_valid req)"
proof -
  let ?g = "snd (edges_loop 0 (empty_graph (ns req)) (rq_edges req))" and ?E = "set (es req)" and ?N = "set (ns req)"
    and ?start = "nd_name (hd (rq_nodes req))" and ?order = "ge_order env (ns req)"
  have graph: "wg_names ?g = ns req" "wg_adjacency ?g = targets (es req)"
    "wg_inDegree ?g = (\<lambda>m. int (length (filter (\<lambda>e. snd e = m) (es req))))"
    "wg_outDegree ?g = (\<lambda>m. int (length (filter (\<lambda>e. fst e = m) (es req))))"
    "\<And>n. set (wg_undirected ?g n) = {m. (n, m) \<in> ?E \<or> (m, n) \<in> ?E}"
    using edges_loop_graph [of "rq_edges req" "empty_graph (ns req)" 0] ends by (auto simp: es_def empty_graph_def)
  have o: "distinct ?order" "set ?order = ?N" using order names(1) by (auto simp: order_documented_def)
  have "?start \<in> ?N" using names(3) by (simp add: ns_def)
  with names(2) have start: "?start \<in> ?N" "?start \<noteq> []" by metis+
  have R: "{(x, y). y \<in> set (wg_undirected ?g x)} = ?E \<union> ?E\<inverse>" using graph(5) by auto
  have cycle: "hasCycle (wg_adjacency ?g) (wg_inDegree ?g) ?order = Some (\<not> acyclic ?E)"
    unfolding graph by (rule hasCycle_decides [OF ends names(1) o]) simp
  have "connected_inv (ns req) (wg_undirected ?g) ?start [?start] [?start] []"
    using start(1) by (simp add: connected_inv_def)
  moreover have "set (wg_undirected ?g x) \<subseteq> ?N" for x using graph(5) [of x] ends by auto
  ultimately obtain k where k: "connected_loop (wg_undirected ?g) [?start] [?start] = Some k"
    "k = length (ns req) \<longleftrightarrow> (\<forall>x\<in>?N. (?start, x) \<in> (?E \<union> ?E\<inverse>)\<^sup>*)"
    using connected_loop_decides [of "ns req" "wg_undirected ?g" ?start "[?start]" "[?start]" "[]"] names(1) R by auto
  have whole: "isWeaklyConnected (wg_undirected ?g) (length (wg_names ?g)) ?start = Some (\<forall>a\<in>?N. \<forall>b\<in>?N. (a, b) \<in> (?E \<union> ?E\<inverse>)\<^sup>*)"
    using k start(2) reached_all [OF sym_Un_converse start(1), of ?E] by (auto simp: isWeaklyConnected_def graph(1))
  have ended: "countTerminalNodes (wg_inDegree ?g) ?order \<noteq> 0 \<and> countTerminalNodes (wg_outDegree ?g) ?order \<noteq> 0" if a: "acyclic ?E"
  proof -
    have ne: "?N \<noteq> {}" using start(1) by auto
    obtain s where "s \<in> ?N" "\<forall>y. (y, s) \<in> ?E \<longrightarrow> y \<notin> ?N" using acyclic_source [OF a finite_set ne] by blast
    moreover obtain t where "t \<in> ?N" "\<forall>y. (t, y) \<in> ?E \<longrightarrow> y \<notin> ?N" using acyclic_sink [OF a finite_set ne] by blast
    ultimately show ?thesis using ends o(2) by (force simp: countTerminalNodes_def graph filter_empty_conv)
  qed
  have out: "length (filter (\<lambda>e. fst e = n) (es req)) = length (filter (\<lambda>e'. ed_source e' = n) (rq_edges req))" for n
    by (simp add: es_def edge_pairs_def filter_map comp_def)
  have N: "nd_name ` set (rq_nodes req) = ?N" by (simp add: ns_def)
  have "graph_valid req \<longleftrightarrow> acyclic ?E \<and> (\<forall>a\<in>?N. \<forall>b\<in>?N. (a, b) \<in> (?E \<union> ?E\<inverse>)\<^sup>*)
      \<and> validateBranchConditions (rq_edges req) (wg_outDegree ?g) = []"
    unfolding graph_valid_def Let_def N es_def [symmetric] branch_conditions_Nil graph(4) out using ends by auto
  then show ?thesis
    using ended unfolding graph_issues_def Let_def graph(1) cycle [unfolded graph(1)] whole [unfolded graph(1)] by auto
qed

definition request_valid :: "('sch, 'a) graph_env_scheme \<Rightarrow> string \<Rightarrow> CreateWorkflowRequest \<Rightarrow> bool" where
  "request_valid env agtName req \<longleftrightarrow>
     isDNSLabel (ge_dns_label env) agtName 32 \<and> isDNSLabel (ge_dns_label env) (rq_workflowName req) 32
     \<and> TrimSpace (rq_title req) \<noteq> [] \<and> TrimSpace (rq_summary req) \<noteq> []
     \<and> ValidateDefinition env (rq_inputs req) (rq_arbitraryJson req) = Ok []
     \<and> rq_nodes req \<noteq> [] \<and> list_all (node_valid (ge_dns_label env)) (rq_nodes req) \<and> distinct (map nd_name (rq_nodes req))"

lemma create_request_decides:
  assumes "order_documented (ge_order env)"
  shows "\<exists>r. ValidateCreateRequest env agtName req = Some r \<and> (r = Ok [] \<longleftrightarrow> request_valid env agtName req \<and> graph_valid req)"
proof (cases "ValidateDefinition env (rq_inputs req) (rq_arbitraryJson req)")
  case (Inl e)
  then show ?thesis by (simp add: ValidateCreateRequest_def request_valid_def)
next
  case (Inr inputIssues)
  obtain nodeIssues names where nodes: "workflow_nodes_loop (ge_dns_label env) 0 [] (rq_nodes req) = (nodeIssues, names)" by fastforce
  obtain edgeIssues g where edges: "edges_loop 0 (empty_graph names) (rq_edges req) = (edgeIssues, g)" by fastforce
  have n: "nodeIssues = [] \<longleftrightarrow> list_all (node_valid (ge_dns_label env)) (rq_nodes req) \<and> distinct (map nd_name (rq_nodes req))"
    and nn: "nodeIssues = [] \<Longrightarrow> names = map nd_name (rq_nodes req)"
    using nodes_loop_silent [of "ge_dns_label env" 0 "[]" "rq_nodes req"] nodes_loop_names [of "ge_dns_label env" 0 "[]" "rq_nodes req"] nodes
    by auto
  let ?fields = "request_issues env agtName req @ inputIssues"
  have head: "?fields = [] \<and> rq_nodes req \<noteq> [] \<and> nodeIssues = [] \<longleftrightarrow> request_valid env agtName req"
    using Inr n by (auto simp: request_issues_def request_valid_def)
  show ?thesis
  proof (cases "request_valid env agtName req")
    case False
    with head Inr nodes edges show ?thesis by (auto simp: ValidateCreateRequest_def Let_def split: if_splits)
  next
    case True
    with head n nn have valid: "?fields = []" "rq_nodes req \<noteq> []" "nodeIssues = []" "names = map nd_name (rq_nodes req)" "distinct names"
      by auto
    have "node_valid (ge_dns_label env) node \<Longrightarrow> nd_name node \<noteq> []" for node by (auto simp: node_valid_def isDNSLabel_def Let_def)
    then have blank: "[] \<notin> set names" using valid n by (fastforce simp: list_all_iff)
    have e: "edgeIssues = [] \<longleftrightarrow> (\<forall>(a, b)\<in>set (edge_pairs (rq_edges req)). a \<in> set names \<and> b \<in> set names \<and> a \<noteq> b)"
      using edges_loop_silent [of "empty_graph names" 0 "rq_edges req"] blank edges by (simp add: empty_graph_def)
    show ?thesis
    proof (cases "edgeIssues = []")
      case None: False
      have "\<not> graph_valid req"
      proof
        assume gv: "graph_valid req"
        then have "acyclic (set (edge_pairs (rq_edges req)))" by (simp add: graph_valid_def Let_def)
        then have "a \<noteq> b" if "(a, b) \<in> set (edge_pairs (rq_edges req))" for a b using that by (auto simp: acyclic_def)
        with gv None e valid(4) show False by (auto simp: graph_valid_def Let_def)
      qed
      with None valid Inr nodes edges show ?thesis by (auto simp: ValidateCreateRequest_def Let_def)
    next
      case silent: True
      with e have "set (edge_pairs (rq_edges req)) \<subseteq> set names \<times> set names" by auto
      with graph_issues_decide [OF assms, of req] valid blank edges
      obtain fields where "graph_issues env req g = Some fields" "fields = [] \<longleftrightarrow> graph_valid req" by auto
      with silent valid Inr nodes edges True show ?thesis by (auto simp: ValidateCreateRequest_def Let_def)
    qed
  qed
qed

text \<open>C14. A workflow is accepted exactly if its graph can be run. With names, texts and inputs in order, a request
  is accepted precisely when every edge joins two of its nodes, there is no cycle, the graph hangs together,
  and edges that branch say when they are taken. The queue loop that counts in-degrees, in whatever order
  the map of degrees is visited, therefore decides acyclicity, and the search from the first node
  connectedness; the two checks for a start and an end node never add anything.\<close>

theorem create_request_exact:
  assumes "order_documented (ge_order env)"
  shows "ValidateCreateRequest env agtName req = Some (Ok []) \<longleftrightarrow> request_valid env agtName req \<and> graph_valid req"
  using create_request_decides [OF assms, of agtName req] by auto

text \<open>C25. The check of a workflow ends for every request: neither queue is ever refilled with a node that has been
  taken off, whether or not the graph has cycles.\<close>

theorem create_request_ends:
  assumes "order_documented (ge_order env)"
  shows "\<exists>r. ValidateCreateRequest env agtName req = Some r"
  using create_request_decides [OF assms, of agtName req] by auto

text \<open>Three nodes, two branches that meet again; the keys of a map are visited backwards.\<close>

definition sample_graph_env :: "json graph_env" where
  "sample_graph_env = schema_env.extend sample_schemas
     \<lparr>ge_dns_label = (\<lambda>s. if dns_name s then [] else [''invalid'']), ge_order = rev\<rparr>"

definition sample_node :: "string \<Rightarrow> WorkflowNode" where
  "sample_node name = \<lparr>nd_doneCriteria = ''done'', nd_goal = ''goal'', nd_instructions = ''steps'', nd_name = name,
     nd_preferredSkills = Some [''git''], nd_preferredTools = Some [''bash'', ''read'']\<rparr>"

definition sample_edge :: "string \<Rightarrow> string \<Rightarrow> string \<Rightarrow> WorkflowEdge" where
  "sample_edge a b condition = \<lparr>ed_branchLabel = [], ed_conditionSummary = condition, ed_source = a, ed_target = b\<rparr>"

definition sample_workflow :: CreateWorkflowRequest where
  "sample_workflow = \<lparr>rq_arbitraryJson = None,
     rq_edges = [sample_edge ''a'' ''b'' ''ok'', sample_edge ''a'' ''c'' ''failed'', sample_edge ''b'' ''c'' []],
     rq_inputs = None, rq_nodes = [sample_node ''a'', sample_node ''b'', sample_node ''c''],
     rq_replace = None, rq_summary = ''summary'', rq_title = ''title'', rq_workflowName = ''build''\<rparr>"

lemma sample_graph_env_simps [simp]:
  "ge_dns_label sample_graph_env = (\<lambda>s. if dns_name s then [] else [''invalid''])" "ge_order sample_graph_env = rev"
  by (simp_all add: sample_graph_env_def schema_env.extend_def)

lemma sample_order: "order_documented (ge_order sample_graph_env)"
  by (simp add: order_documented_def)

lemma sample_labels: "dns_name ''a''" "dns_name ''b''" "dns_name ''c''" "dns_name ''coder''" "dns_name ''build''"
  by (simp_all add: dns_name_def dns_char_def dns_alnum_def in_range_def)

lemma sample_node_valid: "dns_name name \<Longrightarrow> length name \<le> 64 \<Longrightarrow> visible name \<Longrightarrow> node_valid (ge_dns_label sample_graph_env) (sample_node name)"
  by (simp add: node_valid_def sample_node_def isDNSLabel_def TrimSpace_visible visible_def ValidateName_def
      KubernetesDNSLabelMax_def skill_name_pattern_def dns_alnum_def in_range_def dns_name_def)

lemma sample_request_valid: "request_valid sample_graph_env ''coder'' sample_workflow"
proof -
  have "list_all (node_valid (ge_dns_label sample_graph_env)) (rq_nodes sample_workflow)"
    unfolding sample_workflow_def using sample_labels by (simp add: sample_node_valid visible_def del: sample_graph_env_simps)
  moreover have "isDNSLabel (ge_dns_label sample_graph_env) ''coder'' 32" "isDNSLabel (ge_dns_label sample_graph_env) ''build'' 32"
    using sample_labels by (simp_all add: isDNSLabel_def TrimSpace_visible visible_def)
  ultimately show ?thesis
    by (simp add: request_valid_def del: sample_graph_env_simps)
      (simp add: sample_workflow_def sample_node_def ValidateDefinition_def TrimSpace_visible visible_def)
qed

lemma sample_graph_valid: "graph_valid sample_workflow"
proof -
  have E: "set (edge_pairs (rq_edges sample_workflow)) = {(''a'', ''b''), (''a'', ''c''), (''b'', ''c'')}"
    by (simp add: edge_pairs_def sample_workflow_def sample_edge_def)
  have N: "nd_name ` set (rq_nodes sample_workflow) = {''a'', ''b'', ''c''}"
    by (simp add: sample_workflow_def sample_node_def)
  have "acyclic {(''a'', ''b''), (''a'', ''c''), (''b'', ''c'')}"
    by (rule topo_acyclic [of _ "[''a'', ''b'', ''c'']"]) auto
  moreover have "\<forall>x\<in>{''a'', ''b'', ''c''}. (''a'', x) \<in> ({(''a'', ''b''), (''a'', ''c''), (''b'', ''c'')} \<union> {(''a'', ''b''), (''a'', ''c''), (''b'', ''c'')}\<inverse>)\<^sup>*"
    by (auto intro: r_into_rtrancl)
  ultimately show ?thesis
    unfolding graph_valid_def Let_def E N
    using reached_all [OF sym_Un_converse, of "''a''" "{''a'', ''b'', ''c''}" "{(''a'', ''b''), (''a'', ''c''), (''b'', ''c'')}"]
    by (simp add: sample_workflow_def sample_edge_def TrimSpace_visible visible_def)
qed

theorem create_request_exact_witness:
  "order_documented (ge_order sample_graph_env) \<and> ValidateCreateRequest sample_graph_env ''coder'' sample_workflow = Some (Ok [])"
  using create_request_exact [OF sample_order] sample_order sample_request_valid sample_graph_valid by blast

theorem create_request_ends_witness:
  "order_documented (ge_order sample_graph_env) \<and> (\<exists>r. ValidateCreateRequest sample_graph_env [] sample_workflow = Some r)"
  using create_request_ends [OF sample_order, of "[]" sample_workflow] sample_order by blast

subsection \<open>The handler\<close>

text \<open>\<open>CreateWorkflow\<close> (\<open>internal/gateway/workflows.go\<close>) trims the texts of a request before it has it checked.\<close>

definition trim_input :: "WorkflowInputSchema \<Rightarrow> WorkflowInputSchema" where
  "trim_input s = s\<lparr>wi_description := map_option TrimSpace (wi_description s), wi_pattern := map_option TrimSpace (wi_pattern s)\<rparr>"

definition trim_node :: "WorkflowNode \<Rightarrow> WorkflowNode" where
  "trim_node node = \<lparr>nd_doneCriteria = TrimSpace (nd_doneCriteria node), nd_goal = TrimSpace (nd_goal node),
     nd_instructions = TrimSpace (nd_instructions node), nd_name = TrimSpace (nd_name node),
     nd_preferredSkills = map_option (map TrimSpace) (nd_preferredSkills node),
     nd_preferredTools = map_option (map TrimSpace) (nd_preferredTools node)\<rparr>"

definition trim_edge :: "WorkflowEdge \<Rightarrow> WorkflowEdge" where
  "trim_edge edge = \<lparr>ed_branchLabel = TrimSpace (ed_branchLabel edge), ed_conditionSummary = TrimSpace (ed_conditionSummary edge),
     ed_source = TrimSpace (ed_source edge), ed_target = TrimSpace (ed_target edge)\<rparr>"

definition trim_request :: "CreateWorkflowRequest \<Rightarrow> CreateWorkflowRequest" where
  "trim_request req = req\<lparr>rq_workflowName := TrimSpace (rq_workflowName req), rq_title := TrimSpace (rq_title req),
     rq_summary := TrimSpace (rq_summary req), rq_inputs := map_option (map (apsnd trim_input)) (rq_inputs req),
     rq_arbitraryJson := map_option (\<lambda>a. a\<lparr>aj_description := map_option TrimSpace (aj_description a)\<rparr>) (rq_arbitraryJson req),
     rq_nodes := map trim_node (rq_nodes req), rq_edges := map trim_edge (rq_edges req)\<rparr>"

text \<open>The check of a label looks at the trimmed name. As the handler has trimmed the request, the names that it
  stores are the ones that were checked.\<close>

lemma stored_names_are_labels:
  assumes "order_documented (ge_order env)"
    and "ValidateCreateRequest env agtName (trim_request req) = Some (Ok [])"
    and "node \<in> set (rq_nodes (trim_request req))"
  shows "ge_dns_label env (nd_name node) = [] \<and> nd_name node \<noteq> [] \<and> length (nd_name node) \<le> 64"
proof -
  have "list_all (node_valid (ge_dns_label env)) (rq_nodes (trim_request req))"
    using create_request_decides [OF assms(1), of agtName "trim_request req"] assms(2) by (auto simp: request_valid_def)
  then have "isDNSLabel (ge_dns_label env) (nd_name node) 64" using assms(3) by (auto simp: list_all_iff node_valid_def)
  moreover have "TrimSpace (nd_name node) = nd_name node" using assms(3) by (auto simp: trim_request_def trim_node_def)
  ultimately show ?thesis by (simp add: isDNSLabel_def Let_def)
qed

end
