(* ===== verification/SkillArchive.thy ===== *)
theory SkillArchive
  imports SkillFile "HOL-Library.Multiset" "HOL-Library.List_Lexorder" "HOL-Library.Char_ord"
begin

section \<open>Importing and exporting skills\<close>

text \<open>
  The import of skills from an uploaded Markdown or ZIP file, the decisions on an import, and the export
  as a canonical archive (\<open>internal/skill/archive.go\<close>). Reading the ZIP format (\<open>archive/zip\<close>) is an
  argument: it gives the list of entries with their flags, modes, announced sizes and data. The map of
  files is the list of its entries in the order in which they were added; where Go visits a map in an
  order that shows, that order is an argument as well. The temporary file of an upload is not modelled;
  what the reader yields is. The sum of sizes cannot wrap, because each size is checked first.
\<close>

datatype zip_mode = Directory | Regular | Special

record zip_entry =
  ze_name :: string
  ze_encrypted :: bool
  ze_nonUTF8 :: bool
  ze_mode :: zip_mode
  ze_size :: nat
  ze_openError :: "string option"
  ze_readError :: "string option"
  ze_data :: string

record archive_env = yaml_env +
  ar_lower :: "string \<Rightarrow> string"
  ar_zip :: "string \<Rightarrow> zip_entry list option"
  ar_order :: "string list \<Rightarrow> string list"

type_synonym skill_file = "string \<times> string"

record Tree =
  tr_name :: string
  tr_description :: string
  tr_files :: "skill_file list"

type_synonym Bundle = "Tree list"

definition maxUploadBytes :: nat where
  "maxUploadBytes = 10 * 1048576"

definition maxExtractedBytes :: nat where
  "maxExtractedBytes = 20 * 1048576"

definition maxFileBytes :: nat where
  "maxFileBytes = 1048576"

definition maxFiles :: nat where
  "maxFiles = 200"

definition maxEntries :: nat where
  "maxEntries = 400"

definition maxPathBytes :: nat where
  "maxPathBytes = 1024"

definition maxCanonicalBytes :: nat where
  "maxCanonicalBytes = maxExtractedBytes + 1048576"

subsection \<open>Entries\<close>

definition is_skill_file :: "string \<Rightarrow> bool" where
  "is_skill_file name \<longleftrightarrow> name = skillFileName \<or> HasSuffix name (''/'' @ skillFileName)"

definition entry_limit :: "string \<Rightarrow> nat" where
  "entry_limit name = (if is_skill_file name then maxSkillBytes else maxFileBytes)"

text \<open>The state of the loop: the files, the roots and the extracted size.\<close>

type_synonym archive_state = "skill_file list \<times> string list \<times> nat"

definition entry_step :: "string \<Rightarrow> archive_state \<Rightarrow> zip_entry \<Rightarrow> (import_error, archive_state) result" where
  "entry_step archiveName st entry =
     (case st of (files, roots, extracted) \<Rightarrow>
      let name = TrimSuffix (ze_name entry) ''/''; limit = entry_limit name in
      if ze_encrypted entry then Err (ImportIssue InvalidArchive (ze_name entry) ''Encrypted files are not supported.'')
      else if ze_nonUTF8 entry \<or> \<not> ValidString (ze_name entry) \<or> length (ze_name entry) > maxPathBytes
      then Err (ImportIssue InvalidTree archiveName ''An archive path is not valid UTF-8 or exceeds 1,024 bytes.'')
      else if \<not> ValidPath name \<or> CHR 0x5C \<in> set name
      then Err (ImportIssue InvalidTree (ze_name entry)
             ''Archive paths must be relative slash-separated paths without traversal or backslashes.'')
      else if ze_mode entry = Directory then Ok st
      else if ze_mode entry \<noteq> Regular
      then Err (ImportIssue InvalidTree (ze_name entry) ''Links and special files are not supported.'')
      else if length files = maxFiles
      then Err (ImportIssue LimitExceeded archiveName ''Archive contains more than 200 files.'')
      else if name \<in> fst ` set files then Err (ImportIssue InvalidTree name ''Archive contains this path more than once.'')
      else if ze_size entry > limit \<or> extracted + ze_size entry > maxExtractedBytes
      then Err (ImportIssue LimitExceeded name ''Archive exceeds its per-file or 20 MiB expanded-size limit.'')
      else case ze_openError entry of
        Some e \<Rightarrow> Err (Failure (''open skill archive entry: '' @ e))
      | None \<Rightarrow>
          (case ze_readError entry of
             Some e \<Rightarrow> Err (Failure (''read skill archive entry: '' @ e))
           | None \<Rightarrow>
               (let data = take (limit + 1) (ze_data entry) in
                if length data > limit then Err (ImportIssue LimitExceeded name ''File exceeds its allowed size.'')
                else Ok (files @ [(name, data)],
                         if is_skill_file name then roots @ [TrimSuffix name skillFileName] else roots,
                         extracted + length data))))"

fun entries_loop :: "string \<Rightarrow> archive_state \<Rightarrow> zip_entry list \<Rightarrow> (import_error, archive_state) result" where
  "entries_loop archiveName st [] = Ok st"
| "entries_loop archiveName st (entry # rest) =
     (case entry_step archiveName st entry of
        Inl e \<Rightarrow> Err e
      | Inr st' \<Rightarrow> entries_loop archiveName st' rest)"

subsection \<open>Roots\<close>

fun archive_roots_loop :: "string option \<Rightarrow> string list \<Rightarrow> (import_error, unit) result" where
  "archive_roots_loop prev [] = Ok ()"
| "archive_roots_loop prev (root # rest) =
     (if prev = Some root then Err (ImportIssue InvalidTree (root @ skillFileName) ''Archive contains a duplicate skill root.'')
      else case find (\<lambda>other. root = [] \<or> HasPrefix other root) rest of
        Some other \<Rightarrow> Err (ImportIssue InvalidTree (other @ skillFileName) ''Skill roots cannot be nested.'')
      | None \<Rightarrow> archive_roots_loop (Some root) rest)"

definition in_root :: "string \<Rightarrow> string \<Rightarrow> bool" where
  "in_root root name \<longleftrightarrow> (root = [] \<or> HasPrefix name root) \<and> TrimPrefix name root \<noteq> []"

definition root_files :: "string \<Rightarrow> skill_file list \<Rightarrow> skill_file list" where
  "root_files root files = map (apfst (\<lambda>name. TrimPrefix name root)) (filter (\<lambda>f. in_root root (fst f)) files)"

fun set_content :: "string \<Rightarrow> string \<Rightarrow> skill_file list \<Rightarrow> skill_file list" where
  "set_content path content [] = []"
| "set_content path content (f # files) = (if fst f = path then (fst f, content) # files else f # set_content path content files)"

definition root_tree :: "('a) yaml_env_scheme \<Rightarrow> skill_file list \<Rightarrow> string list \<Rightarrow> string \<Rightarrow> (import_error, Tree) result" where
  "root_tree env files seenNames root =
     (case map_of files (root @ skillFileName) of
        None \<Rightarrow> Err (ImportIssue InvalidTree root ''Skill root does not contain SKILL.md.'')
      | Some skillFile \<Rightarrow>
          (case parseSkillFile env (root @ skillFileName) skillFile of
             Inl e \<Rightarrow> Err e
           | Inr (metadata, canonical) \<Rightarrow>
               if fm_name metadata \<in> set seenNames
               then Err (ImportIssue InvalidTree (root @ skillFileName) ''Archive contains more than one skill with this name.'')
               else Ok \<lparr>tr_name = fm_name metadata, tr_description = TrimSpace (fm_description metadata),
                 tr_files = set_content skillFileName canonical (sort_key fst (root_files root files))\<rparr>))"

fun trees_loop ::
  "('a) yaml_env_scheme \<Rightarrow> skill_file list \<Rightarrow> string list \<Rightarrow> string list \<Rightarrow> (import_error, Tree list) result" where
  "trees_loop env files seenNames [] = Ok []"
| "trees_loop env files seenNames (root # rest) =
     (case root_tree env files seenNames root of
        Inl e \<Rightarrow> Err e
      | Inr tree \<Rightarrow> map_sum id (Cons tree) (trees_loop env files (tr_name tree # seenNames) rest))"

definition claimed :: "string list \<Rightarrow> string \<Rightarrow> bool" where
  "claimed roots name \<longleftrightarrow> list_ex (\<lambda>root. in_root root name) roots"

definition parseZIP :: "('a) archive_env_scheme \<Rightarrow> string \<Rightarrow> zip_entry list option \<Rightarrow> (import_error, Bundle) result" where
  "parseZIP env archiveName content =
     (case content of
        None \<Rightarrow> Err (ImportIssue InvalidArchive archiveName ''The ZIP archive is invalid.'')
      | Some entries \<Rightarrow>
          if length entries > maxEntries
          then Err (ImportIssue LimitExceeded archiveName ''Archive contains more than 400 entries.'')
          else case entries_loop archiveName ([], [], 0) entries of
            Inl e \<Rightarrow> Err e
          | Inr (files, roots, _) \<Rightarrow>
              if length roots = 0
              then Err (ImportIssue InvalidTree archiveName ''Archive does not contain a SKILL.md file.'')
              else case archive_roots_loop None (sort roots) of
                Inl e \<Rightarrow> Err e
              | Inr _ \<Rightarrow>
                  (case trees_loop env files [] (sort roots) of
                     Inl e \<Rightarrow> Err e
                   | Inr trees \<Rightarrow>
                       (case find (\<lambda>name. \<not> claimed roots name) (ar_order env (map fst files)) of
                          Some name \<Rightarrow> Err (ImportIssue InvalidTree name ''Every file must belong to exactly one skill root.'')
                        | None \<Rightarrow> Ok (sort_key tr_name trees))))"

subsection \<open>Uploads\<close>

definition parseMarkdown :: "('a) yaml_env_scheme \<Rightarrow> string \<Rightarrow> string \<Rightarrow> (import_error, Bundle) result" where
  "parseMarkdown env name content =
     (case parseSkillFile env name content of
        Inl e \<Rightarrow> Err e
      | Inr (metadata, canonical) \<Rightarrow>
          Ok [\<lparr>tr_name = fm_name metadata, tr_description = TrimSpace (fm_description metadata),
               tr_files = [(skillFileName, canonical)]\<rparr>])"

definition parse_upload :: "('a) archive_env_scheme \<Rightarrow> string \<Rightarrow> (string, string) result \<Rightarrow> nat \<Rightarrow> (import_error, Bundle) result" where
  "parse_upload env name reader maxBytes =
     (case reader of
        Inl e \<Rightarrow> Err (Failure (''spool skill import: '' @ e))
      | Inr text \<Rightarrow>
          (let spool = take (maxBytes + 1) text; ext = ToLower (ar_lower env) (path_ext name) in
           if length spool > maxBytes then Err (ImportIssue LimitExceeded name ''Upload exceeds the 10 MiB limit.'')
           else if ext = ''.md'' then
             (let content = take (maxSkillBytes + 1) spool in
              if length content > maxSkillBytes then Err (ImportIssue LimitExceeded name ''SKILL.md exceeds the 64 KiB limit.'')
              else parseMarkdown env name content)
           else if ext = ''.zip'' then parseZIP env name (ar_zip env spool)
           else Err (ImportIssue UnsupportedFileType name ''Import a .md or .zip file.'')))"

definition Parse :: "('a) archive_env_scheme \<Rightarrow> string \<Rightarrow> (string, string) result \<Rightarrow> (import_error, Bundle) result" where
  "Parse env name reader = parse_upload env name reader maxUploadBytes"

definition ParseCanonicalZIP :: "('a) archive_env_scheme \<Rightarrow> (string, string) result \<Rightarrow> (import_error, Bundle) result" where
  "ParseCanonicalZIP env reader = parse_upload env ''skills.zip'' reader maxCanonicalBytes"

subsection \<open>Decisions\<close>

datatype DecisionAction = DecisionCreate | DecisionOverwrite | DecisionRename | OtherAction string

record Decision =
  dc_action :: DecisionAction
  dc_name :: string
  dc_rename :: string

text \<open>Renaming rewrites every \<open>SKILL.md\<close> of the tree; the code does so in place, in the slice that the
  bundle shares, but each tree is used by one decision only.\<close>

fun rewrite_files :: "('a) yaml_env_scheme \<Rightarrow> string \<Rightarrow> skill_file list \<Rightarrow> (import_error, skill_file list) result" where
  "rewrite_files env destination [] = Ok []"
| "rewrite_files env destination (f # files) =
     (if fst f \<noteq> skillFileName then map_sum id (Cons f) (rewrite_files env destination files)
      else case rewriteName env (snd f) destination of
        Inl e \<Rightarrow> Err e
      | Inr content \<Rightarrow> map_sum id (Cons (fst f, content)) (rewrite_files env destination files))"

definition rename_tree :: "('a) yaml_env_scheme \<Rightarrow> string \<Rightarrow> Tree \<Rightarrow> (import_error, Tree) result" where
  "rename_tree env destination tree =
     (if destination = tr_name tree then Ok tree
      else map_sum id (\<lambda>files. tree\<lparr>tr_files := files, tr_name := destination\<rparr>) (rewrite_files env destination (tr_files tree)))"

definition decision_destination :: "Decision \<Rightarrow> (string, string) result" where
  "decision_destination d =
     (case dc_action d of
        DecisionRename \<Rightarrow> Ok (dc_rename d)
      | OtherAction _ \<Rightarrow> Err ''skill import decision action is invalid''
      | _ \<Rightarrow> if dc_rename d \<noteq> [] then Err ''skill import decision has an unexpected rename'' else Ok (dc_name d))"

fun decisions_loop ::
  "('a) yaml_env_scheme \<Rightarrow> (string \<Rightarrow> Tree option) \<Rightarrow> string list \<Rightarrow> string list \<Rightarrow> Decision list \<Rightarrow> (import_error, Tree list) result" where
  "decisions_loop env byName seenSource seenDestination [] = Ok []"
| "decisions_loop env byName seenSource seenDestination (d # rest) =
     (case byName (dc_name d) of
        None \<Rightarrow> Err (Failure ''skill import decision references an unknown skill'')
      | Some tree \<Rightarrow>
          if dc_name d \<in> set seenSource then Err (Failure ''skill import decisions contain a duplicate source'')
          else case decision_destination d of
            Inl e \<Rightarrow> Err (Failure e)
          | Inr destination \<Rightarrow>
              (case ValidateName destination of
                 Inl e \<Rightarrow> Err (Failure e)
               | Inr _ \<Rightarrow>
                   if destination \<in> set seenDestination then Err (Failure ''skill import decisions contain a duplicate destination'')
                   else case rename_tree env destination tree of
                     Inl e \<Rightarrow> Err e
                   | Inr tree' \<Rightarrow>
                       map_sum id (Cons tree')
                         (decisions_loop env byName (dc_name d # seenSource) (destination # seenDestination) rest)))"

definition Decide :: "('a) yaml_env_scheme \<Rightarrow> Bundle \<Rightarrow> Decision list \<Rightarrow> (import_error, Bundle) result" where
  "Decide env b decisions =
     (if length decisions \<noteq> length b \<or> length decisions = 0 \<or> length decisions > 200
      then Err (Failure ''skill import decisions are incomplete'')
      else map_sum id (sort_key tr_name)
        (decisions_loop env (map_of (rev (map (\<lambda>tree. (tr_name tree, tree)) b))) [] [] decisions))"

fun names_loop :: "string list \<Rightarrow> string list \<Rightarrow> (string, unit) result" where
  "names_loop seen [] = Ok ()"
| "names_loop seen (name # rest) =
     (case ValidateName name of
        Inl e \<Rightarrow> Err e
      | Inr _ \<Rightarrow> if name \<in> set seen then Err ''skill names must be unique'' else names_loop (name # seen) rest)"

definition ValidateNames :: "string list \<Rightarrow> (string, unit) result" where
  "ValidateNames names =
     (if length names = 0 \<or> length names > 200 then Err ''skill names must contain 1-200 names'' else names_loop [] names)"

subsection \<open>Export\<close>

text \<open>\<open>path.Clean\<close> and \<open>path.Join\<close> of two elements.\<close>

fun clean_step :: "bool \<Rightarrow> string list \<Rightarrow> string \<Rightarrow> string list" where
  "clean_step rooted out e =
     (if e = [] \<or> e = ''.'' then out
      else if e = ''..'' then
        (if out \<noteq> [] \<and> last out \<noteq> ''..'' then butlast out else if rooted then out else out @ [e])
      else out @ [e])"

definition path_clean :: "string \<Rightarrow> string" where
  "path_clean p =
     (let rooted = HasPrefix p ''/''; elems = foldl (clean_step rooted) [] (Split slash p) in
      if rooted then ''/'' @ Join ''/'' elems
      else if elems = [] then ''.'' else Join ''/'' elems)"

definition path_join :: "string \<Rightarrow> string \<Rightarrow> string" where
  "path_join a b =
     (let elems = filter (\<lambda>e. e \<noteq> []) [a, b] in if elems = [] then [] else path_clean (Join ''/'' elems))"

text \<open>The entries that \<open>WriteZIP\<close> creates: regular files, with the sizes of their contents.\<close>

definition file_entry :: "string \<Rightarrow> string \<Rightarrow> zip_entry" where
  "file_entry name content = \<lparr>ze_name = name, ze_encrypted = False, ze_nonUTF8 = False, ze_mode = Regular, ze_size = length content,
     ze_openError = None, ze_readError = None, ze_data = content\<rparr>"

definition WriteZIP :: "Bundle \<Rightarrow> zip_entry list" where
  "WriteZIP b = concat (map (\<lambda>tree. map (\<lambda>f. file_entry (path_join (tr_name tree) (fst f)) (snd f)) (tr_files tree)) b)"

subsection \<open>Paths below a root\<close>

definition is_root :: "string \<Rightarrow> bool" where
  "is_root root \<longleftrightarrow> root = [] \<or> (\<exists>r. root = r @ [slash])"

lemma slash_ascii [simp]: "is_ascii slash"
  by (simp add: slash_def)

lemma ValidString_after: "ValidString (a @ c # b) \<Longrightarrow> is_ascii c \<Longrightarrow> ValidString b"
proof (induction a rule: length_induct)
  case (1 a)
  show ?case
  proof (cases a)
    case Nil
    with 1 show ?thesis by (simp add: ValidString_ascii)
  next
    case (Cons d a')
    show ?thesis
    proof (cases "is_ascii d")
      case True
      with 1(1) [rule_format, of a'] 1(2,3) Cons show ?thesis by (simp add: ValidString_ascii)
    next
      case False
      obtain n where n: "rune_width (a @ c # b) = Some n" "ValidString (drop n (a @ c # b))"
        using 1(2) Cons by (auto simp: ValidString_rune)
      have w: "list_all (\<lambda>d. \<not> is_ascii d) (take n (a @ c # b))" "1 < n"
        using wide_rune [of d "a' @ c # b" n] n(1) False Cons by auto
      have "n \<le> length a"
      proof (rule ccontr)
        assume "\<not> n \<le> length a"
        then have "c \<in> set (take n (a @ c # b))" by (cases "n - length a") auto
        with w(1) 1(3) show False by (auto simp: list_all_iff)
      qed
      then have "drop n (a @ c # b) = drop n a @ c # b" by simp
      with n(2) have "ValidString (drop n a @ c # b)" by metis
      moreover have "length (drop n a) < length a" using w(2) Cons by simp
      ultimately show ?thesis using 1 by blast
    qed
  qed
qed

lemma ValidPath_below:
  assumes "ValidPath (root @ rel)" "is_root root"
  shows "ValidPath rel"
proof (cases "root = []")
  case False
  with assms obtain r where r: "root = r @ [slash]" by (auto simp: is_root_def)
  have v: "ValidPath (r @ slash # rel)" using assms r by simp
  have "ValidString rel" by (rule ValidString_after [of r slash rel]) (use v in \<open>simp_all add: ValidPath_def\<close>)
  moreover have "r @ slash # rel \<noteq> ''.''" by (cases r) (auto simp: slash_def)
  ultimately show ?thesis using v by (auto simp: ValidPath_def Split_append_slash)
qed (use assms in simp)

lemma ValidPath_no_final_slash: "ValidPath name \<Longrightarrow> \<not> HasSuffix name ''/''"
proof
  assume v: "ValidPath name" "HasSuffix name ''/''"
  then obtain t where t: "name = t @ [slash]" by (auto simp: HasSuffix_iff slash_def)
  then have "[] \<in> set (Split slash name)" by (simp add: Split_append_slash)
  moreover have "name \<noteq> ''.''" using t by (cases t) (auto simp: slash_def)
  ultimately show False using v by (auto simp: ValidPath_def list_all_iff)
qed

lemma last_segment:
  assumes "r @ slash # rel = t @ slash # w" "slash \<notin> set w"
  shows "rel = w \<or> (\<exists>u. rel = u @ slash # w)"
proof -
  from assms(1) consider u where "r @ u = t" "slash # rel = u @ slash # w" | u where "r = t @ u" "u @ slash # rel = slash # w"
    by (auto simp: append_eq_append_conv2)
  then show ?thesis
  proof cases
    case (1 u)
    then show ?thesis by (cases u) auto
  next
    case (2 u)
    with assms(2) show ?thesis by (cases u) auto
  qed
qed

lemma skill_file_below: "is_root root \<Longrightarrow> is_skill_file (root @ rel) \<longleftrightarrow> is_skill_file rel"
proof (cases "root = []")
  case False
  assume "is_root root"
  with False obtain r where r: "root = r @ [slash]" by (auto simp: is_root_def)
  have w: "slash \<notin> set skillFileName" by (simp add: slash_def skillFileName_def)
  have plain: "r @ slash # rel \<noteq> skillFileName" using w by (metis in_set_conv_decomp)
  show ?thesis
  proof
    assume "is_skill_file (root @ rel)"
    with plain obtain t where "r @ slash # rel = t @ slash # skillFileName"
      by (auto simp: is_skill_file_def HasSuffix_iff r slash_def)
    from last_segment [OF this w] show "is_skill_file rel" by (auto simp: is_skill_file_def HasSuffix_iff slash_def)
  next
    assume "is_skill_file rel"
    then consider "rel = skillFileName" | t where "rel = t @ ''/'' @ skillFileName" by (auto simp: is_skill_file_def HasSuffix_iff)
    then show "is_skill_file (root @ rel)"
    proof cases
      case 1
      then have "root @ rel = r @ ''/'' @ skillFileName" by (simp add: r slash_def)
      then show ?thesis unfolding is_skill_file_def by (metis HasSuffix_append)
    next
      case (2 t)
      then have "root @ rel = (root @ t) @ ''/'' @ skillFileName" by simp
      then show ?thesis unfolding is_skill_file_def by (metis HasSuffix_append)
    qed
  qed
qed simp

lemma skill_file_root: "is_skill_file name \<Longrightarrow> is_root (TrimSuffix name skillFileName) \<and> name = TrimSuffix name skillFileName @ skillFileName"
proof -
  assume "is_skill_file name"
  then consider "name = [] @ skillFileName" | t where "name = (t @ [slash]) @ skillFileName"
    by (auto simp: is_skill_file_def HasSuffix_iff slash_def)
  then show ?thesis
  proof cases
    case 1
    then show ?thesis by (metis TrimSuffix_append is_root_def)
  next
    case (2 t)
    then show ?thesis by (metis TrimSuffix_append is_root_def)
  qed
qed

lemma TrimPrefix_append [simp]: "TrimPrefix (root @ rel) root = rel"
  by (simp add: TrimPrefix_def HasPrefix_iff)

lemma in_root_iff: "in_root root name \<longleftrightarrow> (\<exists>rel. name = root @ rel \<and> rel \<noteq> [])"
  by (auto simp: in_root_def HasPrefix_iff) (auto simp: TrimPrefix_def HasPrefix_def)

subsection \<open>Imported files\<close>

text \<open>An entry that can be read to its end has the size that its header announces.\<close>

definition sizes_documented :: "zip_entry list \<Rightarrow> bool" where
  "sizes_documented entries \<longleftrightarrow> (\<forall>e\<in>set entries. ze_readError e = None
     \<and> length (ze_data e) \<le> entry_limit (TrimSuffix (ze_name e) ''/'') \<longrightarrow> length (ze_data e) = ze_size e)"

definition file_valid :: "skill_file \<Rightarrow> bool" where
  "file_valid f \<longleftrightarrow> ValidPath (fst f) \<and> CHR 0x5C \<notin> set (fst f) \<and> length (snd f) \<le> entry_limit (fst f)"

definition total_bytes :: "skill_file list \<Rightarrow> nat" where
  "total_bytes files = sum_list (map (length \<circ> snd) files)"

definition archive_roots :: "skill_file list \<Rightarrow> string list" where
  "archive_roots files = map (\<lambda>name. TrimSuffix name skillFileName) (filter is_skill_file (map fst files))"

definition archive_inv :: "archive_state \<Rightarrow> bool" where
  "archive_inv st \<longleftrightarrow> (case st of (files, roots, extracted) \<Rightarrow> distinct (map fst files) \<and> length files \<le> maxFiles
     \<and> list_all file_valid files \<and> roots = archive_roots files \<and> extracted = total_bytes files \<and> extracted \<le> maxExtractedBytes)"

lemma entry_step_inv:
  assumes "entry_step archiveName st e = Ok st'" "archive_inv st" "sizes_documented [e]"
  shows "archive_inv st'"
proof -
  obtain files roots extracted where st: "st = (files, roots, extracted)" by (cases st) auto
  let ?name = "TrimSuffix (ze_name e) ''/''"
  let ?data = "take (entry_limit ?name + 1) (ze_data e)"
  consider "st' = st" | (new) "ValidPath ?name" "CHR 0x5C \<notin> set ?name" "length files \<noteq> maxFiles" "?name \<notin> fst ` set files"
      "extracted + ze_size e \<le> maxExtractedBytes" "ze_readError e = None" "length ?data \<le> entry_limit ?name"
      "st' = (files @ [(?name, ?data)], if is_skill_file ?name then roots @ [TrimSuffix ?name skillFileName] else roots, extracted + length ?data)"
    using assms(1) by (auto simp: entry_step_def st Let_def split: if_splits option.splits)
  then show ?thesis
  proof cases
    case new
    then have "?data = ze_data e" by simp
    moreover have "length (ze_data e) = ze_size e" using new assms(3) by (simp add: sizes_documented_def)
    ultimately show ?thesis
      using new assms(2) by (auto simp: archive_inv_def st file_valid_def archive_roots_def total_bytes_def)
  qed (use assms in simp)
qed

lemma entries_loop_inv:
  "\<lbrakk> entries_loop archiveName st entries = Ok st'; archive_inv st; sizes_documented entries \<rbrakk> \<Longrightarrow> archive_inv st'"
proof (induction entries arbitrary: st)
  case (Cons e entries)
  from Cons.prems(1) obtain st1 where st1: "entry_step archiveName st e = Ok st1" "entries_loop archiveName st1 entries = Ok st'"
    by (auto split: sum.splits)
  have "sizes_documented [e]" "sizes_documented entries" using Cons.prems(3) by (auto simp: sizes_documented_def)
  with st1 Cons show ?case using entry_step_inv by blast
qed simp

lemma roots_loop_Ok: "archive_roots_loop prev roots = Ok () \<longleftrightarrow>
    sorted_wrt (\<lambda>a b. a \<noteq> [] \<and> \<not> HasPrefix b a) roots \<and> (roots \<noteq> [] \<longrightarrow> prev \<noteq> Some (hd roots))"
proof (induction roots arbitrary: prev)
  case (Cons root roots)
  have same: "roots \<noteq> [] \<Longrightarrow> root = hd roots \<Longrightarrow> \<exists>other\<in>set roots. HasPrefix other root"
    by (metis HasPrefix_append append_Nil2 hd_in_set)
  show ?case
    by (auto simp: Cons.IH find_None_iff find_Some_iff split: option.splits dest: same)
qed simp

lemma prefix_le: "HasPrefix b a \<Longrightarrow> a \<le> (b :: string)"
proof -
  assume "HasPrefix b a"
  then obtain t where "b = a @ t" by (auto simp: HasPrefix_iff)
  moreover have "a \<le> a @ t" by (induction a) auto
  ultimately show ?thesis by simp
qed

text \<open>Roots that pass are not nested, in either direction.\<close>

lemma roots_apart:
  assumes "archive_roots_loop None (sort roots) = Ok ()" "a \<in> set roots" "b \<in> set roots" "a \<noteq> b"
  shows "a \<noteq> [] \<and> \<not> HasPrefix b a"
proof -
  let ?s = "sort roots"
  obtain i j where ij: "i < length ?s" "j < length ?s" "?s ! i = a" "?s ! j = b"
    using assms(2,3) by (metis in_set_conv_nth set_sort)
  have w: "sorted_wrt (\<lambda>a b. a \<noteq> [] \<and> \<not> HasPrefix b a) ?s" using assms(1) by (simp add: roots_loop_Ok)
  show ?thesis
  proof (cases "i < j")
    case True
    with w ij show ?thesis by (auto simp: sorted_wrt_iff_nth_less)
  next
    case False
    with assms(4) ij have "j < i" by (metis linorder_neqE_nat)
    then have "b \<le> a" using ij by (metis less_imp_le sorted_nth_mono sorted_sort)
    moreover have "HasPrefix b a \<Longrightarrow> a \<le> b" by (rule prefix_le)
    moreover have "a = [] \<Longrightarrow> a \<le> b" by simp
    ultimately show ?thesis using assms(4) by fastforce
  qed
qed

lemma set_content_keys [simp]: "map fst (set_content path content files) = map fst files"
  by (induction files) auto

lemma set_content_other: "f \<in> set (set_content path content files) \<Longrightarrow> f \<in> set files \<or> f = (path, content)"
  by (induction files) (auto split: if_splits)

lemma map_of_set_content: "path \<in> fst ` set files \<Longrightarrow> map_of (set_content path content files) path = Some content"
  by (induction files) auto

lemma set_content_same: "map_of files path = Some content \<Longrightarrow> set_content path content files = files"
  by (induction files) (auto split: if_splits)

subsection \<open>Imported skills\<close>

definition tree_wf :: "('a) yaml_env_scheme \<Rightarrow> Tree \<Rightarrow> bool" where
  "tree_wf env tree \<longleftrightarrow> ValidateName (tr_name tree) = Ok () \<and> sorted (map fst (tr_files tree)) \<and> distinct (map fst (tr_files tree))
     \<and> (\<forall>f\<in>set (tr_files tree). file_valid f \<and> (is_skill_file (fst f) \<longrightarrow> fst f = skillFileName))
     \<and> (\<exists>m c. map_of (tr_files tree) skillFileName = Some c \<and> parseSkillFile env skillFileName c = Ok (m, c)
         \<and> fm_name m = tr_name tree \<and> fm_description m = tr_description tree)"

definition bundle_wf :: "('a) yaml_env_scheme \<Rightarrow> Bundle \<Rightarrow> bool" where
  "bundle_wf env b \<longleftrightarrow> b \<noteq> [] \<and> distinct (map tr_name b) \<and> sorted (map tr_name b) \<and> list_all (tree_wf env) b
     \<and> length (concat (map tr_files b)) \<le> maxFiles \<and> total_bytes (concat (map tr_files b)) \<le> maxExtractedBytes"

lemma root_files_mem: "f \<in> set (root_files root files) \<longleftrightarrow> fst f \<noteq> [] \<and> (root @ fst f, snd f) \<in> set files"
  by (force simp: root_files_def in_root_iff)

lemma root_files_distinct: "distinct (map fst files) \<Longrightarrow> distinct (map fst (root_files root files))"
proof -
  assume "distinct (map fst files)"
  moreover have "map fst (root_files root files) = map (\<lambda>name. TrimPrefix name root) (filter (in_root root) (map fst files))"
    by (simp add: root_files_def filter_map comp_def)
  moreover have "inj_on (\<lambda>name. TrimPrefix name root) {name. in_root root name}"
    by (auto simp: inj_on_def in_root_iff)
  ultimately show ?thesis by (auto simp: distinct_map intro: inj_on_subset)
qed

lemma distinct_sort_fst: "distinct (map fst (sort_key fst files)) \<longleftrightarrow> distinct (map fst (files :: skill_file list))"
  by (simp add: distinct_map)

lemma archive_roots_mem: "name \<in> fst ` set files \<Longrightarrow> is_skill_file name \<Longrightarrow> TrimSuffix name skillFileName \<in> set (archive_roots files)"
  by (auto simp: archive_roots_def)

lemma skill_entry_limit: "is_root root \<Longrightarrow> entry_limit (root @ rel) = entry_limit rel"
  by (simp add: entry_limit_def skill_file_below)

lemma is_skill_file_self [simp]: "is_skill_file skillFileName"
  by (simp add: is_skill_file_def)

lemma root_tree_wf:
  assumes inv: "archive_inv (files, roots, extracted)" and apart: "archive_roots_loop None (sort roots) = Ok ()"
    and root: "root \<in> set roots" and built: "root_tree env files seen root = Ok tree"
  shows "tree_wf env tree \<and> map fst (tr_files tree) = map fst (sort_key fst (root_files root files))"
proof -
  have files: "distinct (map fst files)" "list_all file_valid files" "roots = archive_roots files"
    using inv by (auto simp: archive_inv_def)
  have r: "is_root root" using root skill_file_root by (auto simp: files(3) archive_roots_def)
  from built obtain c0 m c where c: "map_of files (root @ skillFileName) = Some c0" "parseSkillFile env (root @ skillFileName) c0 = Ok (m, c)"
    and tree: "tree = \<lparr>tr_name = fm_name m, tr_description = TrimSpace (fm_description m),
        tr_files = set_content skillFileName c (sort_key fst (root_files root files))\<rparr>"
    by (auto simp: root_tree_def split: option.splits sum.splits prod.splits if_splits)
  have parsed: "parseSkillFile env skillFileName c = Ok (m, c)" "length c \<le> maxSkillBytes" "ValidateName (fm_name m) = Ok ()"
    "TrimSpace (fm_description m) = fm_description m"
    using stored_skill_file_fixed [OF c(2)] c(2) by (auto simp: parseSkillFile_Ok)
  have keys: "map fst (tr_files tree) = map fst (sort_key fst (root_files root files))" by (simp add: tree)
  have "skillFileName \<noteq> []" by (simp add: skillFileName_def)
  then have "(skillFileName, c0) \<in> set (root_files root files)"
    using map_of_SomeD [OF c(1)] by (simp add: root_files_mem)
  then have content: "map_of (tr_files tree) skillFileName = Some c"
    unfolding tree by (simp add: map_of_set_content image_iff) (metis fst_conv map_of_set_content rev_image_eqI set_sort)
  have "file_valid f \<and> (is_skill_file (fst f) \<longrightarrow> fst f = skillFileName)" if f: "f \<in> set (tr_files tree)" for f
  proof -
    consider (skill) "f = (skillFileName, c)" | (other) "f \<in> set (root_files root files)"
      using set_content_other [of f skillFileName c "sort_key fst (root_files root files)"] f by (auto simp: tree)
    then show ?thesis
    proof cases
      case skill
      have "ValidPath skillFileName" by code_simp
      moreover have "CHR 0x5C \<notin> set skillFileName" by (simp add: skillFileName_def)
      ultimately show ?thesis using skill parsed(2) by (simp add: file_valid_def entry_limit_def)
    next
      case other
      then have m: "(root @ fst f, snd f) \<in> set files" by (simp add: root_files_mem)
      then have v: "file_valid (root @ fst f, snd f)" using files(2) by (auto simp: list_all_iff)
      then have "file_valid f"
        using ValidPath_below [of root "fst f"] r skill_entry_limit [OF r, of "fst f"] by (simp add: file_valid_def)
      moreover have "fst f = skillFileName" if s: "is_skill_file (fst f)"
      proof (rule ccontr)
        assume n: "fst f \<noteq> skillFileName"
        have whole: "is_skill_file (root @ fst f)" using s skill_file_below [OF r] by simp
        let ?other = "TrimSuffix (root @ fst f) skillFileName"
        have o: "root @ fst f = ?other @ skillFileName" using skill_file_root [OF whole] by simp
        have "root @ fst f \<in> fst ` set files" using m by (metis fst_conv imageI)
        with whole have "?other \<in> set roots" unfolding files(3) by (rule archive_roots_mem [rotated])
        moreover have "?other \<noteq> root" using o n by (metis same_append_eq)
        moreover have "HasPrefix ?other root"
        proof -
          from s n obtain t where "fst f = t @ ''/'' @ skillFileName" by (auto simp: is_skill_file_def HasSuffix_iff)
          then have "root @ fst f = (root @ t @ ''/'') @ skillFileName" by simp
          then have "?other = root @ t @ ''/''" using o by (metis append_same_eq)
          then show ?thesis by (simp add: HasPrefix_iff)
        qed
        ultimately show False using roots_apart [OF apart root, of ?other] by metis
      qed
      ultimately show ?thesis by blast
    qed
  qed
  moreover have "sorted (map fst (tr_files tree))" unfolding keys by simp
  moreover have "distinct (map fst (tr_files tree))" unfolding keys distinct_sort_fst by (rule root_files_distinct [OF files(1)])
  moreover have n: "fm_name m = tr_name tree" and "fm_description m = tr_description tree" using parsed(4) by (simp_all add: tree)
  then have "\<exists>m c. map_of (tr_files tree) skillFileName = Some c \<and> parseSkillFile env skillFileName c = Ok (m, c)
      \<and> fm_name m = tr_name tree \<and> fm_description m = tr_description tree" using content parsed(1) by blast
  moreover have "ValidateName (tr_name tree) = Ok ()" using parsed(3) n by simp
  ultimately show ?thesis unfolding tree_wf_def using keys by blast
qed

lemma archive_roots_distinct: "distinct (map fst files) \<Longrightarrow> distinct (archive_roots files)"
proof -
  assume "distinct (map fst files)"
  then have "distinct (filter is_skill_file (map fst files))" by simp
  moreover have "inj_on (\<lambda>name. TrimSuffix name skillFileName) {name. is_skill_file name}"
    by (intro inj_onI) (metis mem_Collect_eq skill_file_root)
  ultimately show ?thesis by (auto simp: archive_roots_def distinct_map simp del: filter_map intro: inj_on_subset)
qed

lemma one_root:
  assumes "distinct roots" "archive_roots_loop None (sort roots) = Ok ()"
  shows "length (filter (\<lambda>root. in_root root name) roots) \<le> 1"
proof -
  have "a = b" if ab: "a \<in> set (filter (\<lambda>root. in_root root name) roots)" "b \<in> set (filter (\<lambda>root. in_root root name) roots)" for a b
  proof (rule ccontr)
    assume n: "a \<noteq> b"
    from ab(1) obtain s where "name = a @ s" by (auto simp: in_root_iff)
    moreover from ab(2) obtain t where "name = b @ t" by (auto simp: in_root_iff)
    ultimately have "HasPrefix a b \<or> HasPrefix b a" by (metis HasPrefix_iff append_eq_append_conv2)
    with n roots_apart [OF assms(2)] ab show False by auto
  qed
  moreover have "distinct (filter (\<lambda>root. in_root root name) roots)" using assms(1) by simp
  ultimately show ?thesis
    by (metis One_nat_def card_le_Suc0_iff_eq distinct_card finite_set)
qed

lemma split_by_roots:
  fixes g :: "'f \<Rightarrow> nat"
  assumes "\<And>f. length (filter (\<lambda>r. P r f) roots) \<le> 1"
  shows "sum_list (map (\<lambda>r. sum_list (map g (filter (P r) files))) roots) \<le> sum_list (map g files)"
proof (induction files)
  case (Cons f files)
  have "sum_list (map (\<lambda>r. sum_list (map g (filter (P r) (f # files)))) roots)
      = g f * length (filter (\<lambda>r. P r f) roots) + sum_list (map (\<lambda>r. sum_list (map g (filter (P r) files))) roots)"
    by (induction roots) auto
  moreover have "g f * length (filter (\<lambda>r. P r f) roots) \<le> g f"
    using mult_le_mono2 [OF assms [of f], of "g f"] unfolding mult_1_right .
  ultimately show ?case using Cons unfolding list.map sum_list.Cons by linarith
qed simp

lemma sum_sort: "sum_list (map g (sort_key k xs)) = sum_list (map g (xs :: 'f list) :: nat list)"
  by (metis mset_map mset_sort sum_mset_sum_list)

lemma concat_length: "length (concat (map h xs)) = sum_list (map (length \<circ> h) xs)"
  by (induction xs) auto

lemma concat_bytes: "total_bytes (concat (map h xs)) = sum_list (map (total_bytes \<circ> h) xs)"
  by (induction xs) (auto simp: total_bytes_def)

lemma total_set_content: "map_of files path = Some c0 \<Longrightarrow> length c \<le> length c0 \<Longrightarrow> total_bytes (set_content path c files) \<le> total_bytes files"
  by (induction files) (auto simp: total_bytes_def split: if_splits)

lemma root_tree_size:
  assumes "distinct (map fst files)" "root_tree env files seen root = Ok tree"
  shows "length (tr_files tree) = length (filter (\<lambda>f. in_root root (fst f)) files)
    \<and> total_bytes (tr_files tree) \<le> total_bytes (filter (\<lambda>f. in_root root (fst f)) files)"
proof -
  from assms(2) obtain c0 m c where c: "map_of files (root @ skillFileName) = Some c0" "parseSkillFile env (root @ skillFileName) c0 = Ok (m, c)"
    and tree: "tr_files tree = set_content skillFileName c (sort_key fst (root_files root files))"
    by (auto simp: root_tree_def split: option.splits sum.splits prod.splits if_splits)
  have "skillFileName \<noteq> []" by (simp add: skillFileName_def)
  then have "(skillFileName, c0) \<in> set (sort_key fst (root_files root files))"
    using map_of_SomeD [OF c(1)] by (simp add: root_files_mem)
  then have c0: "map_of (sort_key fst (root_files root files)) skillFileName = Some c0"
    using root_files_distinct [OF assms(1)] by (simp add: distinct_sort_fst)
  have "length c \<le> length c0" using c(2) length_canonical by (auto simp: parseSkillFile_Ok)
  then have "total_bytes (tr_files tree) \<le> total_bytes (sort_key fst (root_files root files))"
    unfolding tree by (rule total_set_content [OF c0])
  also have "\<dots> = total_bytes (filter (\<lambda>f. in_root root (fst f)) files)"
    by (simp add: total_bytes_def sum_sort) (simp add: root_files_def comp_def)
  finally have bytes: "total_bytes (tr_files tree) \<le> total_bytes (filter (\<lambda>f. in_root root (fst f)) files)" .
  have "length (tr_files tree) = length (map fst (tr_files tree))" by simp
  also have "\<dots> = length (root_files root files)" unfolding tree set_content_keys by simp
  finally show ?thesis using bytes by (simp add: root_files_def)
qed

lemma trees_loop_Ok: "trees_loop env files seen roots = Ok trees \<Longrightarrow>
    list_all2 (\<lambda>root tree. root_tree env files [] root = Ok tree) roots trees \<and> distinct (map tr_name trees)
    \<and> set (map tr_name trees) \<inter> set seen = {}"
proof (induction roots arbitrary: seen trees)
  case (Cons root roots)
  from Cons.prems obtain tree rest where t: "root_tree env files seen root = Ok tree" "trees = tree # rest"
    "trees_loop env files (tr_name tree # seen) roots = Ok rest"
    by (auto split: sum.splits simp: map_sum_def)
  then have "root_tree env files [] root = Ok tree" "tr_name tree \<notin> set seen"
    by (auto simp: root_tree_def split: option.splits sum.splits prod.splits if_splits)
  with t(2) Cons.IH [OF t(3)] show ?case by auto
qed simp

lemma parseZIP_Ok:
  assumes "parseZIP env archiveName (Some entries) = Ok b"
  obtains files roots extracted trees where
    "entries_loop archiveName ([], [], 0) entries = Ok (files, roots, extracted)" "roots \<noteq> []"
    "archive_roots_loop None (sort roots) = Ok ()" "trees_loop env files [] (sort roots) = Ok trees"
    "find (\<lambda>name. \<not> claimed roots name) (ar_order env (map fst files)) = None" "b = sort_key tr_name trees"
  using assms by (auto simp: parseZIP_def split: if_splits sum.splits prod.splits option.splits)

lemma parseZIP_wf:
  assumes "parseZIP env archiveName (Some entries) = Ok b" "sizes_documented entries"
  shows "bundle_wf env b"
proof -
  from parseZIP_Ok [OF assms(1)] obtain files roots extracted trees where
    parts: "entries_loop archiveName ([], [], 0) entries = Ok (files, roots, extracted)" "roots \<noteq> []"
      "archive_roots_loop None (sort roots) = Ok ()" "trees_loop env files [] (sort roots) = Ok trees" and b: "b = sort_key tr_name trees"
    by metis
  have inv: "archive_inv (files, roots, extracted)"
    by (rule entries_loop_inv [OF parts(1) _ assms(2)]) (simp add: archive_inv_def archive_roots_def total_bytes_def)
  then have files: "distinct (map fst files)" "length files \<le> maxFiles" "total_bytes files \<le> maxExtractedBytes" "distinct roots"
    by (auto simp: archive_inv_def archive_roots_distinct)
  have built: "list_all2 (\<lambda>root tree. root_tree env files [] root = Ok tree) (sort roots) trees" "distinct (map tr_name trees)"
    using trees_loop_Ok [OF parts(4)] by auto
  then have "length trees = length roots" by (metis length_sort list_all2_lengthD)
  have wf: "tree_wf env tree" if t: "tree \<in> set trees" for tree
  proof -
    from t obtain i where i: "i < length trees" "trees ! i = tree" by (auto simp: in_set_conv_nth)
    with built(1) have "root_tree env files [] (sort roots ! i) = Ok tree" by (auto simp: list_all2_conv_all_nth)
    moreover have "sort roots ! i \<in> set roots" using i \<open>length trees = length roots\<close> by (metis length_sort nth_mem set_sort)
    ultimately show ?thesis using root_tree_wf [OF inv parts(3)] by blast
  qed
  have sums: "sum_list (map (length \<circ> tr_files) trees) = sum_list (map (\<lambda>root. length (filter (\<lambda>f. in_root root (fst f)) files)) rs)
      \<and> sum_list (map (total_bytes \<circ> tr_files) trees) \<le> sum_list (map (\<lambda>root. total_bytes (filter (\<lambda>f. in_root root (fst f)) files)) rs)"
    if "list_all2 (\<lambda>root tree. root_tree env files [] root = Ok tree) rs trees" for rs trees
    using that
  proof (induction rule: list_all2_induct)
    case (Cons root rs tree trees)
    then show ?case using root_tree_size [OF files(1) Cons(1)] by simp
  qed simp
  have one: "length (filter (\<lambda>root. in_root root (fst f)) (sort roots)) \<le> 1" for f :: skill_file
    by (rule one_root) (use files(4) parts(3) in \<open>simp_all add: sorted_sort_id\<close>)
  have "sum_list (map (length \<circ> tr_files) trees) \<le> length files"
    using sums [OF built(1)] split_by_roots [of "\<lambda>root f. in_root root (fst f)" "sort roots" "\<lambda>_. 1" files, OF one]
    by (simp add: sum_list_triv)
  moreover have "sum_list (map (total_bytes \<circ> tr_files) trees) \<le> total_bytes files"
    using sums [OF built(1)] split_by_roots [of "\<lambda>root f. in_root root (fst f)" "sort roots" "length \<circ> snd" files, OF one]
    by (simp add: total_bytes_def)
  moreover have "length (concat (map tr_files b)) = sum_list (map (length \<circ> tr_files) trees)"
    unfolding b concat_length by (rule sum_sort)
  moreover have "total_bytes (concat (map tr_files b)) = sum_list (map (total_bytes \<circ> tr_files) trees)"
    unfolding b concat_bytes by (rule sum_sort)
  moreover have "trees \<noteq> []" using \<open>length trees = length roots\<close> parts(2) by auto
  ultimately show ?thesis
    using files wf built(2) by (simp add: bundle_wf_def b list_all_iff distinct_map) (metis sort_key_const set_sort set_empty)
qed

subsection \<open>The canonical archive\<close>

definition stored_files :: "Tree \<Rightarrow> skill_file list" where
  "stored_files tree = map (\<lambda>f. (tr_name tree @ ''/'' @ fst f, snd f)) (tr_files tree)"

definition portable :: "Tree \<Rightarrow> bool" where
  "portable tree \<longleftrightarrow> (\<forall>f\<in>set (tr_files tree). fst f \<noteq> ''.'' \<and> length (tr_name tree) + 1 + length (fst f) \<le> maxPathBytes)"

lemma Split_absent_slash: "slash \<notin> set s \<Longrightarrow> Split slash s = [s]"
  by (induction s) auto

lemma skill_name_plain: "ValidateName name = Ok () \<Longrightarrow> name \<noteq> [] \<and> slash \<notin> set name \<and> CHR 0x5C \<notin> set name \<and> name \<noteq> ''.'' \<and> name \<noteq> ''..''
    \<and> list_all is_ascii name"
  using skill_name_chars [of name] by (auto simp: list_all_iff dns_alnum_def in_range_def slash_def)

lemma before_first_slash: "\<lbrakk> a @ slash # s = b @ slash # t; slash \<notin> set a; slash \<notin> set b \<rbrakk> \<Longrightarrow> a = b \<and> s = t"
proof (induction a arbitrary: b)
  case Nil
  then show ?case by (cases b) auto
next
  case (Cons c a)
  then show ?case by (cases b) auto
qed

lemma clean_kept: "list_all (\<lambda>e. e \<noteq> [] \<and> e \<noteq> ''.'' \<and> e \<noteq> ''..'') es \<Longrightarrow> foldl (clean_step rooted) out es = out @ es"
  by (induction es arbitrary: out) auto

lemma path_join_plain:
  assumes "ValidateName name = Ok ()" "ValidPath p" "p \<noteq> ''.''"
  shows "path_join name p = name @ ''/'' @ p"
proof -
  have n: "name \<noteq> []" "slash \<notin> set name" "name \<noteq> ''.''" "name \<noteq> ''..''" using skill_name_plain [OF assms(1)] by auto
  have p: "p \<noteq> []" "list_all (\<lambda>e. e \<noteq> [] \<and> e \<noteq> ''.'' \<and> e \<noteq> ''..'') (Split slash p)"
    using assms(2,3) by (auto simp: ValidPath_def)
  have s: "Split slash (name @ slash # p) = name # Split slash p"
    using n(2) by (simp add: Split_append_slash Split_absent_slash)
  have "\<not> HasPrefix (name @ slash # p) ''/''" using n by (cases name) (auto simp: slash_def)
  moreover have "foldl (clean_step False) [] (Split slash (name @ slash # p)) = Split slash (name @ slash # p)"
    using n p(2) by (subst clean_kept) (simp_all add: s)
  moreover have "Join ''/'' (Split slash (name @ slash # p)) = name @ slash # p"
    using Join_Split [of slash "name @ slash # p"] by (simp add: slash_def)
  ultimately show ?thesis using n(1) p(1) by (simp add: path_join_def path_clean_def Let_def s slash_def)
qed

lemma ValidPath_under: "ValidateName name = Ok () \<Longrightarrow> ValidPath p \<Longrightarrow> p \<noteq> ''.'' \<Longrightarrow> ValidPath (name @ ''/'' @ p)"
  using skill_name_plain [of name] Split_append_slash [of slash name p] Split_absent_slash [of name]
    ValidString_ascii_prefix [of "name @ ''/''" p]
  by (auto simp: ValidPath_def slash_def)

lemma tree_root: "is_root (name @ ''/'')"
  by (simp add: is_root_def slash_def)

lemma stored_valid:
  assumes "tree_wf env tree" "portable tree"
  shows "list_all file_valid (stored_files tree)"
    and "\<forall>f\<in>set (stored_files tree). length (fst f) \<le> maxPathBytes"
    and "map (\<lambda>f. file_entry (path_join (tr_name tree) (fst f)) (snd f)) (tr_files tree) = map (\<lambda>f. file_entry (fst f) (snd f)) (stored_files tree)"
proof -
  have name: "ValidateName (tr_name tree) = Ok ()" using assms(1) by (simp add: tree_wf_def)
  have f: "ValidPath (fst f)" "CHR 0x5C \<notin> set (fst f)" "length (snd f) \<le> entry_limit (fst f)" "fst f \<noteq> ''.''"
    "length (tr_name tree) + 1 + length (fst f) \<le> maxPathBytes" if "f \<in> set (tr_files tree)" for f
    using assms that by (auto simp: tree_wf_def portable_def file_valid_def)
  have "file_valid (tr_name tree @ ''/'' @ fst f, snd f)" if "f \<in> set (tr_files tree)" for f
    using ValidPath_under [OF name f(1,4) [OF that]] f(2,3) [OF that] skill_name_plain [OF name]
      skill_entry_limit [OF tree_root, of "tr_name tree" "fst f"]
    by (simp add: file_valid_def)
  then show "list_all file_valid (stored_files tree)" by (auto simp: stored_files_def list_all_iff)
  show "\<forall>f\<in>set (stored_files tree). length (fst f) \<le> maxPathBytes" using f(5) by (auto simp: stored_files_def)
  show "map (\<lambda>f. file_entry (path_join (tr_name tree) (fst f)) (snd f)) (tr_files tree) = map (\<lambda>f. file_entry (fst f) (snd f)) (stored_files tree)"
    using path_join_plain [OF name] f by (simp add: stored_files_def)
qed

lemma entry_step_file:
  assumes "file_valid f" "length (fst f) \<le> maxPathBytes" "length files < maxFiles" "fst f \<notin> fst ` set files"
    "extracted + length (snd f) \<le> maxExtractedBytes"
  shows "entry_step archiveName (files, roots, extracted) (file_entry (fst f) (snd f))
    = Ok (files @ [f], roots @ archive_roots [f], extracted + length (snd f))"
proof -
  have v: "ValidPath (fst f)" "CHR 0x5C \<notin> set (fst f)" "length (snd f) \<le> entry_limit (fst f)" using assms(1) by (auto simp: file_valid_def)
  have "TrimSuffix (fst f) ''/'' = fst f" using ValidPath_no_final_slash [OF v(1)] by (simp add: TrimSuffix_def)
  moreover have "ValidString (fst f)" using v(1) by (simp add: ValidPath_def)
  ultimately show ?thesis
    using v assms by (simp add: entry_step_def file_entry_def Let_def archive_roots_def)
qed

lemma entries_loop_files:
  "\<lbrakk> list_all file_valid fs; \<forall>f\<in>set fs. length (fst f) \<le> maxPathBytes; distinct (map fst (files @ fs)); length (files @ fs) \<le> maxFiles;
     extracted + total_bytes fs \<le> maxExtractedBytes \<rbrakk> \<Longrightarrow>
   entries_loop archiveName (files, roots, extracted) (map (\<lambda>f. file_entry (fst f) (snd f)) fs)
     = Ok (files @ fs, roots @ archive_roots fs, extracted + total_bytes fs)"
proof (induction fs arbitrary: files roots extracted)
  case Nil
  then show ?case by (simp add: archive_roots_def total_bytes_def)
next
  case (Cons f fs)
  have "entry_step archiveName (files, roots, extracted) (file_entry (fst f) (snd f))
      = Ok (files @ [f], roots @ archive_roots [f], extracted + length (snd f))"
    using Cons.prems by (intro entry_step_file) (auto simp: total_bytes_def)
  moreover have "entries_loop archiveName (files @ [f], roots @ archive_roots [f], extracted + length (snd f)) (map (\<lambda>f. file_entry (fst f) (snd f)) fs)
      = Ok ((files @ [f]) @ fs, (roots @ archive_roots [f]) @ archive_roots fs, extracted + length (snd f) + total_bytes fs)"
    using Cons.prems by (intro Cons.IH) (auto simp: total_bytes_def)
  ultimately show ?case by (simp add: archive_roots_def total_bytes_def)
qed

lemma tree_roots:
  assumes "tree_wf env tree"
  shows "archive_roots (stored_files tree) = [tr_name tree @ ''/'']"
proof -
  have d: "distinct (map fst (tr_files tree))" and k: "skillFileName \<in> set (map fst (tr_files tree))"
    and only: "\<And>p. p \<in> set (map fst (tr_files tree)) \<Longrightarrow> is_skill_file p \<longleftrightarrow> p = skillFileName"
    using assms by (auto simp: tree_wf_def dest: map_of_SomeD intro: rev_image_eqI)
  have one: "distinct xs \<Longrightarrow> x \<in> set xs \<Longrightarrow> (\<And>y. y \<in> set xs \<Longrightarrow> P y \<longleftrightarrow> y = x) \<Longrightarrow> filter P xs = [x]" for xs :: "string list" and x P
    by (induction xs) (auto simp: filter_empty_conv)
  have "filter is_skill_file (map fst (stored_files tree)) = map (\<lambda>p. tr_name tree @ ''/'' @ p) (filter is_skill_file (map fst (tr_files tree)))"
    using skill_file_below [OF tree_root, of "tr_name tree"] by (simp add: stored_files_def filter_map comp_def)
  also have "filter is_skill_file (map fst (tr_files tree)) = [skillFileName]" by (rule one [OF d k]) (rule only)
  also have "map (\<lambda>p. tr_name tree @ ''/'' @ p) [skillFileName] = [tr_name tree @ ''/'' @ skillFileName]" by simp
  finally show ?thesis
    using TrimSuffix_append [of "tr_name tree @ ''/''" skillFileName] by (simp add: archive_roots_def)
qed

lemma archive_roots_append: "archive_roots (xs @ ys) = archive_roots xs @ archive_roots ys"
  by (simp add: archive_roots_def)

lemma archive_roots_concat: "\<forall>tree\<in>set b. tree_wf env tree \<Longrightarrow> archive_roots (concat (map stored_files b)) = map (\<lambda>tree. tr_name tree @ ''/'') b"
  by (induction b) (auto simp: archive_roots_append tree_roots, simp add: archive_roots_def)

lemma stored_key_name: "ValidateName (tr_name a) = Ok () \<Longrightarrow> ValidateName (tr_name b) = Ok () \<Longrightarrow>
    k \<in> fst ` set (stored_files a) \<Longrightarrow> k \<in> fst ` set (stored_files b) \<Longrightarrow> tr_name a = tr_name b"
  using skill_name_plain [of "tr_name a"] skill_name_plain [of "tr_name b"]
  by (auto simp: stored_files_def slash_def [symmetric] dest: before_first_slash)

lemma stored_distinct:
  assumes "\<forall>tree\<in>set b. tree_wf env tree" "distinct (map tr_name b)"
  shows "distinct (map fst (concat (map stored_files b)))"
  using assms
proof (induction b)
  case (Cons tree b)
  have name: "ValidateName (tr_name t) = Ok ()" if "t \<in> set (tree # b)" for t using Cons.prems(1) that by (auto simp: tree_wf_def)
  have "distinct (map fst (stored_files tree))"
    using Cons.prems(1) by (auto simp: stored_files_def tree_wf_def distinct_map inj_on_def)
  moreover have "set (map fst (stored_files tree)) \<inter> set (map fst (concat (map stored_files b))) = {}"
  proof -
    have "tr_name tree \<in> tr_name ` set b" if "k \<in> set (map fst (stored_files tree))" "k \<in> set (map fst (concat (map stored_files b)))" for k
      using that stored_key_name [OF name name, of tree _ k] by (fastforce intro: rev_image_eqI)
    with Cons.prems(2) show ?thesis by auto
  qed
  ultimately show ?case using Cons by simp
qed simp

lemma root_files_append: "root_files root (xs @ ys) = root_files root xs @ root_files root ys"
  by (simp add: root_files_def)

lemma tree_path_nonempty: "tree_wf env tree \<Longrightarrow> f \<in> set (tr_files tree) \<Longrightarrow> fst f \<noteq> []"
  by (auto simp: tree_wf_def file_valid_def ValidPath_def)

lemma root_files_tree:
  assumes "tree_wf env tree" "ValidateName name = Ok ()"
  shows "root_files (name @ ''/'') (stored_files tree) = (if tr_name tree = name then tr_files tree else [])"
proof -
  have n: "slash \<notin> set name" "slash \<notin> set (tr_name tree)"
    using skill_name_plain assms by (auto simp: tree_wf_def)
  have p: "fst f \<noteq> []" if "f \<in> set (tr_files tree)" for f by (rule tree_path_nonempty [OF assms(1) that])
  show ?thesis
  proof (cases "tr_name tree = name")
    case True
    have "in_root (name @ ''/'') (name @ ''/'' @ fst f)" if "f \<in> set (tr_files tree)" for f
      using p [OF that] by (auto simp: in_root_iff)
    moreover have "TrimPrefix (name @ ''/'' @ q) (name @ ''/'') = q" for q using TrimPrefix_append [of "name @ ''/''" q] by simp
    ultimately show ?thesis using True by (simp add: root_files_def stored_files_def filter_map comp_def cong: map_cong)
  next
    case False
    have "\<not> in_root (name @ ''/'') (tr_name tree @ ''/'' @ q)" for q
      using before_first_slash [of "tr_name tree" q name] n False by (auto simp: in_root_iff slash_def)
    with False show ?thesis by (simp add: root_files_def stored_files_def)
  qed
qed

lemma root_files_bundle:
  assumes "\<forall>tree\<in>set b. tree_wf env tree" "distinct (map tr_name b)" "tree \<in> set b"
  shows "root_files (tr_name tree @ ''/'') (concat (map stored_files b)) = tr_files tree"
proof -
  have name: "ValidateName (tr_name tree) = Ok ()" using assms(1,3) by (auto simp: tree_wf_def)
  have none: "root_files (tr_name tree @ ''/'') (concat (map stored_files ts)) = []" if "set ts \<subseteq> set b" "tr_name tree \<notin> tr_name ` set ts" for ts
    using that
  proof (induction ts)
    case (Cons t ts)
    then have "tree_wf env t" using assms(1) by auto
    then have "root_files (tr_name tree @ ''/'') (stored_files t) = []" using root_files_tree [OF _ name, of env t] Cons.prems by auto
    with Cons show ?case by (simp add: root_files_append)
  qed (simp add: root_files_def)
  obtain xs ys where b: "b = xs @ tree # ys" using assms(3) by (meson split_list)
  have "root_files (tr_name tree @ ''/'') (stored_files tree) = tr_files tree"
    using root_files_tree [OF _ name, of env tree] assms(1,3) by auto
  moreover have "set xs \<subseteq> set b" "set ys \<subseteq> set b" "tr_name tree \<notin> tr_name ` set xs" "tr_name tree \<notin> tr_name ` set ys"
    using assms(2) by (auto simp: b)
  ultimately show ?thesis using none [of xs] none [of ys] by (simp add: b root_files_append)
qed

lemma root_tree_stored:
  assumes "\<forall>tree\<in>set b. tree_wf env tree" "distinct (map tr_name b)" "tree \<in> set b" "tr_name tree \<notin> set seen"
  shows "root_tree env (concat (map stored_files b)) seen (tr_name tree @ ''/'') = Ok tree"
proof -
  have wf: "tree_wf env tree" using assms(1,3) by blast
  then obtain m c where c: "map_of (tr_files tree) skillFileName = Some c" "parseSkillFile env skillFileName c = Ok (m, c)"
    "fm_name m = tr_name tree" "fm_description m = tr_description tree" by (auto simp: tree_wf_def)
  let ?files = "concat (map stored_files b)" and ?name = "(tr_name tree @ ''/'') @ skillFileName"
  have "(?name, c) \<in> set (stored_files tree)" using map_of_SomeD [OF c(1)] by (force simp: stored_files_def)
  then have "(?name, c) \<in> set ?files" using assms(3) by auto
  then have found: "map_of ?files ?name = Some c" using stored_distinct [OF assms(1,2)] by (rule map_of_is_SomeI [rotated])
  have parsed: "parseSkillFile env ?name c = Ok (m, c)" using c(2) unfolding parseSkillFile_Ok .
  have sorted: "sort_key fst (tr_files tree) = tr_files tree" using wf by (intro sort_key_id_if_sorted) (simp add: tree_wf_def)
  have same: "set_content skillFileName c (tr_files tree) = tr_files tree" by (rule set_content_same [OF c(1)])
  have "TrimSpace (fm_description m) = fm_description m" using c(2) by (auto simp: parseSkillFile_Ok)
  then show ?thesis
    using assms(4) unfolding root_tree_def found parsed root_files_bundle [OF assms(1-3)] sorted option.case sum.case prod.case same
    by (simp add: c(3,4))
qed

lemma trees_loop_stored:
  assumes "\<forall>tree\<in>set b. tree_wf env tree" "distinct (map tr_name b)"
  shows "\<lbrakk> set ts \<subseteq> set b; distinct (map tr_name ts); set (map tr_name ts) \<inter> set seen = {} \<rbrakk> \<Longrightarrow>
    trees_loop env (concat (map stored_files b)) seen (map (\<lambda>tree. tr_name tree @ ''/'') ts) = Ok ts"
proof (induction ts arbitrary: seen)
  case (Cons tree ts)
  have "root_tree env (concat (map stored_files b)) seen (tr_name tree @ ''/'') = Ok tree"
    using Cons.prems by (intro root_tree_stored [OF assms]) auto
  moreover have "trees_loop env (concat (map stored_files b)) (tr_name tree # seen) (map (\<lambda>tree. tr_name tree @ ''/'') ts) = Ok ts"
    using Cons.prems by (intro Cons.IH) auto
  ultimately show ?case by simp
qed simp

lemma sort_map: "sort (map f xs) = map f (sort_key f xs)"
  by (rule properties_for_sort) auto

lemma sorted_wrt_pairs: "distinct xs \<Longrightarrow> (\<And>a b. a \<in> set xs \<Longrightarrow> b \<in> set xs \<Longrightarrow> a \<noteq> b \<Longrightarrow> R a b) \<Longrightarrow> sorted_wrt R xs"
  by (induction xs) auto

definition order_covers :: "(string list \<Rightarrow> string list) \<Rightarrow> bool" where
  "order_covers f \<longleftrightarrow> (\<forall>xs. set (f xs) = set xs)"

lemma reimport:
  assumes wf: "bundle_wf env b" and port: "list_all portable b" and order: "order_covers (ar_order env)"
  shows "parseZIP env archiveName (Some (WriteZIP b)) = Ok b"
proof -
  let ?fs = "concat (map stored_files b)" and ?root = "\<lambda>tree. tr_name tree @ ''/''"
  have trees: "\<forall>tree\<in>set b. tree_wf env tree" "distinct (map tr_name b)" "sorted (map tr_name b)" "b \<noteq> []"
    using wf by (auto simp: bundle_wf_def list_all_iff)
  have name: "ValidateName (tr_name tree) = Ok ()" if "tree \<in> set b" for tree using trees(1) that by (auto simp: tree_wf_def)
  have port': "portable tree" if "tree \<in> set b" for tree using port that by (auto simp: list_all_iff)
  have "WriteZIP ts = map (\<lambda>f. file_entry (fst f) (snd f)) (concat (map stored_files ts))" if "set ts \<subseteq> set b" for ts
    using that
  proof (induction ts)
    case (Cons t ts)
    then have "tree_wf env t" "portable t" using trees(1) port' by auto
    from stored_valid(3) [OF this] Cons show ?case by (simp add: WriteZIP_def)
  qed (simp add: WriteZIP_def)
  then have entries: "WriteZIP b = map (\<lambda>f. file_entry (fst f) (snd f)) ?fs" by blast
  have "list_all file_valid (stored_files t) \<and> (\<forall>f\<in>set (stored_files t). length (fst f) \<le> maxPathBytes)" if "t \<in> set b" for t
    using stored_valid(1,2) [of env t] trees(1) port' that by blast
  then have valid: "list_all file_valid ?fs" "\<forall>f\<in>set ?fs. length (fst f) \<le> maxPathBytes"
    unfolding list_all_iff set_concat set_map by blast+
  have len: "length ?fs = length (concat (map tr_files b))" by (simp add: concat_length comp_def stored_files_def)
  moreover have "total_bytes ?fs = total_bytes (concat (map tr_files b))"
    by (simp add: concat_bytes comp_def stored_files_def) (simp add: total_bytes_def comp_def)
  ultimately have limits: "length ?fs \<le> maxFiles" "total_bytes ?fs \<le> maxExtractedBytes" using wf by (auto simp: bundle_wf_def)
  have loop: "entries_loop archiveName ([], [], 0) (WriteZIP b) = Ok (?fs, map ?root b, total_bytes ?fs)"
    using entries_loop_files [of ?fs "[]" 0 archiveName "[]"] valid limits stored_distinct [OF trees(1,2)]
    unfolding entries archive_roots_concat [OF trees(1), symmetric] append_Nil add_0 by blast
  have "distinct (map ?root b)" using trees(2) by (simp add: distinct_map inj_on_def)
  moreover have "\<not> HasPrefix (?root s) (?root t)" if "s \<in> set b" "t \<in> set b" "?root t \<noteq> ?root s" for s t
    using that before_first_slash [of "tr_name s" _ "tr_name t"] skill_name_plain [OF name] by (auto simp: HasPrefix_iff slash_def)
  ultimately have roots: "archive_roots_loop None (sort (map ?root b)) = Ok ()"
    unfolding roots_loop_Ok by (intro conjI sorted_wrt_pairs) auto
  let ?ts = "sort_key ?root b"
  have "distinct (map tr_name ?ts)" using trees(2) by (simp add: distinct_map)
  then have ts: "trees_loop env ?fs [] (sort (map ?root b)) = Ok ?ts"
    unfolding sort_map by (intro trees_loop_stored [OF trees(1,2)]) auto
  have kept: "sort_key tr_name ?ts = b"
    using trees(2,3) by (intro sort_key_inj_key_eq) (auto simp: distinct_map)
  have "claimed (map ?root b) (fst f)" if f: "f \<in> set ?fs" for f
  proof -
    from f obtain tree q where "tree \<in> set b" "q \<in> set (tr_files tree)" "fst f = ?root tree @ fst q" by (auto simp: stored_files_def)
    moreover have "fst q \<noteq> []" using calculation trees(1) tree_path_nonempty by blast
    ultimately show ?thesis by (auto simp: claimed_def list_ex_iff in_root_iff)
  qed
  then have found: "find (\<lambda>name. \<not> claimed (map ?root b) name) (ar_order env (map fst ?fs)) = None"
    using order by (auto simp: find_None_iff order_covers_def)
  have "length (WriteZIP b) \<le> maxEntries" using limits(1) by (simp add: entries maxFiles_def maxEntries_def)
  then show ?thesis using trees(4) by (simp add: parseZIP_def loop roots ts found kept)
qed

text \<open>C15. What an archive imports is safe to store and deploy. If an import of a ZIP archive passes, each skill has a
  valid name that no other has, a \<open>SKILL.md\<close> with that name that parses to itself, and files with
  distinct relative paths without traversal or backslashes, within their size limits and with no second
  \<open>SKILL.md\<close> below the first; all skills together stay within the limits on files and bytes.\<close>

theorem imported_bundle_safe:
  assumes "parseZIP env archiveName (Some entries) = Ok b" "sizes_documented entries"
  shows "distinct (map tr_name b) \<and> length (concat (map tr_files b)) \<le> 200 \<and> total_bytes (concat (map tr_files b)) \<le> 20971520
    \<and> (\<forall>tree\<in>set b. ValidateName (tr_name tree) = Ok () \<and> distinct (map fst (tr_files tree))
      \<and> (\<exists>m c. (skillFileName, c) \<in> set (tr_files tree) \<and> parseSkillFile env skillFileName c = Ok (m, c) \<and> fm_name m = tr_name tree)
      \<and> (\<forall>(path, content)\<in>set (tr_files tree). ValidPath path \<and> CHR 0x5C \<notin> set path \<and> length content \<le> entry_limit path
          \<and> (is_skill_file path \<longrightarrow> path = skillFileName)))"
proof -
  have wf: "bundle_wf env b" by (rule parseZIP_wf [OF assms])
  then have "tree_wf env tree" if "tree \<in> set b" for tree using that by (auto simp: bundle_wf_def list_all_iff)
  moreover have "(skillFileName, c) \<in> set (tr_files tree)" if "map_of (tr_files tree) skillFileName = Some c" for tree c
    using that by (rule map_of_SomeD)
  ultimately show ?thesis
    using wf unfolding bundle_wf_def tree_wf_def file_valid_def maxFiles_def maxExtractedBytes_def by fastforce
qed

definition zip_documented :: "('a) archive_env_scheme \<Rightarrow> bool" where
  "zip_documented env \<longleftrightarrow> (\<forall>text entries. ar_zip env text = Some entries \<longrightarrow> sizes_documented entries)"

lemma parseMarkdown_wf: "parseMarkdown env name content = Ok b \<Longrightarrow> bundle_wf env b"
proof -
  assume "parseMarkdown env name content = Ok b"
  then obtain m c where p: "parseSkillFile env name content = Ok (m, c)"
    and b: "b = [\<lparr>tr_name = fm_name m, tr_description = TrimSpace (fm_description m), tr_files = [(skillFileName, c)]\<rparr>]"
    by (auto simp: parseMarkdown_def split: sum.splits prod.splits)
  have "ValidPath skillFileName" by code_simp
  moreover have "CHR 0x5C \<notin> set skillFileName" by (simp add: skillFileName_def)
  ultimately show ?thesis
    using stored_skill_file_fixed [OF p, of skillFileName] p
    by (auto simp: b bundle_wf_def tree_wf_def file_valid_def entry_limit_def total_bytes_def maxFiles_def maxExtractedBytes_def
        maxSkillBytes_def parseSkillFile_Ok)
qed

lemma Parse_wf: "zip_documented env \<Longrightarrow> Parse env name (Ok text) = Ok b \<Longrightarrow> bundle_wf env b"
proof -
  assume z: "zip_documented env" and p: "Parse env name (Ok text) = Ok b"
  then have "length (take (maxUploadBytes + 1) text) \<le> maxUploadBytes" by (auto simp: Parse_def parse_upload_def Let_def split: if_splits)
  then have "take (maxUploadBytes + 1) text = text" by simp
  with p consider content where "parseMarkdown env name content = Ok b" | "parseZIP env name (ar_zip env text) = Ok b"
    by (auto simp: Parse_def parse_upload_def Let_def split: if_splits)
  then show ?thesis
  proof cases
    case 2
    then obtain entries where "ar_zip env text = Some entries" by (cases "ar_zip env text") (auto simp: parseZIP_def)
    with 2 z show ?thesis using parseZIP_wf [of env name entries b] by (auto simp: zip_documented_def)
  qed (rule parseMarkdown_wf)
qed

text \<open>C16. The gateway's archive is accepted by the file service of the Agent. The gateway parses an upload, writes the
  skills as a canonical archive and sends it to the service, which parses it again; whatever the upload was,
  the second parse gives exactly the skills of the first, with every byte of every file. This needs that the
  ZIP library reads what it wrote, and that every path is portable: not the path \<open>.\<close>, and short enough
  behind the name of the skill.\<close>

theorem canonical_archive_accepted:
  assumes "zip_documented env" "order_covers (ar_order env)"
    and "Parse env name (Ok text) = Ok b" "list_all portable b"
    and "ar_zip env archive = Some (WriteZIP b)" "length archive \<le> maxCanonicalBytes"
  shows "ParseCanonicalZIP env (Ok archive) = Ok b"
proof -
  have "path_ext ''skills.zip'' = ''.zip''" by code_simp
  moreover have "ToLower (ar_lower env) ''.zip'' = ''.zip''" by (simp add: ToLower_ascii ascii_lower_def in_range_def)
  moreover have "parseZIP env ''skills.zip'' (ar_zip env archive) = Ok b"
    unfolding assms(5) by (rule reimport [OF Parse_wf [OF assms(1,3)] assms(4,2)])
  ultimately show ?thesis using assms(6) by (simp add: ParseCanonicalZIP_def parse_upload_def Let_def)
qed

text \<open>The path that is not portable: a file of that name is stored under the name of its skill.\<close>

lemma dot_is_lost: "ValidPath ''.'' \<and> \<not> is_skill_file ''.'' \<and> path_join ''git'' ''.'' = ''git''"
  by (intro conjI; code_simp)

subsection \<open>Decided imports\<close>

lemma rename_tree_name: "rename_tree env destination tree = Ok tree' \<Longrightarrow> tr_name tree' = destination"
  by (auto simp: rename_tree_def map_sum_def split: if_splits sum.splits)

lemma rewrite_files_kept: "rewrite_files env destination files = Ok files' \<Longrightarrow>
    list_all2 (\<lambda>f g. fst g = fst f \<and> (fst f \<noteq> skillFileName \<longrightarrow> g = f)) files files'"
  by (induction env destination files arbitrary: files' rule: rewrite_files.induct) (auto simp: map_sum_def split: if_splits sum.splits)

lemma rename_tree_kept: "rename_tree env destination tree = Ok tree' \<Longrightarrow>
    list_all2 (\<lambda>f g. fst g = fst f \<and> (fst f \<noteq> skillFileName \<longrightarrow> g = f)) (tr_files tree) (tr_files tree')"
  using rewrite_files_kept [of env destination "tr_files tree"]
  by (auto simp: rename_tree_def map_sum_def list_all2_same split: if_splits sum.splits)

definition decides :: "('a) yaml_env_scheme \<Rightarrow> (string \<Rightarrow> Tree option) \<Rightarrow> Decision \<Rightarrow> Tree \<Rightarrow> bool" where
  "decides env byName d tree \<longleftrightarrow> (\<exists>source. byName (dc_name d) = Some source \<and> decision_destination d = Ok (tr_name tree)
     \<and> ValidateName (tr_name tree) = Ok () \<and> rename_tree env (tr_name tree) source = Ok tree)"

lemma decisions_loop_Ok: "decisions_loop env byName ss sd ds = Ok out \<Longrightarrow>
    distinct (map dc_name ds) \<and> dc_name ` set ds \<inter> set ss = {} \<and> distinct (map tr_name out) \<and> tr_name ` set out \<inter> set sd = {}
    \<and> list_all2 (decides env byName) ds out"
proof (induction ds arbitrary: ss sd out)
  case (Cons d ds)
  obtain source where source: "byName (dc_name d) = Some source" using Cons.prems by (cases "byName (dc_name d)") auto
  have fresh: "dc_name d \<notin> set ss" using Cons.prems source by (auto split: if_split_asm)
  obtain destination where destination: "decision_destination d = Ok destination"
    using Cons.prems source fresh by (cases "decision_destination d") auto
  have valid: "ValidateName destination = Ok ()" using Cons.prems source fresh destination by (cases "ValidateName destination") auto
  have new: "destination \<notin> set sd" using Cons.prems source fresh destination valid by (auto split: if_split_asm)
  obtain tree where tree: "rename_tree env destination source = Ok tree"
    using Cons.prems source fresh destination valid new by (cases "rename_tree env destination source") auto
  have name: "tr_name tree = destination" by (rule rename_tree_name [OF tree])
  obtain rest where rest: "decisions_loop env byName (dc_name d # ss) (destination # sd) ds = Ok rest" "out = tree # rest"
    using Cons.prems source fresh destination valid new tree
    by (cases "decisions_loop env byName (dc_name d # ss) (destination # sd) ds") auto
  have "decides env byName d tree" using source destination valid tree name by (simp add: decides_def)
  with Cons.IH [OF rest(1)] fresh new name rest(2) show ?case by auto
qed simp

text \<open>C23. Every skill of an import is decided exactly once. If the decisions on an import with distinct names pass, each
  skill is the source of one decision and no two go to the same destination; the result has distinct valid
  names in order, each given by a decision, and a skill keeps the paths of its files and all contents
  except that of \<open>SKILL.md\<close>, which is rewritten only if the name changes.\<close>

theorem decided_bundle:
  assumes "Decide env b decisions = Ok out" "distinct (map tr_name b)"
  shows "distinct (map dc_name decisions) \<and> set (map dc_name decisions) = set (map tr_name b)
    \<and> distinct (map tr_name out) \<and> sorted (map tr_name out) \<and> length out = length b
    \<and> (\<forall>tree\<in>set out. ValidateName (tr_name tree) = Ok () \<and> (\<exists>d\<in>set decisions. \<exists>source\<in>set b.
        dc_name d = tr_name source \<and> decision_destination d = Ok (tr_name tree) \<and> (tr_name tree = tr_name source \<longrightarrow> tree = source)
        \<and> list_all2 (\<lambda>f g. fst g = fst f \<and> (fst f \<noteq> skillFileName \<longrightarrow> g = f)) (tr_files source) (tr_files tree)))"
proof -
  let ?byName = "map_of (rev (map (\<lambda>tree. (tr_name tree, tree)) b))"
  obtain trees where t: "decisions_loop env ?byName [] [] decisions = Ok trees" "out = sort_key tr_name trees"
    and len: "length decisions = length b"
    using assms(1) by (auto simp: Decide_def map_sum_def split: if_splits sum.splits)
  have d: "distinct (map dc_name decisions)" "distinct (map tr_name trees)" "list_all2 (decides env ?byName) decisions trees"
    using decisions_loop_Ok [OF t(1)] by auto
  have source: "source \<in> set b \<and> tr_name source = name" if "?byName name = Some source" for name source
    using map_of_SomeD [OF that] by auto
  have known: "set (map dc_name decisions) \<subseteq> set (map tr_name b)"
  proof
    fix name assume "name \<in> set (map dc_name decisions)"
    then obtain i where "i < length decisions" "name = dc_name (decisions ! i)" by (auto simp: in_set_conv_nth)
    with d(3) obtain s where "?byName name = Some s" by (auto simp: list_all2_conv_all_nth decides_def)
    from source [OF this] show "name \<in> set (map tr_name b)" by force
  qed
  have "card (set (map dc_name decisions)) = card (set (map tr_name b))"
    unfolding distinct_card [OF d(1)] distinct_card [OF assms(2)] by (simp add: len)
  with known have "set (map dc_name decisions) = set (map tr_name b)" by (intro card_subset_eq) auto
  moreover have "length out = length b" using t(2) len d(3) by (simp add: list_all2_lengthD)
  moreover have "ValidateName (tr_name tree) = Ok () \<and> (\<exists>d\<in>set decisions. \<exists>source\<in>set b.
        dc_name d = tr_name source \<and> decision_destination d = Ok (tr_name tree) \<and> (tr_name tree = tr_name source \<longrightarrow> tree = source)
        \<and> list_all2 (\<lambda>f g. fst g = fst f \<and> (fst f \<noteq> skillFileName \<longrightarrow> g = f)) (tr_files source) (tr_files tree))"
    if tree: "tree \<in> set out" for tree
  proof -
    from tree t(2) obtain i where i: "i < length decisions" "tree = trees ! i"
      using list_all2_lengthD [OF d(3)] by (auto simp: in_set_conv_nth)
    with d(3) have "decides env ?byName (decisions ! i) tree" by (auto simp: list_all2_conv_all_nth)
    then obtain s where s: "?byName (dc_name (decisions ! i)) = Some s" "decision_destination (decisions ! i) = Ok (tr_name tree)"
      "ValidateName (tr_name tree) = Ok ()" "rename_tree env (tr_name tree) s = Ok tree" by (auto simp: decides_def)
    have "tr_name tree = tr_name s \<longrightarrow> tree = s" using s(4) by (auto simp: rename_tree_def)
    show ?thesis
    proof (intro conjI bexI [of _ "decisions ! i"] bexI [of _ s])
      show "decisions ! i \<in> set decisions" using i(1) by simp
    qed (use s source [OF s(1)] rename_tree_kept [OF s(4)] \<open>tr_name tree = tr_name s \<longrightarrow> tree = s\<close> in simp_all)
  qed
  ultimately show ?thesis using d(1,2) by (simp add: t(2) distinct_map)
qed

subsection \<open>An archive\<close>

definition sample_yaml :: "string \<Rightarrow> skillFrontmatter option" where
  "sample_yaml front = (if front = ''name: git''
     then Some \<lparr>fm_name = ''git'', fm_description = ''use'', fm_license = [], fm_compatibility = [], fm_metadata = []\<rparr> else None)"

definition sample_skill :: string where
  "sample_skill = fence @ ''name: git'' @ [LF] @ fence @ ''Body''"

definition sample_bundle :: Bundle where
  "sample_bundle = [\<lparr>tr_name = ''git'', tr_description = ''use'', tr_files = [(skillFileName, sample_skill), (''bin/run.sh'', ''ls'')]\<rparr>]"

definition sample_archive_env :: archive_env where
  "sample_archive_env = \<lparr>ye_frontmatter = sample_yaml, ye_document = (\<lambda>_. Err []), ye_encode = (\<lambda>_. Err []), ar_lower = id,
     ar_zip = (\<lambda>s. if s = ''archive'' then Some (WriteZIP sample_bundle) else None), ar_order = rev\<rparr>"

lemma sample_skill_parsed: "parseSkillFile sample_archive_env skillFileName sample_skill
    = Ok (\<lparr>fm_name = ''git'', fm_description = ''use'', fm_license = [], fm_compatibility = [], fm_metadata = []\<rparr>, sample_skill)"
proof -
  note d = sample_skill_def fence_def
  have "ValidString sample_skill" by (rule conjunct1 [OF ascii_text]) (simp add: d)
  moreover have "canonical_lines sample_skill = sample_skill"
    by (rule canonical_fixed) (simp_all add: d CR_def LF_def)
  moreover have "splitSkillFile sample_skill = Ok (''name: git'', ''Body'')"
    by (simp add: splitSkillFile_def d LF_def numeral_eq_Suc)
  moreover have "ValidateName ''git'' = Ok ()"
    by (simp add: ValidateName_def KubernetesDNSLabelMax_def skill_name_pattern_def dns_alnum_def in_range_def)
  moreover have "length sample_skill \<le> maxSkillBytes" by (simp add: d maxSkillBytes_def)
  ultimately show ?thesis
    by (simp add: parseSkillFile_Ok sample_archive_env_def sample_yaml_def TrimSpace_visible visible_def)
qed

lemma sample_bundle_wf: "bundle_wf sample_archive_env sample_bundle" "list_all portable sample_bundle"
proof -
  have p: "ValidPath skillFileName" "ValidPath ''bin/run.sh''" by code_simp+
  have "ValidateName ''git'' = Ok ()"
    by (simp add: ValidateName_def KubernetesDNSLabelMax_def skill_name_pattern_def dns_alnum_def in_range_def)
  moreover have "\<not> is_skill_file ''bin/run.sh''" by (simp add: is_skill_file_def skillFileName_def HasSuffix_def)
  moreover have "file_valid (skillFileName, sample_skill)" "file_valid (''bin/run.sh'', ''ls'')"
    using p by (simp_all add: file_valid_def skillFileName_def sample_skill_def fence_def entry_limit_def maxSkillBytes_def maxFileBytes_def)
  moreover have "skillFileName < ''bin/run.sh''" by (simp add: skillFileName_def less_char_def)
  ultimately show "bundle_wf sample_archive_env sample_bundle"
    using sample_skill_parsed
    by (auto simp: bundle_wf_def sample_bundle_def tree_wf_def maxFiles_def maxExtractedBytes_def total_bytes_def sample_skill_def fence_def)
  show "list_all portable sample_bundle" by (simp add: sample_bundle_def portable_def skillFileName_def maxPathBytes_def)
qed

lemma sample_env_documented: "zip_documented sample_archive_env" "order_covers (ar_order sample_archive_env)"
    "sizes_documented (WriteZIP sample_bundle)"
  by (auto simp: zip_documented_def sample_archive_env_def sizes_documented_def WriteZIP_def file_entry_def order_covers_def split: if_splits)

lemmas sample_reimport = reimport [OF sample_bundle_wf sample_env_documented(2)]

lemma sample_parse: "Parse sample_archive_env ''git.zip'' (Ok ''archive'') = Ok sample_bundle"
proof -
  have "path_ext ''git.zip'' = ''.zip''" by code_simp
  moreover have "ar_zip sample_archive_env ''archive'' = Some (WriteZIP sample_bundle)" by (simp add: sample_archive_env_def)
  ultimately show ?thesis
    using sample_reimport by (simp add: Parse_def parse_upload_def Let_def maxUploadBytes_def ToLower_ascii ascii_lower_def in_range_def)
qed

theorem imported_bundle_safe_witness:
  "distinct (map tr_name sample_bundle) \<and> ValidPath ''bin/run.sh''"
  using imported_bundle_safe [OF sample_reimport [of "''a.zip''"] sample_env_documented(3)] by (simp add: sample_bundle_def)

theorem canonical_archive_accepted_witness:
  "ParseCanonicalZIP sample_archive_env (Ok ''archive'') = Ok sample_bundle"
  by (rule canonical_archive_accepted [OF sample_env_documented(1,2) sample_parse sample_bundle_wf(2)])
    (simp_all add: sample_archive_env_def maxCanonicalBytes_def)

definition sample_decision :: Decision where
  "sample_decision = \<lparr>dc_action = DecisionCreate, dc_name = ''git'', dc_rename = []\<rparr>"

lemma sample_decided: "Decide sample_archive_env sample_bundle [sample_decision] = Ok sample_bundle"
  by (simp add: Decide_def sample_bundle_def sample_decision_def decision_destination_def rename_tree_def
      ValidateName_def KubernetesDNSLabelMax_def skill_name_pattern_def dns_alnum_def in_range_def)

theorem decided_bundle_witness:
  "set (map dc_name [sample_decision]) = set (map tr_name sample_bundle) \<and> sorted (map tr_name sample_bundle)"
  using decided_bundle [OF sample_decided] by (simp add: sample_bundle_def)

end
