(* ===== verification/RunStore.thy ===== *)
theory RunStore
  imports SandboxWebhook
begin

section \<open>Workflow runs: the stored object and its writers\<close>

text \<open>
  The WorkflowRun resource (\<open>pkg/apis/agentz/v1alpha1/workflowrun.go\<close>), the API server as its
  controller meets it, and the status writes of the gateway (\<open>internal/gateway/workflow/runs.go\<close>).

  The server is the list of the versions of one object, the last one current; \<open>None\<close> is a deleted
  object. The resource version of a version is its position. The controller reads through the
  informer cache of its manager: the cache stands at one position and only moves forward, by
  \<open>we_sync\<close> positions at a read, so that a read may be stale. Every write carries the resource version
  of the object it was computed from and is refused when that is not the current one. The
  environment \<open>run_env\<close> answers the call with a given number: the clock in nanoseconds, outages of
  reads and writes (\<open>WriteLost\<close> is a write that was applied and whose answer was lost), the changes
  other writers made before that call (\<open>we_interfere\<close>), and the replies of the gateway. Times in the
  object are seconds, which is what \<open>metav1.Time\<close> serialises. \<open>SetStatusCondition\<close> of the Kubernetes
  library is the parameter \<open>we_setCondition\<close>.
\<close>

record run_condition =
  rc_type :: string
  rc_status :: string
  rc_reason :: string
  rc_message :: string
  rc_generation :: int

record WorkflowRunNodeStatus =
  wn_name :: string
  wn_phase :: string
  wn_message :: string
  wn_startedAt :: "int option"
  wn_completedAt :: "int option"

record WorkflowRunStatus =
  wr_phase :: string
  wr_conditions :: "run_condition list"
  wr_observedGeneration :: int
  wr_sessionID :: string
  wr_startedAt :: "int option"
  wr_completedAt :: "int option"
  wr_message :: string
  wr_nodes :: "WorkflowRunNodeStatus list"

record WorkflowRunSpec =
  wp_delivery :: "(string \<times> int) option"
  wp_model :: "(string \<times> string \<times> string) option"
  wp_definition :: "string option"
  wp_agentName :: string
  wp_workflowName :: string
  wp_inputs :: string
  wp_timeoutSeconds :: int
  wp_scheduleRef :: "string option"

record WorkflowRun =
  wf_namespace :: string
  wf_name :: string
  wf_uid :: string
  wf_generation :: int
  wf_deleting :: bool
  wf_finalizers :: "string list"
  wf_triggerFailure :: string
  wf_evaluation :: string
  wf_spec :: WorkflowRunSpec
  wf_status :: WorkflowRunStatus

definition WorkflowRunSessionFinalizer :: string where
  "WorkflowRunSessionFinalizer = ''agentz.accuknox.com/workflowrun-session''"

definition PhaseUnknown :: string where "PhaseUnknown = []"

definition PhasePending :: string where "PhasePending = ''Pending''"

definition PhaseRunning :: string where "PhaseRunning = ''Running''"

definition PhaseUnacked :: string where "PhaseUnacked = ''Unacked''"

definition PhaseSucceeded :: string where "PhaseSucceeded = ''Succeeded''"

definition PhaseFailed :: string where "PhaseFailed = ''Failed''"

definition Terminal :: "string \<Rightarrow> bool" where
  "Terminal p \<longleftrightarrow> p = PhaseSucceeded \<or> p = PhaseFailed \<or> p = PhaseUnacked"

subsection \<open>Environment and world\<close>

datatype write_outcome = WriteOk | WriteLost | WriteConflict | WriteMissing | WriteCanceled | WriteFailed

datatype create_reply = CreateError | CreateStatus nat | CreateSession string

text \<open>The status map of the gateway: per session the discriminator, \<open>None\<close> when it does not decode.\<close>

datatype status_reply = StatusError | StatusNot200 | StatusMap "(string \<times> string option) list"

datatype failure =
    FailureUndecodable | ProviderAuthError string string | APIError string "int option"
  | MessageError string | OutputLengthError | OtherFailure

datatype session_message = OtherRole | BadAssistant | Assistant "failure option" "string option"

datatype messages_reply = MessagesError | MessagesNot200 | Messages "session_message list"

record permission_rule =
  pm_action :: string
  pm_permission :: string
  pm_pattern :: string

record session_request =
  sq_parentID :: "string option"
  sq_title :: string
  sq_permission :: "permission_rule list"
  sq_metadata :: "(string \<times> string) list option"

record prompt_body =
  pb_model :: "(string \<times> string) option"
  pb_variant :: "string option"
  pb_text :: string
  pb_tools :: "(string \<times> bool) list"

datatype run_event =
    EvDeliver "nat option" | EvCreate session_request | EvPrompt string prompt_body
  | EvAbort string "nat option" | EvDeleteSession string "nat option"
  | EvStatus status_reply | EvMessages string | EvDeleteRun string

datatype run_error =
    RunConflict | RunGet get_error | RunWrite write_outcome | NoGateway | GatewayPanic | GatewayFailed string
  | NotPending | ScopeFailed scope_error | WorkspaceFailed get_error | AgentFailed get_error | SandboxFailed get_error
  | AbortPending | ListFailed | DeleteFailed string | Wrapped string run_error | Joined run_error run_error

record run_env =
  we_client :: bool
  we_retries :: nat
  we_retention :: int
  we_now :: "nat \<Rightarrow> int"
  we_interfere :: "nat \<Rightarrow> WorkflowRun option \<Rightarrow> WorkflowRun option"
  we_sync :: "nat \<Rightarrow> nat"
  we_getFails :: "nat \<Rightarrow> get_error option"
  we_write :: "nat \<Rightarrow> write_outcome"
  we_list :: "nat \<Rightarrow> WorkflowRun list option"
  we_deleteRun :: "nat \<Rightarrow> write_outcome"
  we_scope :: scope_reader
  we_getAgent :: "string \<Rightarrow> string \<Rightarrow> (get_error, ResourceReference) result"
  we_getSandbox :: "string \<Rightarrow> string \<Rightarrow> (get_error, Sandbox) result"
  we_quote :: "string \<Rightarrow> string"
  we_deliver :: "nat \<Rightarrow> nat option"
  we_create :: "nat \<Rightarrow> create_reply"
  we_prompt :: "nat \<Rightarrow> nat option"
  we_abort :: "nat \<Rightarrow> nat option"
  we_deleteSession :: "nat \<Rightarrow> nat option"
  we_sessions :: "nat \<Rightarrow> status_reply"
  we_messages :: "nat \<Rightarrow> messages_reply"
  we_setCondition :: "run_condition \<Rightarrow> run_condition list \<Rightarrow> run_condition list"
  we_errorText :: "run_error \<Rightarrow> string"

record run_world =
  ww_versions :: "WorkflowRun option list"
  ww_seen :: nat
  ww_tick :: nat
  ww_trace :: "run_event list"

definition stored :: "run_world \<Rightarrow> WorkflowRun option" where
  "stored w = last (ww_versions w)"

definition cached :: "run_world \<Rightarrow> WorkflowRun option" where
  "cached w = ww_versions w ! ww_seen w"

definition up_to_date :: "run_world \<Rightarrow> bool" where
  "up_to_date w \<longleftrightarrow> length (ww_versions w) \<le> Suc (ww_seen w)"

definition tick :: "run_world \<Rightarrow> run_world" where
  "tick w = w\<lparr>ww_tick := Suc (ww_tick w)\<rparr>"

definition log_event :: "run_event \<Rightarrow> run_world \<Rightarrow> run_world" where
  "log_event ev w = w\<lparr>ww_tick := Suc (ww_tick w), ww_trace := ww_trace w @ [ev]\<rparr>"

text \<open>A write that changes nothing makes no version.\<close>

definition push :: "WorkflowRun option \<Rightarrow> run_world \<Rightarrow> run_world" where
  "push v w = (if v = stored w then w else w\<lparr>ww_versions := ww_versions w @ [v]\<rparr>)"

definition interfere :: "run_env \<Rightarrow> run_world \<Rightarrow> run_world" where
  "interfere e w = push (we_interfere e (ww_tick w) (stored w)) w"

definition refresh :: "run_env \<Rightarrow> run_world \<Rightarrow> run_world" where
  "refresh e w =
     (let w1 = interfere e w in
      w1\<lparr>ww_seen := min (length (ww_versions w1) - 1) (ww_seen w1 + we_sync e (ww_tick w)), ww_tick := Suc (ww_tick w)\<rparr>)"

definition get_run :: "run_env \<Rightarrow> run_world \<Rightarrow> (get_error, WorkflowRun) result \<times> run_world" where
  "get_run e w =
     (case we_getFails e (ww_tick w) of
        Some err \<Rightarrow> (Err err, refresh e w)
      | None \<Rightarrow> (case cached (refresh e w) of None \<Rightarrow> (Err GNotFound, refresh e w) | Some run \<Rightarrow> (Ok run, refresh e w)))"

text \<open>The server deletes an object that is being deleted once its last finalizer is gone.\<close>

definition saved :: "WorkflowRun \<Rightarrow> WorkflowRun option" where
  "saved run = (if wf_deleting run \<and> wf_finalizers run = [] then None else Some run)"

definition write_run :: "run_env \<Rightarrow> WorkflowRun \<Rightarrow> run_world \<Rightarrow> write_outcome \<times> run_world" where
  "write_run e run w =
     (let w1 = tick (interfere e w) in
      case we_write e (ww_tick w) of
        WriteOk \<Rightarrow>
          if stored w1 = None then (WriteMissing, w1)
          else if \<not> up_to_date w1 then (WriteConflict, w1)
          else (WriteOk, push (saved run) w1)
      | WriteLost \<Rightarrow> (WriteLost, if up_to_date w1 then push (saved run) w1 else w1)
      | oc \<Rightarrow> (oc, w1))"

definition write_error :: "write_outcome \<Rightarrow> run_error option" where
  "write_error oc =
     (case oc of WriteOk \<Rightarrow> None | WriteConflict \<Rightarrow> Some RunConflict | other \<Rightarrow> Some (RunWrite other))"

text \<open>\<open>retry.RetryOnConflict\<close>: \<open>n\<close> more attempts after the first.\<close>

fun RetryOnConflict ::
  "nat \<Rightarrow> (run_world \<Rightarrow> (run_error, 'a) result \<times> run_world) \<Rightarrow> run_world \<Rightarrow> (run_error, 'a) result \<times> run_world" where
  "RetryOnConflict 0 f w = f w"
| "RetryOnConflict (Suc n) f w = (case f w of (Inl RunConflict, w1) \<Rightarrow> RetryOnConflict n f w1 | r \<Rightarrow> r)"

end
