(* ===== verification/WorkflowRun.thy ===== *)
theory WorkflowRun
  imports RunStore
begin

section \<open>The workflow run controller\<close>

text \<open>
  \<open>internal/controller/workflowrun/reconciler.go\<close>: every function of the reconciler as a function of
  the environment and the world. A Go pointer \<open>run\<close> whose status a function overwrites is an argument
  and a result.
\<close>

definition ConditionTrue :: string where "ConditionTrue = ''True''"

definition ConditionFalse :: string where "ConditionFalse = ''False''"

text \<open>\<open>metav1.Now\<close> as it is serialised.\<close>

definition Now :: "run_env \<Rightarrow> run_world \<Rightarrow> int" where
  "Now e w = we_now e (ww_tick w) div 1000000000"

subsection \<open>Status changes\<close>

definition set_condition :: "run_env \<Rightarrow> run_condition \<Rightarrow> WorkflowRunStatus \<Rightarrow> WorkflowRunStatus" where
  "set_condition e c s = s\<lparr>wr_conditions := we_setCondition e c (wr_conditions s)\<rparr>"

definition setActiveConditions :: "run_env \<Rightarrow> int \<Rightarrow> string \<Rightarrow> string \<Rightarrow> WorkflowRunStatus \<Rightarrow> WorkflowRunStatus" where
  "setActiveConditions e generation reason message s =
     set_condition e \<lparr>rc_type = ''Progressing'', rc_status = ConditionTrue, rc_reason = reason, rc_message = message, rc_generation = generation\<rparr>
       (set_condition e \<lparr>rc_type = ''Ready'', rc_status = ConditionFalse, rc_reason = reason, rc_message = message, rc_generation = generation\<rparr> s)"

definition close_node :: "int option \<Rightarrow> WorkflowRunNodeStatus \<Rightarrow> WorkflowRunNodeStatus" where
  "close_node completedAt n = (if wn_phase n \<noteq> ''Running'' then n else n\<lparr>wn_phase := ''Unacked'', wn_completedAt := completedAt\<rparr>)"

definition setTerminalStatus ::
  "run_env \<Rightarrow> int \<Rightarrow> string \<Rightarrow> string \<Rightarrow> int option \<Rightarrow> WorkflowRunStatus \<Rightarrow> WorkflowRunStatus" where
  "setTerminalStatus e generation reason message completedAt s =
     (let s1 = s\<lparr>wr_observedGeneration := generation,
            wr_completedAt := (if wr_completedAt s = None then completedAt else wr_completedAt s),
            wr_nodes := map (close_node completedAt) (wr_nodes s)\<rparr>
      in set_condition e \<lparr>rc_type = ''Progressing'', rc_status = ConditionFalse, rc_reason = reason, rc_message = message, rc_generation = generation\<rparr>
           (set_condition e \<lparr>rc_type = ''Ready'', rc_status = ConditionTrue, rc_reason = reason, rc_message = message, rc_generation = generation\<rparr> s1))"

definition patch_attempt ::
  "run_env \<Rightarrow> (int \<Rightarrow> WorkflowRunStatus \<Rightarrow> WorkflowRunStatus) \<Rightarrow> run_world \<Rightarrow> (run_error, WorkflowRunStatus) result \<times> run_world" where
  "patch_attempt e mutate w =
     (case get_run e w of
        (Inl err, w1) \<Rightarrow> (Err (RunGet err), w1)
      | (Inr current, w1) \<Rightarrow>
          (let status = mutate (Now e w1) (wf_status current) in
           case write_run e (current\<lparr>wf_status := status\<rparr>) w1 of
             (oc, w2) \<Rightarrow> (case write_error oc of None \<Rightarrow> Ok status | Some err \<Rightarrow> Err err, w2)))"

definition patchStatus ::
  "run_env \<Rightarrow> WorkflowRun \<Rightarrow> (int \<Rightarrow> WorkflowRunStatus \<Rightarrow> WorkflowRunStatus) \<Rightarrow> run_world \<Rightarrow> run_error option \<times> WorkflowRun \<times> run_world" where
  "patchStatus e run mutate w =
     (case RetryOnConflict (we_retries e) (patch_attempt e mutate) w of
        (Inl err, w1) \<Rightarrow> (Some err, run, w1)
      | (Inr status, w1) \<Rightarrow> (None, run\<lparr>wf_status := status\<rparr>, w1))"

definition pending_status :: "run_env \<Rightarrow> int \<Rightarrow> WorkflowRunStatus \<Rightarrow> WorkflowRunStatus" where
  "pending_status e generation s =
     set_condition e \<lparr>rc_type = ''Progressing'', rc_status = ConditionTrue, rc_reason = ''Pending'',
         rc_message = ''workflow run is waiting to start'', rc_generation = generation\<rparr>
       (setActiveConditions e generation ''Pending'' ''workflow run is pending''
          (s\<lparr>wr_phase := PhasePending, wr_observedGeneration := generation\<rparr>))"

definition markPending :: "run_env \<Rightarrow> WorkflowRun \<Rightarrow> run_world \<Rightarrow> run_error option \<times> WorkflowRun \<times> run_world" where
  "markPending e run = patchStatus e run (\<lambda>_. pending_status e (wf_generation run))"

definition fail_status :: "run_env \<Rightarrow> int \<Rightarrow> string \<Rightarrow> string \<Rightarrow> int \<Rightarrow> WorkflowRunStatus \<Rightarrow> WorkflowRunStatus" where
  "fail_status e generation reason message now s =
     (if Terminal (wr_phase s) \<or> wr_completedAt s \<noteq> None then s
      else
        (let s1 = setTerminalStatus e generation reason message (Some now) (s\<lparr>wr_phase := PhaseFailed, wr_message := message\<rparr>)
         in if wr_sessionID s1 = [] then s1
            else set_condition e \<lparr>rc_type = ''SessionAborted'', rc_status = ConditionFalse, rc_reason = reason,
                   rc_message = ''workflow session cancellation is pending'', rc_generation = generation\<rparr> s1))"

definition find_condition :: "string \<Rightarrow> run_condition list \<Rightarrow> run_condition option" where
  "find_condition t cs = find (\<lambda>c. rc_type c = t) cs"

definition terminal_reason :: "WorkflowRunStatus \<Rightarrow> string" where
  "terminal_reason s =
     (if wr_phase s = PhaseFailed
      then (case find_condition ''Ready'' (wr_conditions s) of
              Some c \<Rightarrow> if rc_status c = ConditionTrue then rc_reason c else ''Failed''
            | None \<Rightarrow> ''Failed'')
      else if wr_phase s = PhaseUnacked then ''Unacked'' else ''Succeeded'')"

definition sync_status :: "run_env \<Rightarrow> int \<Rightarrow> int \<Rightarrow> WorkflowRunStatus \<Rightarrow> WorkflowRunStatus" where
  "sync_status e generation now s =
     (let s1 = s\<lparr>wr_message := (if wr_message s = [] then ''workflow run completed'' else wr_message s)\<rparr>
      in setTerminalStatus e generation (terminal_reason s) (wr_message s1)
           (if wr_completedAt s = None then Some now else wr_completedAt s) s1)"

subsection \<open>Sessions\<close>

definition idle_in :: "string \<Rightarrow> (string \<times> string option) list \<Rightarrow> bool" where
  "idle_in sid m = (case map_of m sid of None \<Rightarrow> True | Some k \<Rightarrow> k = Some ''idle'')"

definition sessionIdle :: "run_env \<Rightarrow> WorkflowRun \<Rightarrow> run_world \<Rightarrow> (run_error, bool) result \<times> run_world" where
  "sessionIdle e run w =
     (if wr_sessionID (wf_status run) = [] then (Ok False, w)
      else if \<not> we_client e then (Err NoGateway, w)
      else
        (let reply = we_sessions e (ww_tick w); w1 = log_event (EvStatus reply) w in
         case reply of
           StatusError \<Rightarrow> (Err (GatewayFailed ''get session status''), w1)
         | StatusNot200 \<Rightarrow> (Ok False, w1)
         | StatusMap m \<Rightarrow> (Ok (idle_in (wr_sessionID (wf_status run)) m), w1)))"

definition assistantFailure :: "failure option \<Rightarrow> string" where
  "assistantFailure err =
     (case err of
        None \<Rightarrow> []
      | Some f \<Rightarrow>
          (case f of
             FailureUndecodable \<Rightarrow> ''workflow session failed''
           | ProviderAuthError pid m \<Rightarrow> if pid \<noteq> [] then pid @ '': '' @ m else m
           | APIError m None \<Rightarrow> m
           | APIError m (Some status) \<Rightarrow> m @ '' (status '' @ int_str status @ '')''
           | MessageError m \<Rightarrow> m
           | OutputLengthError \<Rightarrow> ''workflow response exceeded the output limit''
           | OtherFailure \<Rightarrow> ''workflow session failed''))"

text \<open>The scan from the newest message backwards.\<close>

fun terminal_message :: "session_message list \<Rightarrow> string" where
  "terminal_message [] = []"
| "terminal_message (OtherRole # ms) = terminal_message ms"
| "terminal_message (BadAssistant # ms) = terminal_message ms"
| "terminal_message (Assistant err finish # ms) =
     (if err = None \<and> finish = None then terminal_message ms
      else if err = None \<and> (finish = Some ''tool-calls'' \<or> finish = Some ''stop'') then []
      else assistantFailure err)"

definition sessionTerminalMessage :: "run_env \<Rightarrow> WorkflowRun \<Rightarrow> run_world \<Rightarrow> (run_error, string) result \<times> run_world" where
  "sessionTerminalMessage e run w =
     (let sid = wr_sessionID (wf_status run) in
      if sid = [] then (Ok [], w)
      else if \<not> we_client e then (Err NoGateway, w)
      else
        (let w1 = log_event (EvMessages sid) w in
         case we_messages e (ww_tick w) of
           MessagesError \<Rightarrow> (Err (GatewayFailed ''list session messages''), w1)
         | MessagesNot200 \<Rightarrow> (Ok [], w1)
         | Messages ms \<Rightarrow> (Ok (terminal_message (rev ms)), w1)))"

definition abortRun :: "run_env \<Rightarrow> WorkflowRun \<Rightarrow> run_world \<Rightarrow> run_error option \<times> run_world" where
  "abortRun e run w =
     (let sid = wr_sessionID (wf_status run) in
      if sid = [] then (None, w)
      else if \<not> we_client e then (Some NoGateway, w)
      else
        (let reply = we_abort e (ww_tick w); w1 = log_event (EvAbort sid reply) w in
         case reply of
           None \<Rightarrow> (Some (GatewayFailed ''abort workflow session''), w1)
         | Some status \<Rightarrow>
             if status \<noteq> 200 \<and> status \<noteq> 404 then (Some (GatewayFailed ''abort workflow session returned status''), w1)
             else if status = 404 then (None, w1)
             else
               (case sessionIdle e run w1 of
                  (Inl err, w2) \<Rightarrow> (Some err, w2)
                | (Inr idle, w2) \<Rightarrow> (if idle then None else Some AbortPending, w2))))"

definition join_errors :: "run_error option \<Rightarrow> run_error option \<Rightarrow> run_error option" where
  "join_errors first second =
     (case first of
        None \<Rightarrow> second
      | Some err \<Rightarrow> Some (case second of None \<Rightarrow> err | Some failErr \<Rightarrow> Joined err failErr))"

definition aborted_condition :: "run_env \<Rightarrow> int \<Rightarrow> run_error option \<Rightarrow> run_condition" where
  "aborted_condition e generation err =
     (case err of
        None \<Rightarrow> \<lparr>rc_type = ''SessionAborted'', rc_status = ConditionTrue, rc_reason = ''SessionAborted'',
                  rc_message = ''workflow session cancellation is confirmed'', rc_generation = generation\<rparr>
      | Some x \<Rightarrow> \<lparr>rc_type = ''SessionAborted'', rc_status = ConditionFalse, rc_reason = ''GatewayError'',
                  rc_message = we_errorText e x, rc_generation = generation\<rparr>)"

definition syncTerminalStatus :: "run_env \<Rightarrow> WorkflowRun \<Rightarrow> run_world \<Rightarrow> run_error option \<times> WorkflowRun \<times> run_world" where
  "syncTerminalStatus e run w =
     (case patchStatus e run (sync_status e (wf_generation run)) w of
        (Some err, run1, w1) \<Rightarrow> (Some err, run1, w1)
      | (None, run1, w1) \<Rightarrow>
          (case find_condition ''SessionAborted'' (wr_conditions (wf_status run1)) of
             None \<Rightarrow> (None, run1, w1)
           | Some c \<Rightarrow>
               if rc_status c \<noteq> ConditionFalse then (None, run1, w1)
               else
                 (case abortRun e run1 w1 of
                    (err, w2) \<Rightarrow>
                      (case patchStatus e run1 (\<lambda>_. set_condition e (aborted_condition e (wf_generation run1) err)) w2 of
                         (patchErr, run2, w3) \<Rightarrow> (join_errors err patchErr, run2, w3)))))"

definition failRun :: "run_env \<Rightarrow> WorkflowRun \<Rightarrow> string \<Rightarrow> string \<Rightarrow> run_world \<Rightarrow> run_error option \<times> WorkflowRun \<times> run_world" where
  "failRun e run reason message w =
     (case patchStatus e run (\<lambda>_. fail_status e (wf_generation run) reason message (Now e w)) w of
        (Some err, run1, w1) \<Rightarrow> (Some err, run1, w1)
      | (None, run1, w1) \<Rightarrow> syncTerminalStatus e run1 w1)"

subsection \<open>Finalizer\<close>

definition add_finalizer_attempt :: "run_env \<Rightarrow> run_world \<Rightarrow> (run_error, unit) result \<times> run_world" where
  "add_finalizer_attempt e w =
     (case get_run e w of
        (Inl err, w1) \<Rightarrow> (Err (RunGet err), w1)
      | (Inr current, w1) \<Rightarrow>
          if WorkflowRunSessionFinalizer \<in> set (wf_finalizers current) then (Ok (), w1)
          else
            (case write_run e (current\<lparr>wf_finalizers := wf_finalizers current @ [WorkflowRunSessionFinalizer]\<rparr>) w1 of
               (oc, w2) \<Rightarrow> (case write_error oc of None \<Rightarrow> Ok () | Some err \<Rightarrow> Err err, w2)))"

definition addFinalizer :: "run_env \<Rightarrow> run_world \<Rightarrow> run_error option \<times> run_world" where
  "addFinalizer e w =
     (case RetryOnConflict (we_retries e) (add_finalizer_attempt e) w of
        (Inl err, w1) \<Rightarrow> (Some err, w1) | (Inr _, w1) \<Rightarrow> (None, w1))"

definition remove_finalizer_attempt :: "run_env \<Rightarrow> run_world \<Rightarrow> (run_error, unit) result \<times> run_world" where
  "remove_finalizer_attempt e w =
     (case get_run e w of
        (Inl err, w1) \<Rightarrow> (if err = GNotFound then Ok () else Err (RunGet err), w1)
      | (Inr current, w1) \<Rightarrow>
          if WorkflowRunSessionFinalizer \<notin> set (wf_finalizers current) then (Ok (), w1)
          else
            (case write_run e (current\<lparr>wf_finalizers := removeAll WorkflowRunSessionFinalizer (wf_finalizers current)\<rparr>) w1 of
               (oc, w2) \<Rightarrow>
                 (if oc = WriteMissing \<or> oc = WriteCanceled then Ok ()
                  else case write_error oc of None \<Rightarrow> Ok () | Some err \<Rightarrow> Err err, w2)))"

definition release_finalizer :: "run_env \<Rightarrow> run_world \<Rightarrow> run_error option \<times> run_world" where
  "release_finalizer e w =
     (case RetryOnConflict (we_retries e) (remove_finalizer_attempt e) w of
        (Inl err, w1) \<Rightarrow> (Some err, w1) | (Inr _, w1) \<Rightarrow> (None, w1))"

definition finalizeRun :: "run_env \<Rightarrow> WorkflowRun \<Rightarrow> run_world \<Rightarrow> run_error option \<times> run_world" where
  "finalizeRun e run w =
     (if WorkflowRunSessionFinalizer \<notin> set (wf_finalizers run) then (None, w)
      else if wr_sessionID (wf_status run) = [] then release_finalizer e w
      else
        (case abortRun e run w of
           (Some err, w1) \<Rightarrow> (Some err, w1)
         | (None, w1) \<Rightarrow>
             if wp_delivery (wf_spec run) \<noteq> None then release_finalizer e w1
             else
               (let reply = we_deleteSession e (ww_tick w1);
                    w2 = log_event (EvDeleteSession (wr_sessionID (wf_status run)) reply) w1 in
                case reply of
                  None \<Rightarrow> (Some (GatewayFailed ''delete workflow session''), w2)
                | Some status \<Rightarrow>
                    if status \<noteq> 200 \<and> status \<noteq> 404 then (Some (GatewayFailed ''delete workflow session returned status''), w2)
                    else release_finalizer e w2)))"

subsection \<open>Starting a run\<close>

text \<open>
  \<open>prompt.tmpl\<close> executed by \<open>text/template\<close>; \<open>we_quote\<close> is the \<open>%q\<close> verb. Writing into a
  \<open>strings.Builder\<close> and encoding a text part cannot fail, so that \<open>buildPromptRequest\<close> has no error.
\<close>

record promptTemplateData =
  td_agentName :: string
  td_workflowName :: string
  td_runName :: string
  td_inputsJSON :: string
  td_definition :: string

definition unlines :: "string list \<Rightarrow> string" where
  "unlines ls = concat (map (\<lambda>l. l @ [CHR 0x0A]) ls)"

definition promptTemplate :: "(string \<Rightarrow> string) \<Rightarrow> promptTemplateData \<Rightarrow> string" where
  "promptTemplate quote d = unlines
     ([''Execute the workflow '' @ quote (td_workflowName d) @ '' for agent '' @ quote (td_agentName d) @ ''.'', [],
       ''Requirements:'', [],
       ''1. '' @ (if td_definition d \<noteq> [] then ''Use the frozen workflow definition below. Do not load a different definition.''
                else ''Load the workflow definition with the get_workflow tool.''),
       ''2. If a workflow node declares preferred skills, load each one with the skill tool before executing that node. Skip any skill that fails to load.'',
       ''3. Use list_skills only when you need to inspect available skills before loading one.'',
       ''4. Treat preferred skills as the verified reusable logic extracted during workflow authoring, and follow them when available.'',
       ''5. Before executing each workflow node, call set_workflowrun_status with mode \"node\", that node name, and phase \"Running\".'',
       ''6. After executing each workflow node, call set_workflowrun_status with mode \"node\", that node name, and phase \"Succeeded\" or \"Failed\".'',
       ''7. Execute the workflow end-to-end using the provided inputs.'',
       ''8. Do not ask for clarification.'',
       ''9. NEVER modify persistent memory or the journal. Do not use memory actions \"add\", \"replace\", \"remove\", or \"batch\", or the journal action \"append\". Read-only actions remain allowed.'',
       ''10. When the workflow finishes, call set_workflowrun_status with mode \"run\" exactly once.'',
       ''11. If execution succeeds, call set_workflowrun_status with mode \"run\" and phase \"Succeeded\".'',
       ''12. If execution fails, call set_workflowrun_status with mode \"run\", phase \"Failed\", and include a concise message.'',
       ''13. Don'' @ [CHR 0x27] @ ''t stop until you have completed all the above steps.'', [],
       ''WorkflowRun name: '' @ td_runName d,
       ''Inputs JSON:'', [],
       td_inputsJSON d, []]
      @ (if td_definition d \<noteq> [] then [''Frozen workflow JSON:'', [], td_definition d, []] else [[]])
      @ [''If this run reports into a conversation, its OpenCode session is handed back for inspection.'',
         ''Write the useful outcome, evidence, and artifact paths in this session before the terminal status call.''])"

definition buildPromptRequest :: "run_env \<Rightarrow> WorkflowRun \<Rightarrow> prompt_body" where
  "buildPromptRequest e run =
     (let spec = wf_spec run in
      \<lparr>pb_model = map_option (\<lambda>(provider, model, variant). (provider, model)) (wp_model spec),
       pb_variant = (case wp_model spec of Some (_, _, variant) \<Rightarrow> if variant \<noteq> [] then Some variant else None | None \<Rightarrow> None),
       pb_text = promptTemplate (we_quote e)
         \<lparr>td_agentName = wp_agentName spec, td_workflowName = wp_workflowName spec, td_runName = wf_name run,
          td_inputsJSON = (if wp_inputs spec \<noteq> [] then wp_inputs spec else ''null''),
          td_definition = (case wp_definition spec of Some d \<Rightarrow> d | None \<Rightarrow> [])\<rparr>,
       pb_tools = [(''get_workflow'', wp_definition spec = None), (''question'', False), (''set_workflowrun_status'', True)]\<rparr>)"

definition deny_rules :: "permission_rule list" where
  "deny_rules = map (\<lambda>p. \<lparr>pm_action = ''deny'', pm_permission = p, pm_pattern = ''*''\<rparr>) [''question'', ''plan_enter'', ''plan_exit'']"

definition consent_rules :: "Sandbox \<Rightarrow> permission_rule list" where
  "consent_rules sandbox =
     concat (map (\<lambda>ref. map (\<lambda>tool. \<lparr>pm_action = ''allow'', pm_permission = mc_name ref @ ''_'' @ mt_name tool, pm_pattern = ''*''\<rparr>)
                           (filter mt_requireConsent (mc_tools ref)))
                 (sx_mcpConnectionRefs (sb_spec sandbox)))"

definition session_metadata :: "WorkflowRun \<Rightarrow> (string \<times> string) list option" where
  "session_metadata run =
     (let evaluation = (if wf_evaluation run \<noteq> [] then Some [(''agentz.evaluation_id'', wf_evaluation run)] else None) in
      if wp_delivery (wf_spec run) = None then evaluation
      else Some ((case evaluation of Some m \<Rightarrow> m | None \<Rightarrow> []) @
             [(''agentz.dev/workflow-run'', wf_name run), (''agentz.dev/workflow-uid'', wf_uid run)]))"

definition build_session_request :: "WorkflowRun \<Rightarrow> Sandbox \<Rightarrow> session_request" where
  "build_session_request run sandbox =
     \<lparr>sq_parentID = map_option fst (wp_delivery (wf_spec run)),
      sq_title = ''workflowrun/'' @ wf_namespace run @ ''/'' @ wf_name run,
      sq_permission = deny_rules @ consent_rules sandbox,
      sq_metadata = session_metadata run\<rparr>"

definition resolve_sandbox :: "run_env \<Rightarrow> WorkflowRun \<Rightarrow> (run_error, Sandbox) result" where
  "resolve_sandbox e run =
     (case we_getAgent e (wf_namespace run) (wp_agentName (wf_spec run)) of
        Inl err \<Rightarrow> Err (AgentFailed err)
      | Inr ref \<Rightarrow>
          (case SelectedNamespace (we_scope e) (wf_namespace run)
                  \<lparr>sel_scope = ref_scope ref, sel_kind = KindSandbox, sel_name = ref_name ref\<rparr> of
             Inl err \<Rightarrow> Err (ScopeFailed err)
           | Inr sandboxNamespace \<Rightarrow>
               (case we_getSandbox e sandboxNamespace (ref_name ref) of
                  Inl err \<Rightarrow> Err (SandboxFailed err)
                | Inr sandbox \<Rightarrow> Ok sandbox)))"

definition admitted_status :: "run_env \<Rightarrow> int \<Rightarrow> string \<Rightarrow> int \<Rightarrow> WorkflowRunStatus \<Rightarrow> WorkflowRunStatus" where
  "admitted_status e generation sid now s =
     setActiveConditions e generation ''SessionRunning'' ''workflow run is executing''
       (s\<lparr>wr_phase := PhaseRunning, wr_observedGeneration := generation, wr_sessionID := sid, wr_startedAt := Some now, wr_message := []\<rparr>)"

definition admit_attempt ::
  "run_env \<Rightarrow> int \<Rightarrow> string \<Rightarrow> int \<Rightarrow> run_world \<Rightarrow> (run_error, WorkflowRunStatus) result \<times> run_world" where
  "admit_attempt e generation sid now w =
     (case get_run e w of
        (Inl err, w1) \<Rightarrow> (Err (RunGet err), w1)
      | (Inr current, w1) \<Rightarrow>
          if wf_deleting current \<or> wr_phase (wf_status current) \<noteq> PhasePending then (Err NotPending, w1)
          else
            (let status = admitted_status e generation sid now (wf_status current) in
             case write_run e (current\<lparr>wf_status := status\<rparr>) w1 of
               (oc, w2) \<Rightarrow> (case write_error oc of None \<Rightarrow> Ok status | Some err \<Rightarrow> Err err, w2)))"

definition send_prompt :: "run_env \<Rightarrow> string \<Rightarrow> prompt_body \<Rightarrow> run_world \<Rightarrow> run_error option \<times> run_world" where
  "send_prompt e sid prompt w =
     (case we_prompt e (ww_tick w) of
        None \<Rightarrow> (None, log_event (EvPrompt sid prompt) w)
      | Some status \<Rightarrow>
          (if status \<noteq> 204 then Some (GatewayFailed ''send workflow prompt returned status'') else None,
           log_event (EvPrompt sid prompt) w))"

definition startRun :: "run_env \<Rightarrow> WorkflowRun \<Rightarrow> run_world \<Rightarrow> run_error option \<times> WorkflowRun \<times> run_world" where
  "startRun e run w =
     (if \<not> we_client e then (Some NoGateway, run, w)
      else
        (case resolve_sandbox e run of
           Inl err \<Rightarrow> (Some err, run, w)
         | Inr sandbox \<Rightarrow>
             (let prompt = buildPromptRequest e run; w1 = log_event (EvCreate (build_session_request run sandbox)) w in
              case we_create e (ww_tick w) of
                CreateError \<Rightarrow> (Some (GatewayFailed ''create session''), run, w1)
              | CreateStatus _ \<Rightarrow> (Some (GatewayFailed ''create session returned status''), run, w1)
              | CreateSession sid \<Rightarrow>
                  (case RetryOnConflict (we_retries e) (admit_attempt e (wf_generation run) sid (Now e w1)) w1 of
                     (Inl err, w2) \<Rightarrow>
                       (Some (Wrapped ''persist workflow session admission'' err), run,
                        log_event (EvDeleteSession sid (we_deleteSession e (ww_tick w2))) w2)
                   | (Inr status, w2) \<Rightarrow>
                       (case send_prompt e sid prompt w2 of (err, w3) \<Rightarrow> (err, run\<lparr>wf_status := status\<rparr>, w3))))))"

subsection \<open>Reconciling\<close>

text \<open>A result is the time after which the run is looked at again, in milliseconds, and the error.\<close>

definition reconcilePending :: "run_env \<Rightarrow> WorkflowRun \<Rightarrow> run_world \<Rightarrow> (nat \<times> run_error option) \<times> run_world" where
  "reconcilePending e run w =
     (case startRun e run w of
        (None, _, w1) \<Rightarrow> ((5000, None), w1)
      | (Some err, run1, w1) \<Rightarrow>
          (case failRun e run1 ''GatewayError'' (we_errorText e err) w1 of
             (Some failErr, _, w2) \<Rightarrow> ((0, Some (Wrapped ''mark workflow run failed'' failErr)), w2)
           | (None, _, w2) \<Rightarrow> ((0, None), w2)))"

definition unacked_status :: "run_env \<Rightarrow> int \<Rightarrow> bool \<Rightarrow> string \<Rightarrow> int \<Rightarrow> WorkflowRunStatus \<Rightarrow> WorkflowRunStatus" where
  "unacked_status e generation failed message now s =
     (if Terminal (wr_phase s) \<or> wr_completedAt s \<noteq> None then s
      else setTerminalStatus e generation (if failed then ''Failed'' else ''Unacked'') message (Some now)
             (s\<lparr>wr_phase := (if failed then PhaseFailed else PhaseUnacked), wr_message := message\<rparr>))"

definition since :: "run_env \<Rightarrow> run_world \<Rightarrow> int \<Rightarrow> int" where
  "since e w started = we_now e (ww_tick w) - started * 1000000000"

definition reconcileRunning :: "run_env \<Rightarrow> WorkflowRun \<Rightarrow> run_world \<Rightarrow> (nat \<times> run_error option) \<times> run_world" where
  "reconcileRunning e run w =
     (case sessionIdle e run w of
        (Inl err, w1) \<Rightarrow> ((0, Some (Wrapped ''inspect workflow session status'' err)), w1)
      | (Inr done, w1) \<Rightarrow>
          if \<not> done then ((5000, None), w1)
          else
            (case sessionTerminalMessage e run w1 of
               (Inl err, w2) \<Rightarrow> ((0, Some (Wrapped ''inspect workflow session messages'' err)), w2)
             | (Inr message, w2) \<Rightarrow>
                 if message = [] \<and>
                    (case wr_startedAt (wf_status run) of None \<Rightarrow> False | Some t \<Rightarrow> since e w2 t < 30 * 1000000000)
                 then ((5000, None), w2)
                 else
                   (let failed = (message \<noteq> []);
                        text = (if failed then message else ''workflow session completed without terminal status update'') in
                    case patchStatus e run (\<lambda>_. unacked_status e (wf_generation run) failed text (Now e w2)) w2 of
                      (err, _, w3) \<Rightarrow> ((0, err), w3))))"

definition prunable :: "WorkflowRun \<Rightarrow> int \<Rightarrow> WorkflowRun \<Rightarrow> bool" where
  "prunable run cutoff current \<longleftrightarrow>
     wp_agentName (wf_spec current) = wp_agentName (wf_spec run) \<and>
     wp_workflowName (wf_spec current) = wp_workflowName (wf_spec run) \<and>
     wp_scheduleRef (wf_spec current) = None \<and>
     Terminal (wr_phase (wf_status current)) \<and>
     (case wr_completedAt (wf_status current) of None \<Rightarrow> False | Some t \<Rightarrow> t * 1000000000 < cutoff)"

fun prune_loop :: "run_env \<Rightarrow> WorkflowRun \<Rightarrow> int \<Rightarrow> WorkflowRun list \<Rightarrow> run_world \<Rightarrow> run_error option \<times> run_world" where
  "prune_loop e run cutoff [] w = (None, w)"
| "prune_loop e run cutoff (current # rest) w =
     (if \<not> prunable run cutoff current then prune_loop e run cutoff rest w
      else
        (let w1 = log_event (EvDeleteRun (wf_name current)) w in
         if we_deleteRun e (ww_tick w) = WriteOk \<or> we_deleteRun e (ww_tick w) = WriteMissing
         then prune_loop e run cutoff rest w1
         else (Some (DeleteFailed (wf_name current)), w1)))"

definition pruneOrphanRuns :: "run_env \<Rightarrow> WorkflowRun \<Rightarrow> run_world \<Rightarrow> run_error option \<times> run_world" where
  "pruneOrphanRuns e run w =
     (if we_retention e \<le> 0 \<or> wp_scheduleRef (wf_spec run) \<noteq> None then (None, w)
      else
        (case we_list e (ww_tick w) of
           None \<Rightarrow> (Some ListFailed, tick w)
         | Some runs \<Rightarrow> prune_loop e run (we_now e (ww_tick w) - we_retention e) runs (tick w)))"

definition timed_out :: "run_env \<Rightarrow> WorkflowRun \<Rightarrow> run_world \<Rightarrow> bool" where
  "timed_out e run w \<longleftrightarrow>
     (case wr_startedAt (wf_status run) of
        None \<Rightarrow> False
      | Some t \<Rightarrow> wp_timeoutSeconds (wf_spec run) > 0 \<and> since e w t > wp_timeoutSeconds (wf_spec run) * 1000000000)"

text \<open>
  \<open>Reconcile\<close> from the read of the Workspace on, and before it the branch of a run that is bound to
  a conversation: \<open>Inl\<close> ends the call, \<open>Inr\<close> continues with the run read again. A nil gateway client
  is a nil dereference there, which the manager turns into an error.
\<close>

definition reconcile_execution :: "run_env \<Rightarrow> WorkflowRun \<Rightarrow> run_world \<Rightarrow> (nat \<times> run_error option) \<times> run_world" where
  "reconcile_execution e run w =
     (case getWorkspace (we_scope e) (wf_namespace run) of
        Inl err \<Rightarrow> ((0, Some (WorkspaceFailed err)), w)
      | Inr workspace \<Rightarrow>
          if ws_type workspace = WorkspaceTypeCoding then ((0, None), w)
          else if WorkflowRunSessionFinalizer \<notin> set (wf_finalizers run) then
            (case addFinalizer e w of
               (Some err, w1) \<Rightarrow> ((0, Some (Wrapped ''add workflow run finalizer'' err)), w1)
             | (None, w1) \<Rightarrow> ((1, None), w1))
          else
            (let phase = wr_phase (wf_status run) in
             if (if phase = PhaseUnknown then wr_completedAt (wf_status run) \<noteq> None else Terminal phase) then
               (case syncTerminalStatus e run w of
                  (Some err, _, w1) \<Rightarrow> ((0, Some (Wrapped ''sync terminal workflow run status'' err)), w1)
                | (None, run1, w1) \<Rightarrow>
                    (case pruneOrphanRuns e run1 w1 of
                       (Some err, w2) \<Rightarrow> ((0, Some (Wrapped ''prune orphan workflow runs'' err)), w2)
                     | (None, w2) \<Rightarrow> ((0, None), w2)))
             else if phase = PhaseUnknown then
               (case markPending e run w of
                  (Some err, _, w1) \<Rightarrow> ((0, Some (Wrapped ''initialize workflow run status'' err)), w1)
                | (None, _, w1) \<Rightarrow> ((1, None), w1))
             else if timed_out e run w then
               (case failRun e run ''TimedOut'' ''workflow run timed out'' w of (err, _, w1) \<Rightarrow> ((0, err), w1))
             else if phase = PhasePending then reconcilePending e run w
             else if phase = PhaseRunning then reconcileRunning e run w
             else ((0, None), w)))"

definition settle_delivery ::
  "run_env \<Rightarrow> WorkflowRun \<Rightarrow> run_world \<Rightarrow> ((nat \<times> run_error option) + WorkflowRun) \<times> run_world" where
  "settle_delivery e run w =
     (if \<not> Terminal (wr_phase (wf_status run)) then (Inr run, w)
      else
        (case syncTerminalStatus e run w of
           (Some err, _, w1) \<Rightarrow> (Inl (0, Some err), w1)
         | (None, run1, w1) \<Rightarrow>
             if wr_sessionID (wf_status run1) = [] then (Inr run1, w1)
             else
               (case sessionIdle e run1 w1 of
                  (Inl err, w2) \<Rightarrow> (Inl (0, Some err), w2)
                | (Inr idle, w2) \<Rightarrow> if \<not> idle then (Inl (2000, None), w2) else (Inr run1, w2))))"

definition deliver ::
  "run_env \<Rightarrow> WorkflowRun \<Rightarrow> run_world \<Rightarrow> ((nat \<times> run_error option) + WorkflowRun) \<times> run_world" where
  "deliver e run w =
     (if \<not> we_client e then (Inl (0, Some GatewayPanic), w)
      else
        (let reply = we_deliver e (ww_tick w); w1 = log_event (EvDeliver reply) w; terminal = Terminal (wr_phase (wf_status run));
             failed = (case reply of None \<Rightarrow> True | Some status \<Rightarrow> status \<noteq> 204 \<and> status \<noteq> 404 \<and> status \<noteq> 403);
             deliveryErr = GatewayFailed ''deliver workflow session'' in
         if \<not> failed \<and> reply \<noteq> Some 204 \<and> \<not> terminal then
           (case failRun e run ''GatewayError'' ''Conversation destination is no longer available'' w1 of
              (err, _, w2) \<Rightarrow> (Inl (0, err), w2))
         else if failed then
           (if \<not> terminal \<and> timed_out e run w1 then
              (case failRun e run ''TimedOut'' ''workflow run timed out'' w1 of
                 (failErr, _, w2) \<Rightarrow> (Inl (0, join_errors (Some deliveryErr) failErr), w2))
            else (Inl (0, Some deliveryErr), w1))
         else
           (case get_run e w1 of
              (Inl err, w2) \<Rightarrow> (Inl (0, if err = GNotFound then None else Some (RunGet err)), w2)
            | (Inr run1, w2) \<Rightarrow> (Inr run1, w2))))"

definition Reconcile_run :: "run_env \<Rightarrow> run_world \<Rightarrow> (nat \<times> run_error option) \<times> run_world" where
  "Reconcile_run e w =
     (case get_run e w of
        (Inl err, w1) \<Rightarrow> ((0, if err = GNotFound then None else Some (RunGet err)), w1)
      | (Inr run, w1) \<Rightarrow>
          if wf_deleting run then
            (case finalizeRun e run w1 of
               (Some err, w2) \<Rightarrow> ((0, Some (Wrapped ''finalize workflow run'' err)), w2)
             | (None, w2) \<Rightarrow> ((0, None), w2))
          else if wf_triggerFailure run \<noteq> [] \<and> \<not> Terminal (wr_phase (wf_status run)) then
            (case failRun e run ''GatewayError'' (wf_triggerFailure run) w1 of (err, _, w2) \<Rightarrow> ((0, err), w2))
          else if wp_delivery (wf_spec run) = None then reconcile_execution e run w1
          else
            (case settle_delivery e run w1 of
               (Inl res, w2) \<Rightarrow> (res, w2)
             | (Inr run2, w2) \<Rightarrow>
                 (case deliver e run2 w2 of
                    (Inl res, w3) \<Rightarrow> (res, w3)
                  | (Inr run3, w3) \<Rightarrow> reconcile_execution e run3 w3)))"

end
