(* ===== verification/RunSafety.thy ===== *)
theory RunSafety
  imports WorkflowRun
begin

section \<open>What the workflow run controller never does\<close>

text \<open>
  Rely and guarantee for the controller of \<open>WorkflowRun\<close>. \<open>other_writer\<close> is what the other writers of a
  run may do: the admission webhook keeps its spec, the gateway reports only on running runs, and
  nobody else removes the finalizer. \<open>run_write\<close> lists the writes of the controller with the
  knowledge each rests on. The locale \<open>run_invariant\<close> takes a predicate that both respect and shows
  once, along the text of the reconciler, that every call of \<open>Reconcile_run\<close> keeps it, whatever the
  reads, conflicts, lost answers and gateway replies; its interpretations are the safety properties. A third
  parameter of the locale is what an invariant asks of the other writers beyond \<open>other_writer\<close>.
\<close>

subsection \<open>Rely\<close>

abbreviation run_phase :: "WorkflowRun \<Rightarrow> string" where
  "run_phase r \<equiv> wr_phase (wf_status r)"

abbreviation run_session :: "WorkflowRun \<Rightarrow> string" where
  "run_session r \<equiv> wr_sessionID (wf_status r)"

definition has_finalizer :: "WorkflowRun option \<Rightarrow> bool" where
  "has_finalizer v \<longleftrightarrow> (case v of None \<Rightarrow> False | Some r \<Rightarrow> WorkflowRunSessionFinalizer \<in> set (wf_finalizers r))"

definition other_status :: "WorkflowRunStatus \<Rightarrow> WorkflowRunStatus \<Rightarrow> bool" where
  "other_status s s' \<longleftrightarrow>
     wr_sessionID s' = wr_sessionID s \<and> wr_startedAt s' = wr_startedAt s \<and>
     (wr_phase s' = wr_phase s \<and> wr_completedAt s' = wr_completedAt s \<or> wr_phase s = PhaseRunning \<and> Terminal (wr_phase s'))"

definition other_writer :: "WorkflowRun option \<Rightarrow> WorkflowRun option \<Rightarrow> bool" where
  "other_writer v v' \<longleftrightarrow>
     (case (v, v') of
        (None, None) \<Rightarrow> True
      | (None, Some _) \<Rightarrow> False
      | (Some _, None) \<Rightarrow> \<not> has_finalizer v
      | (Some r, Some r') \<Rightarrow>
          wf_spec r' = wf_spec r \<and> (wf_deleting r \<longrightarrow> wf_deleting r') \<and> (has_finalizer v \<longrightarrow> has_finalizer v') \<and>
          other_status (wf_status r) (wf_status r'))"

definition well_behaved :: "run_env \<Rightarrow> bool" where
  "well_behaved e \<longleftrightarrow> (\<forall>t v. other_writer v (we_interfere e t v))"

text \<open>The same with a further obligation \<open>R\<close> of the other writers.\<close>

definition relies :: "(WorkflowRun option \<Rightarrow> WorkflowRun option \<Rightarrow> bool) \<Rightarrow> run_env \<Rightarrow> bool" where
  "relies R e \<longleftrightarrow> (\<forall>t v. other_writer v (we_interfere e t v) \<and> R v (we_interfere e t v))"

abbreviation no_more :: "WorkflowRun option \<Rightarrow> WorkflowRun option \<Rightarrow> bool" where
  "no_more \<equiv> \<lambda>_ _. True"

lemma relies_no_more: "well_behaved e \<Longrightarrow> relies no_more e"
  by (simp add: relies_def well_behaved_def)

subsection \<open>Histories\<close>

text \<open>What every two versions of a run have in common, the older one first.\<close>

definition evolves :: "WorkflowRun option \<Rightarrow> WorkflowRun option \<Rightarrow> bool" where
  "evolves v v' \<longleftrightarrow>
     (case (v, v') of
        (None, None) \<Rightarrow> True
      | (None, Some _) \<Rightarrow> False
      | (Some _, None) \<Rightarrow> True
      | (Some r, Some r') \<Rightarrow>
          wf_spec r' = wf_spec r \<and> (wf_deleting r \<longrightarrow> wf_deleting r' \<and> run_session r' = run_session r) \<and>
          (run_phase r' = PhaseUnknown \<longrightarrow> run_phase r = PhaseUnknown))"

definition history :: "run_world \<Rightarrow> bool" where
  "history w \<longleftrightarrow> ww_seen w < length (ww_versions w) \<and> sorted_wrt evolves (ww_versions w)"

definition extends :: "run_world \<Rightarrow> run_world \<Rightarrow> bool" where
  "extends w w' \<longleftrightarrow>
     (\<exists>vs tr. ww_versions w' = ww_versions w @ vs \<and> ww_trace w' = ww_trace w @ tr) \<and> ww_seen w \<le> ww_seen w'"

definition observed :: "WorkflowRun \<Rightarrow> run_world \<Rightarrow> bool" where
  "observed run w \<longleftrightarrow> (\<exists>i\<le>ww_seen w. i < length (ww_versions w) \<and> ww_versions w ! i = Some run)"

lemmas phase_defs = PhaseUnknown_def PhasePending_def PhaseRunning_def PhaseUnacked_def PhaseSucceeded_def PhaseFailed_def

lemma Terminal_cases [simp]:
  "Terminal PhaseFailed" "Terminal PhaseUnacked" "Terminal PhaseSucceeded"
  "\<not> Terminal PhaseRunning" "\<not> Terminal PhasePending" "\<not> Terminal PhaseUnknown"
  by (simp_all add: Terminal_def phase_defs)

lemma phases_differ [simp]:
  "PhaseRunning \<noteq> PhaseUnknown" "PhasePending \<noteq> PhaseUnknown" "PhaseRunning \<noteq> PhasePending"
  "PhaseUnknown \<noteq> PhaseRunning" "PhaseUnknown \<noteq> PhasePending" "PhasePending \<noteq> PhaseRunning"
  by (simp_all add: phase_defs)

lemma Terminal_not: "Terminal p \<Longrightarrow> p \<noteq> PhaseUnknown \<and> p \<noteq> PhasePending \<and> p \<noteq> PhaseRunning"
  by (auto simp: Terminal_def phase_defs)

lemma evolves_refl [simp]: "evolves v v"
  by (cases v) (simp_all add: evolves_def)

lemma evolves_trans: "evolves u v \<Longrightarrow> evolves v x \<Longrightarrow> evolves u x"
  by (auto simp: evolves_def split: option.splits)

lemma other_writer_evolves: "other_writer v v' \<Longrightarrow> evolves v v'"
  by (auto simp: other_writer_def other_status_def evolves_def dest: Terminal_not split: option.splits)

lemma extends_refl [simp]: "extends w w"
  by (simp add: extends_def)

lemma extends_trans: "extends u v \<Longrightarrow> extends v w \<Longrightarrow> extends u w"
  by (auto simp: extends_def)

lemma extends_world:
  "extends w (tick w)" "extends w (log_event ev w)" "extends w (push v w)" "ww_seen w \<le> n \<Longrightarrow> extends w (w\<lparr>ww_seen := n\<rparr>)"
  by (auto simp: extends_def tick_def log_event_def push_def)

lemma observed_extends:
  assumes "observed run w" "extends w w'"
  shows "observed run w'"
proof -
  obtain i where i: "i \<le> ww_seen w" "i < length (ww_versions w)" "ww_versions w ! i = Some run"
    using assms(1) by (auto simp: observed_def)
  then have "i \<le> ww_seen w'" "i < length (ww_versions w')" "ww_versions w' ! i = Some run"
    using assms(2) by (auto simp: extends_def nth_append)
  then show ?thesis by (auto simp: observed_def)
qed

lemma history_evolves:
  assumes "history w" "i \<le> j" "j < length (ww_versions w)"
  shows "evolves (ww_versions w ! i) (ww_versions w ! j)"
  using assms by (cases "i = j") (auto simp: history_def sorted_wrt_iff_nth_less)

lemma history_stored:
  assumes "history w" "i < length (ww_versions w)"
  shows "evolves (ww_versions w ! i) (stored w)"
  using history_evolves [OF assms(1), of i "length (ww_versions w) - 1"] assms
  by (cases "ww_versions w = []") (auto simp: stored_def last_conv_nth)

lemma observed_stored: "history w \<Longrightarrow> observed run w \<Longrightarrow> evolves (Some run) (stored w)"
  by (metis history_stored observed_def)

lemma history_push:
  assumes "history w" "evolves (stored w) v"
  shows "history (push v w)"
proof -
  have "evolves x v" if "x \<in> set (ww_versions w)" for x
    using that history_stored [OF assms(1)] assms(2) evolves_trans by (metis in_set_conv_nth)
  then show ?thesis using assms(1) by (auto simp: history_def push_def sorted_wrt_append)
qed

lemma history_world [simp]:
  "history (tick w) = history w" "history (log_event ev w) = history w" "history (w\<lparr>ww_tick := t\<rparr>) = history w"
  by (simp_all add: history_def tick_def log_event_def)

lemma world_fields [simp]:
  "ww_versions (tick w) = ww_versions w" "ww_seen (tick w) = ww_seen w" "ww_trace (tick w) = ww_trace w"
  "ww_versions (log_event ev w) = ww_versions w" "ww_seen (log_event ev w) = ww_seen w"
  "ww_trace (log_event ev w) = ww_trace w @ [ev]" "ww_seen (push v w) = ww_seen w" "ww_trace (push v w) = ww_trace w"
  "ww_tick (tick w) = Suc (ww_tick w)" "ww_tick (log_event ev w) = Suc (ww_tick w)" "ww_tick (push v w) = ww_tick w"
  by (simp_all add: tick_def log_event_def push_def)

lemma stored_simps [simp]:
  "stored (tick w) = stored w" "stored (log_event ev w) = stored w" "stored (push v w) = v" "stored (w\<lparr>ww_seen := n\<rparr>) = stored w"
  by (simp_all add: stored_def push_def)

lemma cached_simps [simp]: "cached (tick w) = cached w" "cached (log_event ev w) = cached w"
  by (simp_all add: cached_def)

lemma cached_push [simp]: "ww_seen w < length (ww_versions w) \<Longrightarrow> cached (push v w) = cached w"
  by (simp add: cached_def push_def nth_append)

lemma up_to_date_stored: "history w \<Longrightarrow> up_to_date w \<Longrightarrow> stored w = cached w"
  by (metis cached_def history_def last_conv_nth le_antisym less_eq_Suc_le diff_Suc_1 length_0_conv not_less0 stored_def up_to_date_def)

subsection \<open>The nodes of a run\<close>

definition node_ok :: "WorkflowRunNodeStatus \<Rightarrow> bool" where
  "node_ok n \<longleftrightarrow>
     (wn_phase n = ''Running'' \<longrightarrow> wn_startedAt n \<noteq> None \<and> wn_completedAt n = None) \<and>
     (wn_phase n \<in> {''Succeeded'', ''Failed'', ''Unacked''} \<longrightarrow> wn_completedAt n \<noteq> None)"

text \<open>
  Every node is listed once, its times agree with its phase, and once the run is completed no node
  is running.
\<close>

definition nodes_ok :: "WorkflowRunStatus \<Rightarrow> bool" where
  "nodes_ok s \<longleftrightarrow>
     distinct (map wn_name (wr_nodes s)) \<and> list_all node_ok (wr_nodes s) \<and>
     (Terminal (wr_phase s) \<and> wr_completedAt s \<noteq> None \<longrightarrow> (\<forall>n\<in>set (wr_nodes s). wn_phase n \<noteq> ''Running''))"

subsection \<open>Guarantee\<close>

text \<open>A status write that keeps a completed run as it is, and its nodes well formed.\<close>

definition keeps_completed :: "WorkflowRunStatus \<Rightarrow> WorkflowRunStatus \<Rightarrow> bool" where
  "keeps_completed s s' \<longleftrightarrow>
     wr_sessionID s' = wr_sessionID s \<and> wr_startedAt s' = wr_startedAt s \<and>
     (wr_phase s' = wr_phase s \<and> (wr_completedAt s = None \<or> wr_completedAt s' = wr_completedAt s) \<or>
      \<not> Terminal (wr_phase s) \<and> wr_completedAt s = None \<and> Terminal (wr_phase s') \<and> wr_completedAt s' \<noteq> None)"

definition settles :: "WorkflowRunStatus \<Rightarrow> WorkflowRunStatus \<Rightarrow> bool" where
  "settles s s' \<longleftrightarrow> keeps_completed s s' \<and> (nodes_ok s \<longrightarrow> nodes_ok s')"

definition confirmed_idle :: "string \<Rightarrow> run_event \<Rightarrow> bool" where
  "confirmed_idle sid ev \<longleftrightarrow> (case ev of EvStatus (StatusMap m) \<Rightarrow> idle_in sid m | _ \<Rightarrow> False)"

text \<open>The session of a run is gone: its abort was confirmed, and unless a conversation owns it, it was deleted.\<close>

definition abort_confirmed :: "string \<Rightarrow> run_event list \<Rightarrow> bool" where
  "abort_confirmed sid tr \<longleftrightarrow>
     EvAbort sid (Some 404) \<in> set tr \<or>
     (\<exists>xs ev ys. tr = xs @ [EvAbort sid (Some 200), ev] @ ys \<and> confirmed_idle sid ev)"

definition session_closed :: "WorkflowRun \<Rightarrow> run_event list \<Rightarrow> bool" where
  "session_closed run tr \<longleftrightarrow>
     run_session run = [] \<or>
     abort_confirmed (run_session run) tr \<and>
     (wp_delivery (wf_spec run) = None \<longrightarrow>
        (\<exists>status\<in>{200, 404}. EvDeleteSession (run_session run) (Some status) \<in> set tr))"

inductive run_write :: "run_world \<Rightarrow> WorkflowRun \<Rightarrow> WorkflowRun \<Rightarrow> bool" for w base where
  settle: "settles (wf_status base) s \<Longrightarrow> run_write w base (base\<lparr>wf_status := s\<rparr>)"
| admit: "\<not> wf_deleting base \<Longrightarrow> run_phase base = PhasePending \<Longrightarrow> wr_phase s = PhaseRunning \<Longrightarrow>
    (nodes_ok (wf_status base) \<longrightarrow> nodes_ok s) \<Longrightarrow> run_write w base (base\<lparr>wf_status := s\<rparr>)"
| retain: "run_write w base (base\<lparr>wf_finalizers := wf_finalizers base @ [WorkflowRunSessionFinalizer]\<rparr>)"
| release: "observed run w \<Longrightarrow> wf_deleting run \<Longrightarrow> session_closed run (ww_trace w) \<Longrightarrow>
    run_write w base (base\<lparr>wf_finalizers := removeAll WorkflowRunSessionFinalizer (wf_finalizers base)\<rparr>)"

lemma abort_confirmed_append:
  assumes "abort_confirmed sid tr"
  shows "abort_confirmed sid (tr @ tr')"
proof (cases "EvAbort sid (Some 404) \<in> set tr")
  case True then show ?thesis by (simp add: abort_confirmed_def)
next
  case False
  then obtain xs ev ys where "tr @ tr' = xs @ [EvAbort sid (Some 200), ev] @ ys @ tr'" "confirmed_idle sid ev"
    using assms by (auto simp: abort_confirmed_def)
  then show ?thesis unfolding abort_confirmed_def by blast
qed

lemma session_closed_extends: "session_closed run (ww_trace w) \<Longrightarrow> extends w w' \<Longrightarrow> session_closed run (ww_trace w')"
  by (auto simp: session_closed_def extends_def abort_confirmed_append)

text \<open>The one write that is not bound to what the run is: from a run without a phase.\<close>

definition pending_write :: "run_world \<Rightarrow> WorkflowRun \<Rightarrow> WorkflowRun \<Rightarrow> bool" where
  "pending_write w base new \<longleftrightarrow>
     (\<exists>s. new = base\<lparr>wf_status := s\<rparr> \<and> wr_phase s = PhasePending \<and> wr_sessionID s = run_session base
       \<and> (nodes_ok (wf_status base) \<longrightarrow> nodes_ok s))"

lemma run_write_extends: "run_write w base new \<Longrightarrow> extends w w' \<Longrightarrow> run_write w' base new"
  by (induction rule: run_write.induct)
     (auto intro: run_write.intros observed_extends session_closed_extends)

lemma run_write_evolves:
  assumes "run_write w base new"
  shows "evolves (Some base) (saved new)"
  using assms
  by (induction rule: run_write.induct)
     (auto simp: evolves_def saved_def settles_def keeps_completed_def dest: Terminal_not)

lemma pending_write_evolves: "pending_write w base new \<Longrightarrow> evolves (Some base) (saved new)"
  by (auto simp: evolves_def saved_def pending_write_def)

subsection \<open>The status changes settle\<close>

lemma set_condition_fields [simp]:
  "wr_phase (set_condition e c s) = wr_phase s" "wr_sessionID (set_condition e c s) = wr_sessionID s"
  "wr_startedAt (set_condition e c s) = wr_startedAt s" "wr_completedAt (set_condition e c s) = wr_completedAt s"
  "wr_message (set_condition e c s) = wr_message s" "wr_nodes (set_condition e c s) = wr_nodes s"
  by (simp_all add: set_condition_def)

lemma setTerminalStatus_fields [simp]:
  "wr_phase (setTerminalStatus e g r m c s) = wr_phase s" "wr_sessionID (setTerminalStatus e g r m c s) = wr_sessionID s"
  "wr_startedAt (setTerminalStatus e g r m c s) = wr_startedAt s" "wr_message (setTerminalStatus e g r m c s) = wr_message s"
  "wr_completedAt (setTerminalStatus e g r m c s) = (if wr_completedAt s = None then c else wr_completedAt s)"
  by (simp_all add: setTerminalStatus_def Let_def)

lemma close_node_simps [simp]:
  "wn_name (close_node c n) = wn_name n" "wn_phase (close_node c n) \<noteq> ''Running''" "node_ok n \<Longrightarrow> node_ok (close_node (Some t) n)"
  by (auto simp: close_node_def node_ok_def)

lemma close_node_name [simp]: "wn_name \<circ> close_node c = wn_name"
  by (simp add: fun_eq_iff)

lemma close_nodes_ok:
  "map wn_name (map (close_node c) ns) = map wn_name ns" "list_all node_ok ns \<Longrightarrow> list_all node_ok (map (close_node (Some t)) ns)"
  by (auto simp: list_all_iff)

lemma setTerminalStatus_nodes [simp]:
  "wr_nodes (setTerminalStatus e g r m c s) = map (close_node c) (wr_nodes s)"
  by (simp add: setTerminalStatus_def Let_def)

lemma nodes_ok_terminal: "nodes_ok s \<Longrightarrow> wr_nodes s' = wr_nodes s \<Longrightarrow> nodes_ok (setTerminalStatus e g r m (Some t) s')"
  by (auto simp: nodes_ok_def close_nodes_ok(2))

lemma nodes_ok_congr: "wr_nodes s' = wr_nodes s \<Longrightarrow> wr_phase s' = wr_phase s \<Longrightarrow> wr_completedAt s' = wr_completedAt s \<Longrightarrow> nodes_ok s' = nodes_ok s"
  by (simp add: nodes_ok_def)

lemma changes_nodes:
  assumes "nodes_ok s"
  shows "nodes_ok (set_condition e c s)" "nodes_ok (fail_status e g r m now s)" "nodes_ok (sync_status e g now s)"
    "nodes_ok (unacked_status e g failed m now s)" "nodes_ok (pending_status e g s)" "nodes_ok (admitted_status e g sid now s)"
proof -
  have condition: "nodes_ok (set_condition e c t) = nodes_ok t" for c t by (rule nodes_ok_congr) simp_all
  then show "nodes_ok (set_condition e c s)" using assms by simp
  show "nodes_ok (fail_status e g r m now s)"
    using assms nodes_ok_terminal [OF assms, of "s\<lparr>wr_phase := PhaseFailed, wr_message := m\<rparr>"]
    by (simp add: fail_status_def Let_def condition)
  show "nodes_ok (sync_status e g now s)" unfolding sync_status_def Let_def
    using nodes_ok_terminal [OF assms] by (cases "wr_completedAt s") simp_all
  show "nodes_ok (unacked_status e g failed m now s)"
    using assms nodes_ok_terminal [OF assms, of "s\<lparr>wr_phase := (if failed then PhaseFailed else PhaseUnacked), wr_message := m\<rparr>"]
    by (simp add: unacked_status_def)
  show "nodes_ok (pending_status e g s)" "nodes_ok (admitted_status e g sid now s)"
    using assms by (auto simp: nodes_ok_def pending_status_def admitted_status_def setActiveConditions_def)
qed

lemma settles_changes:
  "settles s (set_condition e c s)" "settles s (fail_status e g r m now s)" "settles s (sync_status e g now s)"
  "settles s (unacked_status e g failed m now s)"
proof -
  have "keeps_completed s (set_condition e c s)" "keeps_completed s (fail_status e g r m now s)"
    "keeps_completed s (sync_status e g now s)" "keeps_completed s (unacked_status e g failed m now s)"
    by (auto simp: keeps_completed_def fail_status_def sync_status_def unacked_status_def Let_def)
  then show "settles s (set_condition e c s)" "settles s (fail_status e g r m now s)" "settles s (sync_status e g now s)"
    "settles s (unacked_status e g failed m now s)"
    using changes_nodes by (simp_all add: settles_def)
qed

lemma pending_status_fields [simp]:
  "wr_phase (pending_status e g s) = PhasePending" "wr_sessionID (pending_status e g s) = wr_sessionID s"
  by (simp_all add: pending_status_def setActiveConditions_def)

lemma admitted_status_fields [simp]:
  "wr_phase (admitted_status e g sid now s) = PhaseRunning" "wr_sessionID (admitted_status e g sid now s) = sid"
  "wr_startedAt (admitted_status e g sid now s) = Some now" "wr_completedAt (admitted_status e g sid now s) = wr_completedAt s"
  by (simp_all add: admitted_status_def setActiveConditions_def)

subsection \<open>Invariants of the controller\<close>

definition quiet_event :: "run_event \<Rightarrow> bool" where
  "quiet_event ev \<longleftrightarrow> (\<forall>sid body. ev \<noteq> EvPrompt sid body)"

definition reaches :: "(run_world \<Rightarrow> bool) \<Rightarrow> run_world \<Rightarrow> run_world \<Rightarrow> bool" where
  "reaches Inv w0 w \<longleftrightarrow> Inv w \<and> extends w0 w"

lemma RetryOnConflict_rule:
  assumes "\<And>w r w'. J w \<Longrightarrow> f w = (r, w') \<Longrightarrow> J w' \<and> Q r w'"
  shows "J w \<Longrightarrow> RetryOnConflict n f w = (r, w') \<Longrightarrow> J w' \<and> Q r w'"
proof (induction n arbitrary: w)
  case 0 then show ?case using assms by simp
next
  case (Suc n)
  obtain r1 w1 where f: "f w = (r1, w1)" by fastforce
  show ?case
  proof (cases "r1 = Inl RunConflict")
    case True then show ?thesis using Suc.IH [of w1] Suc.prems(2) f assms [OF Suc.prems(1) f] by simp
  next
    case False
    then have "RetryOnConflict (Suc n) f w = (r1, w1)" using f by (auto split: sum.splits run_error.splits)
    then show ?thesis using Suc.prems assms [OF Suc.prems(1) f] by simp
  qed
qed

text \<open>An invariant of the store under the writes of a kind \<open>W\<close>, the reads and the other writers.\<close>

locale store_invariant =
  fixes Inv :: "run_world \<Rightarrow> bool"
    and W :: "run_world \<Rightarrow> WorkflowRun \<Rightarrow> WorkflowRun \<Rightarrow> bool"
    and R :: "WorkflowRun option \<Rightarrow> WorkflowRun option \<Rightarrow> bool"
  assumes history: "Inv w \<Longrightarrow> history w"
    and tick: "Inv w \<Longrightarrow> Inv (tick w)"
    and seen: "Inv w \<Longrightarrow> ww_seen w \<le> n \<Longrightarrow> n < length (ww_versions w) \<Longrightarrow> Inv (w\<lparr>ww_seen := n\<rparr>)"
    and other: "Inv w \<Longrightarrow> other_writer (stored w) v \<Longrightarrow> R (stored w) v \<Longrightarrow> Inv (push v w)"
    and guarantee: "Inv w \<Longrightarrow> stored w = Some base \<Longrightarrow> W w base new \<Longrightarrow> Inv (push (saved new) w)"
    and mono: "W w base new \<Longrightarrow> extends w w' \<Longrightarrow> W w' base new"
begin

lemma reaches_step: "reaches Inv w0 w \<Longrightarrow> (Inv w \<Longrightarrow> Inv w') \<Longrightarrow> extends w w' \<Longrightarrow> reaches Inv w0 w'"
  by (auto simp: reaches_def intro: extends_trans)

lemma reaches_tick: "reaches Inv w0 w \<Longrightarrow> reaches Inv w0 (RunStore.tick w)"
  by (erule reaches_step) (auto simp: reaches_def intro: tick extends_world)

lemma interfere_reaches: "relies R e \<Longrightarrow> reaches Inv w0 w \<Longrightarrow> reaches Inv w0 (interfere e w)"
  by (erule reaches_step) (auto simp: reaches_def interfere_def relies_def intro: other extends_world)

lemma refresh_reaches:
  assumes "relies R e" "reaches Inv w0 w"
  shows "reaches Inv w0 (refresh e w)"
proof -
  let ?w1 = "interfere e w"
  let ?n = "min (length (ww_versions ?w1) - 1) (ww_seen ?w1 + we_sync e (ww_tick w))"
  have r: "reaches Inv w0 ?w1" using assms by (rule interfere_reaches)
  then have "RunSafety.history ?w1" by (auto simp: reaches_def intro: history)
  then have b: "ww_seen ?w1 \<le> ?n" "?n < length (ww_versions ?w1)" by (auto simp: history_def)
  then have "reaches Inv w0 (?w1\<lparr>ww_seen := ?n\<rparr>)"
    using r by (intro reaches_step [OF r]) (auto simp: reaches_def intro: seen extends_world)
  moreover have "refresh e w = RunStore.tick (?w1\<lparr>ww_seen := ?n\<rparr>)"
    by (simp add: refresh_def Let_def tick_def interfere_def)
  ultimately show ?thesis by (simp add: reaches_tick)
qed

lemma get_run_reaches:
  assumes "relies R e" "reaches Inv w0 w" "get_run e w = (r, w')"
  shows "reaches Inv w0 w' \<and> (\<forall>run. r = Inr run \<longrightarrow> cached w' = Some run \<and> observed run w')"
proof -
  have w': "w' = refresh e w" using assms(3) by (auto simp: get_run_def split: option.splits)
  then have r: "reaches Inv w0 w'" using refresh_reaches assms by simp
  moreover have "cached w' = Some run" if "r = Inr run" for run
    using assms(3) that w' by (auto simp: get_run_def split: option.splits)
  moreover have "RunSafety.history w'" using r by (auto simp: reaches_def intro: history)
  ultimately show ?thesis by (auto simp: observed_def history_def cached_def)
qed

lemma write_run_reaches:
  assumes "relies R e" "reaches Inv w0 w" "cached w = Some base" "W w0 base new" "write_run e new w = (oc, w')"
  shows "reaches Inv w0 w' \<and>
    (oc = WriteOk \<longrightarrow> (\<exists>w1. Inv w1 \<and> stored w1 = Some base \<and> cached w1 = Some base \<and> w' = push (saved new) w1))"
proof -
  let ?w1 = "RunStore.tick (interfere e w)"
  have r: "reaches Inv w0 ?w1" using assms(1,2) by (simp add: interfere_reaches reaches_tick)
  have h: "RunSafety.history w" "RunSafety.history ?w1"
    using assms(2) r unfolding reaches_def by (blast intro: history)+
  then have c: "cached ?w1 = Some base" using assms(3) by (simp add: interfere_def history_def)
  have p: "reaches Inv w0 (push (saved new) ?w1) \<and> stored ?w1 = Some base" if "up_to_date ?w1"
  proof -
    have s: "stored ?w1 = Some base" using up_to_date_stored [OF h(2) that] c by simp
    moreover have "W ?w1 base new" using assms(4) r by (auto simp: reaches_def intro: mono)
    ultimately have "reaches Inv w0 (push (saved new) ?w1)"
      by (intro reaches_step [OF r] guarantee extends_world)
    then show ?thesis using s by simp
  qed
  then have "reaches Inv w0 w'" using assms(5) r
    by (auto simp: write_run_def Let_def split: write_outcome.splits if_splits)
  moreover have "\<exists>w1. Inv w1 \<and> stored w1 = Some base \<and> cached w1 = Some base \<and> w' = push (saved new) w1" if "oc = WriteOk"
  proof -
    have "up_to_date ?w1" "w' = push (saved new) ?w1"
      using assms(5) that by (auto simp: write_run_def Let_def split: write_outcome.splits if_splits)
    then show ?thesis using p c r unfolding reaches_def by blast
  qed
  ultimately show ?thesis by blast
qed

end

context store_invariant
begin

lemma reaches_self: "reaches Inv w0 w \<Longrightarrow> reaches Inv w w"
  by (simp add: reaches_def)

lemma reaches_widen: "extends w0 w1 \<Longrightarrow> reaches Inv w1 w \<Longrightarrow> reaches Inv w0 w"
  by (auto simp: reaches_def intro: extends_trans)

lemma retry_reaches:
  assumes "\<And>w r w'. reaches Inv w0 w \<Longrightarrow> f w = (r, w') \<Longrightarrow> reaches Inv w0 w'"
    and "reaches Inv w0 w" "RetryOnConflict n f w = (r, w')"
  shows "reaches Inv w0 w'"
  using RetryOnConflict_rule [of "reaches Inv w0" f "\<lambda>_ _. True", OF _ assms(2,3)] assms(1) by blast

lemma patch_attempt_reaches:
  assumes "relies R e" "\<And>base now. W w0 base (base\<lparr>wf_status := mutate now (wf_status base)\<rparr>)"
    and "reaches Inv w0 w" "patch_attempt e mutate w = (r, w')"
  shows "reaches Inv w0 w'"
  using assms(4) get_run_reaches [OF assms(1,3)] write_run_reaches [OF assms(1) _ _ assms(2)]
  by (fastforce simp: patch_attempt_def Let_def split: prod.splits sum.splits)

lemma patchStatus_reaches:
  assumes "relies R e" "\<And>base now. W w0 base (base\<lparr>wf_status := mutate now (wf_status base)\<rparr>)"
    and "reaches Inv w0 w" "patchStatus e run mutate w = (err, run', w')"
  shows "reaches Inv w0 w'"
proof -
  obtain r w1 where p: "RetryOnConflict (we_retries e) (patch_attempt e mutate) w = (r, w1)" by fastforce
  then have "w' = w1" using assms(4) by (auto simp: patchStatus_def split: sum.splits)
  then show ?thesis
    using retry_reaches [OF _ assms(3) p] patch_attempt_reaches [of e w0 mutate, OF assms(1) assms(2)] by blast
qed

end

text \<open>
  An invariant of the controller. A run that was read without a phase has not started:
  \<open>Unstarted\<close> then holds, and it outlives the write that makes the run pending.
\<close>

locale run_invariant =
  a: store_invariant Inv run_write R + b: store_invariant Unstarted pending_write R
  for Inv :: "run_world \<Rightarrow> bool" and Unstarted :: "run_world \<Rightarrow> bool" and R :: "WorkflowRun option \<Rightarrow> WorkflowRun option \<Rightarrow> bool" +
  assumes log: "Inv w \<Longrightarrow> quiet_event ev \<Longrightarrow> Inv (log_event ev w)"
    and unstarted: "Inv w \<Longrightarrow> cached w = Some run \<Longrightarrow> run_phase run = PhaseUnknown \<Longrightarrow> Unstarted w"
    and started: "Unstarted w \<Longrightarrow> Inv w"
    and prompt: "Inv w \<Longrightarrow> stored w = Some base \<Longrightarrow> cached w = Some base \<Longrightarrow> \<not> wf_deleting base \<Longrightarrow> run_phase base = PhasePending \<Longrightarrow>
      wr_phase s = PhaseRunning \<Longrightarrow> wr_sessionID s = sid \<Longrightarrow> (nodes_ok (wf_status base) \<longrightarrow> nodes_ok s) \<Longrightarrow>
      Inv (log_event (EvPrompt sid body) (push (Some (base\<lparr>wf_status := s\<rparr>)) w))"
begin

lemma reaches_log: "reaches Inv w0 w \<Longrightarrow> quiet_event ev \<Longrightarrow> reaches Inv w0 (log_event ev w)"
  by (erule a.reaches_step) (auto simp: reaches_def intro: log extends_world)

lemma settle_reaches:
  assumes "relies R e" "\<And>s now. settles s (mutate now s)" "reaches Inv w0 w" "patchStatus e run mutate w = (err, run', w')"
  shows "reaches Inv w0 w'"
  using a.patchStatus_reaches [OF assms(1) _ assms(3,4)] assms(2) by (simp add: run_write.settle)

lemma sessionIdle_reaches: "reaches Inv w0 w \<Longrightarrow> sessionIdle e run w = (r, w') \<Longrightarrow> reaches Inv w0 w'"
  by (auto simp: sessionIdle_def Let_def quiet_event_def intro: reaches_log split: if_splits status_reply.splits)

lemma sessionTerminalMessage_reaches:
  "reaches Inv w0 w \<Longrightarrow> sessionTerminalMessage e run w = (r, w') \<Longrightarrow> reaches Inv w0 w'"
  by (auto simp: sessionTerminalMessage_def Let_def quiet_event_def intro: reaches_log split: if_splits messages_reply.splits)

lemma abortRun_reaches: "reaches Inv w0 w \<Longrightarrow> abortRun e run w = (r, w') \<Longrightarrow> reaches Inv w0 w'"
  by (auto simp: abortRun_def Let_def quiet_event_def intro: reaches_log sessionIdle_reaches [OF reaches_log]
      split: if_splits option.splits prod.splits sum.splits)

lemma syncTerminalStatus_reaches:
  assumes "relies R e" "reaches Inv w0 w" "syncTerminalStatus e run w = (err, run', w')"
  shows "reaches Inv w0 w'"
proof -
  obtain err1 run1 w1 where p: "patchStatus e run (sync_status e (wf_generation run)) w = (err1, run1, w1)"
    by (metis prod_cases3)
  have r1: "reaches Inv w0 w1" using settle_reaches [OF assms(1) _ assms(2) p] settles_changes(3) by blast
  obtain err2 w2 where a: "abortRun e run1 w1 = (err2, w2)" by fastforce
  have r2: "reaches Inv w0 w2" using abortRun_reaches [OF r1 a] .
  obtain err3 run3 w3 where q:
    "patchStatus e run1 (\<lambda>_. set_condition e (aborted_condition e (wf_generation run1) err2)) w2 = (err3, run3, w3)"
    by (metis prod_cases3)
  have "reaches Inv w0 w3" using settle_reaches [OF assms(1) _ r2 q] settles_changes(1) by blast
  then show ?thesis using assms(3) r1 p a q by (auto simp: syncTerminalStatus_def split: option.splits if_splits)
qed

lemma failRun_reaches:
  assumes "relies R e" "reaches Inv w0 w" "failRun e run reason message w = (err, run', w')"
  shows "reaches Inv w0 w'"
proof -
  obtain err1 run1 w1 where p:
    "patchStatus e run (\<lambda>_. fail_status e (wf_generation run) reason message (Now e w)) w = (err1, run1, w1)"
    by (metis prod_cases3)
  have "reaches Inv w0 w1" using settle_reaches [OF assms(1) _ assms(2) p] settles_changes(2) by blast
  then show ?thesis using assms(1,3) p syncTerminalStatus_reaches [OF assms(1)]
    by (auto simp: failRun_def split: option.splits)
qed

lemma reconcileRunning_reaches:
  assumes "relies R e" "reaches Inv w0 w" "reconcileRunning e run w = (res, w')"
  shows "reaches Inv w0 w'"
proof -
  obtain r1 w1 where i: "sessionIdle e run w = (r1, w1)" by fastforce
  have r1: "reaches Inv w0 w1" using sessionIdle_reaches [OF assms(2) i] .
  obtain r2 w2 where m: "sessionTerminalMessage e run w1 = (r2, w2)" by fastforce
  have r2: "reaches Inv w0 w2" using sessionTerminalMessage_reaches [OF r1 m] .
  have "reaches Inv w0 w3"
    if "patchStatus e run (\<lambda>_. unacked_status e (wf_generation run) f t (Now e w2)) w2 = (err3, run3, w3)" for f t err3 run3 w3
    using settle_reaches [OF assms(1) _ r2 that] settles_changes(4) by blast
  then show ?thesis using assms(3) i m r1 r2
    by (fastforce simp: reconcileRunning_def Let_def split: sum.splits if_splits prod.splits)
qed

end

lemma addFinalizer_retry:
  "addFinalizer e w = (err, w') \<Longrightarrow>
     RetryOnConflict (we_retries e) (add_finalizer_attempt e) w = (fst (RetryOnConflict (we_retries e) (add_finalizer_attempt e) w), w')"
  by (auto simp: addFinalizer_def split: prod.splits sum.splits)

lemma release_finalizer_retry:
  "release_finalizer e w = (err, w') \<Longrightarrow>
     RetryOnConflict (we_retries e) (remove_finalizer_attempt e) w = (fst (RetryOnConflict (we_retries e) (remove_finalizer_attempt e) w), w')"
  by (auto simp: release_finalizer_def split: prod.splits sum.splits)

context run_invariant
begin

lemma addFinalizer_reaches:
  assumes "relies R e" "reaches Inv w0 w" "addFinalizer e w = (err, w')"
  shows "reaches Inv w0 w'"
proof -
  have "reaches Inv w0 v'" if "reaches Inv w0 v" "add_finalizer_attempt e v = (r, v')" for v r v'
    using that(2) a.get_run_reaches [OF assms(1) that(1)] a.write_run_reaches [OF assms(1) _ _ run_write.retain]
    by (fastforce simp: add_finalizer_attempt_def split: prod.splits sum.splits if_splits)
  then show ?thesis using a.retry_reaches [OF _ assms(2) addFinalizer_retry [OF assms(3)]] by blast
qed

lemma release_reaches:
  assumes "relies R e" "observed run w0" "wf_deleting run" "session_closed run (ww_trace w0)"
    and "reaches Inv w0 w" "release_finalizer e w = (err, w')"
  shows "reaches Inv w0 w'"
proof -
  have "reaches Inv w0 v'" if "reaches Inv w0 v" "remove_finalizer_attempt e v = (r, v')" for v r v'
    using that(2) a.get_run_reaches [OF assms(1) that(1)] a.write_run_reaches [OF assms(1) _ _ run_write.release [OF assms(2-4)]]
    by (fastforce simp: remove_finalizer_attempt_def split: prod.splits sum.splits if_splits)
  then show ?thesis using a.retry_reaches [OF _ assms(5) release_finalizer_retry [OF assms(6)]] by blast
qed

end

lemma sessionIdle_confirmed:
  assumes "sessionIdle e run w = (Inr True, w')"
  shows "\<exists>ev. ww_trace w' = ww_trace w @ [ev] \<and> confirmed_idle (run_session run) ev"
  using assms by (auto simp: sessionIdle_def Let_def confirmed_idle_def split: if_splits status_reply.splits)

lemma abortRun_confirmed:
  assumes "abortRun e run w = (None, w')" "run_session run \<noteq> []"
  shows "abort_confirmed (run_session run) (ww_trace w')"
proof -
  let ?w1 = "log_event (EvAbort (run_session run) (we_abort e (ww_tick w))) w"
  consider "we_abort e (ww_tick w) = Some 404" "w' = ?w1"
    | "we_abort e (ww_tick w) = Some 200" "sessionIdle e run ?w1 = (Inr True, w')"
    using assms by (auto simp: abortRun_def Let_def split: option.splits prod.splits sum.splits if_splits)
  then show ?thesis
  proof cases
    case 1 then show ?thesis by (simp add: abort_confirmed_def)
  next
    case 2
    obtain ev where "ww_trace w' = ww_trace ?w1 @ [ev]" "confirmed_idle (run_session run) ev"
      using sessionIdle_confirmed [OF 2(2)] by blast
    then have "ww_trace w' = ww_trace w @ [EvAbort (run_session run) (Some 200), ev] @ [] \<and> confirmed_idle (run_session run) ev"
      using 2(1) by simp
    then show ?thesis unfolding abort_confirmed_def by blast
  qed
qed

context run_invariant
begin

lemma finalizeRun_reaches:
  assumes "relies R e" "observed run w0" "wf_deleting run" "reaches Inv w0 w" "finalizeRun e run w = (err, w')"
  shows "reaches Inv w0 w'"
proof -
  have release: "reaches Inv w0 w2" if "reaches Inv w0 w1" "session_closed run (ww_trace w1)" "release_finalizer e w1 = (err2, w2)"
    for w1 w2 err2
  proof -
    have x: "extends w0 w1" using that(1) by (simp add: reaches_def)
    show ?thesis
      using release_reaches [OF assms(1) observed_extends [OF assms(2) x] assms(3) that(2) a.reaches_self [OF that(1)] that(3)] x
      by (rule a.reaches_widen [rotated])
  qed
  obtain err1 w1 where a: "abortRun e run w = (err1, w1)" by fastforce
  have r1: "reaches Inv w0 w1" using abortRun_reaches [OF assms(4) a] .
  let ?w2 = "log_event (EvDeleteSession (run_session run) (we_deleteSession e (ww_tick w1))) w1"
  have r2: "reaches Inv w0 ?w2" using reaches_log [OF r1] by (simp add: quiet_event_def)
  have confirmed: "abort_confirmed (run_session run) (ww_trace w1)" if "err1 = None" "run_session run \<noteq> []"
    using abortRun_confirmed a that by simp
  have bound: "session_closed run (ww_trace w1)" if "err1 = None" "run_session run \<noteq> []" "wp_delivery (wf_spec run) \<noteq> None"
    using confirmed that by (auto simp: session_closed_def)
  have deleted: "session_closed run (ww_trace ?w2)"
    if "err1 = None" "run_session run \<noteq> []" "we_deleteSession e (ww_tick w1) = Some status" "status = 200 \<or> status = 404" for status
    using abort_confirmed_append [OF confirmed] that by (auto simp: session_closed_def)
  show ?thesis
  proof (cases "run_session run = []")
    case True
    then show ?thesis using assms(4,5) release [of w] by (auto simp: finalizeRun_def session_closed_def split: if_splits)
  next
    case False
    then show ?thesis using assms(4,5) a r1 r2 release [OF r1 bound] release [OF r2 deleted]
      by (auto simp: finalizeRun_def Let_def split: if_splits option.splits)
  qed
qed

end

context run_invariant
begin

lemma admit_attempt_reaches:
  assumes "relies R e" "reaches Inv w0 w" "admit_attempt e g sid now w = (r, w')"
  shows "reaches Inv w0 w' \<and> (\<forall>status. r = Inr status \<longrightarrow> (\<forall>body. Inv (log_event (EvPrompt sid body) w')))"
proof -
  obtain r1 w1 where g: "get_run e w = (r1, w1)" by fastforce
  have r1: "reaches Inv w0 w1" "\<And>run. r1 = Inr run \<Longrightarrow> cached w1 = Some run" using a.get_run_reaches [OF assms(1,2) g] by auto
  show ?thesis
  proof (cases "\<exists>base. r1 = Inr base \<and> \<not> wf_deleting base \<and> run_phase base = PhasePending")
    case False
    then show ?thesis using assms(3) g r1 by (auto simp: admit_attempt_def split: sum.splits if_splits)
  next
    case True
    then obtain base where b: "r1 = Inr base" "\<not> wf_deleting base" "run_phase base = PhasePending" by blast
    let ?s = "admitted_status e g sid now (wf_status base)"
    obtain oc w2 where wr: "write_run e (base\<lparr>wf_status := ?s\<rparr>) w1 = (oc, w2)" by fastforce
    have "run_write w0 base (base\<lparr>wf_status := ?s\<rparr>)" using b by (intro run_write.admit) (simp_all add: changes_nodes)
    note w2 = a.write_run_reaches [OF assms(1) r1(1) r1(2) [OF b(1)] this wr]
    have res: "w' = w2" "r = (case write_error oc of None \<Rightarrow> Ok ?s | Some err \<Rightarrow> Err err)"
      using assms(3) g b wr by (auto simp: admit_attempt_def Let_def)
    have "Inv (log_event (EvPrompt sid body) w')" if "r = Inr status" for status body
    proof -
      have "oc = WriteOk" using res that by (auto simp: write_error_def split: write_outcome.splits)
      then obtain w3 where w3: "Inv w3" "stored w3 = Some base" "cached w3 = Some base" "w2 = push (saved (base\<lparr>wf_status := ?s\<rparr>)) w3"
        using w2 by blast
      have "saved (base\<lparr>wf_status := ?s\<rparr>) = Some (base\<lparr>wf_status := ?s\<rparr>)" using b by (simp add: saved_def)
      then show ?thesis using prompt [OF w3(1-3) b(2,3), of ?s sid body] w3(4) res(1) by (simp add: changes_nodes)
    qed
    then show ?thesis using w2 res by blast
  qed
qed

lemma startRun_reaches:
  assumes "relies R e" "reaches Inv w0 w" "startRun e run w = (err, run', w')"
  shows "reaches Inv w0 w'"
proof (cases "\<exists>sandbox sid. we_client e \<and> resolve_sandbox e run = Inr sandbox \<and> we_create e (ww_tick w) = CreateSession sid")
  case False
  then show ?thesis using assms(2,3)
    by (auto simp: startRun_def Let_def quiet_event_def intro: reaches_log split: if_splits sum.splits create_reply.splits)
next
  case True
  then obtain sandbox sid where c: "we_client e" "resolve_sandbox e run = Inr sandbox" "we_create e (ww_tick w) = CreateSession sid"
    by blast
  let ?w1 = "log_event (EvCreate (build_session_request run sandbox)) w"
  have r1: "reaches Inv w0 ?w1" using reaches_log [OF assms(2)] by (simp add: quiet_event_def)
  obtain r w2 where p: "RetryOnConflict (we_retries e) (admit_attempt e (wf_generation run) sid (Now e ?w1)) ?w1 = (r, w2)" by fastforce
  have w2: "reaches Inv w0 w2" "\<And>status body. r = Inr status \<Longrightarrow> Inv (log_event (EvPrompt sid body) w2)"
    using RetryOnConflict_rule [where J = "reaches Inv w0" and Q = "\<lambda>r w'. \<forall>status. r = Inr status \<longrightarrow> (\<forall>body. Inv (log_event (EvPrompt sid body) w'))",
        OF _ r1 p] admit_attempt_reaches [OF assms(1)] by blast+
  have w3: "reaches Inv w0 (log_event (EvPrompt sid body) w2)" if "r = Inr status" for status body
    using w2 that by (intro a.reaches_step [OF w2(1)] extends_world) auto
  have "reaches Inv w0 (log_event (EvDeleteSession sid reply) w2)" for reply
    using reaches_log [OF w2(1)] by (simp add: quiet_event_def)
  then show ?thesis using assms(3) c p w3
    by (auto simp: startRun_def send_prompt_def Let_def split: sum.splits option.splits)
qed

lemma reconcilePending_reaches:
  assumes "relies R e" "reaches Inv w0 w" "reconcilePending e run w = (res, w')"
  shows "reaches Inv w0 w'"
proof -
  obtain err1 run1 w1 where s: "startRun e run w = (err1, run1, w1)" by (metis prod_cases3)
  have r1: "reaches Inv w0 w1" using startRun_reaches [OF assms(1,2) s] .
  obtain err2 run2 w2 where f: "failRun e run1 ''GatewayError'' (we_errorText e (the err1)) w1 = (err2, run2, w2)" by (metis prod_cases3)
  have "reaches Inv w0 w2" using failRun_reaches [OF assms(1) r1 f] .
  then show ?thesis using assms(3) s r1 f by (auto simp: reconcilePending_def split: option.splits)
qed

lemma prune_loop_reaches: "reaches Inv w0 w \<Longrightarrow> prune_loop e run cutoff runs w = (err, w') \<Longrightarrow> reaches Inv w0 w'"
proof (induction runs arbitrary: w)
  case (Cons r rs)
  have "reaches Inv w0 (log_event (EvDeleteRun (wf_name r)) w)" using reaches_log [OF Cons.prems(1)] by (simp add: quiet_event_def)
  then show ?case using Cons by (auto simp: Let_def split: if_splits)
qed simp

lemma pruneOrphanRuns_reaches: "reaches Inv w0 w \<Longrightarrow> pruneOrphanRuns e run w = (err, w') \<Longrightarrow> reaches Inv w0 w'"
  using prune_loop_reaches [OF a.reaches_tick] a.reaches_tick
  by (fastforce simp: pruneOrphanRuns_def split: if_splits option.splits)

lemma markPending_reaches:
  assumes "relies R e" "cached w = Some run" "run_phase run = PhaseUnknown" "Inv w" "markPending e run w = (err, run', w')"
  shows "reaches Inv w w'"
proof -
  have "reaches Unstarted w w" using unstarted [OF assms(4,2,3)] by (simp add: reaches_def)
  then have "reaches Unstarted w w'" using assms(5) unfolding markPending_def
    by (rule b.patchStatus_reaches [OF assms(1), rotated]) (auto simp: pending_write_def changes_nodes)
  then show ?thesis using started by (simp add: reaches_def)
qed

end

context run_invariant
begin

lemma reconcile_execution_reaches:
  assumes "relies R e" "cached w = Some run" "reaches Inv w0 w" "reconcile_execution e run w = (res, w')"
  shows "reaches Inv w0 w'"
proof -
  obtain err1 run1 w1 where s: "syncTerminalStatus e run w = (err1, run1, w1)" by (metis prod_cases3)
  have r1: "reaches Inv w0 w1" using syncTerminalStatus_reaches [OF assms(1,3) s] .
  obtain err2 w2 where p: "pruneOrphanRuns e run1 w1 = (err2, w2)" by fastforce
  have r2: "reaches Inv w0 w2" using pruneOrphanRuns_reaches [OF r1 p] .
  obtain err3 w3 where a: "addFinalizer e w = (err3, w3)" by fastforce
  have r3: "reaches Inv w0 w3" using addFinalizer_reaches [OF assms(1,3) a] .
  obtain err4 run4 w4 where m: "markPending e run w = (err4, run4, w4)" by (metis prod_cases3)
  have r4: "reaches Inv w0 w4" if "run_phase run = PhaseUnknown"
    using markPending_reaches [OF assms(1,2) that _ m] assms(3) by (auto simp: reaches_def intro: extends_trans)
  obtain err5 run5 w5 where f: "failRun e run ''TimedOut'' ''workflow run timed out'' w = (err5, run5, w5)" by (metis prod_cases3)
  have r5: "reaches Inv w0 w5" using failRun_reaches [OF assms(1,3) f] .
  show ?thesis
    using assms(3,4) s r1 p r2 a r3 m r4 f r5 reconcilePending_reaches [OF assms(1,3)] reconcileRunning_reaches [OF assms(1,3)]
    by (auto simp: reconcile_execution_def Let_def split: sum.splits option.splits if_splits)
qed

lemma settle_delivery_reaches:
  assumes "relies R e" "reaches Inv w0 w" "settle_delivery e run w = (r, w')"
  shows "reaches Inv w0 w'"
proof -
  obtain err1 run1 w1 where s: "syncTerminalStatus e run w = (err1, run1, w1)" by (metis prod_cases3)
  have r1: "reaches Inv w0 w1" using syncTerminalStatus_reaches [OF assms(1,2) s] .
  then show ?thesis using assms(2,3) s sessionIdle_reaches [OF r1]
    by (auto simp: settle_delivery_def split: if_splits option.splits prod.splits sum.splits)
qed

lemma deliver_reaches:
  assumes "relies R e" "reaches Inv w0 w" "deliver e run w = (r, w')"
  shows "reaches Inv w0 w' \<and> (\<forall>run'. r = Inr run' \<longrightarrow> cached w' = Some run')"
proof -
  let ?w1 = "log_event (EvDeliver (we_deliver e (ww_tick w))) w"
  have r1: "reaches Inv w0 ?w1" using reaches_log [OF assms(2)] by (simp add: quiet_event_def)
  have f: "reaches Inv w0 w2" if "failRun e run reason message ?w1 = (err, run2, w2)" for reason message err run2 w2
    using failRun_reaches [OF assms(1) r1 that] .
  have g: "reaches Inv w0 w2 \<and> (\<forall>run. r2 = Inr run \<longrightarrow> cached w2 = Some run)" if "get_run e ?w1 = (r2, w2)" for r2 w2
    using a.get_run_reaches [OF assms(1) r1 that] by blast
  show ?thesis using assms(2,3) r1
    by (auto simp: deliver_def Let_def dest: f g split: if_splits prod.splits sum.splits)
qed

lemma Reconcile_run_reaches:
  assumes "relies R e" "Inv w" "Reconcile_run e w = (res, w')"
  shows "reaches Inv w w'"
proof -
  obtain r1 w1 where g: "get_run e w = (r1, w1)" by fastforce
  have r0: "reaches Inv w w" using assms(2) by (simp add: reaches_def)
  have r1: "reaches Inv w w1" "\<And>run. r1 = Inr run \<Longrightarrow> observed run w1" "\<And>run. r1 = Inr run \<Longrightarrow> cached w1 = Some run" using a.get_run_reaches [OF assms(1) r0 g] by auto
  have x: "extends w w1" using r1 by (simp add: reaches_def)
  have s1: "reaches Inv w1 w1" using a.reaches_self [OF r1(1)] .
  have "reaches Inv w1 w'" if run: "r1 = Inr run" for run
  proof -
    have fin: "reaches Inv w1 w2" if "wf_deleting run" "finalizeRun e run w1 = (err, w2)" for err w2
      using finalizeRun_reaches [OF assms(1) r1(2) [OF run] that(1) s1 that(2)] .
    have fail: "reaches Inv w1 w2" if "failRun e run reason m w1 = (err, run2, w2)" for reason m err run2 w2
      using failRun_reaches [OF assms(1) s1 that] .
    have exec: "reaches Inv w1 w2" if "reconcile_execution e run w1 = (res, w2)" for w2
      using reconcile_execution_reaches [OF assms(1) r1(3) [OF run] s1 that] .
    have settle: "reaches Inv w1 w2" if "settle_delivery e run w1 = (r, w2)" for r w2
      using settle_delivery_reaches [OF assms(1) s1 that] .
    have deliv: "reaches Inv w1 w3" "\<And>run3. r = Inr run3 \<Longrightarrow> reconcile_execution e run3 w3 = (res, w4) \<Longrightarrow> reaches Inv w1 w4"
      if "reaches Inv w1 w2" "deliver e run2 w2 = (r, w3)" for run2 w2 r w3 w4
    proof -
      have d: "reaches Inv w1 w3" "\<And>run3. r = Inr run3 \<Longrightarrow> cached w3 = Some run3" using deliver_reaches [OF assms(1) that] by auto
      show "reaches Inv w1 w3" using d by simp
      show "reaches Inv w1 w4" if "r = Inr run3" "reconcile_execution e run3 w3 = (res, w4)" for run3
        using reconcile_execution_reaches [OF assms(1) d(2) [OF that(1)] a.reaches_self [OF d(1)] that(2)] d(1)
        by (auto simp: reaches_def intro: extends_trans)
    qed
    show ?thesis using assms(3) g run
      by (auto simp: Reconcile_run_def dest: fin fail exec settle deliv split: if_splits option.splits prod.splits sum.splits)
  qed
  then show ?thesis
    using assms(3) g r1(1) a.reaches_widen [OF x] by (cases r1) (auto simp: Reconcile_run_def split: if_splits)
qed

end

text \<open>The world after \<open>n\<close> calls of the reconciler.\<close>

fun reconciles :: "run_env \<Rightarrow> nat \<Rightarrow> run_world \<Rightarrow> run_world" where
  "reconciles e 0 w = w"
| "reconciles e (Suc n) w = snd (Reconcile_run e (reconciles e n w))"

context run_invariant
begin

lemma reconciles_keep: "relies R e \<Longrightarrow> Inv w \<Longrightarrow> Inv (reconciles e n w)"
proof (induction n)
  case (Suc n)
  then show ?case using Reconcile_run_reaches [of e "reconciles e n w"] by (auto simp: reaches_def prod_eq_iff)
qed simp

end

subsection \<open>Histories are kept\<close>

lemma history_seen: "history w \<Longrightarrow> n < length (ww_versions w) \<Longrightarrow> history (w\<lparr>ww_seen := n\<rparr>)"
  by (simp add: history_def)

lemma history_other: "history w \<Longrightarrow> other_writer (stored w) v \<Longrightarrow> history (push v w)"
  by (simp add: history_push other_writer_evolves)

lemma history_write: "history w \<Longrightarrow> stored w = Some base \<Longrightarrow> run_write w base new \<Longrightarrow> history (push (saved new) w)"
  by (simp add: history_push run_write_evolves)

lemma history_pending: "history w \<Longrightarrow> stored w = Some base \<Longrightarrow> pending_write w base new \<Longrightarrow> history (push (saved new) w)"
  by (simp add: history_push pending_write_evolves)

lemma pending_write_extends: "pending_write w base new \<Longrightarrow> pending_write w' base new"
  by (simp add: pending_write_def)

lemma history_prompt:
  "history w \<Longrightarrow> stored w = Some base \<Longrightarrow> \<not> wf_deleting base \<Longrightarrow> run_phase base = PhasePending \<Longrightarrow> wr_phase s = PhaseRunning \<Longrightarrow>
     history (push (Some (base\<lparr>wf_status := s\<rparr>)) w)"
  by (rule history_push) (simp_all add: evolves_def)

lemmas history_rules = history_seen history_other history_write history_pending history_prompt

interpretation hist: run_invariant history history no_more
  by unfold_locales (auto intro: history_rules run_write_extends pending_write_extends)

subsection \<open>At most one prompt\<close>

definition is_prompt :: "run_event \<Rightarrow> bool" where
  "is_prompt ev \<longleftrightarrow> (case ev of EvPrompt _ _ \<Rightarrow> True | _ \<Rightarrow> False)"

definition prompts :: "run_world \<Rightarrow> run_event list" where
  "prompts w = filter is_prompt (ww_trace w)"

definition phase_in :: "string set \<Rightarrow> WorkflowRun option \<Rightarrow> bool" where
  "phase_in P v \<longleftrightarrow> (case v of None \<Rightarrow> False | Some r \<Rightarrow> run_phase r \<in> P)"

definition admitted_session :: "string \<Rightarrow> run_world \<Rightarrow> bool" where
  "admitted_session sid w \<longleftrightarrow> (\<exists>r. Some r \<in> set (ww_versions w) \<and> run_phase r = PhaseRunning \<and> run_session r = sid)"

definition prompted_once :: "run_world \<Rightarrow> bool" where
  "prompted_once w \<longleftrightarrow> history w \<and>
     (prompts w = [] \<or>
      (\<exists>sid body. prompts w = [EvPrompt sid body] \<and> admitted_session sid w) \<and>
      \<not> phase_in {PhaseUnknown, PhasePending} (stored w) \<and> \<not> phase_in {PhaseUnknown} (cached w))"

definition unprompted :: "run_world \<Rightarrow> bool" where
  "unprompted w \<longleftrightarrow> history w \<and> prompts w = []"

lemma prompts_world [simp]:
  "prompts (tick w) = prompts w" "prompts (push v w) = prompts w" "prompts (w\<lparr>ww_seen := n\<rparr>) = prompts w"
  "prompts (log_event (EvPrompt sid body) w) = prompts w @ [EvPrompt sid body]"
  "quiet_event ev \<Longrightarrow> prompts (log_event ev w) = prompts w"
  by (auto simp: prompts_def is_prompt_def quiet_event_def split: run_event.splits)

lemma admitted_world [simp]:
  "admitted_session sid (tick w) = admitted_session sid w" "admitted_session sid (log_event ev w) = admitted_session sid w"
  "admitted_session sid (w\<lparr>ww_seen := n\<rparr>) = admitted_session sid w"
  by (simp_all add: admitted_session_def)

lemma admitted_push: "admitted_session sid w \<Longrightarrow> admitted_session sid (push v w)"
  by (auto simp: admitted_session_def push_def)

lemma not_unknown_evolves: "evolves v v' \<Longrightarrow> \<not> phase_in {PhaseUnknown} v \<Longrightarrow> \<not> phase_in {PhaseUnknown} v'"
  by (auto simp: evolves_def phase_in_def split: option.splits)

lemma begun_other:
  "other_writer v v' \<Longrightarrow> \<not> phase_in {PhaseUnknown, PhasePending} v \<Longrightarrow> \<not> phase_in {PhaseUnknown, PhasePending} v'"
  by (auto simp: other_writer_def other_status_def phase_in_def dest: Terminal_not split: option.splits)

lemma begun_write:
  "run_write w base new \<Longrightarrow> \<not> phase_in {PhaseUnknown, PhasePending} (Some base) \<Longrightarrow>
     \<not> phase_in {PhaseUnknown, PhasePending} (saved new)"
  by (induction rule: run_write.induct) (auto simp: phase_in_def saved_def settles_def keeps_completed_def dest: Terminal_not)

lemma prompted_push:
  assumes "prompted_once w" "history (push v w)"
    and "\<not> phase_in {PhaseUnknown, PhasePending} (stored w) \<Longrightarrow> \<not> phase_in {PhaseUnknown, PhasePending} v"
  shows "prompted_once (push v w)"
  using assms by (auto simp: prompted_once_def history_def intro: admitted_push)

lemma prompted_seen:
  assumes "prompted_once w" "ww_seen w \<le> n" "n < length (ww_versions w)"
  shows "prompted_once (w\<lparr>ww_seen := n\<rparr>)"
proof -
  have h: "history w" using assms(1) by (simp add: prompted_once_def)
  have "evolves (cached w) (cached (w\<lparr>ww_seen := n\<rparr>))"
    using history_evolves [OF h assms(2,3)] by (simp add: cached_def)
  then show ?thesis using assms h not_unknown_evolves by (auto simp: prompted_once_def history_seen)
qed

lemma prompted_prompt:
  assumes "prompted_once w" "stored w = Some base" "cached w = Some base" "\<not> wf_deleting base" "run_phase base = PhasePending"
    and "wr_phase s = PhaseRunning" "wr_sessionID s = sid"
  shows "prompted_once (log_event (EvPrompt sid body) (push (Some (base\<lparr>wf_status := s\<rparr>)) w))"
proof -
  let ?v = "Some (base\<lparr>wf_status := s\<rparr>)"
  have h: "history w" "history (push ?v w)" using assms by (simp_all add: prompted_once_def history_prompt)
  have "?v \<noteq> stored w" using assms by (auto dest: arg_cong [of _ _ "run_phase"])
  then have "admitted_session sid (push ?v w)" using assms by (auto simp: admitted_session_def push_def)
  moreover have "prompts w = []" using assms by (auto simp: prompted_once_def phase_in_def)
  ultimately show ?thesis using h assms by (auto simp: prompted_once_def phase_in_def history_def)
qed

interpretation once: run_invariant prompted_once unprompted no_more
proof unfold_locales
  show "prompted_once (push v w)" if "prompted_once w" "other_writer (stored w) v" for w v
    by (rule prompted_push [OF that(1)]) (use that in \<open>auto simp: prompted_once_def history_other dest: begun_other\<close>)
  show "prompted_once (push (saved new) w)" if "prompted_once w" "stored w = Some base" "run_write w base new" for w base new
    by (rule prompted_push [OF that(1)]) (use that in \<open>auto simp: prompted_once_def history_write dest: begun_write\<close>)
  show "unprompted w" if "prompted_once w" "cached w = Some run" "run_phase run = PhaseUnknown" for w run
    using that by (auto simp: prompted_once_def unprompted_def phase_in_def)
  show "prompted_once (log_event ev w)" if "prompted_once w" "quiet_event ev" for w ev
    using that by (simp add: prompted_once_def)
  show "prompted_once (w\<lparr>ww_seen := n\<rparr>)" if "prompted_once w" "ww_seen w \<le> n" "n < length (ww_versions w)" for w n
    using that by (rule prompted_seen)
  show "prompted_once (log_event (EvPrompt sid body) (push (Some (base\<lparr>wf_status := s\<rparr>)) w))"
    if "prompted_once w" "stored w = Some base" "cached w = Some base" "\<not> wf_deleting base" "run_phase base = PhasePending"
      "wr_phase s = PhaseRunning" "wr_sessionID s = sid" for w base s sid body
    using that by (rule prompted_prompt)
qed (auto simp: prompted_once_def unprompted_def intro: history_rules run_write_extends pending_write_extends)

text \<open>C5. However stale the controller's reads are, whatever conflicts, lost answers and gateway replies it
  meets and however often it reconciles, it sends at most one prompt for a run, and only to the
  session that was recorded in the run's status before.
\<close>

theorem prompted_at_most_once:
  fixes n :: nat
  assumes "well_behaved e" "ww_versions w = [Some run]" "ww_seen w = 0" "ww_trace w = []"
  defines "w' \<equiv> reconciles e n w"
  shows "prompts w' = [] \<or> (\<exists>sid body. prompts w' = [EvPrompt sid body] \<and> admitted_session sid w')"
proof -
  have "prompted_once w" using assms by (simp add: prompted_once_def history_def prompts_def)
  then have "prompted_once w'" using once.reconciles_keep [OF relies_no_more [OF assms(1)]] assms(5) by simp
  then show ?thesis by (auto simp: prompted_once_def)
qed

subsection \<open>A completed run stays as it is\<close>

definition completed_as :: "string \<Rightarrow> int \<Rightarrow> WorkflowRun option \<Rightarrow> bool" where
  "completed_as p c v \<longleftrightarrow> (case v of None \<Rightarrow> True | Some r \<Rightarrow> run_phase r = p \<and> wr_completedAt (wf_status r) = Some c)"

definition final :: "string \<Rightarrow> int \<Rightarrow> run_world \<Rightarrow> bool" where
  "final p c w \<longleftrightarrow> history w \<and> Terminal p \<and> \<not> phase_in {PhaseUnknown} (cached w) \<and> completed_as p c (stored w)"

lemma completed_other: "other_writer v v' \<Longrightarrow> Terminal p \<Longrightarrow> completed_as p c v \<Longrightarrow> completed_as p c v'"
  by (auto simp: other_writer_def other_status_def completed_as_def dest: Terminal_not split: option.splits)

lemma completed_write: "run_write w base new \<Longrightarrow> Terminal p \<Longrightarrow> completed_as p c (Some base) \<Longrightarrow> completed_as p c (saved new)"
  by (induction rule: run_write.induct) (auto simp: completed_as_def saved_def settles_def keeps_completed_def dest: Terminal_not)

lemma final_seen:
  assumes "final p c w" "ww_seen w \<le> n" "n < length (ww_versions w)"
  shows "final p c (w\<lparr>ww_seen := n\<rparr>)"
proof -
  have h: "history w" using assms(1) by (simp add: final_def)
  have "evolves (cached w) (cached (w\<lparr>ww_seen := n\<rparr>))"
    using history_evolves [OF h assms(2,3)] by (simp add: cached_def)
  then show ?thesis using assms h not_unknown_evolves by (auto simp: final_def history_seen)
qed

interpretation fin: run_invariant "final p c" "\<lambda>_. False" no_more for p c
proof unfold_locales
  show "final p c (push v w)" if "final p c w" "other_writer (stored w) v" for w v
    using that history_other [of w v] by (auto simp: final_def history_def completed_other)
  show "final p c (push (saved new) w)" if "final p c w" "stored w = Some base" "run_write w base new" for w base new
    using that history_write [of w base new] by (auto simp: final_def history_def completed_write)
  show "final p c (log_event (EvPrompt sid body) (push (Some (base\<lparr>wf_status := s\<rparr>)) w))"
    if "final p c w" "stored w = Some base" "run_phase base = PhasePending" for w base s sid body
    using that by (auto simp: final_def completed_as_def)
  show "final p c (w\<lparr>ww_seen := n\<rparr>)" if "final p c w" "ww_seen w \<le> n" "n < length (ww_versions w)" for w n
    using that by (rule final_seen)
qed (auto simp: final_def phase_in_def intro: run_write_extends pending_write_extends)

text \<open>C29. A run that is completed keeps its phase and its time of completion under every sequence of calls,
  unless it is deleted, whatever version of it the controller still sees: a read that shows it pending or
  running, a session that is found idle later, an expired deadline or an error of the gateway does not
  change the outcome that was recorded. The one version that must not be seen is one from before the run had a
  phase, since the write that gives it one is not guarded.\<close>

theorem completed_run_is_final:
  assumes "well_behaved e" "history w" "stored w = Some run" "Terminal (run_phase run)" "wr_completedAt (wf_status run) = Some c"
    and "cached w = Some seen" "run_phase seen \<noteq> PhaseUnknown" "stored (reconciles e n w) = Some run'"
  shows "run_phase run' = run_phase run \<and> wr_completedAt (wf_status run') = Some c"
proof -
  have "final (run_phase run) c w" using assms(2-7) by (simp add: final_def phase_in_def completed_as_def)
  then have "final (run_phase run) c (reconciles e n w)" using fin.reconciles_keep [OF relies_no_more [OF assms(1)]] by blast
  then show ?thesis using assms(8) by (simp add: final_def completed_as_def)
qed

subsection \<open>The finalizer outlives the session\<close>

definition released_closed :: "run_world \<Rightarrow> bool" where
  "released_closed w \<longleftrightarrow> history w \<and>
     (\<forall>i. Suc i < length (ww_versions w) \<longrightarrow> has_finalizer (ww_versions w ! i) \<longrightarrow> \<not> has_finalizer (ww_versions w ! Suc i) \<longrightarrow>
        session_closed (the (ww_versions w ! i)) (ww_trace w))"

lemma released_extends:
  assumes "released_closed w" "extends w w'" "ww_versions w' = ww_versions w" "history w'"
  shows "released_closed w'"
  using assms by (auto simp: released_closed_def intro: session_closed_extends)

lemma released_push:
  assumes "released_closed w" "history (push v w)"
    and "has_finalizer (stored w) \<Longrightarrow> \<not> has_finalizer v \<Longrightarrow> session_closed (the (stored w)) (ww_trace w)"
  shows "released_closed (push v w)"
proof -
  have n: "ww_versions w \<noteq> []" using assms(1) by (auto simp: released_closed_def history_def)
  have "session_closed (the (ww_versions (push v w) ! i)) (ww_trace w)"
    if i: "Suc i < length (ww_versions (push v w))" "has_finalizer (ww_versions (push v w) ! i)"
      "\<not> has_finalizer (ww_versions (push v w) ! Suc i)" for i
  proof (cases "Suc i < length (ww_versions w)")
    case True
    then show ?thesis using assms(1) i by (simp add: released_closed_def push_def nth_append split: if_splits)
  next
    case False
    then have l: "v \<noteq> stored w" "length (ww_versions w) = Suc i" using i(1) by (auto simp: push_def split: if_splits)
    moreover have "ww_versions w ! i = stored w" using n l(2) by (simp add: stored_def last_conv_nth)
    ultimately show ?thesis using assms(3) i by (simp add: push_def nth_append)
  qed
  then show ?thesis using assms(2) by (simp add: released_closed_def)
qed

lemma released_write:
  assumes "released_closed w" "stored w = Some base" "run_write w base new"
  shows "released_closed (push (saved new) w)"
proof (rule released_push [OF assms(1)])
  have h: "history w" using assms(1) by (simp add: released_closed_def)
  then show "history (push (saved new) w)" using assms(2,3) by (rule history_write)
  assume f: "has_finalizer (stored w)" "\<not> has_finalizer (saved new)"
  from assms(3) show "session_closed (the (stored w)) (ww_trace w)"
  proof cases
    case (release run)
    have "evolves (Some run) (Some base)" using observed_stored [OF h release(2)] assms(2) by simp
    then show ?thesis using release assms(2) by (auto simp: evolves_def session_closed_def)
  qed (use f assms(2) in \<open>auto simp: has_finalizer_def saved_def split: if_splits\<close>)
qed

lemma released_pending:
  assumes "released_closed w" "stored w = Some base" "pending_write w base new"
  shows "released_closed (push (saved new) w)"
proof (rule released_push [OF assms(1)])
  show "history (push (saved new) w)" using assms history_pending by (auto simp: released_closed_def)
qed (use assms in \<open>auto simp: pending_write_def has_finalizer_def saved_def split: if_splits\<close>)

interpretation rel: run_invariant released_closed released_closed no_more
proof unfold_locales
  fix w :: run_world assume r: "released_closed w"
  then show "history w" by (simp add: released_closed_def)
  then show "released_closed (tick w)" "\<And>ev. released_closed (log_event ev w)"
    by (auto intro!: released_extends [OF r] extends_world)
  show "released_closed (w\<lparr>ww_seen := n\<rparr>)" if "ww_seen w \<le> n" "n < length (ww_versions w)" for n
    using \<open>history w\<close> that by (auto intro!: released_extends [OF r] extends_world history_seen)
  show "released_closed (push v w)" if "other_writer (stored w) v" for v
    using that by (auto intro!: released_push [OF r] history_other [OF \<open>history w\<close>] simp: other_writer_def has_finalizer_def
        split: option.splits)
  show "released_closed (log_event (EvPrompt sid body) (push (Some (base\<lparr>wf_status := s\<rparr>)) w))"
    if "stored w = Some base" "\<not> wf_deleting base" "run_phase base = PhasePending" "wr_phase s = PhaseRunning"
      "nodes_ok (wf_status base) \<longrightarrow> nodes_ok s" for base s sid body
  proof -
    have "released_closed (push (Some (base\<lparr>wf_status := s\<rparr>)) w)"
      using released_write [OF r that(1) run_write.admit [OF that(2-5)]] that(2) by (simp add: saved_def)
    then show ?thesis by (intro released_extends [OF _ extends_world(2)]) (auto simp: released_closed_def)
  qed
qed (auto intro: released_write released_pending run_write_extends pending_write_extends)

text \<open>C30. When the finalizer of a run disappears from one version of the object to the next, its session is
  gone: the gateway confirmed the abort, by not knowing the session or by reporting it idle after
  the abort, and unless a conversation owns the session, it was deleted.
\<close>

theorem finalizer_outlives_session:
  fixes n :: nat
  assumes "well_behaved e" "ww_versions w = [Some run]" "ww_seen w = 0"
  defines "vs \<equiv> ww_versions (reconciles e n w)"
  assumes "Suc i < length vs" "vs ! i = Some r" "has_finalizer (Some r)" "\<not> has_finalizer (vs ! Suc i)"
  shows "session_closed r (ww_trace (reconciles e n w))"
proof -
  have "released_closed w" using assms(2,3) by (simp add: released_closed_def history_def)
  then have "released_closed (reconciles e n w)" by (rule rel.reconciles_keep [OF relies_no_more [OF assms(1)]])
  then show ?thesis using assms(4-8) by (auto simp: released_closed_def)
qed

end
