(* ===== verification/RunLive.thy ===== *)
theory RunLive
  imports RunSafety
begin

section \<open>What the workflow run controller achieves\<close>

text \<open>
  Progress of the controller of \<open>WorkflowRun\<close> while the API server answers: a new run is started, an
  expired run is failed whatever the gateway does, and pruning deletes only what has expired. The
  last part shows what a stale read can still cost.
\<close>

subsection \<open>A responsive API server\<close>

definition responsive :: "run_env \<Rightarrow> bool" where
  "responsive e \<longleftrightarrow> (\<forall>t. we_getFails e t = None \<and> we_write e t = WriteOk \<and> 0 < we_sync e t \<and> (\<forall>v. we_interfere e t v = v))"

text \<open>The cache lags behind by at most the last write.\<close>

definition near :: "run_world \<Rightarrow> bool" where
  "near w \<longleftrightarrow> history w \<and> length (ww_versions w) \<le> Suc (Suc (ww_seen w))"

definition caught_up :: "run_world \<Rightarrow> run_world" where
  "caught_up w = w\<lparr>ww_seen := length (ww_versions w) - 1, ww_tick := Suc (ww_tick w)\<rparr>"

lemma caught_up_fields [simp]:
  "ww_versions (caught_up w) = ww_versions w" "ww_trace (caught_up w) = ww_trace w" "stored (caught_up w) = stored w"
  "ww_tick (caught_up w) = Suc (ww_tick w)"
  by (simp_all add: caught_up_def stored_def)

lemma responsive_well_behaved: "responsive e \<Longrightarrow> well_behaved e"
  by (auto simp: responsive_def well_behaved_def other_writer_def other_status_def split: option.splits)

lemma near_caught_up: "near w \<Longrightarrow> up_to_date (caught_up w) \<and> near (caught_up w)"
  by (auto simp: near_def history_def up_to_date_def caught_up_def)

lemma near_last: "near w \<Longrightarrow> ww_versions w \<noteq> [] \<and> ww_versions w ! (length (ww_versions w) - 1) = stored w"
  by (cases "ww_versions w = []") (auto simp: near_def history_def stored_def last_conv_nth)

lemma near_world: "near w \<Longrightarrow> near (tick w)" "near w \<Longrightarrow> near (log_event ev w)"
  by (auto simp: near_def)

lemma near_push: "up_to_date w \<Longrightarrow> history w \<Longrightarrow> evolves (stored w) v \<Longrightarrow> near (push v w)"
  by (simp add: near_def up_to_date_def history_push) (simp add: push_def)

lemma get_live:
  assumes "responsive e" "near w" "stored w = Some r"
  shows "get_run e w = (Ok r, caught_up w)"
proof -
  have w: "interfere e w = w" using assms(1) by (simp add: responsive_def interfere_def push_def)
  have "length (ww_versions w) - 1 \<le> ww_seen w + we_sync e (ww_tick w)"
    using assms(2) spec [OF assms(1) [unfolded responsive_def], of "ww_tick w"] by (simp add: near_def) linarith
  then have "refresh e w = caught_up w" using w by (simp add: refresh_def caught_up_def min_absorb1)
  moreover have "cached (caught_up w) = Some r" using near_last [OF assms(2)] assms(3) by (simp add: cached_def caught_up_def)
  ultimately show ?thesis using assms(1) by (simp add: get_run_def responsive_def)
qed

lemma write_live:
  assumes "responsive e" "up_to_date w" "stored w \<noteq> None"
  shows "write_run e new w = (WriteOk, push (saved new) (tick w))"
  using assms by (simp add: write_run_def responsive_def interfere_def push_def up_to_date_def Let_def)

lemma retry_live: "f w = (Inr x, w') \<Longrightarrow> RetryOnConflict n f w = (Inr x, w')"
  by (cases n) simp_all

definition patched :: "WorkflowRun \<Rightarrow> WorkflowRunStatus \<Rightarrow> run_world \<Rightarrow> run_world" where
  "patched r s w = push (saved (r\<lparr>wf_status := s\<rparr>)) (tick (caught_up w))"

lemma patch_live:
  assumes "responsive e" "near w" "stored w = Some r"
  shows "patchStatus e run mutate w =
    (let s = mutate (Now e (caught_up w)) (wf_status r) in (None, run\<lparr>wf_status := s\<rparr>, patched r s w))"
proof -
  have "up_to_date (caught_up w)" using near_caught_up [OF assms(2)] by simp
  then have "patch_attempt e mutate w = (Ok (mutate (Now e (caught_up w)) (wf_status r)), patched r (mutate (Now e (caught_up w)) (wf_status r)) w)"
    using get_live [OF assms] write_live [OF assms(1)] assms(3)
    by (simp add: patch_attempt_def Let_def patched_def write_error_def)
  then show ?thesis by (simp add: patchStatus_def Let_def retry_live)
qed

definition present :: "run_world \<Rightarrow> bool" where
  "present w \<longleftrightarrow> near w \<and> (\<exists>r. stored w = Some r \<and> \<not> wf_deleting r)"

lemma near_patched:
  assumes "near w" "stored w = Some r" "run_write w r (r\<lparr>wf_status := s\<rparr>) \<or> pending_write w r (r\<lparr>wf_status := s\<rparr>)"
  shows "near (patched r s w)"
  using near_caught_up [OF assms(1)] assms(2,3) unfolding patched_def
  by (intro near_push) (auto simp: near_def up_to_date_def run_write_evolves pending_write_evolves)

lemma settle_present:
  assumes "responsive e" "present w" "patchStatus e run mutate w = (err, run', w')" "\<And>now s. settles s (mutate now s)"
  shows "present w'"
proof -
  obtain r where r: "near w" "stored w = Some r" "\<not> wf_deleting r" using assms(2) by (auto simp: present_def)
  let ?s = "mutate (Now e (caught_up w)) (wf_status r)"
  have "w' = patched r ?s w" using assms(3) patch_live [OF assms(1) r(1,2), of run mutate] by (simp add: Let_def)
  moreover have "near (patched r ?s w)" using near_patched [OF r(1,2)] assms(4) by (simp add: run_write.settle)
  ultimately show ?thesis using r by (simp add: present_def patched_def saved_def)
qed

lemma present_log: "present w \<Longrightarrow> present (log_event ev w)"
  by (auto simp: present_def near_world)

lemma sessionIdle_present: "present w \<Longrightarrow> sessionIdle e run w = (r, w') \<Longrightarrow> present w'"
  by (auto simp: sessionIdle_def Let_def intro: present_log split: if_splits status_reply.splits)

lemma abortRun_present: "present w \<Longrightarrow> abortRun e run w = (r, w') \<Longrightarrow> present w'"
  by (auto simp: abortRun_def Let_def intro: present_log sessionIdle_present [OF present_log]
      split: if_splits option.splits prod.splits sum.splits)

lemma sync_present:
  assumes "responsive e" "present w" "syncTerminalStatus e run w = (err, run', w')"
  shows "present w'"
proof -
  obtain err1 run1 w1 where p: "patchStatus e run (sync_status e (wf_generation run)) w = (err1, run1, w1)"
    by (metis prod_cases3)
  have p1: "present w1" using settle_present [OF assms(1,2) p] settles_changes(3) by blast
  obtain err2 w2 where a: "abortRun e run1 w1 = (err2, w2)" by fastforce
  have p2: "present w2" using abortRun_present [OF p1 a] .
  obtain err3 run3 w3 where q:
    "patchStatus e run1 (\<lambda>_. set_condition e (aborted_condition e (wf_generation run1) err2)) w2 = (err3, run3, w3)"
    by (metis prod_cases3)
  have "present w3" using settle_present [OF assms(1) p2 q] settles_changes(1) by blast
  then show ?thesis using assms(3) p1 p a q by (auto simp: syncTerminalStatus_def split: option.splits if_splits)
qed

subsection \<open>Deadlines\<close>

definition serving_workspace :: "run_env \<Rightarrow> WorkflowRun \<Rightarrow> bool" where
  "serving_workspace e run \<longleftrightarrow>
     (\<exists>workspace. getWorkspace (we_scope e) (wf_namespace run) = Ok workspace \<and> ws_type workspace \<noteq> WorkspaceTypeCoding)"

text \<open>A run the controller works on: not being deleted, its finalizer in place.\<close>

definition active_run :: "WorkflowRun \<Rightarrow> bool" where
  "active_run run \<longleftrightarrow> \<not> wf_deleting run \<and> has_finalizer (Some run)"

text \<open>A run that is pending or running and not completed is failed, and stays so, by \<open>failRun\<close>.\<close>

lemma fail_live:
  assumes "responsive e" "near w" "stored w = Some run" "\<not> wf_deleting run"
    and "run_phase run = PhasePending \<or> run_phase run = PhaseRunning" "wr_completedAt (wf_status run) = None"
    and "failRun e run reason message w = (err, run', w')"
  shows "\<exists>r c. stored w' = Some r \<and> run_phase r = PhaseFailed \<and> wr_completedAt (wf_status r) = Some c"
proof -
  let ?c = "Now e w"
  let ?s = "fail_status e (wf_generation run) reason message ?c (wf_status run)"
  let ?w2 = "patched run ?s w"
  have s: "wr_phase ?s = PhaseFailed" "wr_completedAt ?s = Some ?c" using assms(5,6) by (auto simp: fail_status_def Let_def)
  have st: "stored ?w2 = Some (run\<lparr>wf_status := ?s\<rparr>)" using assms(4) by (simp add: patched_def saved_def)
  obtain err3 run3 w3 where y: "syncTerminalStatus e (run\<lparr>wf_status := ?s\<rparr>) ?w2 = (err3, run3, w3)" by (metis prod_cases3)
  have w': "w' = w3"
    using patch_live [OF assms(1-3), of run "\<lambda>_. fail_status e (wf_generation run) reason message ?c"] assms(7) y
    by (simp add: failRun_def Let_def)
  have h2: "history ?w2" using near_patched [OF assms(2,3), of ?s] settles_changes(2) by (simp add: near_def run_write.settle)
  have "ww_versions w ! (length (ww_versions w) - 1) = Some run" "ww_versions w \<noteq> []"
    using near_last [OF assms(2)] assms(3) by simp_all
  then have "cached ?w2 = Some run" by (simp add: patched_def cached_def caught_up_def push_def nth_append)
  then have "reaches (final PhaseFailed ?c) ?w2 ?w2"
    using h2 st s assms(5) by (auto simp: final_def completed_as_def phase_in_def reaches_def)
  from fin.syncTerminalStatus_reaches [OF relies_no_more [OF responsive_well_behaved [OF assms(1)]] this y]
  have "final PhaseFailed ?c w3" by (simp add: reaches_def)
  moreover have "present w3" using sync_present [OF assms(1) _ y] near_patched [OF assms(2,3), of ?s] st assms(4) settles_changes(2)
    by (auto simp: present_def run_write.settle)
  ultimately show ?thesis using w' by (auto simp: final_def completed_as_def present_def)
qed

lemma execution_expires:
  assumes "responsive e" "near w" "stored w = Some run" "active_run run" "serving_workspace e run"
    and "run_phase run = PhasePending \<or> run_phase run = PhaseRunning" "wr_completedAt (wf_status run) = None" "timed_out e run w"
  shows "\<exists>r c. stored (snd (reconcile_execution e run w)) = Some r \<and> run_phase r = PhaseFailed \<and> wr_completedAt (wf_status r) = Some c"
proof -
  obtain err run' w' where f: "failRun e run ''TimedOut'' ''workflow run timed out'' w = (err, run', w')" by (metis prod_cases3)
  have "snd (reconcile_execution e run w) = w'"
    using assms(4-8) f Terminal_not
    by (auto simp: reconcile_execution_def serving_workspace_def active_run_def has_finalizer_def Let_def)
  then show ?thesis using fail_live [OF assms(1-3) _ assms(6,7) f] assms(4) by (simp add: active_run_def)
qed

lemma timed_out_later: "mono (we_now e) \<Longrightarrow> ww_tick w \<le> ww_tick w' \<Longrightarrow> timed_out e run w \<Longrightarrow> timed_out e run w'"
  using monoD [of "we_now e" "ww_tick w" "ww_tick w'"] by (auto simp: timed_out_def since_def split: option.splits)

text \<open>The branch of a run that is bound to a conversation: the delivery of its session is refused, fails, or succeeds.\<close>

lemma delivery_expires:
  assumes "responsive e" "mono (we_now e)" "we_client e" "near w" "stored w = Some run" "active_run run" "serving_workspace e run"
    and "run_phase run = PhasePending \<or> run_phase run = PhaseRunning" "wr_completedAt (wf_status run) = None" "timed_out e run w"
    and "deliver e run w = (res, w')" "w2 = (case res of Inl _ \<Rightarrow> w' | Inr run3 \<Rightarrow> snd (reconcile_execution e run3 w'))"
  shows "\<exists>r c. stored w2 = Some r \<and> run_phase r = PhaseFailed \<and> wr_completedAt (wf_status r) = Some c"
proof -
  let ?reply = "we_deliver e (ww_tick w)"
  let ?w1 = "log_event (EvDeliver ?reply) w"
  have n: "near ?w1" "stored ?w1 = Some run" using assms(4,5) by (simp_all add: near_world)
  have t: "timed_out e run ?w1" "timed_out e run (caught_up ?w1)"
    using timed_out_later [OF assms(2) _ assms(10)] by simp_all
  have nt: "\<not> Terminal (run_phase run)" using assms(8) by auto
  have dead: "\<exists>r c. stored w4 = Some r \<and> run_phase r = PhaseFailed \<and> wr_completedAt (wf_status r) = Some c"
    if "failRun e run reason message ?w1 = (err, run4, w4)" for reason message err run4 w4
    using fail_live [OF assms(1) n _ assms(8,9) that] assms(6) by (simp add: active_run_def)
  consider (given) "?reply = Some 204" | (gone) "?reply = Some 404 \<or> ?reply = Some 403"
    | (error) "?reply \<noteq> Some 204" "\<not> (?reply = Some 404 \<or> ?reply = Some 403)"
    by blast
  then show ?thesis
  proof cases
    case given
    then have "(res, w') = (Inr run, caught_up ?w1)"
      using assms(3,11) nt get_live [OF assms(1) n] by (simp add: deliver_def Let_def)
    then have "w2 = snd (reconcile_execution e run (caught_up ?w1))" using assms(12) by simp
    moreover have "near (caught_up ?w1)" "stored (caught_up ?w1) = Some run" using near_caught_up [OF n(1)] n(2) by simp_all
    ultimately show ?thesis using execution_expires [OF assms(1) _ _ assms(6-9) t(2)] by simp
  next
    case gone
    obtain err run4 w4 where f: "failRun e run ''GatewayError'' ''Conversation destination is no longer available'' ?w1 = (err, run4, w4)"
      by (metis prod_cases3)
    have "w2 = w4" using gone f assms(3,11,12) nt by (auto simp: deliver_def Let_def)
    then show ?thesis using dead [OF f] by simp
  next
    case error
    obtain err run4 w4 where f: "failRun e run ''TimedOut'' ''workflow run timed out'' ?w1 = (err, run4, w4)" by (metis prod_cases3)
    have "w2 = w4" using error f assms(3,11,12) nt t(1) by (auto simp: deliver_def Let_def split: option.splits if_splits)
    then show ?thesis using dead [OF f] by simp
  qed
qed

text \<open>C6. An expired run is failed by the next call of the reconciler, whatever the gateway answers or whether it
  answers at all, as long as the API server does. The run is pending or running, it is retained by its
  finalizer and not being deleted, and its Workspace is one that executes workflows. This holds for a run
  that is bound to a conversation as well, whether its delivery succeeds, is refused or fails, and for one
  whose trigger failed; only the gateway's client must be configured for the former, and time must not go backwards
  during the call.\<close>

theorem deadline_enforced:
  assumes "responsive e" "mono (we_now e)" "near w" "stored w = Some run" "active_run run" "serving_workspace e run"
    and "run_phase run = PhasePending \<or> run_phase run = PhaseRunning" "wr_completedAt (wf_status run) = None"
    and "timed_out e run (caught_up w)" "wp_delivery (wf_spec run) = None \<or> we_client e"
  shows "\<exists>run' c. stored (snd (Reconcile_run e w)) = Some run' \<and> run_phase run' = PhaseFailed \<and> wr_completedAt (wf_status run') = Some c"
proof -
  let ?w1 = "caught_up w"
  have n: "near ?w1" "stored ?w1 = Some run" using near_caught_up [OF assms(3)] assms(4) by simp_all
  have live: "\<not> wf_deleting run" "\<not> Terminal (run_phase run)" using assms(5,7) by (auto simp: active_run_def)
  note start = get_live [OF assms(1,3,4)]
  consider (trigger) "wf_triggerFailure run \<noteq> []" | (plain) "wf_triggerFailure run = []" "wp_delivery (wf_spec run) = None"
    | (bound) "wf_triggerFailure run = []" "wp_delivery (wf_spec run) \<noteq> None" "we_client e"
    using assms(10) by (cases "wf_triggerFailure run = []"; cases "wp_delivery (wf_spec run) = None") blast+
  then show ?thesis
  proof cases
    case trigger
    obtain err run4 w4 where f: "failRun e run ''GatewayError'' (wf_triggerFailure run) ?w1 = (err, run4, w4)" by (metis prod_cases3)
    have "snd (Reconcile_run e w) = w4" using start trigger live f by (simp add: Reconcile_run_def)
    then show ?thesis using fail_live [OF assms(1) n live(1) assms(7,8) f] by simp
  next
    case plain
    then have "Reconcile_run e w = reconcile_execution e run ?w1" using start live by (simp add: Reconcile_run_def)
    then show ?thesis using execution_expires [OF assms(1) n assms(5-9)] by simp
  next
    case bound
    obtain res w' where d: "deliver e run ?w1 = (res, w')" by fastforce
    have "snd (Reconcile_run e w) = (case res of Inl _ \<Rightarrow> w' | Inr run3 \<Rightarrow> snd (reconcile_execution e run3 w'))"
      using start live bound d by (auto simp: Reconcile_run_def settle_delivery_def split: sum.splits)
    from delivery_expires [OF assms(1,2) bound(3) n assms(5-9) d this] show ?thesis .
  qed
qed

subsection \<open>Starting\<close>

definition startable :: "run_env \<Rightarrow> WorkflowRun \<Rightarrow> bool" where
  "startable e run \<longleftrightarrow>
     we_client e \<and> serving_workspace e run \<and> (\<exists>sandbox. resolve_sandbox e run = Ok sandbox) \<and>
     (\<forall>t. \<exists>sid. we_create e t = CreateSession sid) \<and> (\<forall>t. we_prompt e t = None \<or> we_prompt e t = Some 204)"

lemma resolve_sandbox_cong:
  "wf_namespace r = wf_namespace run \<Longrightarrow> wf_spec r = wf_spec run \<Longrightarrow> resolve_sandbox e r = resolve_sandbox e run"
  by (simp only: resolve_sandbox_def)

lemma add_finalizer_live:
  assumes "responsive e" "near w" "stored w = Some r" "\<not> has_finalizer (Some r)" "\<not> wf_deleting r"
  shows "\<exists>w'. addFinalizer e w = (None, w') \<and> near w' \<and>
    stored w' = Some (r\<lparr>wf_finalizers := wf_finalizers r @ [WorkflowRunSessionFinalizer]\<rparr>) \<and> ww_trace w' = ww_trace w"
proof -
  let ?r = "r\<lparr>wf_finalizers := wf_finalizers r @ [WorkflowRunSessionFinalizer]\<rparr>"
  have u: "up_to_date (caught_up w)" "history (caught_up w)" using near_caught_up [OF assms(2)] by (simp_all add: near_def)
  have "add_finalizer_attempt e w = (Ok (), push (Some ?r) (tick (caught_up w)))"
    using get_live [OF assms(1-3)] write_live [OF assms(1) u(1)] assms(3-5)
    by (simp add: add_finalizer_attempt_def has_finalizer_def write_error_def saved_def)
  then have a: "addFinalizer e w = (None, push (Some ?r) (tick (caught_up w)))" by (simp add: addFinalizer_def retry_live)
  have "near (push (Some ?r) (tick (caught_up w)))"
    using u assms(3) by (intro near_push) (simp_all add: up_to_date_def evolves_def)
  then show ?thesis using a by auto
qed

lemma pending_live:
  assumes "responsive e" "near w" "stored w = Some r" "\<not> wf_deleting r"
  shows "\<exists>w' run'. markPending e run w = (None, run', w') \<and> near w' \<and> ww_trace w' = ww_trace w \<and>
    stored w' = Some (r\<lparr>wf_status := pending_status e (wf_generation run) (wf_status r)\<rparr>)"
proof -
  let ?s = "pending_status e (wf_generation run) (wf_status r)"
  have "pending_write w r (r\<lparr>wf_status := ?s\<rparr>)" unfolding pending_write_def by (rule exI [of _ ?s]) (simp add: changes_nodes)
  then have "near (patched r ?s w)" using near_patched [OF assms(2,3)] by blast
  moreover have "markPending e run w = (None, run\<lparr>wf_status := ?s\<rparr>, patched r ?s w)"
    using patch_live [OF assms(1-3), of run] by (simp add: markPending_def Let_def)
  ultimately show ?thesis using assms(4) by (auto simp: patched_def saved_def)
qed

lemma start_live:
  assumes "responsive e" "near w" "stored w = Some r" "\<not> wf_deleting r" "run_phase r = PhasePending" "startable e r"
  shows "\<exists>sid w' run' r'. startRun e r w = (None, run', w') \<and> near w' \<and> stored w' = Some r' \<and>
    run_phase r' = PhaseRunning \<and> run_session r' = sid \<and> ww_trace w' = ww_trace w @ [EvCreate (build_session_request r (projr (resolve_sandbox e r))),
      EvPrompt sid (buildPromptRequest e r)]"
proof -
  obtain sandbox sid where c: "resolve_sandbox e r = Inr sandbox" "we_create e (ww_tick w) = CreateSession sid"
    using assms(6) unfolding startable_def by blast
  let ?w1 = "log_event (EvCreate (build_session_request r sandbox)) w"
  let ?s = "admitted_status e (wf_generation r) sid (Now e ?w1) (wf_status r)"
  have n1: "near ?w1" "stored ?w1 = Some r" using assms(2,3) by (simp_all add: near_world)
  have u: "up_to_date (caught_up ?w1)" using near_caught_up [OF n1(1)] by simp
  have "admit_attempt e (wf_generation r) sid (Now e ?w1) ?w1 = (Ok ?s, patched r ?s ?w1)"
    using get_live [OF assms(1) n1] write_live [OF assms(1) u] assms(3-5)
    by (simp add: admit_attempt_def Let_def patched_def write_error_def)
  then have p: "RetryOnConflict (we_retries e) (admit_attempt e (wf_generation r) sid (Now e ?w1)) ?w1 = (Ok ?s, patched r ?s ?w1)"
    by (rule retry_live)
  let ?w3 = "log_event (EvPrompt sid (buildPromptRequest e r)) (patched r ?s ?w1)"
  have answers: "we_prompt e t = None \<or> we_prompt e t = Some 204" for t using assms(6) by (simp add: startable_def)
  have q: "send_prompt e sid (buildPromptRequest e r) (patched r ?s ?w1) = (None, ?w3)"
    using answers [of "ww_tick (patched r ?s ?w1)"] by (auto simp: send_prompt_def)
  have "startRun e r w = (None, r\<lparr>wf_status := ?s\<rparr>, ?w3)"
    using assms(6) c p q by (simp add: startRun_def startable_def Let_def)
  moreover have "near (patched r ?s ?w1)"
    using near_patched [OF n1] run_write.admit [OF assms(4,5), of ?s] by (simp add: changes_nodes)
  moreover have "stored ?w3 = Some (r\<lparr>wf_status := ?s\<rparr>)" using assms(4) by (simp add: patched_def saved_def)
  ultimately show ?thesis using c by (auto simp: near_world patched_def)
qed

text \<open>A run that is bound to a conversation is delivered first.\<close>

definition delivered :: "run_env \<Rightarrow> WorkflowRun \<Rightarrow> bool" where
  "delivered e run \<longleftrightarrow> wp_delivery (wf_spec run) = None \<or> we_client e \<and> (\<forall>t. we_deliver e t = Some 204)"

lemma reconcile_live:
  assumes "responsive e" "near w" "stored w = Some run" "\<not> wf_deleting run" "wf_triggerFailure run = []"
    and "\<not> Terminal (run_phase run)" "delivered e run"
  shows "\<exists>v. near v \<and> stored v = Some run \<and> prompts v = prompts w \<and> Reconcile_run e w = reconcile_execution e run v"
proof (cases "wp_delivery (wf_spec run) = None")
  case True
  then have "Reconcile_run e w = reconcile_execution e run (caught_up w)"
    using assms get_live [OF assms(1-3)] by (simp add: Reconcile_run_def)
  then show ?thesis using near_caught_up [OF assms(2)] assms(3) by (intro exI [of _ "caught_up w"]) (simp add: prompts_def)
next
  case False
  let ?w1 = "log_event (EvDeliver (Some 204)) (caught_up w)"
  have n: "near ?w1" "stored ?w1 = Some run" using near_caught_up [OF assms(2)] assms(3) by (simp_all add: near_world)
  have "deliver e run (caught_up w) = (Inr run, caught_up ?w1)"
    using False assms(7) get_live [OF assms(1) n] by (auto simp: deliver_def delivered_def Let_def)
  then have "Reconcile_run e w = reconcile_execution e run (caught_up ?w1)"
    using False assms get_live [OF assms(1-3)] by (auto simp: Reconcile_run_def settle_delivery_def)
  then show ?thesis using near_caught_up [OF n(1)] n(2)
    by (intro exI [of _ "caught_up ?w1"]) (simp add: prompts_def is_prompt_def)
qed

text \<open>C31. A new run is started by three calls of the reconciler: the first retains it with the finalizer, the
  second makes it pending, the third creates the session, records it and sends the one prompt. The run
  may be bound to a conversation, which is told of it first; its trigger has not failed, its Workspace is one that
  executes workflows, and server and gateway answer.\<close>

theorem new_run_starts:
  assumes "responsive e" "near w" "stored w = Some run" "prompts w = []" "wf_deleting run = False" "wf_triggerFailure run = []"
    and "delivered e run" "\<not> has_finalizer (Some run)" "run_phase run = PhaseUnknown"
    and "wr_completedAt (wf_status run) = None" "wr_startedAt (wf_status run) = None" "startable e run"
  shows "\<exists>run' sid body. stored (reconciles e 3 w) = Some run' \<and> run_phase run' = PhaseRunning \<and> run_session run' = sid \<and>
    prompts (reconciles e 3 w) = [EvPrompt sid body]"
proof -
  obtain ws where ws: "getWorkspace (we_scope e) (wf_namespace run) = Ok ws" "ws_type ws \<noteq> WorkspaceTypeCoding"
    using assms(12) by (auto simp: startable_def serving_workspace_def)
  let ?r1 = "run\<lparr>wf_finalizers := wf_finalizers run @ [WorkflowRunSessionFinalizer]\<rparr>"
  let ?r2 = "?r1\<lparr>wf_status := pending_status e (wf_generation run) (wf_status run)\<rparr>"
  have d: "delivered e ?r1" "delivered e ?r2" using assms(7) by (simp_all add: delivered_def)
  obtain v0 where v0: "near v0" "stored v0 = Some run" "prompts v0 = []" "Reconcile_run e w = reconcile_execution e run v0"
    using reconcile_live [OF assms(1-3) _ assms(6) _ assms(7)] assms(4,5,9) by auto
  obtain w1 where w1: "addFinalizer e v0 = (None, w1)" "near w1" "stored w1 = Some ?r1" "prompts w1 = []"
    using add_finalizer_live [OF assms(1) v0(1,2)] assms v0(3) by (auto simp: prompts_def)
  have e1: "reconciles e 1 w = w1"
    using v0(4) assms w1 ws by (simp add: reconcile_execution_def has_finalizer_def)
  obtain v1 where v1: "near v1" "stored v1 = Some ?r1" "prompts v1 = []" "Reconcile_run e w1 = reconcile_execution e ?r1 v1"
    using reconcile_live [OF assms(1) w1(2,3) _ _ _ d(1)] w1(4) assms(5,6,9) by auto
  obtain w2 run2 where w2: "markPending e ?r1 v1 = (None, run2, w2)" "near w2" "stored w2 = Some ?r2" "prompts w2 = []"
    using pending_live [OF assms(1) v1(1,2), of ?r1] v1(3) assms by (auto simp: prompts_def)
  have e2: "snd (Reconcile_run e w1) = w2" using v1(4) w2 ws assms by (simp add: reconcile_execution_def)
  have st: "startable e ?r2"
    using assms(12) resolve_sandbox_cong [of ?r2 run e] by (auto simp: startable_def serving_workspace_def)
  have ph: "run_phase ?r2 = PhasePending" "\<not> wf_deleting ?r2" using assms by simp_all
  obtain v2 where v2: "near v2" "stored v2 = Some ?r2" "prompts v2 = []" "Reconcile_run e w2 = reconcile_execution e ?r2 v2"
    using reconcile_live [OF assms(1) w2(2,3) _ _ _ d(2)] w2(4) assms(5,6) by auto
  obtain sid w3 run3 r3 where w3: "startRun e ?r2 v2 = (None, run3, w3)" "stored w3 = Some r3" "run_phase r3 = PhaseRunning"
      "run_session r3 = sid"
      "ww_trace w3 = ww_trace v2 @ [EvCreate (build_session_request ?r2 (projr (resolve_sandbox e ?r2))), EvPrompt sid (buildPromptRequest e ?r2)]"
    using start_live [OF assms(1) v2(1,2) ph(2,1) st] by auto
  have "wr_startedAt (wf_status ?r2) = None" using assms by (simp add: pending_status_def setActiveConditions_def set_condition_def)
  then have e3: "snd (Reconcile_run e w2) = w3"
    using v2(4) w3(1) ws ph by (simp add: reconcile_execution_def timed_out_def reconcilePending_def)
  have "reconciles e 3 w = w3" using e1 e2 e3 by (simp add: numeral_3_eq_3)
  moreover have "prompts w3 = [EvPrompt sid (buildPromptRequest e ?r2)]"
    using v2(3) w3(5) by (simp add: prompts_def is_prompt_def)
  ultimately show ?thesis using w3 by auto
qed

subsection \<open>Pruning\<close>

lemma prune_loop_deletes:
  "prune_loop e run cutoff runs w = (err, w') \<Longrightarrow>
     \<exists>ds. ww_trace w' = ww_trace w @ map (\<lambda>r. EvDeleteRun (wf_name r)) ds \<and> prefix ds (filter (prunable run cutoff) runs) \<and>
       (err = None \<longrightarrow> ds = filter (prunable run cutoff) runs)"
proof (induction runs arbitrary: w)
  case (Cons r rs)
  show ?case
  proof (cases "prunable run cutoff r \<and> (we_deleteRun e (ww_tick w) = WriteOk \<or> we_deleteRun e (ww_tick w) = WriteMissing)")
    case True
    then obtain ds where "ww_trace w' = ww_trace w @ EvDeleteRun (wf_name r) # map (\<lambda>r. EvDeleteRun (wf_name r)) ds"
        "prefix ds (filter (prunable run cutoff) rs)" "err = None \<longrightarrow> ds = filter (prunable run cutoff) rs"
      using Cons.IH [of "log_event (EvDeleteRun (wf_name r)) w"] Cons.prems by (auto simp: Let_def split: if_splits)
    then show ?thesis using True by (intro exI [of _ "r # ds"]) simp
  next
    case False
    show ?thesis
    proof (cases "prunable run cutoff r")
      case True
      then show ?thesis using False Cons.prems by (intro exI [of _ "[r]"]) (auto simp: Let_def)
    next
      case False
      then show ?thesis using Cons by simp
    qed
  qed
qed simp

text \<open>Pruning deletes exactly the finished runs of the same agent and workflow that no schedule owns and
  that finished before the retention period, in the order of the list, up to the first error.
\<close>

lemma prune_exact:
  assumes "pruneOrphanRuns e run w = (err, w')" "we_list e (ww_tick w) = Some runs"
    and "0 < we_retention e" "wp_scheduleRef (wf_spec run) = None"
  shows "\<exists>ds. ww_trace w' = ww_trace w @ map (\<lambda>r. EvDeleteRun (wf_name r)) ds \<and>
    prefix ds (filter (prunable run (we_now e (ww_tick w) - we_retention e)) runs) \<and>
    (err = None \<longrightarrow> ds = filter (prunable run (we_now e (ww_tick w) - we_retention e)) runs)"
  using assms prune_loop_deletes [of e run "we_now e (ww_tick w) - we_retention e" runs "tick w" err w']
  by (simp add: pruneOrphanRuns_def)

subsection \<open>Examples\<close>

definition run_cluster :: scope_reader where
  "run_cluster = \<lparr>getNamespace = \<lambda>_. Ok [WorkspaceNameLabel \<mapsto> ''w''], getWorkspace = \<lambda>_. Ok sample_workspace\<rparr>"

definition replace_condition :: "run_condition \<Rightarrow> run_condition list \<Rightarrow> run_condition list" where
  "replace_condition c cs = c # filter (\<lambda>d. rc_type d \<noteq> rc_type c) cs"

text \<open>A server and a gateway that answer, at second 100.\<close>

definition sample_env :: run_env where
  "sample_env = \<lparr>we_client = True, we_retries = 4, we_retention = 0, we_now = (\<lambda>_. 100000000000),
     we_interfere = (\<lambda>_ v. v), we_sync = (\<lambda>_. 1), we_getFails = (\<lambda>_. None), we_write = (\<lambda>_. WriteOk), we_list = (\<lambda>_. None),
     we_deleteRun = (\<lambda>_. WriteOk), we_scope = run_cluster, we_getAgent = (\<lambda>_ _. Ok \<lparr>ref_scope = ResourceScopeWorkspace, ref_name = ''base''\<rparr>),
     we_getSandbox = (\<lambda>_ _. Ok sample_sandbox), we_quote = (\<lambda>s. s), we_deliver = (\<lambda>_. Some 204), we_create = (\<lambda>_. CreateSession ''s1''),
     we_prompt = (\<lambda>_. Some 204), we_abort = (\<lambda>_. Some 404), we_deleteSession = (\<lambda>_. Some 200), we_sessions = (\<lambda>_. StatusMap []),
     we_messages = (\<lambda>_. Messages []), we_setCondition = replace_condition, we_errorText = (\<lambda>_. ''error'')\<rparr>"

definition empty_status :: WorkflowRunStatus where
  "empty_status = \<lparr>wr_phase = PhaseUnknown, wr_conditions = [], wr_observedGeneration = 0, wr_sessionID = [], wr_startedAt = None,
     wr_completedAt = None, wr_message = [], wr_nodes = []\<rparr>"

definition sample_run :: WorkflowRun where
  "sample_run = \<lparr>wf_namespace = ''w'', wf_name = ''r'', wf_uid = ''u'', wf_generation = 1, wf_deleting = False, wf_finalizers = [],
     wf_triggerFailure = [], wf_evaluation = [],
     wf_spec = \<lparr>wp_delivery = None, wp_model = None, wp_definition = None, wp_agentName = ''a'', wp_workflowName = ''f'', wp_inputs = [],
       wp_timeoutSeconds = 10, wp_scheduleRef = None\<rparr>,
     wf_status = empty_status\<rparr>"

definition sample_world :: "WorkflowRun list \<Rightarrow> run_world" where
  "sample_world rs = \<lparr>ww_versions = map Some rs, ww_seen = 0, ww_tick = 0, ww_trace = []\<rparr>"

definition retained :: "WorkflowRunStatus \<Rightarrow> WorkflowRun" where
  "retained s = sample_run\<lparr>wf_finalizers := [WorkflowRunSessionFinalizer], wf_status := s\<rparr>"

definition running_status :: WorkflowRunStatus where
  "running_status = empty_status\<lparr>wr_phase := PhaseRunning, wr_sessionID := ''s0'', wr_startedAt := Some 95\<rparr>"

lemmas sample_defs = sample_env_def sample_run_def sample_world_def empty_status_def retained_def running_status_def run_cluster_def

lemma sample_responsive: "responsive sample_env"
  by (simp add: responsive_def sample_env_def)

lemma sample_serving: "wf_namespace run = ''w'' \<Longrightarrow> serving_workspace sample_env run"
  by (simp add: serving_workspace_def sample_defs sample_workspace_def WorkspaceTypeCoding_def)

lemma sample_startable: "startable sample_env sample_run"
  unfolding startable_def using sample_serving [of sample_run]
  by (simp add: sample_defs resolve_sandbox_def SelectedNamespace_def Namespace_def label_def)

lemma sample_near: "near (sample_world [r])"
  by (simp add: near_def history_def sample_world_def)

lemma sample_stored: "stored (sample_world [r]) = Some r"
  by (simp add: stored_def sample_world_def)

theorem new_run_starts_witness:
  "\<exists>run' sid body. stored (reconciles sample_env 3 (sample_world [sample_run])) = Some run' \<and> run_phase run' = PhaseRunning \<and>
     run_session run' = sid \<and> prompts (reconciles sample_env 3 (sample_world [sample_run])) = [EvPrompt sid body]"
  by (rule new_run_starts [OF sample_responsive sample_near _ _ _ _ _ _ _ _ _ sample_startable])
     (simp_all add: sample_defs stored_def has_finalizer_def prompts_def delivered_def)

text \<open>An expired run that is bound to a conversation whose delivery fails.\<close>

definition failing_env :: run_env where
  "failing_env = sample_env\<lparr>we_deliver := (\<lambda>_. None), we_abort := (\<lambda>_. None)\<rparr>"

definition bound_run :: WorkflowRun where
  "bound_run = (retained (running_status\<lparr>wr_startedAt := Some 80\<rparr>))
     \<lparr>wf_spec := (wf_spec sample_run)\<lparr>wp_delivery := Some (''parent'', 1)\<rparr>\<rparr>"

theorem deadline_enforced_witness:
  "\<exists>run' c. stored (snd (Reconcile_run failing_env (sample_world [bound_run]))) = Some run' \<and>
     run_phase run' = PhaseFailed \<and> wr_completedAt (wf_status run') = Some c"
proof (rule deadline_enforced [OF _ _ sample_near sample_stored])
  show "responsive failing_env" using sample_responsive by (simp add: responsive_def failing_env_def)
  show "serving_workspace failing_env bound_run"
    using sample_serving [of bound_run] by (simp add: serving_workspace_def failing_env_def bound_run_def sample_defs)
qed (simp_all add: failing_env_def bound_run_def sample_defs active_run_def has_finalizer_def timed_out_def since_def caught_up_def mono_def)

theorem prompted_at_most_once_witness:
  "prompts (reconciles sample_env 3 (sample_world [sample_run])) = [] \<or>
   (\<exists>sid body. prompts (reconciles sample_env 3 (sample_world [sample_run])) = [EvPrompt sid body] \<and>
      admitted_session sid (reconciles sample_env 3 (sample_world [sample_run])))"
  by (rule prompted_at_most_once [OF responsive_well_behaved [OF sample_responsive]]) (simp_all add: sample_world_def)

lemmas run_step_defs = Reconcile_run_def reconcile_execution_def get_run_def refresh_def interfere_def push_def write_run_def up_to_date_def
  tick_def log_event_def stored_def cached_def saved_def write_error_def patchStatus_def patch_attempt_def Let_def

lemma numeral_retries: "RetryOnConflict 4 f w = RetryOnConflict (Suc (Suc (Suc (Suc 0)))) f w"
  by (simp add: numeral_eq_Suc)

text \<open>A run that is being deleted while its session runs.\<close>

definition deleting_world :: run_world where
  "deleting_world = sample_world [(retained running_status)\<lparr>wf_deleting := True\<rparr>]"

lemma deleting_world_released:
  "ww_versions (reconciles sample_env (Suc 0) deleting_world) = [Some ((retained running_status)\<lparr>wf_deleting := True\<rparr>), None]"
  by (simp add: deleting_world_def sample_defs run_step_defs numeral_retries finalizeRun_def abortRun_def release_finalizer_def
      remove_finalizer_attempt_def)

theorem finalizer_outlives_session_witness:
  "session_closed ((retained running_status)\<lparr>wf_deleting := True\<rparr>) (ww_trace (reconciles sample_env (Suc 0) deleting_world))"
  by (rule finalizer_outlives_session [OF responsive_well_behaved [OF sample_responsive], where i = 0])
     (simp_all add: deleting_world_released has_finalizer_def del: reconciles.simps, simp_all add: deleting_world_def sample_defs)

text \<open>
  A stale read can fail a healthy run. The run was started and is running, the cache still shows it
  as pending. The controller creates a second session, is told on admission that the run is no
  longer pending, and then marks the run failed as if starting it had failed.
\<close>

definition lagging_env :: run_env where
  "lagging_env = sample_env\<lparr>we_sync := \<lambda>t. if t = 0 then 0 else 1\<rparr>"

definition lagging_world :: run_world where
  "lagging_world = sample_world [retained (empty_status\<lparr>wr_phase := PhasePending\<rparr>), retained running_status]"

lemma stale_read_fails_running_run:
  "well_behaved lagging_env" "history lagging_world" "stored lagging_world = Some (retained running_status)"
  "\<exists>run'. stored (snd (Reconcile_run lagging_env lagging_world)) = Some run' \<and> run_phase run' = PhaseFailed \<and> run_session run' = ''s0''"
proof -
  show "well_behaved lagging_env"
    by (auto simp: well_behaved_def lagging_env_def sample_env_def other_writer_def other_status_def split: option.splits)
  show "history lagging_world" "stored lagging_world = Some (retained running_status)"
    by (simp_all add: lagging_world_def history_def sample_world_def evolves_def retained_def sample_run_def running_status_def
        empty_status_def stored_def)
  show "\<exists>run'. stored (snd (Reconcile_run lagging_env lagging_world)) = Some run' \<and> run_phase run' = PhaseFailed \<and> run_session run' = ''s0''"
    by (simp add: lagging_env_def lagging_world_def sample_defs run_step_defs numeral_retries reconcilePending_def startRun_def admit_attempt_def
        resolve_sandbox_def SelectedNamespace_def Namespace_def label_def timed_out_def failRun_def fail_status_def
        syncTerminalStatus_def sync_status_def setTerminalStatus_def set_condition_def find_condition_def replace_condition_def
        terminal_reason_def abortRun_def aborted_condition_def close_node_def join_errors_def
        sample_workspace_def WorkspaceTypeCoding_def phase_defs Terminal_def ConditionTrue_def ConditionFalse_def)
qed

text \<open>
  A run that succeeded while the cache still shows it running and expired: the next call tries to fail it, and
  the guard of the status change, made on the version that is read again, keeps the outcome.
\<close>

definition succeeded_world :: run_world where
  "succeeded_world = sample_world [retained (running_status\<lparr>wr_startedAt := Some 80\<rparr>),
     retained (running_status\<lparr>wr_startedAt := Some 80, wr_phase := PhaseSucceeded, wr_completedAt := Some 89\<rparr>)]"

lemma lagging_well_behaved: "well_behaved lagging_env"
  by (rule stale_read_fails_running_run(1))

lemma succeeded_world_fields:
  "history succeeded_world" "cached succeeded_world = Some (retained (running_status\<lparr>wr_startedAt := Some 80\<rparr>))"
  "stored succeeded_world = Some (retained (running_status\<lparr>wr_startedAt := Some 80, wr_phase := PhaseSucceeded, wr_completedAt := Some 89\<rparr>))"
  by (simp_all add: succeeded_world_def history_def evolves_def sample_defs stored_def cached_def phase_defs)

lemma succeeded_world_kept: "\<exists>run'. stored (reconciles lagging_env (Suc 0) succeeded_world) = Some run'"
  by (simp add: succeeded_world_def lagging_env_def sample_defs run_step_defs numeral_retries timed_out_def since_def failRun_def fail_status_def
      syncTerminalStatus_def sync_status_def setTerminalStatus_def set_condition_def find_condition_def replace_condition_def terminal_reason_def
      Now_def sample_workspace_def WorkspaceTypeCoding_def phase_defs Terminal_def ConditionTrue_def ConditionFalse_def)

theorem completed_run_is_final_witness:
  "\<exists>run'. stored (reconciles lagging_env (Suc 0) succeeded_world) = Some run' \<and>
     run_phase run' = PhaseSucceeded \<and> wr_completedAt (wf_status run') = Some 89"
proof -
  obtain run' where r: "stored (reconciles lagging_env (Suc 0) succeeded_world) = Some run'" using succeeded_world_kept ..
  have "run_phase run' = run_phase (retained (running_status\<lparr>wr_startedAt := Some 80, wr_phase := PhaseSucceeded, wr_completedAt := Some 89\<rparr>)) \<and>
      wr_completedAt (wf_status run') = Some 89"
    by (rule completed_run_is_final [OF lagging_well_behaved succeeded_world_fields(1,3) _ _ succeeded_world_fields(2) _ r])
       (simp_all add: retained_def running_status_def)
  then show ?thesis using r by (simp add: retained_def)
qed

text \<open>
  The write that makes a run pending has no such guard: a cache that still shows a run without a phase
  makes a run that has failed pending again.
\<close>

lemma stale_read_reopens_failed_run:
  fixes w :: run_world
  defines "w \<equiv> sample_world [retained empty_status, retained (empty_status\<lparr>wr_phase := PhaseFailed, wr_completedAt := Some 90\<rparr>)]"
  shows "history w" "\<exists>run'. stored (snd (Reconcile_run lagging_env w)) = Some run' \<and> run_phase run' = PhasePending"
proof -
  show "history w" by (simp add: w_def history_def evolves_def sample_defs)
  show "\<exists>run'. stored (snd (Reconcile_run lagging_env w)) = Some run' \<and> run_phase run' = PhasePending"
    by (simp add: w_def lagging_env_def sample_defs run_step_defs numeral_retries markPending_def pending_status_def setActiveConditions_def
        set_condition_def replace_condition_def sample_workspace_def WorkspaceTypeCoding_def phase_defs Terminal_def)
qed

end
