(* ===== verification/RunGateway.thy ===== *)
theory RunGateway
  imports RunLive
begin

section \<open>Status reports of the gateway\<close>

text \<open>
  The other writers of a run's status (\<open>internal/gateway/workflow/runs.go\<close>): the agent that executes a
  run reports the outcome of its nodes and of the run through the gateway. The store is the one of
  \<open>RunStore\<close>, seen through the gateway's own client. The reports are shown to be what the controller
  relies on (\<open>other_writer\<close>), and every sequence of reports and of calls of the controller keeps the statuses of
  a run's nodes well formed.
\<close>

datatype patch_error =
    ScopeMismatch | RunTerminal | RunPhaseConflict string string | NodeNotFound | NodePhaseConflict string string string
  | BadDefinition | DefinitionFailed string

subsection \<open>Validation\<close>

definition ValidateRunStatusMessage :: "string \<Rightarrow> (string \<times> string) list" where
  "ValidateRunStatusMessage message =
     (if length message \<le> 4096 then [] else [(''message'', ''must be 4096 characters or fewer'')])"

definition ValidateRunTerminalPhase :: "string \<Rightarrow> (string \<times> string) list" where
  "ValidateRunTerminalPhase phase =
     (if phase = PhaseSucceeded \<or> phase = PhaseFailed then [] else [(''phase'', ''must be Succeeded or Failed'')])"

definition ValidateRunNodePatchPhase :: "string \<Rightarrow> (string \<times> string) list" where
  "ValidateRunNodePatchPhase phase =
     (if phase \<in> {''Running'', ''Succeeded'', ''Failed''} then [] else [(''phase'', ''must be Running, Succeeded, or Failed'')])"

text \<open>The update handler of \<open>internal/webhook/v1alpha1/workflowrun/validation.go\<close>.\<close>

definition ValidateUpdate_run :: "WorkflowRun \<Rightarrow> WorkflowRun \<Rightarrow> field_error list" where
  "ValidateUpdate_run old new =
     (if wf_spec old = wf_spec new then [] else [FForbidden spec_path ''workflow run spec is immutable''])"

subsection \<open>Reports on a run\<close>

definition reported_status :: "string \<Rightarrow> string \<Rightarrow> int \<Rightarrow> WorkflowRunStatus \<Rightarrow> WorkflowRunStatus" where
  "reported_status phase msg now s =
     s\<lparr>wr_phase := phase, wr_message := msg, wr_completedAt := Some now, wr_nodes := map (close_node (Some now)) (wr_nodes s)\<rparr>"

definition run_status_attempt ::
  "run_env \<Rightarrow> string \<Rightarrow> string \<Rightarrow> string \<Rightarrow> string \<Rightarrow> run_world \<Rightarrow> (run_error, patch_error option) result \<times> run_world" where
  "run_status_attempt e agtName wfName phase msg w =
     (case get_run e w of
        (Inl err, w1) \<Rightarrow> (Err (RunGet err), w1)
      | (Inr current, w1) \<Rightarrow>
          if wp_agentName (wf_spec current) \<noteq> TrimSpace agtName \<or> wp_workflowName (wf_spec current) \<noteq> TrimSpace wfName
          then (Ok (Some ScopeMismatch), w1)
          else if Terminal (wr_phase (wf_status current)) then
            (Ok (if wr_phase (wf_status current) = phase \<and> wr_message (wf_status current) = msg then None else Some RunTerminal), w1)
          else if wr_phase (wf_status current) \<noteq> PhaseRunning then (Ok (Some (RunPhaseConflict (wr_phase (wf_status current)) phase)), w1)
          else
            (case write_run e (current\<lparr>wf_status := reported_status phase msg (Now e w1) (wf_status current)\<rparr>) w1 of
               (oc, w2) \<Rightarrow> (case write_error oc of None \<Rightarrow> Ok None | Some err \<Rightarrow> Err err, w2)))"

definition PatchRunStatus ::
  "run_env \<Rightarrow> string \<Rightarrow> string \<Rightarrow> string \<Rightarrow> string \<Rightarrow> run_world \<Rightarrow> (run_error, patch_error option) result \<times> run_world" where
  "PatchRunStatus e agtName wfName phase msg = RetryOnConflict (we_retries e) (run_status_attempt e agtName wfName phase msg)"

subsection \<open>Reports on a node\<close>

definition node_index :: "string \<Rightarrow> WorkflowRunNodeStatus list \<Rightarrow> nat option" where
  "node_index name nodes =
     (let i = length (takeWhile (\<lambda>n. wn_name n \<noteq> name) nodes) in if i < length nodes then Some i else None)"

definition unack_before :: "nat \<Rightarrow> int \<Rightarrow> WorkflowRunNodeStatus list \<Rightarrow> WorkflowRunNodeStatus list" where
  "unack_before i now nodes = map (close_node (Some now)) (take i nodes) @ drop i nodes"

definition applyNodeStatusPatch ::
  "WorkflowRunNodeStatus list \<Rightarrow> string \<Rightarrow> string \<Rightarrow> string \<Rightarrow> int \<Rightarrow> (patch_error, WorkflowRunNodeStatus list \<times> bool) result" where
  "applyNodeStatusPatch nodes nodeName phase msg now =
     (case node_index nodeName nodes of
        None \<Rightarrow> Err NodeNotFound
      | Some target \<Rightarrow>
          (let new = (if phase = ''Running'' then unack_before target now nodes else nodes);
               changed = (phase = ''Running'' \<and> (\<exists>n\<in>set (take target nodes). wn_phase n = ''Running''));
               current = new ! target;
               conflict = Err (NodePhaseConflict nodeName (wn_phase current) phase) in
           if phase \<notin> {''Running'', ''Succeeded'', ''Failed''} then conflict
           else if wn_phase current = phase \<and> wn_message current = msg then Ok (new, changed)
           else
             (let hasProgressedLaterNode = (\<exists>n\<in>set (drop (Suc target) new). wn_phase n \<noteq> ''Disabled'') in
              if \<not> hasProgressedLaterNode \<and> phase = ''Running'' \<and> wn_phase current \<noteq> ''Disabled'' then conflict
              else if \<not> hasProgressedLaterNode \<and> phase \<noteq> ''Running'' \<and> wn_phase current \<noteq> ''Running'' then conflict
              else
                Ok (new[target := current\<lparr>wn_phase := phase, wn_message := msg,
                      wn_completedAt := (if phase = ''Running'' then None else Some now),
                      wn_startedAt := (if phase = ''Running'' then Some now else wn_startedAt current)\<rparr>], True))))"

text \<open>
  The frozen definition is decoded by \<open>decode\<close>, the stored one read by \<open>definition_of\<close>; both give the
  names of the nodes.
\<close>

record definition_reader =
  decode :: "string \<Rightarrow> string list option"
  definition_of :: "nat \<Rightarrow> (string, string list) result"

definition known_nodes ::
  "definition_reader \<Rightarrow> run_world \<Rightarrow> WorkflowRun \<Rightarrow> string \<Rightarrow> (patch_error, WorkflowRunNodeStatus list) result" where
  "known_nodes d w current nodeName =
     (let nodes = wr_nodes (wf_status current) in
      if nodeName \<in> wn_name ` set nodes then Ok nodes
      else
        (case (case wp_definition (wf_spec current) of
                 Some text \<Rightarrow> (case decode d text of None \<Rightarrow> Err BadDefinition | Some names \<Rightarrow> Ok names)
               | None \<Rightarrow> (case definition_of d (ww_tick w) of Inl err \<Rightarrow> Err (DefinitionFailed err) | Inr names \<Rightarrow> Ok names)) of
           Inl err \<Rightarrow> Err err
         | Inr names \<Rightarrow>
             if nodeName \<notin> set names then Err NodeNotFound
             else Ok (nodes @ [\<lparr>wn_name = nodeName, wn_phase = ''Disabled'', wn_message = [], wn_startedAt = None, wn_completedAt = None\<rparr>])))"

definition node_status_attempt ::
  "run_env \<Rightarrow> definition_reader \<Rightarrow> string \<Rightarrow> string \<Rightarrow> string \<Rightarrow> string \<Rightarrow> string \<Rightarrow> run_world \<Rightarrow>
   (run_error, patch_error option) result \<times> run_world" where
  "node_status_attempt e d agtName wfName nodeName phase msg w =
     (case get_run e w of
        (Inl err, w1) \<Rightarrow> (Err (RunGet err), w1)
      | (Inr current, w1) \<Rightarrow>
          if wp_agentName (wf_spec current) \<noteq> TrimSpace agtName \<or> wp_workflowName (wf_spec current) \<noteq> TrimSpace wfName
          then (Ok (Some ScopeMismatch), w1)
          else if Terminal (wr_phase (wf_status current)) then (Ok (Some RunTerminal), w1)
          else if wr_phase (wf_status current) \<noteq> PhaseRunning
          then (Ok (Some (RunPhaseConflict (wr_phase (wf_status current)) PhaseRunning)), w1)
          else
            (case known_nodes d w1 current nodeName of
               Inl err \<Rightarrow> (Ok (Some err), w1)
             | Inr nodes \<Rightarrow>
                 (case applyNodeStatusPatch nodes nodeName phase msg (Now e w1) of
                    Inl err \<Rightarrow> (Ok (Some err), w1)
                  | Inr (new, changed) \<Rightarrow>
                      if \<not> changed then (Ok None, w1)
                      else
                        (case write_run e (current\<lparr>wf_status := (wf_status current)\<lparr>wr_nodes := new\<rparr>\<rparr>) w1 of
                           (oc, w2) \<Rightarrow> (case write_error oc of None \<Rightarrow> Ok None | Some err \<Rightarrow> Err err, w2)))))"

definition PatchRunNodeStatus ::
  "run_env \<Rightarrow> definition_reader \<Rightarrow> string \<Rightarrow> string \<Rightarrow> string \<Rightarrow> string \<Rightarrow> string \<Rightarrow> run_world \<Rightarrow>
   (run_error, patch_error option) result \<times> run_world" where
  "PatchRunNodeStatus e d agtName wfName nodeName phase msg =
     RetryOnConflict (we_retries e) (node_status_attempt e d agtName wfName nodeName phase msg)"

subsection \<open>The reports are what the controller relies on\<close>

text \<open>A history in which every version comes from the one before by a step of a kind \<open>R\<close>.\<close>

definition chain :: "(WorkflowRun option \<Rightarrow> WorkflowRun option \<Rightarrow> bool) \<Rightarrow> run_world \<Rightarrow> bool" where
  "chain R w \<longleftrightarrow> ww_seen w < length (ww_versions w) \<and>
     (\<forall>i. Suc i < length (ww_versions w) \<longrightarrow> R (ww_versions w ! i) (ww_versions w ! Suc i))"

lemma chain_push:
  assumes "chain R w" "R (stored w) v"
  shows "chain R (push v w)"
proof -
  have "R ((ww_versions w @ [v]) ! i) ((ww_versions w @ [v]) ! Suc i)" if "Suc i < length (ww_versions w @ [v])" for i
  proof (cases "Suc i < length (ww_versions w)")
    case True then show ?thesis using assms(1) by (simp add: chain_def nth_append)
  next
    case False
    then have l: "length (ww_versions w) = Suc i" using that by simp
    then have "ww_versions w \<noteq> []" by auto
    then have "ww_versions w ! i = stored w" using l by (simp add: stored_def last_conv_nth)
    then show ?thesis using assms(2) l by (simp add: nth_append)
  qed
  then show ?thesis using assms(1) by (auto simp: chain_def push_def)
qed

lemma chain_tick [simp]: "chain R (tick w) = chain R w"
  by (simp add: chain_def)

lemma chain_get:
  assumes "\<And>t v. R v (we_interfere e t v)" "chain R w" "get_run e w = (r, w1)"
  shows "chain R w1 \<and> (\<forall>run. r = Inr run \<longrightarrow> cached w1 = Some run)"
proof -
  have w1: "w1 = refresh e w" using assms(3) by (auto simp: get_run_def split: option.splits)
  have i: "chain R (interfere e w)" using assms(1,2) by (simp add: interfere_def chain_push)
  then have "chain R (refresh e w)" by (auto simp: refresh_def chain_def Let_def)
  then show ?thesis using assms(3) w1 by (auto simp: get_run_def split: option.splits)
qed

lemma chain_write:
  assumes "\<And>t v. R v (we_interfere e t v)" "chain R w" "cached w = Some base" "R (Some base) (saved new)" "write_run e new w = (oc, w')"
  shows "chain R w'"
proof -
  let ?w1 = "tick (interfere e w)"
  have c: "chain R ?w1" using assms(1,2) by (simp add: interfere_def chain_push)
  have "cached ?w1 = Some base" using assms(2,3) by (simp add: interfere_def chain_def)
  then have "stored ?w1 = Some base" if "up_to_date ?w1"
    using that c by (cases "ww_versions ?w1 = []") (auto simp: chain_def up_to_date_def cached_def stored_def last_conv_nth le_Suc_eq)
  then have "chain R (push (saved new) ?w1)" if "up_to_date ?w1" using that c assms(4) by (simp add: chain_push)
  then show ?thesis using assms(5) c by (auto simp: write_run_def Let_def split: write_outcome.splits if_splits)
qed

lemma report_other_writer:
  assumes "run_phase r = PhaseRunning" "other_status (wf_status r) s"
  shows "other_writer (Some r) (saved (r\<lparr>wf_status := s\<rparr>))"
  using assms by (auto simp: other_writer_def saved_def has_finalizer_def)

lemma chain_retry:
  assumes "\<And>w r w'. chain R w \<Longrightarrow> f w = (r, w') \<Longrightarrow> chain R w'" "chain R w"
  shows "chain R (snd (RetryOnConflict n f w))"
  using RetryOnConflict_rule [of "chain R" f "\<lambda>_ _. True" w n "fst (RetryOnConflict n f w)" "snd (RetryOnConflict n f w)"] assms
  by simp

text \<open>C32. Whatever the gateway writes for an accepted report on a run or on a node is a step the controller
  allows other writers: a status is reported only for a running run, and only a terminal one.
\<close>

theorem gateway_reports_respected:
  assumes "\<And>t v. R v (we_interfere e t v)" "\<And>v v'. other_writer v v' \<Longrightarrow> R v v'" "chain R w" "ValidateRunTerminalPhase phase = []"
  shows "chain R (snd (PatchRunStatus e agtName wfName phase msg w)) \<and>
    chain R (snd (PatchRunNodeStatus e d agtName wfName nodeName nodePhase msg w))"
proof
  have t: "Terminal phase" using assms(4) by (auto simp: ValidateRunTerminalPhase_def split: if_splits)
  have written: "chain R w2"
    if "chain R w1" "cached w1 = Some current" "run_phase current = PhaseRunning" "other_status (wf_status current) s"
      "write_run e (current\<lparr>wf_status := s\<rparr>) w1 = (oc, w2)" for w1 current s oc w2
    using chain_write [OF assms(1) that(1,2) _ that(5)] assms(2) report_other_writer [OF that(3,4)] by blast
  show "chain R (snd (PatchRunStatus e agtName wfName phase msg w))" unfolding PatchRunStatus_def
  proof (rule chain_retry [OF _ assms(3)])
    fix w r w' assume c: "chain R w" and a: "run_status_attempt e agtName wfName phase msg w = (r, w')"
    obtain r1 w1 where g: "get_run e w = (r1, w1)" by fastforce
    note c1 = chain_get [of R, OF assms(1) c g]
    have "other_status s (reported_status phase msg now s)" if "wr_phase s = PhaseRunning" for s now
      using t that by (simp add: other_status_def reported_status_def)
    then show "chain R w'" using a g c1 written [of w1]
      by (fastforce simp: run_status_attempt_def split: sum.splits prod.splits if_splits)
  qed
  show "chain R (snd (PatchRunNodeStatus e d agtName wfName nodeName nodePhase msg w))" unfolding PatchRunNodeStatus_def
  proof (rule chain_retry [OF _ assms(3)])
    fix w r w' assume c: "chain R w" and a: "node_status_attempt e d agtName wfName nodeName nodePhase msg w = (r, w')"
    obtain r1 w1 where g: "get_run e w = (r1, w1)" by fastforce
    note c1 = chain_get [of R, OF assms(1) c g]
    have "other_status s (s\<lparr>wr_nodes := ns\<rparr>)" for s ns by (simp add: other_status_def)
    then show "chain R w'" using a g c1 written [of w1]
      by (fastforce simp: node_status_attempt_def split: sum.splits prod.splits if_splits)
  qed
qed

subsection \<open>The nodes of a run\<close>

lemma unack_before_ok:
  assumes "list_all node_ok ns" "i \<le> length ns"
  shows "list_all node_ok (unack_before i t ns)" "map wn_name (unack_before i t ns) = map wn_name ns"
    "length (unack_before i t ns) = length ns" "i < length ns \<Longrightarrow> unack_before i t ns ! i = ns ! i"
proof -
  have "list_all node_ok (take i ns)" "list_all node_ok (drop i ns)"
    using assms(1) by (auto simp: list_all_iff dest: in_set_takeD in_set_dropD)
  then show "list_all node_ok (unack_before i t ns)" by (simp add: unack_before_def close_nodes_ok(2))
  have "map wn_name (take i ns) @ map wn_name (drop i ns) = map wn_name ns" by (simp flip: map_append)
  then show "map wn_name (unack_before i t ns) = map wn_name ns" by (simp only: unack_before_def map_append close_nodes_ok(1))
  show "length (unack_before i t ns) = length ns" by (simp add: unack_before_def)
  show "i < length ns \<Longrightarrow> unack_before i t ns ! i = ns ! i" by (simp add: unack_before_def nth_append)
qed

lemma node_index_bound: "node_index name nodes = Some i \<Longrightarrow> i < length nodes \<and> wn_name (nodes ! i) = name"
  using nth_length_takeWhile [of "\<lambda>n. wn_name n \<noteq> name" nodes] by (auto simp: node_index_def Let_def split: if_splits)

lemma applyNodeStatusPatch_ok:
  assumes "applyNodeStatusPatch nodes name phase m now = Ok (new, changed)" "list_all node_ok nodes"
  shows "list_all node_ok new \<and> map wn_name new = map wn_name nodes"
proof -
  obtain i where i: "node_index name nodes = Some i" using assms(1) by (auto simp: applyNodeStatusPatch_def split: option.splits)
  have b: "i < length nodes" using node_index_bound [OF i] by simp
  define base where "base = (if phase = ''Running'' then unack_before i now nodes else nodes)"
  have base: "list_all node_ok base" "map wn_name base = map wn_name nodes" "length base = length nodes"
    using unack_before_ok [OF assms(2), of i now] b assms(2) by (simp_all add: base_def)
  have ph: "phase \<in> {''Running'', ''Succeeded'', ''Failed''}"
    using assms(1) i by (auto simp: applyNodeStatusPatch_def Let_def split: if_splits)
  let ?n = "(base ! i)\<lparr>wn_phase := phase, wn_message := m, wn_completedAt := (if phase = ''Running'' then None else Some now),
      wn_startedAt := (if phase = ''Running'' then Some now else wn_startedAt (base ! i))\<rparr>"
  have "new = base \<or> new = base[i := ?n]"
    using assms(1) i by (auto simp: applyNodeStatusPatch_def base_def Let_def split: if_splits)
  moreover have "node_ok ?n" using ph by (auto simp: node_ok_def)
  moreover have "map wn_name (base[i := ?n]) = map wn_name base"
    using b base(3) by (simp add: map_update list_update_same_conv)
  ultimately show ?thesis using base by (auto simp: list_all_iff dest!: set_update_subset_insert [THEN subsetD])
qed

lemma known_nodes_ok:
  assumes "known_nodes d w run name = Ok nodes" "nodes_ok (wf_status run)"
  shows "list_all node_ok nodes \<and> distinct (map wn_name nodes)"
  using assms by (auto simp: known_nodes_def Let_def nodes_ok_def node_ok_def split: if_splits sum.splits option.splits)

text \<open>What the other writers must keep for it, and what a report of the gateway writes.\<close>

definition nodes_kept :: "WorkflowRun option \<Rightarrow> WorkflowRun option \<Rightarrow> bool" where
  "nodes_kept v v' \<longleftrightarrow> (\<forall>r r'. v = Some r \<longrightarrow> v' = Some r' \<longrightarrow> nodes_ok (wf_status r) \<longrightarrow> nodes_ok (wf_status r'))"

definition gateway_write :: "run_world \<Rightarrow> WorkflowRun \<Rightarrow> WorkflowRun \<Rightarrow> bool" where
  "gateway_write w base new \<longleftrightarrow> (\<exists>s. new = base\<lparr>wf_status := s\<rparr> \<and> run_phase base = PhaseRunning
     \<and> other_status (wf_status base) s \<and> (nodes_ok (wf_status base) \<longrightarrow> nodes_ok s))"

definition consistent :: "run_world \<Rightarrow> bool" where
  "consistent w \<longleftrightarrow> history w \<and> (\<forall>r. Some r \<in> set (ww_versions w) \<longrightarrow> nodes_ok (wf_status r))"

lemma consistent_push:
  assumes "consistent w" "history (push v w)" "nodes_kept (stored w) v" "v \<noteq> None \<longrightarrow> stored w \<noteq> None"
  shows "consistent (push v w)"
proof -
  have "ww_versions w \<noteq> []" using assms(1) by (auto simp: consistent_def history_def)
  then have "stored w \<in> set (ww_versions w)" by (simp add: stored_def)
  then show ?thesis using assms by (auto simp: consistent_def nodes_kept_def push_def)
qed

lemma gateway_write_other: "gateway_write w base new \<Longrightarrow> other_writer (Some base) (saved new) \<and> nodes_kept (Some base) (saved new)"
  unfolding gateway_write_def
proof (elim exE conjE)
  fix s assume "new = base\<lparr>wf_status := s\<rparr>" "run_phase base = PhaseRunning" "other_status (wf_status base) s"
    and "nodes_ok (wf_status base) \<longrightarrow> nodes_ok s"
  then show ?thesis using report_other_writer [of base s] by (auto simp: nodes_kept_def saved_def)
qed

lemma consistent_world:
  "consistent w \<Longrightarrow> history w" "consistent w \<Longrightarrow> consistent (tick w)" "consistent w \<Longrightarrow> consistent (log_event ev w)"
  "consistent w \<Longrightarrow> k < length (ww_versions w) \<Longrightarrow> consistent (w\<lparr>ww_seen := k\<rparr>)"
  by (simp_all add: consistent_def history_seen)

lemma consistent_other: "consistent w \<Longrightarrow> other_writer (stored w) v \<Longrightarrow> nodes_kept (stored w) v \<Longrightarrow> consistent (push v w)"
  by (rule consistent_push) (auto simp: consistent_def history_other other_writer_def split: option.splits)

lemma consistent_write:
  "consistent w \<Longrightarrow> stored w = Some base \<Longrightarrow> run_write w base new \<or> pending_write w base new \<Longrightarrow> consistent (push (saved new) w)"
proof (rule consistent_push)
  assume s: "stored w = Some base" and wr: "run_write w base new \<or> pending_write w base new"
  have "nodes_ok (wf_status new)" if "nodes_ok (wf_status base)"
    using wr that by (auto simp: pending_write_def settles_def elim!: run_write.cases)
  then show "nodes_kept (stored w) (saved new)" using s by (auto simp: nodes_kept_def saved_def)
qed (auto simp: consistent_def history_write history_pending)

interpretation keep: run_invariant consistent consistent nodes_kept
proof unfold_locales
  show "consistent (log_event (EvPrompt sid body) (push (Some (base\<lparr>wf_status := s\<rparr>)) w))"
    if "consistent w" "stored w = Some base" "\<not> wf_deleting base" "run_phase base = PhasePending" "wr_phase s = PhaseRunning"
      "nodes_ok (wf_status base) \<longrightarrow> nodes_ok s" for w base s sid body
  proof -
    have "consistent (push (Some (base\<lparr>wf_status := s\<rparr>)) w)"
      using consistent_write [OF that(1,2) disjI1 [OF run_write.admit [OF that(3-6)]]] that(3) by (simp add: saved_def)
    then show ?thesis by (rule consistent_world)
  qed
qed (auto intro: consistent_world consistent_other consistent_write run_write_extends pending_write_extends)

interpretation reports: store_invariant consistent gateway_write nodes_kept
proof unfold_locales
  show "consistent (push (saved new) w)" if "consistent w" "stored w = Some base" "gateway_write w base new" for w base new
    using consistent_other [OF that(1)] gateway_write_other [OF that(3)] that(2) by simp
qed (auto simp: gateway_write_def intro: consistent_world consistent_other)

lemma reported_nodes: "nodes_ok s \<Longrightarrow> nodes_ok (reported_status phase m now s)"
  by (auto simp: nodes_ok_def reported_status_def close_nodes_ok(2))

lemma reported_other: "wr_phase s = PhaseRunning \<Longrightarrow> Terminal phase \<Longrightarrow> other_status s (reported_status phase m now s)"
  by (simp add: other_status_def reported_status_def)

lemma patched_nodes:
  assumes "known_nodes d w run name = Ok nodes" "applyNodeStatusPatch nodes name phase m now = Ok (new, changed)"
    and "nodes_ok (wf_status run)" "run_phase run = PhaseRunning"
  shows "nodes_ok ((wf_status run)\<lparr>wr_nodes := new\<rparr>)"
  using applyNodeStatusPatch_ok [OF assms(2)] known_nodes_ok [OF assms(1,3)] assms(4) by (auto simp: nodes_ok_def)

text \<open>The attempts of the two reports, from the guards of their code.\<close>

lemma run_status_attempt_keeps:
  assumes "relies nodes_kept e" "ValidateRunTerminalPhase phase = []" "reaches consistent w0 w"
    and "run_status_attempt e agtName wfName phase msg w = (r, w')"
  shows "reaches consistent w0 w'"
proof -
  have t: "Terminal phase" using assms(2) by (auto simp: ValidateRunTerminalPhase_def split: if_splits)
  obtain r1 w1 where g: "get_run e w = (r1, w1)" by fastforce
  note g1 = reports.get_run_reaches [OF assms(1,3) g]
  have wr: "gateway_write w0 base (base\<lparr>wf_status := reported_status phase msg now (wf_status base)\<rparr>)" if "run_phase base = PhaseRunning" for base now
    using that reported_other [OF that t] unfolding gateway_write_def
    by (intro exI [of _ "reported_status phase msg now (wf_status base)"]) (simp add: reported_nodes)
  show ?thesis
    using assms(4) g g1 reports.write_run_reaches [OF assms(1) _ _ wr]
    by (fastforce simp: run_status_attempt_def split: sum.splits prod.splits if_splits)
qed

lemma node_status_attempt_keeps:
  assumes "relies nodes_kept e" "reaches consistent w0 w"
    and "node_status_attempt e d agtName wfName nodeName phase msg w = (r, w')"
  shows "reaches consistent w0 w'"
proof -
  obtain r1 w1 where g: "get_run e w = (r1, w1)" by fastforce
  note g1 = reports.get_run_reaches [OF assms(1,2) g]
  have wr: "gateway_write w0 base (base\<lparr>wf_status := (wf_status base)\<lparr>wr_nodes := new\<rparr>\<rparr>)"
    if "run_phase base = PhaseRunning" "known_nodes d w1 base nodeName = Ok nodes"
      "applyNodeStatusPatch nodes nodeName phase msg now = Ok (new, changed)" for base nodes now new changed
    using patched_nodes [OF that(2,3) _ that(1)] that(1) unfolding gateway_write_def
    by (intro exI [of _ "(wf_status base)\<lparr>wr_nodes := new\<rparr>"]) (simp add: other_status_def)
  show ?thesis
    using assms(3) g g1 reports.write_run_reaches [OF assms(1) _ _ wr]
    by (fastforce simp: node_status_attempt_def split: sum.splits prod.splits if_splits)
qed

text \<open>
  The calls that write a run's status: the controller's, and the two of the gateway, which reads through a cache
  of its own at any position \<open>k\<close>. Each call has its own environment, in which the writes of all
  others between its own are arbitrary as long as they keep to \<open>other_writer\<close> and \<open>nodes_kept\<close>, as those of
  the gateway do.
\<close>

inductive run_call :: "run_world \<Rightarrow> run_world \<Rightarrow> bool" where
  reconcile: "\<lbrakk> relies nodes_kept e; Reconcile_run e w = (res, w') \<rbrakk> \<Longrightarrow> run_call w w'"
| report_run: "\<lbrakk> relies nodes_kept e; k < length (ww_versions w); ValidateRunTerminalPhase phase = [];
      PatchRunStatus e agtName wfName phase msg (w\<lparr>ww_seen := k\<rparr>) = (res, w') \<rbrakk> \<Longrightarrow> run_call w (w'\<lparr>ww_seen := ww_seen w\<rparr>)"
| report_node: "\<lbrakk> relies nodes_kept e; k < length (ww_versions w);
      PatchRunNodeStatus e d agtName wfName nodeName phase msg (w\<lparr>ww_seen := k\<rparr>) = (res, w') \<rbrakk> \<Longrightarrow> run_call w (w'\<lparr>ww_seen := ww_seen w\<rparr>)"

lemma own_cache:
  assumes "consistent w" "reaches consistent (w\<lparr>ww_seen := k\<rparr>) w'"
  shows "consistent (w'\<lparr>ww_seen := ww_seen w\<rparr>)"
  using assms by (auto simp: reaches_def extends_def consistent_def history_def)

lemma run_call_consistent: "run_call w w' \<Longrightarrow> consistent w \<Longrightarrow> consistent w'"
proof (induction rule: run_call.induct)
  case (reconcile e w res w')
  then show ?case using keep.Reconcile_run_reaches [of e w res w'] by (simp add: reaches_def)
next
  case (report_run e k w phase agtName wfName msg res w')
  have start: "reaches consistent (w\<lparr>ww_seen := k\<rparr>) (w\<lparr>ww_seen := k\<rparr>)"
    using consistent_world(4) report_run by (simp add: reaches_def)
  have "reaches consistent (w\<lparr>ww_seen := k\<rparr>) w'"
    by (rule reports.retry_reaches [OF _ start report_run(4) [unfolded PatchRunStatus_def]])
      (rule run_status_attempt_keeps [OF report_run(1,3)])
  then show ?case using own_cache report_run.prems by blast
next
  case (report_node e k w d agtName wfName nodeName phase msg res w')
  have start: "reaches consistent (w\<lparr>ww_seen := k\<rparr>) (w\<lparr>ww_seen := k\<rparr>)"
    using consistent_world(4) report_node by (simp add: reaches_def)
  have "reaches consistent (w\<lparr>ww_seen := k\<rparr>) w'"
    by (rule reports.retry_reaches [OF _ start report_node(3) [unfolded PatchRunNodeStatus_def]])
      (rule node_status_attempt_keeps [OF report_node(1)])
  then show ?case using own_cache report_node.prems by blast
qed

text \<open>C33. In every version of a run that controller and gateway produce, by any sequence of \<open>Reconcile\<close>, of
  reports on the run and of reports on its nodes, with stale reads, conflicts and retries, each node is
  listed once with times that agree with its phase, and once the run is completed no node is running.\<close>

theorem node_statuses_consistent:
  assumes "run_call\<^sup>*\<^sup>* w w'" "history w" "\<forall>r. Some r \<in> set (ww_versions w) \<longrightarrow> nodes_ok (wf_status r)"
    and "Some r \<in> set (ww_versions w')"
  shows "nodes_ok (wf_status r)"
proof -
  have "consistent w'" using assms(1)
  proof (induction rule: rtranclp_induct)
    case base then show ?case using assms(2,3) by (simp add: consistent_def)
  qed (rule run_call_consistent)
  then show ?thesis using assms(4) by (simp add: consistent_def)
qed

subsection \<open>Examples\<close>

theorem gateway_reports_respected_witness:
  "chain other_writer (snd (PatchRunStatus sample_env ''a'' ''f'' PhaseSucceeded ''done'' (sample_world [retained running_status]))) \<and>
   chain other_writer (snd (PatchRunNodeStatus sample_env \<lparr>decode = \<lambda>_. None, definition_of = \<lambda>_. Ok [''n'']\<rparr> ''a'' ''f'' ''n'' ''Running'' ''done'' (sample_world [retained running_status])))"
proof (rule gateway_reports_respected)
  show "other_writer v (we_interfere sample_env t v)" for t v
    using responsive_well_behaved [OF sample_responsive] by (simp add: well_behaved_def)
  show "chain other_writer (sample_world [retained running_status])" by (simp add: chain_def sample_world_def)
  show "ValidateRunTerminalPhase PhaseSucceeded = []" by (simp add: ValidateRunTerminalPhase_def)
qed

text \<open>Two reports on the nodes of a run, of which the second closes the node of the first, and one on the run.\<close>

definition sample_reader :: definition_reader where
  "sample_reader = \<lparr>decode = (\<lambda>_. None), definition_of = (\<lambda>_. Ok [''n'', ''m''])\<rparr>"

definition report_world :: "nat \<Rightarrow> run_world" where
  "report_world k =
     (let node = (\<lambda>name ph done. \<lparr>wn_name = name, wn_phase = ph, wn_message = [], wn_startedAt = Some 100, wn_completedAt = done\<rparr>);
          at = (\<lambda>nodes. retained (running_status\<lparr>wr_nodes := nodes\<rparr>));
          rs = [retained running_status, at [node ''n'' ''Running'' None], at [node ''n'' ''Unacked'' (Some 100), node ''m'' ''Running'' None],
            retained (running_status\<lparr>wr_phase := PhaseSucceeded, wr_message := ''done'', wr_completedAt := Some 100,
              wr_nodes := [node ''n'' ''Unacked'' (Some 100), node ''m'' ''Unacked'' (Some 100)]\<rparr>)]
      in \<lparr>ww_versions = map Some (take (Suc k) rs), ww_seen = 0, ww_tick = 2 * k, ww_trace = []\<rparr>)"

lemmas report_defs = report_world_def sample_reader_def sample_defs run_step_defs numeral_retries PatchRunNodeStatus_def PatchRunStatus_def
  node_status_attempt_def run_status_attempt_def known_nodes_def applyNodeStatusPatch_def node_index_def unack_before_def close_node_def
  reported_status_def Now_def TrimSpace_visible visible_def phase_defs Terminal_def

lemma report_calls:
  "PatchRunNodeStatus sample_env sample_reader ''a'' ''f'' ''n'' ''Running'' [] ((report_world 0)\<lparr>ww_seen := 0\<rparr>) = (Ok None, report_world 1)"
  "PatchRunNodeStatus sample_env sample_reader ''a'' ''f'' ''m'' ''Running'' [] ((report_world 1)\<lparr>ww_seen := 0\<rparr>) = (Ok None, (report_world 2)\<lparr>ww_seen := 1\<rparr>)"
  "PatchRunStatus sample_env ''a'' ''f'' PhaseSucceeded ''done'' ((report_world 2)\<lparr>ww_seen := 1\<rparr>) = (Ok None, (report_world 3)\<lparr>ww_seen := 2\<rparr>)"
  by (simp_all add: report_defs)

lemma sample_relies: "relies nodes_kept sample_env"
  using responsive_well_behaved [OF sample_responsive] sample_responsive
  by (simp add: relies_def well_behaved_def responsive_def nodes_kept_def)

lemma report_sequence: "run_call\<^sup>*\<^sup>* (report_world 0) (report_world 3)"
proof -
  have world: "ww_seen (report_world k) = 0" "(report_world k)\<lparr>ww_seen := 0\<rparr> = report_world k"
    "length (ww_versions (report_world k)) = (if k < 3 then Suc k else 4)" "ww_versions (report_world k) \<noteq> []" for k
    by (simp_all add: report_world_def)
  have "run_call (report_world 0) (report_world 1)"
    using run_call.report_node [OF sample_relies _ report_calls(1)] by (simp add: world)
  moreover have "run_call (report_world 1) (report_world 2)"
    using run_call.report_node [OF sample_relies _ report_calls(2)] by (simp add: world)
  moreover have "run_call (report_world 2) (report_world 3)"
    using run_call.report_run [OF sample_relies _ _ report_calls(3)] by (simp add: world ValidateRunTerminalPhase_def)
  ultimately show ?thesis by (meson rtranclp.rtrancl_into_rtrancl rtranclp.rtrancl_refl)
qed

theorem node_statuses_consistent_witness:
  "\<exists>r. stored (report_world 3) = Some r \<and> nodes_ok (wf_status r) \<and> run_phase r = PhaseSucceeded
     \<and> map (\<lambda>n. (wn_name n, wn_phase n)) (wr_nodes (wf_status r)) = [(''n'', ''Unacked''), (''m'', ''Unacked'')]"
proof -
  obtain r where r: "stored (report_world 3) = Some r" "Some r \<in> set (ww_versions (report_world 3))" "run_phase r = PhaseSucceeded"
    "map (\<lambda>n. (wn_name n, wn_phase n)) (wr_nodes (wf_status r)) = [(''n'', ''Unacked''), (''m'', ''Unacked'')]"
    by (simp add: report_world_def stored_def retained_def)
  have h: "history (report_world 0)" by (simp add: report_world_def history_def)
  have ok: "\<forall>r. Some r \<in> set (ww_versions (report_world 0)) \<longrightarrow> nodes_ok (wf_status r)"
    by (simp add: report_world_def nodes_ok_def sample_defs)
  have "nodes_ok (wf_status r)" by (rule node_statuses_consistent [OF report_sequence h ok r(2)])
  with r show ?thesis by (intro exI [of _ r]) (simp only: simp_thms)
qed

end
