(* ===== verification/Spec2Isabelle.thy ===== *)
theory Spec2Isabelle
  imports Tunnel SecretController SecretWebhook TenantWebhook McpWebhook SandboxRoutes Delegation WorkflowGraph SkillArchive RunGateway
begin

text \<open>
  A verification library of AgentZ, a platform that runs AI agents inside default-deny sandboxes on
  Kubernetes. The library follows the three promises the platform makes.

  \<^bold>\<open>Agents never receive a credential.\<close> An Agent's environment holds references such as
  \<open>agentz:resolve:env:KEY\<close>; the injection proxy (\<open>internal/sinjector\<close>) replaces them in outgoing
  requests, and only for the hosts a secret is bound to.

  \<^item> \<open>NetIP\<close> models what \<open>net/netip\<close> contributes: addresses, prefixes, their texts and containment.
  \<^item> \<open>SecretHost\<close> is \<open>host.go\<close>: entries, canonical forms and matching. Canonicalising is a round
    trip that keeps the matched targets; wildcards and networks match what they document.
  \<^item> \<open>Encoding\<close> and \<open>Rewrite\<close> are base64, query and header encodings, \<open>rewrite.go\<close> and the
    rewriting of \<open>service.go\<close>: the scanning loop equals reading a text as literals and references,
    secrets of other hosts never influence a request, and injection cannot change its structure.
  \<^item> \<open>CertStore\<close> is \<open>certstore.go\<close> and \<open>mitm.go\<close>: the cache refines a least-recently-used list and
    its invariant holds under every interleaving of the two locked sections of \<open>Get\<close>.
  \<^item> \<open>Tunnel\<close> is \<open>tunnel.go\<close> and \<open>proxy.go\<close>: CONNECT handling, the request loop of a connection,
    hop-by-hop headers, framing and chunked streaming, as a trace of actions.
  \<^item> \<open>OAuth\<close> is \<open>internal/oauth\<close>; \<open>SecretRuntime\<close> is \<open>internal/secret\<close> with the resolver, the probe
    queue and the status writer of the proxy; \<open>SecretController\<close> is \<open>internal/controller/secret\<close>.
    OpenBao and the stored Secrets are state that the operations pass on.
  \<^item> \<open>Url\<close> and \<open>SecretWebhook\<close> are the admission of Secrets (\<open>internal/webhook/v1alpha1/secret\<close>): an
    accepted Secret is one that the proxy, as modelled above, can reference and inject.

  \<^bold>\<open>Tenants are separated and bounded.\<close>

  \<^item> \<open>Sha256\<close> and \<open>Scope\<close> are \<open>internal/scope\<close> and the scope types: references resolve inside the
    Organisation and only to what the Workspace selected. \<open>SkillRefs\<close> checks skill references.
  \<^item> \<open>Text\<close> and \<open>ToolValidate\<close> are \<open>internal/tool\<close>: uploaded tools cannot shadow runtime tools.
  \<^item> \<open>SkillFile\<close> and \<open>SkillArchive\<close>, over the replacement and path functions of \<open>Bytes\<close>, are
    \<open>internal/skill/archive.go\<close> with the names of \<open>create.go\<close>: the import of Markdown and ZIP files, the
    decisions on an import and the canonical archive. What is imported has safe paths, distinct names and
    bounded size, and the canonical archive is accepted again, byte for byte.
  \<^item> \<open>AgentQuota\<close> is \<open>internal/agentquota\<close>, with 32-bit counts that wrap; \<open>AgentWebhook\<close> and
    \<open>TenantWebhook\<close> are the admission of Agents and Tenants. Admission is a step relation on the
    Agents of a cluster, and the quota is an invariant of every run.

  \<^bold>\<open>The network is closed unless opened.\<close>

  \<^item> \<open>SandboxHost\<close> is \<open>internal/sandboxutil/hosts.go\<close>, \<open>NetworkPolicy\<close> is \<open>internal/networkpolicy\<close>
    and \<open>Egress\<close> is \<open>internal/controller/agent/egress.go\<close>: the generated rules are read as the set
    of destinations and ports they permit, which is shown to be the intended one.
  \<^item> \<open>SandboxWebhook\<close> is the admission of Sandboxes and Skills with the lookup of their consumers
    (\<open>internal/sandboxutil/agents.go\<close>, \<open>internal/skill/references.go\<close>): an accepted Sandbox can be
    served, and with the step relation of \<open>Guard\<close>, whose locale is interpreted for Sandboxes, Skills
    and pools, no reference ever dangles. \<open>InferencePool\<close> is \<open>internal/inference/pools.go\<close> with its
    webhook: the contract of a pool is met by all its members.
  \<^item> \<open>ProviderAdmission\<close> and \<open>ProviderRuntime\<close> are \<open>internal/inference/definition.go\<close> with the webhook of
    inference providers, and \<open>runtime.go\<close>: admission is exact, an admitted provider renders, created
    credentials are complete, and a model in use is not withdrawn. \<open>SandboxRoutes\<close> is \<open>sandbox.go\<close>
    with the targets of \<open>internal/controller/sandbox/inference.go\<close>: the generated routes serve exactly
    the Agents and models of a Sandbox. \<open>Delegation\<close> is \<open>delegation.go\<close>: requests to a model that is
    lent to another party are admitted exactly if they use nothing kept in the owner's account, as
    inductive predicates on the contents of a request say it.
  \<^item> \<open>McpWebhook\<close> is the admission of MCP connections: credential records are not shared, static
    headers cannot replace the credential, and only the credential can be rotated.

  \<^bold>\<open>Work is done once.\<close> A Workflow is a graph of nodes with an input contract, and a WorkflowRun an
  execution of it that several processes write to.

  \<^item> \<open>WorkflowInputs\<close> is \<open>internal/workflow/inputs.go\<close>: values that an accepted definition offers are
    accepted when the workflow runs. \<open>WorkflowGraph\<close> is \<open>internal/gateway/workflow/validate.go\<close> with the
    trimming of \<open>CreateWorkflow\<close>: a workflow is accepted exactly if its graph is acyclic, connected and
    labelled where it branches.
  \<^item> \<open>RunStore\<close> is the API server as a controller meets it: a list of versions, a cache that lags behind
    and only moves forward, writes that carry a version, and answers that get lost.
  \<^item> \<open>WorkflowRun\<close> is \<open>internal/controller/workflowrun/reconciler.go\<close>, function by function.
  \<^item> \<open>RunSafety\<close> states what other writers may do and what the controller writes, and proves in the
    locale \<open>run_invariant\<close> that \<open>Reconcile\<close> keeps every predicate both respect. Its interpretations
    give: at most one prompt per run, completed runs are final, the finalizer outlives the session, and
    in \<open>RunGateway\<close>, where other writers must keep the nodes of a run too, the nodes stay consistent.
  \<^item> \<open>RunLive\<close> shows progress while the server answers: runs start, deadlines are enforced, with or
    without a conversation, pruning is exact; and what a stale read can cost.
  \<^item> \<open>RunGateway\<close> is the reporting side, \<open>internal/gateway/workflow/runs.go\<close>: it keeps to what the
    controller relies on, and under all calls of both the statuses of the nodes stay consistent.

  \<^bold>\<open>Conventions.\<close> \<open>Prelude\<close> holds results (\<open>Ok\<close> and \<open>Err\<close>), field errors of the admission handlers with
  their paths, the string functions of the Go library and the loops that reject repeated keys
  (locales \<open>seen_loop\<close> and \<open>first_seen_loop\<close>, interpreted for tools, their inputs, connections and
  exposed tools). A Go \<open>string\<close> is its list of bytes.
  An error is a value of the component's error type; a panic is \<open>None\<close>. A client or reader is a
  record of functions, a store is a map. Integers that can overflow are words. What lies outside
  the repository is an argument: \<open>IsDNS1123Subdomain\<close> and the Unicode case tables (\<open>host_env\<close>),
  \<open>url.Parse\<close> and \<open>URL.String\<close> (\<open>url_env\<close>), \<open>uuid.Parse\<close>, \<open>Semantic.DeepEqual\<close>, the signing of
  certificates, name resolution and HTTP exchanges; quantities are any ordered abelian group. The
  hypotheses on them are named (\<open>dns1123_documented\<close>, \<open>semantic_documented\<close>, \<open>prefix_semantics\<close> of
  path matches, \<open>contents_shrink\<close> of the JSON decoder, \<open>outputs_documented\<close> and
  \<open>object_schemas_documented\<close> of the schema library, \<open>sizes_documented\<close> of the ZIP library,
  \<open>order_documented\<close> of map iteration and others) and each has an instance in a witness.

  \<^bold>\<open>Loops.\<close> All loops over data are structural recursions or have a measure; none uses fuel.
  The check of Messages requests in \<open>Delegation\<close>, whose end depends on the decoder, and the two loops
  over a queue of nodes in \<open>WorkflowGraph\<close> are each a \<open>partial_function\<close> that is proved to return. The
  connection loop of \<open>Tunnel\<close> consumes the list of requests a client sends. Retries on conflict are the
  list of outcomes the server gives, or in \<open>RunStore\<close> a number of further attempts.

  \<^bold>\<open>Not modelled.\<close> The gateway API with its generated OpenAPI and SQL code, the observer, the launcher
  and the user interface are input and output around third-party services. Schedules of workflows rest
  on cron expressions of a third party, skills are stored in an object store, guardrails are compiled to CEL and
  authorization evaluates Cedar policies, whose semantics lie outside the repository. The external
  authorizer repeats the token logic of \<open>OAuth\<close> around Envoy messages, the inference catalog is a
  download, and the remaining controllers build Kubernetes objects from templates. Goroutine
  scheduling is modelled only where code shares state under a lock.
\<close>

end
